(* ===== verification/Kernel_Prelude.thy ===== *)
theory Kernel_Prelude
  imports Main "HOL-Library.Word"
begin

text \<open>
  Shared vocabulary of the development: the fixed-width integer types of
  \<^verbatim>\<open>include/kernel/types.h\<close>, the error numbers of \<^verbatim>\<open>include/kernel/errno.h\<close>, the status
  type of kernel calls, the configuration constants of \<^verbatim>\<open>include/kernel/config.h\<close> and the
  generic facts on words that the component theories use.

  Conventions of all theories: a C expression whose evaluation is undefined (a null pointer
  dereferenced, a pointer difference across arrays) makes the modelled call return \<open>None\<close>, and so does
  a pointer loop that never ends; every other call returns \<open>Some\<close> of its result and of
  the new state.  Locks, memory barriers and interrupt masking have no effect on the values
  computed by one call and are left out; a call is one atomic step.
\<close>

unbundle bit_operations_syntax

type_synonym u8 = "8 word"
type_synonym u16 = "16 word"
type_synonym u32 = "32 word"
type_synonym u64 = "64 word"

datatype errno =
    EPERM | ENOENT | ESRCH | EINTR | EIO | ENOEXEC | EAGAIN | ENOMEM | EACCES | EFAULT | EBUSY
  | EEXIST | ENODEV | EINVAL | ENOSPC | EPIPE | EDEADLK | ENOSYS | EOVERFLOW | ETIMEDOUT

text \<open>\<^verbatim>\<open>kernel_status_t\<close>: zero on success, a negated error number otherwise.\<close>

datatype status = KERNEL_OK | Err errno

abbreviation CONFIG_MAX_THREADS :: u32 where
  "CONFIG_MAX_THREADS \<equiv> 256"

abbreviation CONFIG_MAX_CSPACES :: nat where
  "CONFIG_MAX_CSPACES \<equiv> 32"

named_theorems list_frame \<open>which nodes a list primitive leaves alone\<close>
named_theorems kernel_defs \<open>definitions of the operations of a component\<close>

section \<open>Words\<close>

lemma word_subset_trans:
  fixes a b c :: "'a::len word"
  assumes "a AND b = a" and "b AND c = b"
  shows "a AND c = a"
  using assms by (metis and.assoc)

lemma word_subset_and [simp]:
  fixes a b :: "'a::len word"
  shows "(a AND b) AND a = a AND b"
  by (simp add: and.commute and.left_commute)

lemma unat_u32_bound: "unat (x :: u32) < 2 ^ 32"
  using unsigned_less [of x] by simp

lemma unat_of_nat_u32:
  "n < 2 ^ 32 \<Longrightarrow> unat (of_nat n :: u32) = n"
  by (simp add: unat_of_nat take_bit_eq_mod)

lemma of_nat_u32_dec:
  assumes "n < 2 ^ 32"
  shows "(if (of_nat n :: u32) > 0 then of_nat n - 1 else of_nat n) = (of_nat (n - 1) :: u32)"
proof (cases n)
  case (Suc m)
  then have "(of_nat n :: u32) \<noteq> 0" using unat_of_nat_u32 [OF assms] by force
  with Suc show ?thesis by (simp add: word_gt_0)
qed simp

lemma unat_Suc_u32:
  "unat (x :: u32) < 2 ^ 32 - 1 \<Longrightarrow> unat (x + 1) = Suc (unat x)"
  by (simp add: unat_word_ariths)

lemma unat_pred_u32:
  "0 < (x :: u32) \<Longrightarrow> unat (x - 1) = unat x - 1"
  by (metis One_nat_def add.commute diff_add_cancel diff_add_inverse less_irrefl_nat
      unat_1 unat_eq_zero unat_gt_0 unat_minus_one word_neq_0_conv)

lemma u32_less_Suc: "(x :: u32) < 0xFFFFFFFF \<Longrightarrow> x < x + 1"
  using unat_Suc_u32 [of x] by (simp add: word_less_nat_alt)

end
