(* ===== verification/Kernel_List.thy ===== *)
theory Kernel_List
  imports Kernel_Prelude
begin

text \<open>
  The intrusive circular doubly linked list of \<^verbatim>\<open>include/kernel/list.h\<close>.  A list node is an
  address of type \<open>'p\<close>; the link fields of all nodes form a heap \<open>'p \<Rightarrow> 'p list_head\<close>, and a null
  pointer is \<open>None\<close>.  Each primitive is the pointer program of the header, null checks
  included.  The predicate \<open>dll h a xs\<close> says that the ring of the head \<open>a\<close> links
  exactly the nodes \<open>xs\<close>, in this order; under it every primitive is shown to do what the
  corresponding operation on \<open>xs\<close> does, and to leave the other rings alone.
\<close>

section \<open>Nodes and primitives\<close>

record 'p list_head =
  lh_next :: "'p option"
  lh_prev :: "'p option"

type_synonym 'p heap = "'p \<Rightarrow> 'p list_head"

definition set_next :: "'p \<Rightarrow> 'p option \<Rightarrow> 'p heap \<Rightarrow> 'p heap" where
  "set_next a p h = h(a := (h a)\<lparr>lh_next := p\<rparr>)"

definition set_prev :: "'p \<Rightarrow> 'p option \<Rightarrow> 'p heap \<Rightarrow> 'p heap" where
  "set_prev a p h = h(a := (h a)\<lparr>lh_prev := p\<rparr>)"

definition INIT_LIST_HEAD :: "'p option \<Rightarrow> 'p heap \<Rightarrow> 'p heap" where
  "INIT_LIST_HEAD ptr h =
     (case ptr of None \<Rightarrow> h | Some a \<Rightarrow> set_prev a (Some a) (set_next a (Some a) h))"

definition list_add_between ::
  "'p option \<Rightarrow> 'p option \<Rightarrow> 'p option \<Rightarrow> 'p heap \<Rightarrow> 'p heap" where
  "list_add_between new_node prev nxt h =
     (case (new_node, prev, nxt) of
        (Some n, Some p, Some x) \<Rightarrow>
          set_next p (Some n) (set_prev n (Some p) (set_next n (Some x) (set_prev x (Some n) h)))
      | _ \<Rightarrow> h)"

definition list_add :: "'p option \<Rightarrow> 'p option \<Rightarrow> 'p heap \<Rightarrow> 'p heap" where
  "list_add new_node head h =
     (case (new_node, head) of
        (Some n, Some a) \<Rightarrow> list_add_between new_node head (lh_next (h a)) h
      | _ \<Rightarrow> h)"

definition list_add_tail :: "'p option \<Rightarrow> 'p option \<Rightarrow> 'p heap \<Rightarrow> 'p heap" where
  "list_add_tail new_node head h =
     (case (new_node, head) of
        (Some n, Some a) \<Rightarrow> list_add_between new_node (lh_prev (h a)) head h
      | _ \<Rightarrow> h)"

definition list_del_between :: "'p option \<Rightarrow> 'p option \<Rightarrow> 'p heap \<Rightarrow> 'p heap" where
  "list_del_between prev nxt h =
     (case (prev, nxt) of
        (Some p, Some x) \<Rightarrow> set_next p (Some x) (set_prev x (Some p) h)
      | _ \<Rightarrow> h)"

definition list_del :: "'p option \<Rightarrow> 'p heap \<Rightarrow> 'p heap" where
  "list_del entry h =
     (case entry of
        None \<Rightarrow> h
      | Some e \<Rightarrow> set_prev e None (set_next e None
                   (list_del_between (lh_prev (h e)) (lh_next (h e)) h)))"

definition list_del_init :: "'p option \<Rightarrow> 'p heap \<Rightarrow> 'p heap" where
  "list_del_init entry h =
     (case entry of
        None \<Rightarrow> h
      | Some e \<Rightarrow> INIT_LIST_HEAD entry (list_del_between (lh_prev (h e)) (lh_next (h e)) h))"

definition list_empty :: "'p option \<Rightarrow> 'p heap \<Rightarrow> bool" where
  "list_empty head h =
     (case head of None \<Rightarrow> True | Some a \<Rightarrow> lh_next (h a) = head)"

definition list_is_first :: "'p option \<Rightarrow> 'p option \<Rightarrow> 'p heap \<Rightarrow> bool" where
  "list_is_first entry head h =
     (case (entry, head) of
        (Some e, Some a) \<Rightarrow> lh_next (h a) = entry
      | _ \<Rightarrow> False)"

definition list_is_last :: "'p option \<Rightarrow> 'p option \<Rightarrow> 'p heap \<Rightarrow> bool" where
  "list_is_last entry head h =
     (case (entry, head) of
        (Some e, Some a) \<Rightarrow> lh_prev (h a) = entry
      | _ \<Rightarrow> False)"

text \<open>
  Splicing reads \<^verbatim>\<open>list->next\<close>, \<^verbatim>\<open>list->prev\<close> and \<^verbatim>\<open>head->next\<close> and writes through them without a null
  check.
\<close>

definition list_splice :: "'p option \<Rightarrow> 'p option \<Rightarrow> 'p heap \<Rightarrow> 'p heap option" where
  "list_splice list head h =
     (case (list, head) of
        (Some l, Some a) \<Rightarrow>
          if list_empty list h then Some h
          else (case (lh_next (h l), lh_prev (h l)) of
              (Some first, Some final) \<Rightarrow>
                (let h1 = set_prev first head h in
                 case lh_next (h1 a) of
                   None \<Rightarrow> None
                 | Some hn \<Rightarrow>
                    (let h2 = set_prev hn (Some final) h1;
                         h3 = set_next final (lh_next (h2 a)) h2;
                         h4 = set_next a (Some first) h3
                     in Some (INIT_LIST_HEAD list h4)))
            | _ \<Rightarrow> None)
      | _ \<Rightarrow> Some h)"

text \<open>\<^verbatim>\<open>for (pos = head->next; pos != head; pos = pos->next) count++;\<close>\<close>

partial_function (option) list_count_loop :: "'p heap \<Rightarrow> 'p \<Rightarrow> 'p option \<Rightarrow> u32 \<Rightarrow> u32 option" where
  "list_count_loop h head pos count =
     (if pos = Some head then Some count
      else case pos of
          None \<Rightarrow> None
        | Some a \<Rightarrow> list_count_loop h head (lh_next (h a)) (count + 1))"

declare list_count_loop.simps [code]

definition list_count_nodes :: "'p option \<Rightarrow> 'p heap \<Rightarrow> u32 option" where
  "list_count_nodes head h =
     (case head of
        None \<Rightarrow> Some 0
      | Some a \<Rightarrow> list_count_loop h a (lh_next (h a)) 0)"

lemmas list_prims =
  set_next_def set_prev_def INIT_LIST_HEAD_def list_add_between_def list_add_def
  list_add_tail_def list_del_between_def list_del_def list_del_init_def

section \<open>Rings\<close>

text \<open>\<open>dseg h a xs b\<close>: from \<open>a\<close> the forward links run through \<open>xs\<close> to \<open>b\<close>, the backward links in
  reverse.\<close>

fun dseg :: "'p heap \<Rightarrow> 'p \<Rightarrow> 'p list \<Rightarrow> 'p \<Rightarrow> bool" where
  "dseg h a [] b = (lh_next (h a) = Some b \<and> lh_prev (h b) = Some a)"
| "dseg h a (x # xs) b =
     (lh_next (h a) = Some x \<and> lh_prev (h x) = Some a \<and> dseg h x xs b)"

definition dll :: "'p heap \<Rightarrow> 'p \<Rightarrow> 'p list \<Rightarrow> bool" where
  "dll h a xs = (distinct (a # xs) \<and> dseg h a xs a)"

lemma dseg_append:
  "dseg h a (xs @ y # ys) b \<longleftrightarrow> dseg h a xs y \<and> dseg h y ys b"
  by (induction xs arbitrary: a) auto

lemma dseg_next: "dseg h a xs b \<Longrightarrow> lh_next (h a) = Some (hd (xs @ [b]))"
  by (cases xs) auto

lemma dseg_prev: "dseg h a xs b \<Longrightarrow> lh_prev (h b) = Some (last (a # xs))"
  by (induction xs arbitrary: a) auto

text \<open>A segment depends on the forward links of \<open>a # xs\<close> and the backward links of \<open>xs @ [b]\<close> only.\<close>

lemma dseg_cong:
  assumes "\<And>n. n \<in> set (a # xs) \<Longrightarrow> lh_next (h' n) = lh_next (h n)"
    and "\<And>n. n \<in> set (xs @ [b]) \<Longrightarrow> lh_prev (h' n) = lh_prev (h n)"
  shows "dseg h' a xs b = dseg h a xs b"
  using assms by (induction xs arbitrary: a) auto

lemma dll_frame:
  assumes "dll h a xs" and "\<And>n. n \<in> set (a # xs) \<Longrightarrow> h' n = h n"
  shows "dll h' a xs"
  using assms dseg_cong [of a xs h' h a] by (auto simp: dll_def)

lemma dll_cong:
  "(\<And>n. n \<in> set (a # xs) \<Longrightarrow> h' n = h n) \<Longrightarrow> dll h' a xs = dll h a xs"
  using dseg_cong [of a xs h' h a] by (auto simp: dll_def)

lemma dll_next: "dll h a xs \<Longrightarrow> lh_next (h a) = Some (hd (xs @ [a]))"
  by (simp add: dll_def dseg_next)

lemma dll_prev: "dll h a xs \<Longrightarrow> lh_prev (h a) = Some (last (a # xs))"
  unfolding dll_def using dseg_prev by fastforce

lemma dseg_unique:
  assumes "dseg h a xs b" and "dseg h a ys b" and "b \<notin> set xs" and "b \<notin> set ys"
  shows "xs = ys"
  using assms
proof (induction xs arbitrary: a ys)
  case Nil
  then show ?case by (cases ys) auto
next
  case (Cons x xs)
  then show ?case by (cases ys) auto
qed

lemma dll_unique: "dll h a xs \<Longrightarrow> dll h a ys \<Longrightarrow> xs = ys"
  by (auto simp: dll_def intro: dseg_unique)


section \<open>The primitives on rings\<close>

text \<open>Which link fields a primitive writes.\<close>

lemma set_next_simps [simp]:
  "lh_next (set_next a p h n) = (if n = a then p else lh_next (h n))"
  "lh_prev (set_next a p h n) = lh_prev (h n)"
  by (auto simp: set_next_def)

lemma set_prev_simps [simp]:
  "lh_prev (set_prev a p h n) = (if n = a then p else lh_prev (h n))"
  "lh_next (set_prev a p h n) = lh_next (h n)"
  by (auto simp: set_prev_def)

lemma set_link_other [simp, list_frame]:
  "n \<noteq> a \<Longrightarrow> set_next a p h n = h n"
  "n \<noteq> a \<Longrightarrow> set_prev a p h n = h n"
  by (auto simp: set_next_def set_prev_def)

lemma INIT_LIST_HEAD_other [simp, list_frame]:
  "n \<noteq> a \<Longrightarrow> INIT_LIST_HEAD (Some a) h n = h n"
  by (simp add: INIT_LIST_HEAD_def)

lemma dll_INIT_LIST_HEAD: "dll (INIT_LIST_HEAD (Some a) h) a []"
  by (simp add: dll_def INIT_LIST_HEAD_def)

lemma dll_list_add:
  assumes "dll h a xs" and "n \<notin> set (a # xs)"
  shows "dll (list_add (Some n) (Some a) h) a (n # xs)"
proof (cases xs)
  case Nil
  with assms show ?thesis
    by (auto simp: dll_def list_add_def list_add_between_def)
next
  case (Cons x ys)
  with assms have "dseg h x ys a" and "distinct (a # n # x # ys)" and "lh_next (h a) = Some x"
    by (auto simp: dll_def)
  moreover from this have "dseg (list_add (Some n) (Some a) h) x ys a = dseg h x ys a"
    by (intro dseg_cong) (auto simp: list_add_def list_add_between_def)
  ultimately show ?thesis
    using Cons by (auto simp: dll_def list_add_def list_add_between_def)
qed

lemma dll_list_add_tail:
  assumes "dll h a xs" and "n \<notin> set (a # xs)"
  shows "dll (list_add_tail (Some n) (Some a) h) a (xs @ [n])"
proof (cases xs rule: rev_cases)
  case Nil
  with assms show ?thesis
    by (auto simp: dll_def list_add_tail_def list_add_between_def)
next
  case (snoc ys p)
  with assms have seg: "dseg h a ys p" and "distinct (a # n # p # ys)"
      and "lh_prev (h a) = Some p" and "lh_next (h p) = Some a"
    by (auto simp: dll_def dseg_append)
  moreover from this have "dseg (list_add_tail (Some n) (Some a) h) a ys p = dseg h a ys p"
    by (intro dseg_cong) (auto simp: list_add_tail_def list_add_between_def)
  ultimately show ?thesis
    using snoc by (auto simp: dll_def dseg_append list_add_tail_def list_add_between_def)
qed

text \<open>Unlinking: the neighbours of the removed node are joined, its own links are then free to be
  rewritten.\<close>

lemma dll_unlink:
  assumes "dll h a (xs @ n # ys)"
    and "\<And>m. m \<noteq> n \<Longrightarrow> h' m = list_del_between (lh_prev (h n)) (lh_next (h n)) h m"
  shows "dll h' a (xs @ ys)"
proof -
  define h1 where "h1 = list_del_between (lh_prev (h n)) (lh_next (h n)) h"
  have segs: "dseg h a xs n" "dseg h n ys a" and dist: "distinct (a # xs @ n # ys)"
    using assms(1) by (auto simp: dll_def dseg_append)
  have prv: "lh_prev (h n) = Some (last (a # xs))" and nxt: "lh_next (h n) = Some (hd (ys @ [a]))"
    using segs dseg_prev dseg_next by fastforce+
  have "dseg h1 a (xs @ ys) a"
  proof (cases xs rule: rev_cases; cases ys)
    assume "xs = []" and "ys = []"
    then show ?thesis using prv nxt by (simp add: h1_def list_del_between_def)
  next
    fix y ys' assume e: "xs = []" "ys = y # ys'"
    then have "dseg h1 y ys' a = dseg h y ys' a"
      using prv nxt dist by (intro dseg_cong) (auto simp: h1_def list_del_between_def)
    then show ?thesis using prv nxt segs e by (simp add: h1_def list_del_between_def)
  next
    fix xs' p assume e: "xs = xs' @ [p]" "ys = []"
    then have "dseg h1 a xs' p = dseg h a xs' p"
      using prv nxt dist by (intro dseg_cong) (auto simp: h1_def list_del_between_def)
    then show ?thesis
      using prv nxt segs e by (simp add: dseg_append h1_def list_del_between_def)
  next
    fix xs' p y ys' assume e: "xs = xs' @ [p]" "ys = y # ys'"
    then have "dseg h1 a xs' p = dseg h a xs' p" "dseg h1 y ys' a = dseg h y ys' a"
      using prv nxt dist by (intro dseg_cong; auto simp: h1_def list_del_between_def)+
    then show ?thesis
      using prv nxt segs e by (simp add: dseg_append h1_def list_del_between_def)
  qed
  moreover have "h' m = h1 m" if "m \<in> set (a # xs @ ys)" for m
    using that dist assms(2) [of m] by (auto simp: h1_def)
  then have "dseg h' a (xs @ ys) a = dseg h1 a (xs @ ys) a"
    by (intro dseg_cong) auto
  ultimately show ?thesis using dist by (simp add: dll_def)
qed

lemma dll_list_del:
  assumes "dll h a (xs @ n # ys)"
  shows "dll (list_del (Some n) h) a (xs @ ys)"
  by (rule dll_unlink [OF assms]) (simp add: list_del_def)

lemma dll_list_del_init:
  assumes "dll h a (xs @ n # ys)"
  shows "dll (list_del_init (Some n) h) a (xs @ ys)"
    and "dll (list_del_init (Some n) h) n []"
proof -
  show "dll (list_del_init (Some n) h) a (xs @ ys)"
    by (rule dll_unlink [OF assms]) (simp add: list_del_init_def)
  show "dll (list_del_init (Some n) h) n []"
    by (simp add: list_del_init_def dll_INIT_LIST_HEAD)
qed

text \<open>Unlinking a node that is alone in its ring changes nothing but the node.\<close>

lemma list_del_init_alone:
  assumes "dll h n []"
  shows "list_del_init (Some n) h = h"
  using assms
  by (auto simp: dll_def list_del_init_def list_del_between_def INIT_LIST_HEAD_def set_next_def
      set_prev_def)

lemma list_empty_dll: "dll h a xs \<Longrightarrow> list_empty (Some a) h = (xs = [])"
  by (cases xs) (auto simp: dll_def list_empty_def)

lemma list_is_first_dll:
  "dll h a xs \<Longrightarrow> list_is_first (Some n) (Some a) h = (hd (xs @ [a]) = n)"
  by (simp add: list_is_first_def dll_next)

lemma list_is_last_dll:
  "dll h a xs \<Longrightarrow> list_is_last (Some n) (Some a) h = (last (a # xs) = n)"
  by (simp add: list_is_last_def dll_prev)

text \<open>Frames: a ring keeps its contents when a primitive works on another ring.\<close>

lemma list_add_tail_frame [list_frame]:
  assumes "dll h b ys" and "dll h a xs" and "set (b # ys) \<inter> set (a # xs) = {}"
    and "n \<notin> set (a # xs)"
  shows "dll (list_add_tail (Some n) (Some b) h) a xs"
proof (rule dll_frame [OF assms(2)])
  fix m assume "m \<in> set (a # xs)"
  moreover have "last (b # ys) \<in> set (b # ys)" by (rule last_in_set) simp
  ultimately have "m \<noteq> n" and "m \<noteq> b" and "m \<noteq> last (b # ys)" using assms by auto
  then show "list_add_tail (Some n) (Some b) h m = h m"
    using dll_prev [OF assms(1)] by (simp add: list_add_tail_def list_add_between_def)
qed

lemma list_add_tail_untouched [list_frame]:
  assumes "dll h b ys" and "m \<notin> set (b # ys)" and "m \<noteq> n"
  shows "list_add_tail (Some n) (Some b) h m = h m"
proof -
  have "last (b # ys) \<in> set (b # ys)" by (rule last_in_set) simp
  with assms have "m \<noteq> last (b # ys)" by metis
  with assms show ?thesis
    using dll_prev [OF assms(1)] by (simp add: list_add_tail_def list_add_between_def)
qed

lemma list_add_frame [list_frame]:
  assumes "dll h b ys" and "dll h a xs" and "set (b # ys) \<inter> set (a # xs) = {}"
    and "n \<notin> set (a # xs)"
  shows "dll (list_add (Some n) (Some b) h) a xs"
proof (rule dll_frame [OF assms(2)])
  fix m assume "m \<in> set (a # xs)"
  moreover have "hd (ys @ [b]) \<in> set (b # ys)" by (cases ys) auto
  ultimately have "m \<noteq> n" and "m \<noteq> b" and "m \<noteq> hd (ys @ [b])" using assms by auto
  then show "list_add (Some n) (Some b) h m = h m"
    using dll_next [OF assms(1)] by (simp add: list_add_def list_add_between_def)
qed

text \<open>The nodes a removal writes all belong to the ring of the removed node.\<close>

lemma dll_neighbours:
  assumes "dll h b (us @ n # vs)"
  shows "\<exists>p x. lh_prev (h n) = Some p \<and> lh_next (h n) = Some x \<and>
           p \<in> set (b # us @ n # vs) \<and> x \<in> set (b # us @ n # vs)"
proof -
  have "dseg h b us n" "dseg h n vs b" using assms by (auto simp: dll_def dseg_append)
  then have "lh_prev (h n) = Some (last (b # us))" "lh_next (h n) = Some (hd (vs @ [b]))"
    using dseg_prev dseg_next by fastforce+
  moreover have "last (b # us) \<in> set (b # us)" by (rule last_in_set) simp
  moreover have "hd (vs @ [b]) \<in> set (b # vs)" by (cases vs) auto
  ultimately show ?thesis by auto
qed

lemma list_del_untouched [list_frame]:
  assumes "dll h b (us @ n # vs)" and "m \<notin> set (b # us @ n # vs)"
  shows "list_del (Some n) h m = h m" and "list_del_init (Some n) h m = h m"
proof -
  obtain p x where "lh_prev (h n) = Some p" "lh_next (h n) = Some x" "p \<noteq> m" "x \<noteq> m" "n \<noteq> m"
    using dll_neighbours [OF assms(1)] assms(2) by auto
  then show "list_del (Some n) h m = h m" and "list_del_init (Some n) h m = h m"
    by (simp_all add: list_del_def list_del_init_def list_del_between_def)
qed

lemma list_del_init_frame [list_frame]:
  assumes "dll h b (us @ n # vs)" and "dll h a xs" and "set (b # us @ n # vs) \<inter> set (a # xs) = {}"
  shows "dll (list_del_init (Some n) h) a xs"
proof (rule dll_frame [OF assms(2)])
  fix m assume "m \<in> set (a # xs)"
  with assms(3) have "m \<notin> set (b # us @ n # vs)" by blast
  then show "list_del_init (Some n) h m = h m" by (rule list_del_untouched(2) [OF assms(1)])
qed

lemma list_del_frame [list_frame]:
  assumes "dll h b (us @ n # vs)" and "dll h a xs" and "set (b # us @ n # vs) \<inter> set (a # xs) = {}"
  shows "dll (list_del (Some n) h) a xs"
proof (rule dll_frame [OF assms(2)])
  fix m assume "m \<in> set (a # xs)"
  with assms(3) have "m \<notin> set (b # us @ n # vs)" by blast
  then show "list_del (Some n) h m = h m" by (rule list_del_untouched(1) [OF assms(1)])
qed

section \<open>Counting\<close>

lemma list_count_loop_dseg:
  assumes "dseg h x xs a" and "a \<notin> set xs"
  shows "list_count_loop h a (lh_next (h x)) c = Some (c + of_nat (length xs))"
  using assms
proof (induction xs arbitrary: x c)
  case Nil
  then show ?case by (simp add: list_count_loop.simps)
next
  case (Cons y ys)
  then have "list_count_loop h a (lh_next (h y)) (c + 1) = Some (c + 1 + of_nat (length ys))"
    by simp
  with Cons.prems show ?case
    by (subst list_count_loop.simps) (auto simp: algebra_simps)
qed

lemma list_count_nodes_dll:
  "dll h a xs \<Longrightarrow> list_count_nodes (Some a) h = Some (of_nat (length xs))"
  using list_count_loop_dseg [of h a xs a 0] by (auto simp: dll_def list_count_nodes_def)

section \<open>Splicing\<close>

lemma dll_list_splice:
  assumes "dll h l xs" and "dll h a ys" and "set (l # xs) \<inter> set (a # ys) = {}"
  shows "\<exists>h'. list_splice (Some l) (Some a) h = Some h' \<and> dll h' a (xs @ ys) \<and> dll h' l []
           \<and> (\<forall>m. m \<notin> set (l # xs) \<union> set (a # ys) \<longrightarrow> h' m = h m)"
proof (cases "xs = []")
  case True
  with assms show ?thesis by (auto simp: list_splice_def list_empty_dll)
next
  case False
  define f where "f = hd xs"
  define e where "e = last xs"
  define y where "y = hd (ys @ [a])"
  have fm: "f \<in> set xs" "e \<in> set xs" using False by (auto simp: f_def e_def)
  have links: "lh_next (h l) = Some f" "lh_prev (h l) = Some e" "lh_next (h a) = Some y"
    using dll_next [OF assms(1)] dll_prev [OF assms(1)] dll_next [OF assms(2)] False
    by (auto simp: f_def e_def y_def)
  define h' where "h' = INIT_LIST_HEAD (Some l)
    (set_next a (Some f) (set_next e (Some y) (set_prev y (Some e) (set_prev f (Some a) h))))"
  have ne: "\<not> list_empty (Some l) h" using list_empty_dll [OF assms(1)] False by simp
  have af: "a \<noteq> f" using fm assms(3) by auto
  have eq: "list_splice (Some l) (Some a) h = Some h'"
    using ne links af by (simp add: list_splice_def h'_def Let_def)
  have ym: "y \<in> set (a # ys)" by (cases ys) (auto simp: y_def)
  have frame: "h' m = h m" if "m \<notin> set (l # xs) \<union> set (a # ys)" for m
  proof -
    have "m \<noteq> l" "m \<noteq> a" "m \<noteq> e" "m \<noteq> y" "m \<noteq> f" using that fm ym by auto
    then show ?thesis by (simp add: h'_def)
  qed
  have dist: "distinct (a # ys)" "distinct (l # xs)" using assms by (auto simp: dll_def)
  obtain xs' where xs: "xs = xs' @ [e]" using False by (metis append_butlast_last_id e_def)
  have segx: "dseg h l xs' e" "dseg h a ys a" using assms(1,2) xs by (auto simp: dll_def dseg_append)
  have el: "e \<noteq> l" "e \<noteq> a" "y \<noteq> e" "y \<noteq> l" "f \<noteq> l" "f \<noteq> y" "a \<noteq> l"
    using fm ym dist assms(3) by auto
  have seg1: "dseg h' a xs' e"
  proof (cases xs')
    case Nil
    then have "f = e" using xs f_def by simp
    then show ?thesis using Nil el by (simp add: h'_def INIT_LIST_HEAD_def)
  next
    case (Cons z zs)
    then have "z = f" using xs f_def by simp
    moreover have "dseg h' z zs e = dseg h z zs e"
      using Cons xs dist assms(3) ym el by (intro dseg_cong) (auto simp: h'_def INIT_LIST_HEAD_def \<open>z = f\<close>)
    ultimately show ?thesis using Cons segx(1) el
      by (auto simp: h'_def INIT_LIST_HEAD_def)
  qed
  have seg2: "dseg h' e ys a"
  proof (cases ys)
    case Nil
    then show ?thesis using el by (simp add: h'_def INIT_LIST_HEAD_def y_def)
  next
    case (Cons z zs)
    then have "z = y" by (simp add: y_def)
    have "dseg h' z zs a = dseg h z zs a"
      using Cons dist assms(3) el fm af
      by (intro dseg_cong) (auto simp: h'_def INIT_LIST_HEAD_def \<open>z = y\<close>)
    with Cons segx(2) el \<open>z = y\<close> show ?thesis by (auto simp: h'_def INIT_LIST_HEAD_def)
  qed
  have "dll h' a (xs @ ys)"
    using seg1 seg2 xs dist assms(3) dseg_append [of h' a xs' e ys a] by (auto simp: dll_def)
  moreover have "dll h' l []" by (simp add: h'_def dll_INIT_LIST_HEAD)
  ultimately show ?thesis using eq frame by blast
qed

section \<open>Rings that lost their head\<close>

text \<open>
  While a list is torn down its head may be reset before its nodes are unlinked.  \<open>half_linked h S B\<close> keeps what is needed to unlink the
  nodes \<open>S\<close> one by one: the neighbours of a node of \<open>S\<close> are nodes of \<open>S\<close> that point back to it, or
  border nodes \<open>B\<close>, whose own links do not matter.
\<close>

definition half_linked :: "'p heap \<Rightarrow> 'p set \<Rightarrow> 'p set \<Rightarrow> bool" where
  "half_linked h S B \<longleftrightarrow> (\<forall>x\<in>S. \<exists>n p. lh_next (h x) = Some n \<and> lh_prev (h x) = Some p \<and>
     (n \<in> S \<and> lh_prev (h n) = Some x \<or> n \<in> B) \<and> (p \<in> S \<and> lh_next (h p) = Some x \<or> p \<in> B))"

lemma half_linkedE:
  assumes "half_linked h S B" and "x \<in> S"
  obtains n p where "lh_next (h x) = Some n" and "lh_prev (h x) = Some p"
    and "n \<in> S \<and> lh_prev (h n) = Some x \<or> n \<in> B" and "p \<in> S \<and> lh_next (h p) = Some x \<or> p \<in> B"
  using assms unfolding half_linked_def by blast

lemma half_linked_cong:
  "half_linked h S B \<Longrightarrow> (\<And>x. x \<in> S \<Longrightarrow> h' x = h x) \<Longrightarrow> B \<subseteq> B' \<Longrightarrow> half_linked h' S B'"
  by (fastforce simp: half_linked_def)

lemma half_linked_Un:
  "half_linked h S B \<Longrightarrow> half_linked h T B \<Longrightarrow> half_linked h (S \<union> T) B"
  unfolding half_linked_def by blast

lemma half_linked_self: "dll h a [] \<Longrightarrow> half_linked h {a} B"
  by (auto simp: half_linked_def dll_def)

lemma half_linked_dll:
  assumes "dll h a xs"
  shows "half_linked h (set xs) {a}"
  unfolding half_linked_def
proof
  fix x assume "x \<in> set xs"
  then obtain us vs where xs: "xs = us @ x # vs" by (meson split_list)
  then have seg: "dseg h a us x" "dseg h x vs a" using assms by (auto simp: dll_def dseg_append)
  have "lh_next (h x) = Some (hd (vs @ [a]))" "lh_prev (h x) = Some (last (a # us))"
    using dseg_next [OF seg(2)] dseg_prev [OF seg(1)] by auto
  moreover have "hd (vs @ [a]) \<in> set xs \<and> lh_prev (h (hd (vs @ [a]))) = Some x \<or> hd (vs @ [a]) = a"
    using seg(2) xs by (cases vs) auto
  moreover have "last (a # us) \<in> set xs \<and> lh_next (h (last (a # us))) = Some x \<or> last (a # us) = a"
    using seg(1) xs by (cases us rule: rev_cases) (auto simp: dseg_append)
  ultimately show "\<exists>n p. lh_next (h x) = Some n \<and> lh_prev (h x) = Some p \<and>
      (n \<in> set xs \<and> lh_prev (h n) = Some x \<or> n \<in> {a}) \<and>
      (p \<in> set xs \<and> lh_next (h p) = Some x \<or> p \<in> {a})"
    by simp
qed

lemma half_linked_untouched:
  assumes "half_linked h S B" and "x \<in> S" and "m \<notin> S \<union> B"
  shows "list_del_init (Some x) h m = h m"
proof -
  from assms(1,2) obtain n p where "lh_next (h x) = Some n" "lh_prev (h x) = Some p" "n \<in> S \<union> B" "p \<in> S \<union> B"
    by (rule half_linkedE) auto
  moreover from this assms(2,3) have "m \<noteq> n" "m \<noteq> p" "m \<noteq> x" by auto
  ultimately show ?thesis by (simp add: list_del_init_def list_del_between_def INIT_LIST_HEAD_def)
qed

lemma half_linked_del_init:
  assumes hl: "half_linked h S B" and x: "x \<in> S" and disj: "S \<inter> B = {}"
    and h': "\<And>m. m \<in> S - {x} \<Longrightarrow> h' m = list_del_init (Some x) h m"
  shows "half_linked h' (S - {x}) B"
  unfolding half_linked_def
proof
  fix y assume y: "y \<in> S - {x}"
  obtain nx px where X: "lh_next (h x) = Some nx" "lh_prev (h x) = Some px"
      "nx \<in> S \<and> lh_prev (h nx) = Some x \<or> nx \<in> B" "px \<in> S \<and> lh_next (h px) = Some x \<or> px \<in> B"
    using half_linkedE [OF hl x] by metis
  obtain n p where Y: "lh_next (h y) = Some n" "lh_prev (h y) = Some p"
      "n \<in> S \<and> lh_prev (h n) = Some y \<or> n \<in> B" "p \<in> S \<and> lh_next (h p) = Some y \<or> p \<in> B"
    using half_linkedE [OF hl] y by (metis DiffD1)
  have nxt: "lh_next (h' m) = (if m = px then Some nx else lh_next (h m))"
    and prv: "lh_prev (h' m) = (if m = nx then Some px else lh_prev (h m))" if "m \<in> S - {x}" for m
    using that X(1,2) by (auto simp: h' list_del_init_def list_del_between_def INIT_LIST_HEAD_def)
  have out: "x \<notin> B" "y \<notin> B" using x y disj by auto
  have loop: "nx = x \<longleftrightarrow> px = x" using X out by auto
  show "\<exists>n p. lh_next (h' y) = Some n \<and> lh_prev (h' y) = Some p \<and>
      (n \<in> S - {x} \<and> lh_prev (h' n) = Some y \<or> n \<in> B) \<and> (p \<in> S - {x} \<and> lh_next (h' p) = Some y \<or> p \<in> B)"
  proof (intro exI conjI)
    show "lh_next (h' y) = Some (if n = x then nx else n)"
      using y X Y out by (auto simp: nxt)
    show "lh_prev (h' y) = Some (if p = x then px else p)"
      using y X Y out by (auto simp: prv)
    show "(if n = x then nx else n) \<in> S - {x} \<and> lh_prev (h' (if n = x then nx else n)) = Some y \<or>
        (if n = x then nx else n) \<in> B"
      using y x X Y out loop prv [of nx] by (auto simp: prv)
    show "(if p = x then px else p) \<in> S - {x} \<and> lh_next (h' (if p = x then px else p)) = Some y \<or>
        (if p = x then px else p) \<in> B"
      using y x X Y out loop nxt [of px] by (auto simp: nxt)
  qed
qed

section \<open>Loops over a ring\<close>

text \<open>
  The removal-safe traversal \<^verbatim>\<open>for (pos = head->next, n = pos->next; pos != head; pos = n, n = pos->next)\<close>.
  The state \<open>'s\<close> is the client's, \<open>lk\<close> reads the link fields out of it, and \<open>body\<close> returns
  whether the loop is left by \<^verbatim>\<open>break\<close>.  The successor is read before the body runs.
\<close>

partial_function (option) list_for_each_safe ::
  "('s \<Rightarrow> 'p heap) \<Rightarrow> ('p \<Rightarrow> 's \<Rightarrow> (bool \<times> 's) option) \<Rightarrow> 'p \<Rightarrow> 'p option \<Rightarrow> 's \<Rightarrow> 's option"
where
  "list_for_each_safe lk body head pos st =
     (case pos of
        None \<Rightarrow> None
      | Some p \<Rightarrow>
          if p = head then Some st
          else case body p st of
              None \<Rightarrow> None
            | Some (brk, st') \<Rightarrow>
                if brk then Some st'
                else list_for_each_safe lk body head (lh_next (lk st p)) st')"

declare list_for_each_safe.simps [code]

text \<open>Total correctness of the traversal: an assertion on the nodes still ahead is carried along.\<close>

lemma list_for_each_safe_rule:
  assumes "P xs st" and "pos = Some (hd (xs @ [head]))"
    and step: "\<And>x xs st. P (x # xs) st \<Longrightarrow>
        x \<noteq> head \<and> lh_next (lk st x) = Some (hd (xs @ [head])) \<and>
        (\<exists>brk st'. body x st = Some (brk, st') \<and> (if brk then Q st' else P xs st'))"
    and fin: "\<And>st. P [] st \<Longrightarrow> Q st"
  shows "\<exists>st'. list_for_each_safe lk body head pos st = Some st' \<and> Q st'"
  using assms(1,2)
proof (induction xs arbitrary: pos st)
  case Nil
  then show ?case by (simp add: list_for_each_safe.simps fin)
next
  case (Cons x xs)
  from step[OF Cons.prems(1)] obtain brk st' where
    s: "x \<noteq> head" "lh_next (lk st x) = Some (hd (xs @ [head]))" "body x st = Some (brk, st')"
       "if brk then Q st' else P xs st'"
    by blast
  show ?case
  proof (cases brk)
    case True
    with s Cons.prems(2) show ?thesis by (simp add: list_for_each_safe.simps)
  next
    case False
    with s Cons.IH[of st' "lh_next (lk st x)"] obtain st'' where
      "list_for_each_safe lk body head (lh_next (lk st x)) st' = Some st''" "Q st''"
      by auto
    with s False Cons.prems(2) show ?thesis
      by (subst list_for_each_safe.simps) simp
  qed
qed

text \<open>Partial correctness: what the body preserves, the traversal preserves.\<close>

lemma list_for_each_safe_inv:
  assumes "list_for_each_safe lk body head pos st = Some st'"
    and "\<And>x u b u'. body x u = Some (b, u') \<Longrightarrow> P u \<Longrightarrow> P u'" and "P st"
  shows "P st'"
proof -
  have "(\<forall>x u b u'. body x u = Some (b, u') \<longrightarrow> P u \<longrightarrow> P u') \<longrightarrow> P st \<longrightarrow> P st'"
    by (rule list_for_each_safe.raw_induct [where P = "\<lambda>lk body head pos u u'.
          (\<forall>x u b u'. body x u = Some (b, u') \<longrightarrow> P u \<longrightarrow> P u') \<longrightarrow> P u \<longrightarrow> P u'", OF _ assms(1)])
      (fastforce split: option.splits if_splits)
  then show ?thesis using assms(2,3) by blast
qed

end
