(* ===== verification/Cap_Rights.thy ===== *)
theory Cap_Rights
  imports Kernel_Prelude
begin

text \<open>
  Access rights of capabilities: the right bits of \<^verbatim>\<open>include/kernel/capability.h\<close>, the kernel object
  types of \<^verbatim>\<open>include/kernel/kobject.h\<close> (enumeration values kept as 32-bit numbers, because callers pass
  unchecked ones) and the type/rights matrix of \<^verbatim>\<open>kernel/cap/capability.c\<close>.
\<close>

section \<open>Right bits\<close>

abbreviation CAP_RIGHT_READ :: u8 where "CAP_RIGHT_READ \<equiv> 1"
abbreviation CAP_RIGHT_WRITE :: u8 where "CAP_RIGHT_WRITE \<equiv> 2"
abbreviation CAP_RIGHT_EXECUTE :: u8 where "CAP_RIGHT_EXECUTE \<equiv> 4"
abbreviation CAP_RIGHT_GRANT :: u8 where "CAP_RIGHT_GRANT \<equiv> 8"
abbreviation CAP_RIGHT_REVOKE :: u8 where "CAP_RIGHT_REVOKE \<equiv> 16"
abbreviation CAP_RIGHT_NONE :: u8 where "CAP_RIGHT_NONE \<equiv> 0"

text \<open>\<open>rights_le a b\<close>: every right of \<open>a\<close> is a right of \<open>b\<close>.\<close>

definition rights_le :: "u8 \<Rightarrow> u8 \<Rightarrow> bool" where
  "rights_le a b \<longleftrightarrow> a AND b = a"

lemma rights_le_refl [simp]: "rights_le a a"
  by (simp add: rights_le_def)

lemma rights_le_trans: "rights_le a b \<Longrightarrow> rights_le b c \<Longrightarrow> rights_le a c"
  unfolding rights_le_def by (rule word_subset_trans)

lemma rights_le_mask [simp]: "rights_le (a AND m) a"
  by (simp add: rights_le_def)

lemma rights_le_antisym: "rights_le a b \<Longrightarrow> rights_le b a \<Longrightarrow> a = b"
  by (simp add: rights_le_def and.commute)

lemma rights_le_has:
  "rights_le a b \<Longrightarrow> rights_le r a \<Longrightarrow> rights_le r b"
  by (rule rights_le_trans)

section \<open>Object types\<close>

abbreviation KOBJ_THREAD :: u32 where "KOBJ_THREAD \<equiv> 0"
abbreviation KOBJ_ENDPOINT :: u32 where "KOBJ_ENDPOINT \<equiv> 1"
abbreviation KOBJ_NOTIFICATION :: u32 where "KOBJ_NOTIFICATION \<equiv> 2"
abbreviation KOBJ_CSPACE :: u32 where "KOBJ_CSPACE \<equiv> 3"
abbreviation KOBJ_VM_SPACE :: u32 where "KOBJ_VM_SPACE \<equiv> 4"
abbreviation KOBJ_PAGE_FRAME :: u32 where "KOBJ_PAGE_FRAME \<equiv> 5"
abbreviation KOBJ_INTERRUPT :: u32 where "KOBJ_INTERRUPT \<equiv> 6"
abbreviation KOBJ_DEVICE :: u32 where "KOBJ_DEVICE \<equiv> 7"
abbreviation KOBJ_CHANNEL :: u32 where "KOBJ_CHANNEL \<equiv> 8"
abbreviation KOBJ_CONNECTION :: u32 where "KOBJ_CONNECTION \<equiv> 9"
abbreviation KOBJ_SHM :: u32 where "KOBJ_SHM \<equiv> 10"
abbreviation KOBJ_FD :: u32 where "KOBJ_FD \<equiv> 11"
abbreviation KOBJ_INODE :: u32 where "KOBJ_INODE \<equiv> 12"
abbreviation KOBJ_MEMORY_REGION :: u32 where "KOBJ_MEMORY_REGION \<equiv> 13"
abbreviation KOBJ_TYPE_COUNT :: u32 where "KOBJ_TYPE_COUNT \<equiv> 14"

record cap_type_rights =
  tr_type :: u32
  allowed_rights :: u8
  mandatory_rights :: u8

abbreviation type_rights :: "u32 \<Rightarrow> u8 \<Rightarrow> cap_type_rights" where
  "type_rights t a \<equiv> \<lparr>tr_type = t, allowed_rights = a, mandatory_rights = CAP_RIGHT_READ\<rparr>"

definition s_cap_type_rights_table :: "cap_type_rights list" where
  "s_cap_type_rights_table =
    [type_rights KOBJ_THREAD
       (CAP_RIGHT_READ OR CAP_RIGHT_WRITE OR CAP_RIGHT_GRANT OR CAP_RIGHT_REVOKE),
     type_rights KOBJ_ENDPOINT (CAP_RIGHT_READ OR CAP_RIGHT_WRITE OR CAP_RIGHT_GRANT),
     type_rights KOBJ_NOTIFICATION (CAP_RIGHT_READ OR CAP_RIGHT_WRITE OR CAP_RIGHT_GRANT),
     type_rights KOBJ_CSPACE
       (CAP_RIGHT_READ OR CAP_RIGHT_WRITE OR CAP_RIGHT_GRANT OR CAP_RIGHT_REVOKE),
     type_rights KOBJ_VM_SPACE
       (CAP_RIGHT_READ OR CAP_RIGHT_WRITE OR CAP_RIGHT_EXECUTE OR CAP_RIGHT_GRANT),
     type_rights KOBJ_PAGE_FRAME (CAP_RIGHT_READ OR CAP_RIGHT_WRITE OR CAP_RIGHT_EXECUTE),
     type_rights KOBJ_INTERRUPT (CAP_RIGHT_READ OR CAP_RIGHT_GRANT),
     type_rights KOBJ_DEVICE
       (CAP_RIGHT_READ OR CAP_RIGHT_WRITE OR CAP_RIGHT_EXECUTE OR CAP_RIGHT_GRANT),
     type_rights KOBJ_CHANNEL
       (CAP_RIGHT_READ OR CAP_RIGHT_WRITE OR CAP_RIGHT_GRANT OR CAP_RIGHT_REVOKE),
     type_rights KOBJ_CONNECTION (CAP_RIGHT_READ OR CAP_RIGHT_WRITE OR CAP_RIGHT_GRANT),
     type_rights KOBJ_SHM (CAP_RIGHT_READ OR CAP_RIGHT_WRITE OR CAP_RIGHT_GRANT),
     type_rights KOBJ_FD
       (CAP_RIGHT_READ OR CAP_RIGHT_WRITE OR CAP_RIGHT_GRANT OR CAP_RIGHT_REVOKE),
     type_rights KOBJ_INODE
       (CAP_RIGHT_READ OR CAP_RIGHT_WRITE OR CAP_RIGHT_EXECUTE OR CAP_RIGHT_GRANT OR
        CAP_RIGHT_REVOKE),
     type_rights KOBJ_MEMORY_REGION
       (CAP_RIGHT_READ OR CAP_RIGHT_WRITE OR CAP_RIGHT_EXECUTE OR CAP_RIGHT_GRANT OR
        CAP_RIGHT_REVOKE)]"

definition cap_validate_rights_for_type :: "u32 \<Rightarrow> u8 \<Rightarrow> status" where
  "cap_validate_rights_for_type type rights =
     (if type \<ge> KOBJ_TYPE_COUNT then Err EINVAL
      else case find (\<lambda>e. tr_type e = type) s_cap_type_rights_table of
          None \<Rightarrow> Err EINVAL
        | Some entry \<Rightarrow>
            if rights AND allowed_rights entry \<noteq> rights then Err EINVAL
            else if rights AND mandatory_rights entry \<noteq> mandatory_rights entry then Err EINVAL
            else KERNEL_OK)"

section \<open>Facts about the matrix\<close>

lemma table_mandatory:
  "e \<in> set s_cap_type_rights_table \<Longrightarrow> mandatory_rights e = CAP_RIGHT_READ"
  by (auto simp: s_cap_type_rights_table_def)

text \<open>A legal right set always contains READ: no object type admits a write-only capability.\<close>

lemma validate_rights_read:
  assumes "cap_validate_rights_for_type t r = KERNEL_OK"
  shows "rights_le CAP_RIGHT_READ r"
proof -
  obtain e where e: "find (\<lambda>e. tr_type e = t) s_cap_type_rights_table = Some e"
      and m: "r AND mandatory_rights e = mandatory_rights e"
    using assms by (auto simp: cap_validate_rights_for_type_def split: if_splits option.splits)
  from e have "e \<in> set s_cap_type_rights_table" by (auto simp: find_Some_iff)
  with m show ?thesis by (simp add: table_mandatory rights_le_def and.commute)
qed

text \<open>Dropping rights keeps a right set legal as long as READ stays.\<close>

lemma validate_rights_antimono:
  assumes "cap_validate_rights_for_type t r = KERNEL_OK" and "rights_le r' r"
    and "rights_le CAP_RIGHT_READ r'"
  shows "cap_validate_rights_for_type t r' = KERNEL_OK"
proof -
  obtain e where e: "find (\<lambda>e. tr_type e = t) s_cap_type_rights_table = Some e"
      and a: "r AND allowed_rights e = r" and t: "\<not> t \<ge> KOBJ_TYPE_COUNT"
    using assms by (auto simp: cap_validate_rights_for_type_def split: if_splits option.splits)
  from e have "mandatory_rights e = CAP_RIGHT_READ" by (auto simp: find_Some_iff table_mandatory)
  moreover have "r' AND allowed_rights e = r'"
    using assms(2) a word_subset_trans unfolding rights_le_def by blast
  ultimately show ?thesis
    using e t assms(3) by (simp add: cap_validate_rights_for_type_def rights_le_def and.commute)
qed

end
