(* ===== verification/CSpace.thy ===== *)
theory CSpace
  imports Kernel_List Cap_Rights "HOL-Library.Monad_Syntax"
begin

text \<open>
  Capability spaces, \<^verbatim>\<open>kernel/cap/cspace.c\<close>: the pool of CSpaces with its free-index stack, the hash
  index from object id to CSpace, and the capability tables with their free lists.

  Addresses.  A CSpace pointer is an index of \<^verbatim>\<open>s_cspace_pool\<close>; a \<^verbatim>\<open>cap_t\<close> pointer is the pair of the
  pool index whose table it lies in and the slot.  The link fields of the capability tables
  form one heap over \<open>cap_node\<close>: \<open>Children c s\<close> and \<open>Sibling c s\<close> are the two list heads
  inside the descriptor, \<open>CapBase c s\<close> is the address of the descriptor itself, which the free
  list stores (cast) in \<^verbatim>\<open>sibling.next\<close>, \<open>ChildCspaces c\<close> and \<open>CspaceNode c\<close> lie in the CSpace structure.
  A descriptor address is only ever read back as a descriptor pointer, never linked into a ring.

  The table of a CSpace is a function of the slot; the memory behind it comes from the slab
  allocator, whose answer is an argument of \<open>cspace_create\<close> and \<open>cspace_subsys_init\<close>.
\<close>

section \<open>Data\<close>

abbreviation CAP_SLOT_INVALID :: u32 where "CAP_SLOT_INVALID \<equiv> 0xFFFFFFFF"
abbreviation KOBJ_ID_INVALID :: u32 where "KOBJ_ID_INVALID \<equiv> 0"
abbreviation CSPACE_MAX_CAPACITY :: u32 where "CSPACE_MAX_CAPACITY \<equiv> 256"
abbreviation CAP_MAX_DERIVE_DEPTH :: u8 where "CAP_MAX_DERIVE_DEPTH \<equiv> 8"

datatype cap_state = CAP_STATE_FREE | CAP_STATE_VALID | CAP_STATE_REVOKED

datatype cap_node =
    Children nat u32 | Sibling nat u32 | CapBase nat u32 | ChildCspaces nat | CspaceNode nat

record cap_t =
  c_state :: cap_state
  c_type :: u32
  c_rights :: u8
  c_badge :: u16
  c_kobj :: u32
  c_parent :: u32
  c_root :: u32
  c_depth :: u8
  c_inherit :: bool

record cspace_t =
  cs_type :: u32
  cs_id :: u32
  capacity :: u32
  used_count :: u32
  root_slot :: u32
  free_head :: u32

record hash_node =
  hn_key :: u32
  hn_value :: "nat option"
  hn_next :: "nat option"

record cap_sys =
  s_cspace_pool :: "nat \<Rightarrow> cspace_t"
  cap_table :: "nat \<Rightarrow> u32 \<Rightarrow> cap_t"
  links :: "cap_node heap"
  s_cspace_free_stack :: "nat list"
  s_cspace_free_count :: nat
  s_cspace_id_counter :: u32
  s_cspace_hash :: "u32 \<Rightarrow> nat option"
  s_hash_nodes :: "nat \<Rightarrow> hash_node"
  slab_initialized :: bool

text \<open>What \<^verbatim>\<open>memset(.., 0, ..)\<close> leaves in each structure.\<close>

definition zero_cap :: cap_t where
  "zero_cap = \<lparr>c_state = CAP_STATE_FREE, c_type = 0, c_rights = 0, c_badge = 0, c_kobj = 0,
     c_parent = 0, c_root = 0, c_depth = 0, c_inherit = False\<rparr>"

definition zero_cspace :: cspace_t where
  "zero_cspace = \<lparr>cs_type = 0, cs_id = 0, capacity = 0, used_count = 0, root_slot = 0,
     free_head = 0\<rparr>"

definition zero_hash_node :: hash_node where
  "zero_hash_node = \<lparr>hn_key = 0, hn_value = None, hn_next = None\<rparr>"

abbreviation null_links :: "'p list_head" where
  "null_links \<equiv> \<lparr>lh_next = None, lh_prev = None\<rparr>"

section \<open>Field updates\<close>

definition upd_cs :: "nat \<Rightarrow> (cspace_t \<Rightarrow> cspace_t) \<Rightarrow> cap_sys \<Rightarrow> cap_sys" where
  "upd_cs c f st = st\<lparr>s_cspace_pool := (s_cspace_pool st)(c := f (s_cspace_pool st c))\<rparr>"

definition upd_cap :: "nat \<Rightarrow> u32 \<Rightarrow> (cap_t \<Rightarrow> cap_t) \<Rightarrow> cap_sys \<Rightarrow> cap_sys" where
  "upd_cap c s f st =
     st\<lparr>cap_table := (cap_table st)(c := (cap_table st c)(s := f (cap_table st c s)))\<rparr>"

definition upd_links :: "(cap_node heap \<Rightarrow> cap_node heap) \<Rightarrow> cap_sys \<Rightarrow> cap_sys" where
  "upd_links f st = st\<lparr>links := f (links st)\<rparr>"

definition memset_cap :: "nat \<Rightarrow> u32 \<Rightarrow> cap_sys \<Rightarrow> cap_sys" where
  "memset_cap c s st =
     upd_links (\<lambda>h. h(Children c s := null_links, Sibling c s := null_links))
       (upd_cap c s (\<lambda>_. zero_cap) st)"

abbreviation cs_of :: "cap_sys \<Rightarrow> nat \<Rightarrow> cspace_t" where
  "cs_of st c \<equiv> s_cspace_pool st c"

text \<open>The field updates commute with the selectors they do not touch.\<close>

lemma upd_cs_simps [simp]:
  "s_cspace_pool (upd_cs c f st) = (s_cspace_pool st)(c := f (s_cspace_pool st c))"
  "cap_table (upd_cs c f st) = cap_table st"
  "links (upd_cs c f st) = links st"
  "s_cspace_free_stack (upd_cs c f st) = s_cspace_free_stack st"
  "s_cspace_free_count (upd_cs c f st) = s_cspace_free_count st"
  "s_cspace_id_counter (upd_cs c f st) = s_cspace_id_counter st"
  "s_cspace_hash (upd_cs c f st) = s_cspace_hash st"
  "s_hash_nodes (upd_cs c f st) = s_hash_nodes st"
  by (simp_all add: upd_cs_def)

lemma upd_cap_simps [simp]:
  "s_cspace_pool (upd_cap c s g st) = s_cspace_pool st"
  "cap_table (upd_cap c s g st) = (cap_table st)(c := (cap_table st c)(s := g (cap_table st c s)))"
  "links (upd_cap c s g st) = links st"
  "s_cspace_free_stack (upd_cap c s g st) = s_cspace_free_stack st"
  "s_cspace_free_count (upd_cap c s g st) = s_cspace_free_count st"
  "s_cspace_id_counter (upd_cap c s g st) = s_cspace_id_counter st"
  "s_cspace_hash (upd_cap c s g st) = s_cspace_hash st"
  "s_hash_nodes (upd_cap c s g st) = s_hash_nodes st"
  by (simp_all add: upd_cap_def)

lemma upd_links_simps [simp]:
  "s_cspace_pool (upd_links k st) = s_cspace_pool st"
  "cap_table (upd_links k st) = cap_table st"
  "links (upd_links k st) = k (links st)"
  "s_cspace_free_stack (upd_links k st) = s_cspace_free_stack st"
  "s_cspace_free_count (upd_links k st) = s_cspace_free_count st"
  "s_cspace_id_counter (upd_links k st) = s_cspace_id_counter st"
  "s_cspace_hash (upd_links k st) = s_cspace_hash st"
  "s_hash_nodes (upd_links k st) = s_hash_nodes st"
  by (simp_all add: upd_links_def)

lemma memset_cap_simps [simp]:
  "s_cspace_pool (memset_cap c s st) = s_cspace_pool st"
  "cap_table (memset_cap c s st) = (cap_table st)(c := (cap_table st c)(s := zero_cap))"
  "links (memset_cap c s st) =
     (links st)(Children c s := null_links, Sibling c s := null_links)"
  "s_cspace_free_stack (memset_cap c s st) = s_cspace_free_stack st"
  "s_cspace_free_count (memset_cap c s st) = s_cspace_free_count st"
  "s_cspace_id_counter (memset_cap c s st) = s_cspace_id_counter st"
  "s_cspace_hash (memset_cap c s st) = s_cspace_hash st"
  "s_hash_nodes (memset_cap c s st) = s_hash_nodes st"
  by (simp_all add: memset_cap_def fun_eq_iff)

section \<open>Hash index\<close>

definition cspace_hash_index :: "u32 \<Rightarrow> u32" where
  "cspace_hash_index oid = oid AND 31"

definition cspace_hash_register :: "u32 \<Rightarrow> nat \<Rightarrow> cap_sys \<Rightarrow> cap_sys" where
  "cspace_hash_register oid idx st =
     (let bucket = cspace_hash_index oid in
      if idx \<ge> CONFIG_MAX_CSPACES then st
      else st\<lparr>s_hash_nodes := (s_hash_nodes st)(idx :=
                \<lparr>hn_key = oid, hn_value = Some idx, hn_next = s_cspace_hash st bucket\<rparr>),
              s_cspace_hash := (s_cspace_hash st)(bucket := Some idx)\<rparr>)"

partial_function (option) hash_unregister_loop ::
  "u32 \<Rightarrow> u32 \<Rightarrow> nat option \<Rightarrow> nat option \<Rightarrow> cap_sys \<Rightarrow> cap_sys option" where
  "hash_unregister_loop oid bucket prev cur st =
     (case cur of
        None \<Rightarrow> Some st
      | Some i \<Rightarrow>
          (let node = s_hash_nodes st i in
           if hn_key node = oid then
             (let st1 = (case prev of
                    None \<Rightarrow> st\<lparr>s_cspace_hash := (s_cspace_hash st)(bucket := hn_next node)\<rparr>
                  | Some j \<Rightarrow> st\<lparr>s_hash_nodes := (s_hash_nodes st)
                                (j := (s_hash_nodes st j)\<lparr>hn_next := hn_next node\<rparr>)\<rparr>)
              in Some (st1\<lparr>s_hash_nodes := (s_hash_nodes st1)(i :=
                   \<lparr>hn_key = KOBJ_ID_INVALID, hn_value = None, hn_next = None\<rparr>)\<rparr>))
           else hash_unregister_loop oid bucket cur (hn_next node) st))"

declare hash_unregister_loop.simps [code]

definition cspace_hash_unregister :: "u32 \<Rightarrow> cap_sys \<Rightarrow> cap_sys option" where
  "cspace_hash_unregister oid st =
     hash_unregister_loop oid (cspace_hash_index oid) None
       (s_cspace_hash st (cspace_hash_index oid)) st"

text \<open>The hash walk of \<open>cspace_from_root\<close>: the value of the first node with the key, or a miss.\<close>

datatype hash_result = Hit "nat option" | Miss

partial_function (option) hash_find_loop ::
  "(nat \<Rightarrow> hash_node) \<Rightarrow> u32 \<Rightarrow> nat option \<Rightarrow> hash_result option" where
  "hash_find_loop nodes key node =
     (case node of
        None \<Rightarrow> Some Miss
      | Some i \<Rightarrow>
          if hn_key (nodes i) = key then Some (Hit (hn_value (nodes i)))
          else hash_find_loop nodes key (hn_next (nodes i)))"

declare hash_find_loop.simps [code]

definition cspace_from_root :: "u32 \<Rightarrow> cap_sys \<Rightarrow> nat option option" where
  "cspace_from_root root st = do {
     r \<leftarrow> hash_find_loop (s_hash_nodes st) root (s_cspace_hash st (cspace_hash_index root));
     Some (case r of
         Hit v \<Rightarrow> v
       | Miss \<Rightarrow> find (\<lambda>i. cs_type (cs_of st i) = KOBJ_CSPACE \<and> cs_id (cs_of st i) \<noteq> KOBJ_ID_INVALID
                          \<and> root_slot (cs_of st i) = root) [0..<CONFIG_MAX_CSPACES])
   }"

section \<open>Pool of CSpaces\<close>

definition cspace_pool_alloc :: "cap_sys \<Rightarrow> (errno + nat) \<times> cap_sys" where
  "cspace_pool_alloc st =
     (if s_cspace_free_count st = 0 then (Inl ENOMEM, st)
      else (let n = s_cspace_free_count st - 1 in
            (Inr (s_cspace_free_stack st ! n), st\<lparr>s_cspace_free_count := n\<rparr>)))"

definition cspace_pool_free :: "nat option \<Rightarrow> cap_sys \<Rightarrow> cap_sys" where
  "cspace_pool_free cspace st =
     (case cspace of
        None \<Rightarrow> st
      | Some idx \<Rightarrow>
          if s_cspace_free_count st \<ge> CONFIG_MAX_CSPACES then st
          else if idx \<ge> CONFIG_MAX_CSPACES then st
          else (upd_links (\<lambda>h. h(ChildCspaces idx := null_links, CspaceNode idx := null_links))
                 (upd_cs idx (\<lambda>_. zero_cspace) st))
               \<lparr>s_cspace_free_stack := (s_cspace_free_stack st)[s_cspace_free_count st := idx],
                s_cspace_free_count := s_cspace_free_count st + 1\<rparr>)"

text \<open>
  \<open>slab_ok i\<close> is whether \<^verbatim>\<open>slab_create\<close> succeeds for the \<open>i\<close>-th of the five table caches; the caches
  themselves are not part of the state.
\<close>

definition cspace_subsys_init :: "(nat \<Rightarrow> bool) \<Rightarrow> cap_sys \<Rightarrow> status \<times> cap_sys" where
  "cspace_subsys_init slab_ok st =
     (let st1 = (upd_links (\<lambda>h n. case n of ChildCspaces _ \<Rightarrow> null_links | CspaceNode _ \<Rightarrow> null_links
                                          | _ \<Rightarrow> h n) st)
            \<lparr>s_cspace_id_counter := 1,
             s_cspace_free_count := CONFIG_MAX_CSPACES,
             s_cspace_free_stack := map (\<lambda>i. CONFIG_MAX_CSPACES - 1 - i) [0..<CONFIG_MAX_CSPACES],
             s_cspace_pool := (\<lambda>_. zero_cspace),
             s_cspace_hash := (\<lambda>_. None),
             s_hash_nodes := (\<lambda>_. zero_hash_node)\<rparr>
      in if \<forall>i\<in>set [0..<unat (CSPACE_MAX_CAPACITY div 64) + 1]. slab_ok i
         then (KERNEL_OK, st1\<lparr>slab_initialized := True\<rparr>)
         else (Err ENOMEM, st1))"

definition cspace_slab_destroy :: "cap_sys \<Rightarrow> status \<times> cap_sys" where
  "cspace_slab_destroy st =
     (if \<not> slab_initialized st then (KERNEL_OK, st)
      else (KERNEL_OK, st\<lparr>slab_initialized := False\<rparr>))"

section \<open>Capability tables\<close>

text \<open>The slots a loop \<^verbatim>\<open>for (i = a; i < b; i++)\<close> visits.\<close>

definition slots_from :: "u32 \<Rightarrow> u32 \<Rightarrow> u32 list" where
  "slots_from a b = map of_nat [unat a..<unat b]"

text \<open>The address the free list stores for a slot index, and the index read back from it.\<close>

definition free_link :: "nat \<Rightarrow> u32 \<Rightarrow> cap_node option" where
  "free_link c s = (if s \<noteq> CAP_SLOT_INVALID then Some (CapBase c s) else None)"

definition cspace_init_cap_table :: "nat \<Rightarrow> cap_sys \<Rightarrow> cap_sys" where
  "cspace_init_cap_table c st =
     (let n = capacity (cs_of st c);
          st1 = fold (memset_cap c) (slots_from 0 n) st;
          st2 = fold (\<lambda>i st. upd_links (\<lambda>h. INIT_LIST_HEAD (Some (Sibling c i))
                                              (INIT_LIST_HEAD (Some (Children c i)) h))
                       (upd_cap c i (\<lambda>cap. cap\<lparr>c_state := CAP_STATE_FREE\<rparr>) st))
                  (slots_from 0 n) st1;
          st3 = fold (\<lambda>i. upd_links (set_next (Sibling c i)
                       (if i + 1 < n then Some (CapBase c (i + 1)) else None)))
                  (slots_from 1 n) st2
      in upd_cs c (\<lambda>cs. cs\<lparr>free_head := (if n > 1 then 1 else CAP_SLOT_INVALID)\<rparr>) st3)"

definition cspace_create_root_cap :: "nat option \<Rightarrow> cap_sys \<Rightarrow> status \<times> cap_sys" where
  "cspace_create_root_cap cspace st =
     (case cspace of
        None \<Rightarrow> (Err EINVAL, st)
      | Some c \<Rightarrow>
         (KERNEL_OK,
          upd_cs c (\<lambda>cs. cs\<lparr>root_slot := 0, used_count := 1\<rparr>)
           (upd_links (\<lambda>h. INIT_LIST_HEAD (Some (Sibling c 0)) (INIT_LIST_HEAD (Some (Children c 0)) h))
             (upd_cap c 0 (\<lambda>cap. cap\<lparr>
                 c_state := CAP_STATE_VALID,
                 c_type := KOBJ_CSPACE,
                 c_rights := CAP_RIGHT_READ OR CAP_RIGHT_WRITE OR CAP_RIGHT_GRANT OR CAP_RIGHT_REVOKE,
                 c_badge := 0,
                 c_kobj := cs_id (cs_of st c),
                 c_parent := CAP_SLOT_INVALID,
                 c_root := 0,
                 c_depth := 0\<rparr>) st))))"

text \<open>\<open>table_ok\<close> is whether \<^verbatim>\<open>slab_alloc\<close> returned memory for the table.\<close>

definition cspace_create :: "u32 \<Rightarrow> bool \<Rightarrow> cap_sys \<Rightarrow> (errno + nat) \<times> cap_sys" where
  "cspace_create cap table_ok st =
     (if cap = 0 \<or> cap > CSPACE_MAX_CAPACITY then (Inl EINVAL, st)
      else case cspace_pool_alloc st of
          (Inl e, st1) \<Rightarrow> (Inl e, st1)
        | (Inr c, st1) \<Rightarrow>
           (let new_id = s_cspace_id_counter st1;
                st2 = st1\<lparr>s_cspace_id_counter := new_id + 1\<rparr>;
                st3 = upd_cs c (\<lambda>cs. cs\<lparr>cs_type := KOBJ_CSPACE, cs_id := new_id, capacity := cap\<rparr>) st2
            in if \<not> table_ok then (Inl ENOMEM, cspace_pool_free (Some c) st3)
               else (let st4 = upd_cs c (\<lambda>cs. cs\<lparr>used_count := 0, root_slot := CAP_SLOT_INVALID,
                                                 free_head := CAP_SLOT_INVALID\<rparr>) st3;
                         st5 = upd_links (\<lambda>h. INIT_LIST_HEAD (Some (CspaceNode c))
                                           (INIT_LIST_HEAD (Some (ChildCspaces c)) h)) st4;
                         st6 = cspace_init_cap_table c st5
                     in case cspace_create_root_cap (Some c) st6 of
                          (Err e, st7) \<Rightarrow> (Inl e, cspace_pool_free (Some c) st7)
                        | (KERNEL_OK, st7) \<Rightarrow> (Inr c, cspace_hash_register new_id c st7))))"

definition cspace_destroy_slot :: "nat \<Rightarrow> u32 \<Rightarrow> cap_sys \<Rightarrow> cap_sys" where
  "cspace_destroy_slot c i st =
     (let cap = cap_table st c i in
      if c_state cap = CAP_STATE_VALID then
        (let st1 = (if c_parent cap \<noteq> CAP_SLOT_INVALID
                    then upd_links (list_del (Some (Sibling c i))) st else st)
         in upd_cap c i (\<lambda>cap. cap\<lparr>c_state := CAP_STATE_FREE\<rparr>)
              (upd_links (INIT_LIST_HEAD (Some (Children c i))) st1))
      else st)"

definition cspace_destroy :: "nat option \<Rightarrow> cap_sys \<Rightarrow> cap_sys option" where
  "cspace_destroy cspace st =
     (case cspace of
        None \<Rightarrow> Some st
      | Some c \<Rightarrow> do {
          let st1 = fold (cspace_destroy_slot c) (slots_from 0 (capacity (cs_of st c))) st;
          let st2 = upd_cs c (\<lambda>cs. cs\<lparr>used_count := 0, free_head := CAP_SLOT_INVALID,
                                       root_slot := CAP_SLOT_INVALID\<rparr>) st1;
          let st3 = upd_links (\<lambda>h. INIT_LIST_HEAD (Some (ChildCspaces c))
                                     (list_del (Some (CspaceNode c)) h)) st2;
          st4 \<leftarrow> cspace_hash_unregister (cs_id (cs_of st3 c)) st3;
          Some (cspace_pool_free (Some c) st4)
        })"

text \<open>
  \<^verbatim>\<open>sibling.next\<close> of a free slot is cast to a descriptor pointer and subtracted from the table base:
  defined when it is the address of a descriptor of this very table.  A free-list head outside the
  table is an access out of bounds.
\<close>

definition cspace_alloc_slot :: "nat option \<Rightarrow> cap_sys \<Rightarrow> ((errno + u32) \<times> cap_sys) option" where
  "cspace_alloc_slot cspace st =
     (case cspace of
        None \<Rightarrow> Some (Inl EINVAL, st)
      | Some c \<Rightarrow>
         (let s = free_head (cs_of st c);
              take = (\<lambda>nxt. Some (Inr s,
                upd_cap c s (\<lambda>cap. cap\<lparr>c_state := CAP_STATE_FREE\<rparr>)
                  (memset_cap c s (upd_cs c (\<lambda>cs. cs\<lparr>free_head := nxt\<rparr>) st))))
          in if s = CAP_SLOT_INVALID then Some (Inl ENOMEM, st)
             else if s \<ge> capacity (cs_of st c) then None
             else case lh_next (links st (Sibling c s)) of
                 None \<Rightarrow> take CAP_SLOT_INVALID
               | Some (CapBase c' i) \<Rightarrow> if c' = c then take i else None
               | _ \<Rightarrow> None))"

definition cspace_free_slot :: "nat option \<Rightarrow> u32 \<Rightarrow> cap_sys \<Rightarrow> cap_sys" where
  "cspace_free_slot cspace s st =
     (case cspace of
        None \<Rightarrow> st
      | Some c \<Rightarrow>
         if s \<ge> capacity (cs_of st c) then st
         else if c_state (cap_table st c s) = CAP_STATE_FREE then st
         else
          (let st1 = (if c_parent (cap_table st c s) \<noteq> CAP_SLOT_INVALID
                      then upd_links (list_del (Some (Sibling c s))) st else st);
               st2 = memset_cap c s (upd_links (INIT_LIST_HEAD (Some (Children c s))) st1);
               st3 = upd_cap c s (\<lambda>cap. cap\<lparr>c_state := CAP_STATE_FREE\<rparr>) st2;
               st4 = upd_links (set_next (Sibling c s) (free_link c (free_head (cs_of st3 c)))) st3
           in upd_cs c (\<lambda>cs. cs\<lparr>free_head := s,
                used_count := (if used_count cs > 0 then used_count cs - 1 else used_count cs)\<rparr>) st4))"

definition cspace_insert_cap ::
  "nat option \<Rightarrow> u32 \<Rightarrow> u32 \<Rightarrow> u32 \<Rightarrow> u8 \<Rightarrow> u16 \<Rightarrow> u32 \<Rightarrow> cap_sys \<Rightarrow> status \<times> cap_sys" where
  "cspace_insert_cap cspace s kobj_type kobj_id rights badge parent st =
     (case cspace of
        None \<Rightarrow> (Err EINVAL, st)
      | Some c \<Rightarrow>
         if s \<ge> capacity (cs_of st c) then (Err EINVAL, st)
         else if kobj_type \<ge> KOBJ_TYPE_COUNT then (Err EINVAL, st)
         else if c_state (cap_table st c s) \<noteq> CAP_STATE_FREE then (Err EINVAL, st)
         else
          (let st1 = upd_cap c s (\<lambda>cap. cap\<lparr>c_state := CAP_STATE_VALID, c_type := kobj_type,
                 c_rights := rights, c_badge := badge, c_kobj := kobj_id, c_parent := parent,
                 c_root := root_slot (cs_of st c)\<rparr>) st;
               st2 = upd_links (\<lambda>h. INIT_LIST_HEAD (Some (Sibling c s))
                                     (INIT_LIST_HEAD (Some (Children c s)) h)) st1;
               undo = (Err EINVAL, upd_cap c s (\<lambda>cap. cap\<lparr>c_state := CAP_STATE_FREE\<rparr>) st2);
               commit = upd_cs c (\<lambda>cs. cs\<lparr>used_count := used_count cs + 1\<rparr>)
           in if parent \<noteq> CAP_SLOT_INVALID then
                if parent \<ge> capacity (cs_of st2 c) then undo
                else if c_state (cap_table st2 c parent) \<noteq> CAP_STATE_VALID then undo
                else (KERNEL_OK, commit (upd_links
                        (list_add_tail (Some (Sibling c s)) (Some (Children c parent))) st2))
              else (KERNEL_OK, commit st2)))"

definition cspace_lookup :: "nat option \<Rightarrow> u32 \<Rightarrow> cap_sys \<Rightarrow> (nat \<times> u32) option" where
  "cspace_lookup cspace s st =
     (case cspace of
        None \<Rightarrow> None
      | Some c \<Rightarrow>
         if s \<ge> capacity (cs_of st c) then None
         else if c_state (cap_table st c s) \<noteq> CAP_STATE_VALID then None
         else Some (c, s))"

definition cspace_resize :: "nat option \<Rightarrow> u32 \<Rightarrow> cap_sys \<Rightarrow> status \<times> cap_sys" where
  "cspace_resize cspace new_capacity st =
     (case cspace of
        None \<Rightarrow> (Err EINVAL, st)
      | Some c \<Rightarrow>
         if new_capacity \<le> capacity (cs_of st c) then (Err EINVAL, st)
         else if new_capacity > CSPACE_MAX_CAPACITY then (Err EINVAL, st)
         else
          (let st1 = fold (\<lambda>i st.
                 let st1 = upd_cap c i (\<lambda>cap. cap\<lparr>c_state := CAP_STATE_FREE\<rparr>) (memset_cap c i st);
                     st2 = upd_links (\<lambda>h. INIT_LIST_HEAD (Some (Sibling c i))
                                           (INIT_LIST_HEAD (Some (Children c i)) h)) st1;
                     st3 = upd_links (set_next (Sibling c i)
                                       (free_link c (free_head (cs_of st2 c)))) st2
                 in upd_cs c (\<lambda>cs. cs\<lparr>free_head := i\<rparr>) st3)
               (slots_from (capacity (cs_of st c)) new_capacity) st
           in (KERNEL_OK, upd_cs c (\<lambda>cs. cs\<lparr>capacity := new_capacity\<rparr>) st1)))"

text \<open>Total, used and free slots as \<^verbatim>\<open>cspace_get_stats\<close> reports them.\<close>

definition cspace_get_stats :: "nat option \<Rightarrow> cap_sys \<Rightarrow> (u32 \<times> u32 \<times> u32) option" where
  "cspace_get_stats cspace st =
     (case cspace of
        None \<Rightarrow> None
      | Some c \<Rightarrow> Some (capacity (cs_of st c), used_count (cs_of st c),
                         capacity (cs_of st c) - used_count (cs_of st c)))"

end
