(* ===== verification/Capability.thy ===== *)
theory Capability
  imports CSpace
begin

text \<open>
  The capability operations of \<^verbatim>\<open>kernel/cap/capability.c\<close>.  A CSpace argument is the number that
  \<open>cspace_from_root\<close> resolves; the two CSpaces of a copy, a move or a derivation may differ.  The lock pair taken
  around each operation makes it atomic and is not modelled.
\<close>

section \<open>Insertion\<close>

definition cap_insert_locked ::
  "nat \<Rightarrow> u32 \<Rightarrow> u32 \<Rightarrow> u32 \<Rightarrow> u8 \<Rightarrow> u16 \<Rightarrow> u32 \<Rightarrow> cap_sys \<Rightarrow> status \<times> cap_sys" where
  "cap_insert_locked c s kobj_type kobj_id rights badge parent st =
     (let fill = (\<lambda>new_depth.
        let st1 = upd_cap c s (\<lambda>cap. cap\<lparr>c_state := CAP_STATE_VALID, c_type := kobj_type,
                    c_rights := rights, c_badge := badge, c_kobj := kobj_id, c_parent := parent,
                    c_root := root_slot (cs_of st c), c_depth := new_depth\<rparr>) st;
            st2 = upd_links (\<lambda>h. INIT_LIST_HEAD (Some (Sibling c s))
                                  (INIT_LIST_HEAD (Some (Children c s)) h)) st1;
            st3 = (if parent \<noteq> CAP_SLOT_INVALID
                   then upd_links (list_add_tail (Some (Sibling c s)) (Some (Children c parent))) st2
                   else st2)
        in (KERNEL_OK, upd_cs c (\<lambda>cs. cs\<lparr>used_count := used_count cs + 1\<rparr>) st3))
      in if s \<ge> capacity (cs_of st c) then (Err EINVAL, st)
         else if c_state (cap_table st c s) \<noteq> CAP_STATE_FREE then (Err EINVAL, st)
         else if cap_validate_rights_for_type kobj_type rights \<noteq> KERNEL_OK then (Err EINVAL, st)
         else if parent \<noteq> CAP_SLOT_INVALID then
           if parent \<ge> capacity (cs_of st c) then (Err EINVAL, st)
           else if c_state (cap_table st c parent) \<noteq> CAP_STATE_VALID then (Err EINVAL, st)
           else if c_depth (cap_table st c parent) \<ge> CAP_MAX_DERIVE_DEPTH then (Err EINVAL, st)
           else fill (c_depth (cap_table st c parent) + 1)
         else fill 0)"

section \<open>Copy, derive, mint\<close>

definition cap_copy :: "u32 \<Rightarrow> u32 \<Rightarrow> u32 \<Rightarrow> u32 \<Rightarrow> u8 \<Rightarrow> cap_sys \<Rightarrow> (status \<times> cap_sys) option" where
  "cap_copy src_cspace src_slot dest_cspace dest_slot rights_mask st =
     (if src_cspace = CAP_SLOT_INVALID \<or> src_slot = CAP_SLOT_INVALID then Some (Err EINVAL, st)
      else if dest_cspace = CAP_SLOT_INVALID \<or> dest_slot = CAP_SLOT_INVALID then Some (Err EINVAL, st)
      else do {
        src_cs \<leftarrow> cspace_from_root src_cspace st;
        case src_cs of None \<Rightarrow> Some (Err EINVAL, st) | Some c \<Rightarrow> do {
        dst_cs \<leftarrow> cspace_from_root dest_cspace st;
        Some (case dst_cs of
            None \<Rightarrow> (Err EINVAL, st)
          | Some d \<Rightarrow>
              (case cspace_lookup (Some c) src_slot st of
                 None \<Rightarrow> (Err ENOENT, st)
               | Some (c, s) \<Rightarrow>
                  (let src_cap = cap_table st c s;
                       dest_rights = (if rights_mask \<noteq> 0 then c_rights src_cap AND rights_mask
                                      else c_rights src_cap)
                   in if c_state src_cap \<noteq> CAP_STATE_VALID then (Err ENOENT, st)
                      else if c_rights src_cap AND CAP_RIGHT_GRANT = CAP_RIGHT_NONE then (Err EACCES, st)
                      else if \<not> c_inherit src_cap then (Err EACCES, st)
                      else if dest_rights AND c_rights src_cap \<noteq> dest_rights then (Err EACCES, st)
                      else cap_insert_locked d dest_slot (c_type src_cap) (c_kobj src_cap) dest_rights
                             (c_badge src_cap) src_slot st)))
      }})"

definition cap_derive ::
  "u32 \<Rightarrow> u32 \<Rightarrow> u32 \<Rightarrow> u32 \<Rightarrow> u8 \<Rightarrow> u16 \<Rightarrow> cap_sys \<Rightarrow> (status \<times> cap_sys) option" where
  "cap_derive src_cspace src_slot dest_cspace dest_slot new_rights badge st =
     (if src_cspace = CAP_SLOT_INVALID \<or> src_slot = CAP_SLOT_INVALID then Some (Err EINVAL, st)
      else if dest_cspace = CAP_SLOT_INVALID \<or> dest_slot = CAP_SLOT_INVALID then Some (Err EINVAL, st)
      else do {
        src_cs \<leftarrow> cspace_from_root src_cspace st;
        case src_cs of None \<Rightarrow> Some (Err EINVAL, st) | Some c \<Rightarrow> do {
        dst_cs \<leftarrow> cspace_from_root dest_cspace st;
        Some (case dst_cs of
            None \<Rightarrow> (Err EINVAL, st)
          | Some d \<Rightarrow>
              (case cspace_lookup (Some c) src_slot st of
                 None \<Rightarrow> (Err ENOENT, st)
               | Some (c, s) \<Rightarrow>
                  (let src_cap = cap_table st c s
                   in if c_state src_cap \<noteq> CAP_STATE_VALID then (Err ENOENT, st)
                      else if c_rights src_cap AND CAP_RIGHT_GRANT = CAP_RIGHT_NONE then (Err EACCES, st)
                      else if new_rights AND c_rights src_cap \<noteq> new_rights then (Err EACCES, st)
                      else if new_rights = c_rights src_cap then (Err EINVAL, st)
                      else cap_insert_locked d dest_slot (c_type src_cap) (c_kobj src_cap) new_rights
                             badge src_slot st)))
      }})"

definition cap_mint ::
  "u32 \<Rightarrow> u32 \<Rightarrow> u32 \<Rightarrow> u32 \<Rightarrow> u8 \<Rightarrow> u16 \<Rightarrow> cap_sys \<Rightarrow> (status \<times> cap_sys) option" where
  "cap_mint cspace_root s obj_type obj_id rights badge st =
     (if cspace_root = CAP_SLOT_INVALID then Some (Err EINVAL, st)
      else if s = CAP_SLOT_INVALID then Some (Err EINVAL, st)
      else if obj_type \<ge> KOBJ_TYPE_COUNT then Some (Err EINVAL, st)
      else do {
        cs \<leftarrow> cspace_from_root cspace_root st;
        Some (case cs of
            None \<Rightarrow> (Err EINVAL, st)
          | Some c \<Rightarrow>
             (case cspace_lookup (Some c) (root_slot (cs_of st c)) st of
                None \<Rightarrow> (Err ENOENT, st)
              | Some (c, r) \<Rightarrow>
                 if c_rights (cap_table st c r) AND (CAP_RIGHT_WRITE OR CAP_RIGHT_GRANT)
                      \<noteq> (CAP_RIGHT_WRITE OR CAP_RIGHT_GRANT) then (Err EACCES, st)
                 else cap_insert_locked c s obj_type obj_id rights badge CAP_SLOT_INVALID st))
      })"

definition cap_mint_for_fd :: "u32 \<Rightarrow> u32 \<Rightarrow> u32 \<Rightarrow> u8 \<Rightarrow> cap_sys \<Rightarrow> (status \<times> cap_sys) option" where
  "cap_mint_for_fd cspace_root s fd access_mode st =
     (if access_mode = 0 then Some (Err EINVAL, st)
      else (let r0 = CAP_RIGHT_READ;
                r1 = (if access_mode AND 2 \<noteq> 0 then r0 OR CAP_RIGHT_WRITE else r0);
                r2 = (if access_mode AND 4 \<noteq> 0 then r1 OR CAP_RIGHT_EXECUTE else r1)
            in cap_mint cspace_root s KOBJ_FD fd r2 0 st))"

definition cap_mint_for_inode :: "u32 \<Rightarrow> u32 \<Rightarrow> u64 \<Rightarrow> u8 \<Rightarrow> cap_sys \<Rightarrow> (status \<times> cap_sys) option" where
  "cap_mint_for_inode cspace_root s inode_id file_type st =
     (let r0 = CAP_RIGHT_READ OR CAP_RIGHT_EXECUTE;
          r1 = (if file_type = 1 \<or> file_type = 2 then r0 OR CAP_RIGHT_WRITE else r0)
      in cap_mint cspace_root s KOBJ_INODE (ucast inode_id) r1 0 st)"

definition cap_mint_for_memory_region ::
  "u32 \<Rightarrow> u32 \<Rightarrow> u32 \<Rightarrow> u8 \<Rightarrow> cap_sys \<Rightarrow> (status \<times> cap_sys) option" where
  "cap_mint_for_memory_region cspace_root s mem_region_id access_rights st =
     (if access_rights = 0 then Some (Err EINVAL, st)
      else (let r0 = CAP_RIGHT_READ;
                r1 = (if access_rights AND 2 \<noteq> 0 then r0 OR CAP_RIGHT_WRITE else r0);
                r2 = (if access_rights AND 4 \<noteq> 0 then r1 OR CAP_RIGHT_EXECUTE else r1)
            in cap_mint cspace_root s KOBJ_MEMORY_REGION mem_region_id r2 0 st))"

section \<open>Move, delete, revoke\<close>

text \<open>\<^verbatim>\<open>cap_from_sibling\<close>: the descriptor around a sibling node; no other node lies in a descriptor at
  that offset.\<close>

definition cap_from_sibling :: "cap_node \<Rightarrow> (nat \<times> u32) option" where
  "cap_from_sibling pos = (case pos of Sibling c s \<Rightarrow> Some (c, s) | _ \<Rightarrow> None)"

definition clear_cap :: "nat \<Rightarrow> u32 \<Rightarrow> cap_sys \<Rightarrow> cap_sys" where
  "clear_cap c s st =
     upd_links (\<lambda>h. INIT_LIST_HEAD (Some (Sibling c s)) (INIT_LIST_HEAD (Some (Children c s)) h))
       (upd_cap c s (\<lambda>cap. cap\<lparr>c_state := CAP_STATE_FREE, c_parent := CAP_SLOT_INVALID\<rparr>)
         (memset_cap c s st))"

definition reparent_body :: "u32 \<Rightarrow> cap_node \<Rightarrow> cap_sys \<Rightarrow> (bool \<times> cap_sys) option" where
  "reparent_body parent pos st = do {
     (c, s) \<leftarrow> cap_from_sibling pos;
     Some (False, upd_cap c s (\<lambda>cap. cap\<lparr>c_parent := parent\<rparr>) st)
   }"

definition cap_move :: "u32 \<Rightarrow> u32 \<Rightarrow> u32 \<Rightarrow> u32 \<Rightarrow> cap_sys \<Rightarrow> (status \<times> cap_sys) option" where
  "cap_move src_cspace src_slot dest_cspace dest_slot st =
     (if src_cspace = CAP_SLOT_INVALID \<or> src_slot = CAP_SLOT_INVALID then Some (Err EINVAL, st)
      else if dest_cspace = CAP_SLOT_INVALID \<or> dest_slot = CAP_SLOT_INVALID then Some (Err EINVAL, st)
      else do {
        src_cs \<leftarrow> cspace_from_root src_cspace st;
        case src_cs of None \<Rightarrow> Some (Err EINVAL, st) | Some c \<Rightarrow> do {
        dst_cs \<leftarrow> cspace_from_root dest_cspace st;
        case dst_cs of
          None \<Rightarrow> Some (Err EINVAL, st)
        | Some d \<Rightarrow>
            (case cspace_lookup (Some c) src_slot st of
               None \<Rightarrow> Some (Err ENOENT, st)
             | Some (c, s) \<Rightarrow>
                (let src_cap = cap_table st c s
                 in if c_state src_cap \<noteq> CAP_STATE_VALID then Some (Err ENOENT, st)
                    else if c_rights src_cap AND CAP_RIGHT_GRANT = CAP_RIGHT_NONE then Some (Err EACCES, st)
                    else case cap_insert_locked d dest_slot (c_type src_cap) (c_kobj src_cap)
                                (c_rights src_cap) (c_badge src_cap) (c_parent src_cap) st of
                        (Err e, st1) \<Rightarrow> Some (Err e, st1)
                      | (KERNEL_OK, st1) \<Rightarrow> do {
                          h \<leftarrow> (if \<not> list_empty (Some (Children c s)) (links st1)
                               then list_splice (Some (Children c s)) (Some (Children d dest_slot)) (links st1)
                               else Some (links st1));
                          let st2 = st1\<lparr>links := h\<rparr>;
                          st3 \<leftarrow> list_for_each_safe links (reparent_body dest_slot) (Children d dest_slot)
                                  (lh_next (links st2 (Children d dest_slot))) st2;
                          let st4 = (if c_parent (cap_table st3 c s) \<noteq> CAP_SLOT_INVALID
                                     then upd_links (list_del_init (Some (Sibling c s))) st3 else st3);
                          Some (KERNEL_OK, clear_cap c s st4)
                        }))
      }})"

definition orphan_body :: "cap_node \<Rightarrow> cap_sys \<Rightarrow> (bool \<times> cap_sys) option" where
  "orphan_body pos st = do {
     (c, s) \<leftarrow> cap_from_sibling pos;
     Some (False, upd_links (list_del_init (Some (Sibling c s)))
                    (upd_cap c s (\<lambda>cap. cap\<lparr>c_parent := CAP_SLOT_INVALID\<rparr>) st))
   }"

definition cap_delete :: "u32 \<Rightarrow> u32 \<Rightarrow> cap_sys \<Rightarrow> (status \<times> cap_sys) option" where
  "cap_delete cspace_root slot st =
     (if cspace_root = CAP_SLOT_INVALID \<or> slot = CAP_SLOT_INVALID then Some (Err EINVAL, st)
      else do {
        cs \<leftarrow> cspace_from_root cspace_root st;
        case cs of
          None \<Rightarrow> Some (Err EINVAL, st)
        | Some c \<Rightarrow>
           (case cspace_lookup (Some c) slot st of
              None \<Rightarrow> Some (Err ENOENT, st)
            | Some (c, s) \<Rightarrow> do {
                let st1 = (if c_parent (cap_table st c s) \<noteq> CAP_SLOT_INVALID
                           then upd_links (list_del_init (Some (Sibling c s))) st else st);
                st2 \<leftarrow> list_for_each_safe links orphan_body (Children c s)
                        (lh_next (links st1 (Children c s))) st1;
                Some (KERNEL_OK, clear_cap c s st2)
              })
      })"

text \<open>
  The explicit stack of \<^verbatim>\<open>cap_revoke\<close> is a list with its top first; it holds at most
  \<^verbatim>\<open>REVOKE_STACK_SIZE = CONFIG_MAX_CSPACES * 4\<close> slots.  A full stack sets the overflow flag and leaves the child loop.
\<close>

abbreviation REVOKE_STACK_SIZE :: nat where "REVOKE_STACK_SIZE \<equiv> CONFIG_MAX_CSPACES * 4"

definition revoke_push_body ::
  "nat \<Rightarrow> cap_node \<Rightarrow> u32 list \<times> bool \<Rightarrow> (bool \<times> (u32 list \<times> bool)) option" where
  "revoke_push_body c pos = (\<lambda>(stack, overflow). do {
     (c', child_idx) \<leftarrow> cap_from_sibling pos;
     if length stack < REVOKE_STACK_SIZE then
       (if c' = c then Some (False, (child_idx # stack, overflow)) else None)
     else Some (True, (stack, True))
   })"

definition revoke_free :: "nat \<Rightarrow> u32 \<Rightarrow> cap_sys \<Rightarrow> cap_sys" where
  "revoke_free c cur_slot st =
     (let st1 = upd_links (\<lambda>h. INIT_LIST_HEAD (Some (Children c cur_slot))
                                (list_del_init (Some (Sibling c cur_slot)) h)) st;
          st2 = clear_cap c cur_slot st1;
          st3 = upd_links (set_next (Sibling c cur_slot) (free_link c (free_head (cs_of st2 c)))) st2
      in upd_cs c (\<lambda>cs. cs\<lparr>free_head := cur_slot,
           used_count := (if used_count cs > 0 then used_count cs - 1 else used_count cs)\<rparr>) st3)"

partial_function (option) revoke_loop ::
  "nat \<Rightarrow> u32 list \<Rightarrow> bool \<Rightarrow> cap_sys \<Rightarrow> (bool \<times> cap_sys) option" where
  "revoke_loop c stack overflow st =
     (case stack of
        [] \<Rightarrow> Some (overflow, st)
      | cur_slot # rest \<Rightarrow>
         (if cspace_lookup (Some c) cur_slot st = None then revoke_loop c rest overflow st
          else Option.bind (list_for_each_safe (\<lambda>_. links st) (revoke_push_body c) (Children c cur_slot)
                  (lh_next (links st (Children c cur_slot))) (rest, overflow))
                (\<lambda>(stack', overflow'). revoke_loop c stack' overflow' (revoke_free c cur_slot st))))"

declare revoke_loop.simps [code]

definition cap_revoke :: "u32 \<Rightarrow> u32 \<Rightarrow> cap_sys \<Rightarrow> (status \<times> cap_sys) option" where
  "cap_revoke cspace_root slot st =
     (if cspace_root = CAP_SLOT_INVALID \<or> slot = CAP_SLOT_INVALID then Some (Err EINVAL, st)
      else do {
        cs \<leftarrow> cspace_from_root cspace_root st;
        case cs of
          None \<Rightarrow> Some (Err EINVAL, st)
        | Some c \<Rightarrow>
           (case cspace_lookup (Some c) slot st of
              None \<Rightarrow> Some (Err ENOENT, st)
            | Some (c, s) \<Rightarrow>
               if c_state (cap_table st c s) \<noteq> CAP_STATE_VALID then Some (Err ENOENT, st)
               else if c_rights (cap_table st c s) AND CAP_RIGHT_REVOKE = CAP_RIGHT_NONE
               then Some (Err EACCES, st)
               else do {
                 (overflow, st1) \<leftarrow> revoke_loop c [slot] False st;
                 Some (if overflow then Err ENOMEM else KERNEL_OK, st1)
               })
      })"

section \<open>Queries and badge\<close>

definition cap_validate :: "u32 \<Rightarrow> u32 \<Rightarrow> u8 \<Rightarrow> cap_sys \<Rightarrow> (errno + (nat \<times> u32)) option" where
  "cap_validate cspace_root slot required_rights st =
     (if cspace_root = CAP_SLOT_INVALID \<or> slot = CAP_SLOT_INVALID then Some (Inl EINVAL)
      else do {
        cs \<leftarrow> cspace_from_root cspace_root st;
        Some (case cs of
            None \<Rightarrow> Inl EINVAL
          | Some c \<Rightarrow>
             (case cspace_lookup (Some c) slot st of
                None \<Rightarrow> Inl ENOENT
              | Some (c, s) \<Rightarrow>
                 if c_state (cap_table st c s) \<noteq> CAP_STATE_VALID then Inl ENOENT
                 else if c_rights (cap_table st c s) AND required_rights \<noteq> required_rights then Inl EACCES
                 else Inr (c, s)))
      })"

definition cap_get_object_type :: "u32 \<Rightarrow> u32 \<Rightarrow> cap_sys \<Rightarrow> u32 option" where
  "cap_get_object_type cspace_root slot st =
     (if cspace_root = CAP_SLOT_INVALID \<or> slot = CAP_SLOT_INVALID then Some KOBJ_TYPE_COUNT
      else do {
        cs \<leftarrow> cspace_from_root cspace_root st;
        Some (case cs of
            None \<Rightarrow> KOBJ_TYPE_COUNT
          | Some c \<Rightarrow>
             (case cspace_lookup (Some c) slot st of
                None \<Rightarrow> KOBJ_TYPE_COUNT
              | Some (c, s) \<Rightarrow>
                 if c_state (cap_table st c s) \<noteq> CAP_STATE_VALID then KOBJ_TYPE_COUNT
                 else c_type (cap_table st c s)))
      })"

definition cap_badge_update :: "u32 \<Rightarrow> u32 \<Rightarrow> u16 \<Rightarrow> cap_sys \<Rightarrow> (status \<times> cap_sys) option" where
  "cap_badge_update cspace_root slot new_badge st =
     (if cspace_root = CAP_SLOT_INVALID \<or> slot = CAP_SLOT_INVALID then Some (Err EINVAL, st)
      else do {
        cs \<leftarrow> cspace_from_root cspace_root st;
        Some (case cs of
            None \<Rightarrow> (Err EINVAL, st)
          | Some c \<Rightarrow>
             (case cspace_lookup (Some c) slot st of
                None \<Rightarrow> (Err ENOENT, st)
              | Some (c, s) \<Rightarrow>
                 if c_state (cap_table st c s) \<noteq> CAP_STATE_VALID then (Err ENOENT, st)
                 else if c_rights (cap_table st c s) AND CAP_RIGHT_WRITE = CAP_RIGHT_NONE then (Err EACCES, st)
                 else (KERNEL_OK, upd_cap c s (\<lambda>cap. cap\<lparr>c_badge := new_badge\<rparr>) st)))
      })"

definition cap_rights_derive_check :: "u32 \<Rightarrow> u32 \<Rightarrow> u8 \<Rightarrow> cap_sys \<Rightarrow> status option" where
  "cap_rights_derive_check cspace_root slot request_rights st =
     (if cspace_root = CAP_SLOT_INVALID \<or> slot = CAP_SLOT_INVALID then Some (Err EINVAL)
      else do {
        cs \<leftarrow> cspace_from_root cspace_root st;
        Some (case cs of
            None \<Rightarrow> Err EINVAL
          | Some c \<Rightarrow>
             (case cspace_lookup (Some c) slot st of
                None \<Rightarrow> Err ENOENT
              | Some (c, s) \<Rightarrow>
                 if c_state (cap_table st c s) \<noteq> CAP_STATE_VALID then Err ENOENT
                 else if c_rights (cap_table st c s) AND CAP_RIGHT_GRANT = CAP_RIGHT_NONE then Err EACCES
                 else if request_rights AND c_rights (cap_table st c s) \<noteq> request_rights then Err EACCES
                 else KERNEL_OK))
      })"

record cap_info_t =
  info_obj_type :: u32
  info_rights :: u8
  info_badge :: u16
  info_obj_id :: u32
  info_state :: cap_state
  info_child_count :: u32

definition cap_get_info :: "u32 \<Rightarrow> u32 \<Rightarrow> cap_sys \<Rightarrow> (errno + cap_info_t) option" where
  "cap_get_info cspace_root slot st =
     (if cspace_root = CAP_SLOT_INVALID \<or> slot = CAP_SLOT_INVALID then Some (Inl EINVAL)
      else do {
        cs \<leftarrow> cspace_from_root cspace_root st;
        case cs of
          None \<Rightarrow> Some (Inl EINVAL)
        | Some c \<Rightarrow>
           (case cspace_lookup (Some c) slot st of
              None \<Rightarrow> Some (Inl ENOENT)
            | Some (c, s) \<Rightarrow> do {
                n \<leftarrow> list_count_nodes (Some (Children c s)) (links st);
                let cap = cap_table st c s;
                Some (Inr \<lparr>info_obj_type = c_type cap, info_rights = c_rights cap,
                  info_badge = c_badge cap, info_obj_id = c_kobj cap, info_state = c_state cap,
                  info_child_count = n\<rparr>)
              })
      })"

definition cap_migrate_context :: "u32 \<Rightarrow> u32 \<Rightarrow> u32 \<Rightarrow> status" where
  "cap_migrate_context thread_id old_cpu new_cpu =
     (if thread_id \<ge> CONFIG_MAX_THREADS then Err EINVAL else KERNEL_OK)"

section \<open>Integrity self-check\<close>

record cap_integrity_result =
  total_caps :: u32
  passed_checks :: u32
  failed_checks :: u32

text \<open>The check on the children of slot \<open>i\<close>; the state of the loop is the failure counter.\<close>

definition integrity_child_body ::
  "cap_sys \<Rightarrow> nat \<Rightarrow> u32 \<Rightarrow> cap_node \<Rightarrow> u32 \<Rightarrow> (bool \<times> u32) option" where
  "integrity_child_body st c i pos failed = do {
     (c', child_idx) \<leftarrow> cap_from_sibling pos;
     if c' \<noteq> c then None
     else if c_parent (cap_table st c' child_idx) \<noteq> child_idx \<and> c_parent (cap_table st c' child_idx) \<noteq> i
     then Some (True, failed + 1)
     else Some (False, failed)
   }"

definition integrity_slot :: "cap_sys \<Rightarrow> nat \<Rightarrow> u32 \<Rightarrow> u32 \<times> u32 \<Rightarrow> (u32 \<times> u32) option" where
  "integrity_slot st c i = (\<lambda>(total, failed).
     (let cap = cap_table st c i;
          parent = cap_table st c (c_parent cap);
          bad = Some (total + 1, failed + 1)
      in if c_state cap \<noteq> CAP_STATE_VALID then Some (total, failed)
         else if c_parent cap \<noteq> CAP_SLOT_INVALID \<and>
                 (c_parent cap \<ge> capacity (cs_of st c) \<or>
                  c_state parent \<noteq> CAP_STATE_VALID \<or>
                  unat (c_depth cap) \<noteq> unat (c_depth parent) + 1 \<or>
                  c_rights cap AND c_rights parent \<noteq> c_rights cap) then bad
         else if c_parent cap = CAP_SLOT_INVALID \<and> c_depth cap \<noteq> 0 then bad
         else if cap_validate_rights_for_type (c_type cap) (c_rights cap) \<noteq> KERNEL_OK then bad
         else do {
           failed' \<leftarrow> list_for_each_safe (\<lambda>_. links st) (integrity_child_body st c i) (Children c i)
                       (lh_next (links st (Children c i))) failed;
           Some (total + 1, failed')
         }))"

fun integrity_slots :: "cap_sys \<Rightarrow> nat \<Rightarrow> u32 list \<Rightarrow> u32 \<times> u32 \<Rightarrow> (u32 \<times> u32) option" where
  "integrity_slots st c [] acc = Some acc"
| "integrity_slots st c (i # is) acc =
     Option.bind (integrity_slot st c i acc) (integrity_slots st c is)"

definition cap_integrity_check :: "u32 \<Rightarrow> cap_sys \<Rightarrow> (errno + cap_integrity_result) option" where
  "cap_integrity_check cspace_root st =
     (if cspace_root = CAP_SLOT_INVALID then Some (Inl EINVAL)
      else do {
        cs \<leftarrow> cspace_from_root cspace_root st;
        case cs of
          None \<Rightarrow> Some (Inl EINVAL)
        | Some c \<Rightarrow> do {
            (total, failed) \<leftarrow> integrity_slots st c (slots_from 0 (capacity (cs_of st c))) (0, 0);
            Some (Inr \<lparr>total_caps = total, passed_checks = total - failed, failed_checks = failed\<rparr>)
          }
      })"

end
