(* ===== verification/Cap_Tree.thy ===== *)
theory Cap_Tree
  imports Capability
begin

text \<open>
  The derivation forest of one CSpace.  \<open>tree_inv st c kids\<close> says that the table of CSpace \<open>c\<close> is well formed:
  every valid capability has rights legal for its object type and a depth of at most
  \<^verbatim>\<open>CAP_MAX_DERIVE_DEPTH\<close>; its parent, if it has one, is a valid capability of the same table with a smaller
  depth; and the ring of its \<^verbatim>\<open>children\<close> head links exactly the valid capabilities that name it as parent, in the order
  \<open>kids\<close> gives.  \<open>rights_mono\<close> adds that no capability has a right its parent lacks.
  The free list plays no part: the forest does not depend on it.
\<close>

section \<open>Invariant\<close>

definition valid_slot :: "cap_sys \<Rightarrow> nat \<Rightarrow> u32 \<Rightarrow> bool" where
  "valid_slot st c s \<longleftrightarrow> s < capacity (cs_of st c) \<and> c_state (cap_table st c s) = CAP_STATE_VALID"

lemma cspace_lookup_valid:
  "cspace_lookup (Some c) s st = (if valid_slot st c s then Some (c, s) else None)"
  by (auto simp: cspace_lookup_def valid_slot_def)

definition cap_data_ok :: "cap_sys \<Rightarrow> nat \<Rightarrow> u32 \<Rightarrow> bool" where
  "cap_data_ok st c s \<longleftrightarrow>
     (let cap = cap_table st c s in
      cap_validate_rights_for_type (c_type cap) (c_rights cap) = KERNEL_OK \<and>
      c_depth cap \<le> CAP_MAX_DERIVE_DEPTH \<and>
      (c_parent cap \<noteq> CAP_SLOT_INVALID \<longrightarrow>
         valid_slot st c (c_parent cap) \<and> c_depth (cap_table st c (c_parent cap)) < c_depth cap))"

definition cap_links_ok :: "cap_sys \<Rightarrow> nat \<Rightarrow> (u32 \<Rightarrow> u32 list) \<Rightarrow> u32 \<Rightarrow> bool" where
  "cap_links_ok st c kids s \<longleftrightarrow>
     dll (links st) (Children c s) (map (Sibling c) (kids s)) \<and>
     (\<forall>x. x \<in> set (kids s) \<longleftrightarrow> valid_slot st c x \<and> c_parent (cap_table st c x) = s) \<and>
     (c_parent (cap_table st c s) = CAP_SLOT_INVALID \<longrightarrow> dll (links st) (Sibling c s) [])"

definition tree_inv :: "cap_sys \<Rightarrow> nat \<Rightarrow> (u32 \<Rightarrow> u32 list) \<Rightarrow> bool" where
  "tree_inv st c kids \<longleftrightarrow>
     capacity (cs_of st c) \<le> CSPACE_MAX_CAPACITY \<and>
     (\<forall>s. valid_slot st c s \<longrightarrow> cap_data_ok st c s \<and> cap_links_ok st c kids s)"

definition rights_mono :: "cap_sys \<Rightarrow> nat \<Rightarrow> bool" where
  "rights_mono st c \<longleftrightarrow>
     (\<forall>s. valid_slot st c s \<longrightarrow> c_parent (cap_table st c s) \<noteq> CAP_SLOT_INVALID \<longrightarrow>
        rights_le (c_rights (cap_table st c s)) (c_rights (cap_table st c (c_parent (cap_table st c s)))))"

definition cap_inv :: "cap_sys \<Rightarrow> nat \<Rightarrow> bool" where
  "cap_inv st c \<longleftrightarrow> (\<exists>kids. tree_inv st c kids) \<and> rights_mono st c"

text \<open>The link nodes that lie in the table of CSpace \<open>c\<close>.\<close>

definition table_node :: "nat \<Rightarrow> cap_node \<Rightarrow> bool" where
  "table_node c n \<longleftrightarrow> (\<exists>s. n = Children c s \<or> n = Sibling c s)"

lemma table_node_simps [simp]:
  "table_node c (Children d s) \<longleftrightarrow> d = c" "table_node c (Sibling d s) \<longleftrightarrow> d = c"
  by (auto simp: table_node_def)

lemma node_image_simps [simp]:
  "Children c s \<notin> Sibling d ` X"
  "Sibling c s \<in> Sibling d ` X \<longleftrightarrow> c = d \<and> s \<in> X"
  by auto

text \<open>The free list from slot \<open>a\<close> runs through \<open>xs\<close> and goes on at \<open>b\<close>.\<close>

fun free_seg :: "cap_node heap \<Rightarrow> nat \<Rightarrow> u32 \<Rightarrow> u32 list \<Rightarrow> u32 \<Rightarrow> bool" where
  "free_seg h c a [] b \<longleftrightarrow> a = b"
| "free_seg h c a (x # xs) b \<longleftrightarrow>
     a = x \<and> (\<exists>y. lh_next (h (Sibling c x)) = free_link c y \<and> free_seg h c y xs b)"

lemma free_seg_cong:
  "free_seg h c a xs b \<Longrightarrow> (\<And>x. x \<in> set xs \<Longrightarrow> h' (Sibling c x) = h (Sibling c x)) \<Longrightarrow> free_seg h' c a xs b"
  by (induction xs arbitrary: a) auto

lemma free_seg_append:
  "free_seg h c a (xs @ ys) b \<longleftrightarrow> (\<exists>m. free_seg h c a xs m \<and> free_seg h c m ys b)"
  by (induction xs arbitrary: a) auto

section \<open>Consequences\<close>

lemma tree_invD:
  assumes "tree_inv st c kids" and "valid_slot st c s"
  shows "cap_data_ok st c s" and "cap_links_ok st c kids s"
  using assms by (auto simp: tree_inv_def)

lemma not_valid_INVALID [simp]:
  "tree_inv st c kids \<Longrightarrow> \<not> valid_slot st c CAP_SLOT_INVALID"
  by (auto simp: tree_inv_def valid_slot_def dest: order.strict_trans2)

lemma kids_ring: "tree_inv st c kids \<Longrightarrow> valid_slot st c s \<Longrightarrow>
    dll (links st) (Children c s) (map (Sibling c) (kids s))"
  using tree_invD(2) by (auto simp: cap_links_ok_def)

lemma kids_iff: "tree_inv st c kids \<Longrightarrow> valid_slot st c s \<Longrightarrow>
    x \<in> set (kids s) \<longleftrightarrow> valid_slot st c x \<and> c_parent (cap_table st c x) = s"
  using tree_invD(2) by (auto simp: cap_links_ok_def)

lemma kids_distinct: "tree_inv st c kids \<Longrightarrow> valid_slot st c s \<Longrightarrow> distinct (kids s)"
  using kids_ring by (fastforce simp: dll_def distinct_map)

lemma root_ring: "tree_inv st c kids \<Longrightarrow> valid_slot st c s \<Longrightarrow>
    c_parent (cap_table st c s) = CAP_SLOT_INVALID \<Longrightarrow> dll (links st) (Sibling c s) []"
  using tree_invD(2) by (auto simp: cap_links_ok_def)

lemma parent_valid: "tree_inv st c kids \<Longrightarrow> valid_slot st c s \<Longrightarrow>
    c_parent (cap_table st c s) \<noteq> CAP_SLOT_INVALID \<Longrightarrow> valid_slot st c (c_parent (cap_table st c s))"
  using tree_invD(1) by (auto simp: cap_data_ok_def Let_def)

lemma parent_depth: "tree_inv st c kids \<Longrightarrow> valid_slot st c s \<Longrightarrow>
    c_parent (cap_table st c s) \<noteq> CAP_SLOT_INVALID \<Longrightarrow>
    c_depth (cap_table st c (c_parent (cap_table st c s))) < c_depth (cap_table st c s)"
  using tree_invD(1) by (auto simp: cap_data_ok_def Let_def)

lemma parent_neq: "tree_inv st c kids \<Longrightarrow> valid_slot st c s \<Longrightarrow> c_parent (cap_table st c s) \<noteq> s"
  using parent_depth not_valid_INVALID by (metis less_irrefl)

lemmas tree_facts = kids_ring kids_iff kids_distinct root_ring parent_valid parent_depth parent_neq

text \<open>The invariant of one CSpace only reads its own table.\<close>

lemma tree_inv_cong:
  assumes "tree_inv st c kids"
    and "capacity (cs_of st' c) = capacity (cs_of st c)" and "cap_table st' c = cap_table st c"
    and lk: "\<And>n. table_node c n \<Longrightarrow> links st' n = links st n"
  shows "tree_inv st' c kids"
proof -
  have v: "valid_slot st' c = valid_slot st c"
    using assms by (auto simp: valid_slot_def fun_eq_iff)
  have ring: "dll (links st') (Children c s) (map (Sibling c) ks)
      = dll (links st) (Children c s) (map (Sibling c) ks)" for s ks
    by (rule dll_cong) (auto simp: lk)
  have self: "dll (links st') (Sibling c s) [] = dll (links st) (Sibling c s) []" for s
    by (rule dll_cong) (auto simp: lk)
  show ?thesis
    using assms(1-3) by (simp add: tree_inv_def cap_data_ok_def cap_links_ok_def v ring self)
qed

lemma rights_mono_cong:
  "capacity (cs_of st' c) = capacity (cs_of st c) \<Longrightarrow> cap_table st' c = cap_table st c \<Longrightarrow>
   rights_mono st' c = rights_mono st c"
  by (simp add: rights_mono_def valid_slot_def)

lemma cap_inv_cong:
  assumes "cap_inv st c"
    and "capacity (cs_of st' c) = capacity (cs_of st c)" and "cap_table st' c = cap_table st c"
    and "\<And>n. table_node c n \<Longrightarrow> links st' n = links st n"
  shows "cap_inv st' c"
  using assms tree_inv_cong[of st c _ st'] rights_mono_cong[of st' c st] unfolding cap_inv_def by blast

section \<open>Insertion\<close>

lemma cap_insert_locked_fail:
  "cap_insert_locked c s t k r b p st = (Err e, st') \<Longrightarrow> st' = st"
  by (auto simp: cap_insert_locked_def Let_def split: if_splits)

definition inserted_cap :: "cap_sys \<Rightarrow> nat \<Rightarrow> u32 \<Rightarrow> u32 \<Rightarrow> u32 \<Rightarrow> u8 \<Rightarrow> u16 \<Rightarrow> u32 \<Rightarrow> cap_t" where
  "inserted_cap st c s t k r b p = (cap_table st c s)\<lparr>c_state := CAP_STATE_VALID, c_type := t,
     c_rights := r, c_badge := b, c_kobj := k, c_parent := p, c_root := root_slot (cs_of st c),
     c_depth := (if p = CAP_SLOT_INVALID then 0 else c_depth (cap_table st c p) + 1)\<rparr>"

lemma cap_insert_locked_OK:
  assumes "cap_insert_locked c s t k r b p st = (KERNEL_OK, st')"
  shows "s < capacity (cs_of st c)" and "c_state (cap_table st c s) = CAP_STATE_FREE"
    and "cap_validate_rights_for_type t r = KERNEL_OK"
    and "p \<noteq> CAP_SLOT_INVALID \<Longrightarrow> valid_slot st c p \<and> c_depth (cap_table st c p) < CAP_MAX_DERIVE_DEPTH"
    and "s_cspace_pool st' = (s_cspace_pool st)(c := (cs_of st c)\<lparr>used_count := used_count (cs_of st c) + 1\<rparr>)"
    and "cap_table st' = (cap_table st)(c := (cap_table st c)(s := inserted_cap st c s t k r b p))"
    and "links st' = (if p \<noteq> CAP_SLOT_INVALID
           then list_add_tail (Some (Sibling c s)) (Some (Children c p)) else (\<lambda>h. h))
         (INIT_LIST_HEAD (Some (Sibling c s)) (INIT_LIST_HEAD (Some (Children c s)) (links st)))"
  using assms
  by (auto simp: cap_insert_locked_def inserted_cap_def valid_slot_def Let_def split: if_splits)

definition kids_insert :: "u32 \<Rightarrow> u32 \<Rightarrow> (u32 \<Rightarrow> u32 list) \<Rightarrow> u32 \<Rightarrow> u32 list" where
  "kids_insert s p kids = (if p \<noteq> CAP_SLOT_INVALID then kids(s := [], p := kids p @ [s]) else kids(s := []))"

lemma depth_Suc: "(d :: u8) < 8 \<Longrightarrow> d < d + 1 \<and> d + 1 \<le> 8"
  by unat_arith auto

lemma valid_slot_insert:
  assumes "cap_insert_locked c s t k r b p st = (KERNEL_OK, st')"
  shows "valid_slot st' c x \<longleftrightarrow> x = s \<or> valid_slot st c x" and "\<not> valid_slot st c s"
  using cap_insert_locked_OK [OF assms] by (auto simp: valid_slot_def inserted_cap_def)

lemma cap_data_ok_insert:
  assumes inv: "tree_inv st c kids"
    and ins: "cap_insert_locked c s t k r b p st = (KERNEL_OK, st')"
    and v: "valid_slot st' c x"
  shows "cap_data_ok st' c x"
proof (cases "x = s")
  case True
  have "p \<noteq> CAP_SLOT_INVALID \<Longrightarrow> p \<noteq> s"
    using cap_insert_locked_OK(4) [OF ins] valid_slot_insert(2) [OF ins] by auto
  then show ?thesis
    using True cap_insert_locked_OK [OF ins] valid_slot_insert(1) [OF ins] depth_Suc
    by (auto simp: cap_data_ok_def inserted_cap_def)
next
  case False
  then have vx: "valid_slot st c x" using v valid_slot_insert [OF ins] by simp
  then have "c_parent (cap_table st c x) \<noteq> CAP_SLOT_INVALID \<Longrightarrow> c_parent (cap_table st c x) \<noteq> s"
    using parent_valid [OF inv] valid_slot_insert(2) [OF ins] by metis
  then show ?thesis
    using False tree_invD(1) [OF inv vx] cap_insert_locked_OK(6) [OF ins] valid_slot_insert [OF ins]
    by (auto simp: cap_data_ok_def Let_def)
qed

lemma links_insert:
  assumes inv: "tree_inv st c kids"
    and ins: "cap_insert_locked c s t k r b p st = (KERNEL_OK, st')"
  shows "dll (links st') (Children c s) []"
    and "p = CAP_SLOT_INVALID \<Longrightarrow> dll (links st') (Sibling c s) []"
    and "p \<noteq> CAP_SLOT_INVALID \<Longrightarrow> dll (links st') (Children c p) (map (Sibling c) (kids p @ [s]))"
    and "\<And>n. n \<noteq> Children c s \<Longrightarrow> n \<noteq> Sibling c s \<Longrightarrow>
          (p \<noteq> CAP_SLOT_INVALID \<longrightarrow> n \<notin> set (Children c p # map (Sibling c) (kids p))) \<Longrightarrow>
          links st' n = links st n"
proof -
  define h where "h = INIT_LIST_HEAD (Some (Sibling c s)) (INIT_LIST_HEAD (Some (Children c s)) (links st))"
  have other: "h n = links st n" if "n \<noteq> Children c s" "n \<noteq> Sibling c s" for n
    using that by (simp add: h_def)
  have l: "links st' = (if p \<noteq> CAP_SLOT_INVALID
             then list_add_tail (Some (Sibling c s)) (Some (Children c p)) else (\<lambda>h. h)) h"
    using cap_insert_locked_OK(7) [OF ins] by (simp add: h_def)
  have own: "dll h (Children c s) []" "dll h (Sibling c s) []"
    by (auto simp: h_def dll_def INIT_LIST_HEAD_def)
  have ring: "dll h (Children c p) (map (Sibling c) (kids p)) \<and> p \<noteq> s \<and> s \<notin> set (kids p)"
    if "p \<noteq> CAP_SLOT_INVALID"
  proof -
    have vp: "valid_slot st c p" using cap_insert_locked_OK(4) [OF ins] that by simp
    then have "p \<noteq> s" "s \<notin> set (kids p)" using valid_slot_insert(2) [OF ins] kids_iff [OF inv] by auto
    moreover have "dll h (Children c p) (map (Sibling c) (kids p))"
      using calculation by (intro dll_frame [OF kids_ring [OF inv vp]]) (auto intro!: other)
    ultimately show ?thesis by simp
  qed
  have touched: "list_add_tail (Some (Sibling c s)) (Some (Children c p)) h n = h n"
    if "p \<noteq> CAP_SLOT_INVALID" "n \<notin> set (Children c p # map (Sibling c) (kids p))" "n \<noteq> Sibling c s" for n
    using ring that by (intro list_add_tail_untouched) auto
  show "dll (links st') (Children c s) []"
    using ring touched [of "Children c s"] by (auto simp: l intro!: dll_frame [OF own(1)])
  show "p = CAP_SLOT_INVALID \<Longrightarrow> dll (links st') (Sibling c s) []" using own by (simp add: l)
  show "dll (links st') (Children c p) (map (Sibling c) (kids p @ [s]))" if "p \<noteq> CAP_SLOT_INVALID"
    using that ring dll_list_add_tail [of h "Children c p" _ "Sibling c s"] by (auto simp: l)
  show "links st' n = links st n" if "n \<noteq> Children c s" "n \<noteq> Sibling c s"
      "p \<noteq> CAP_SLOT_INVALID \<longrightarrow> n \<notin> set (Children c p # map (Sibling c) (kids p))" for n
    using that ring touched other by (auto simp: l)
qed

lemma cap_links_ok_insert:
  assumes inv: "tree_inv st c kids"
    and ins: "cap_insert_locked c s t k r b p st = (KERNEL_OK, st')"
    and v: "valid_slot st' c x"
  shows "cap_links_ok st' c (kids_insert s p kids) x"
proof -
  have nv: "\<not> valid_slot st c s" using valid_slot_insert [OF ins] by simp
  have vp: "p \<noteq> CAP_SLOT_INVALID \<Longrightarrow> valid_slot st c p" using cap_insert_locked_OK(4) [OF ins] by simp
  have ns: "s \<noteq> CAP_SLOT_INVALID"
    using inv cap_insert_locked_OK(1) [OF ins] by (auto simp: tree_inv_def dest: order.strict_trans2)
  have par: "c_parent (cap_table st' c y) = (if y = s then p else c_parent (cap_table st c y))" for y
    using cap_insert_locked_OK(6) [OF ins] by (simp add: inserted_cap_def)
  have ring: "dll (links st') (Children c x) (map (Sibling c) (kids_insert s p kids x))"
  proof (cases "x = s \<or> x = p \<and> p \<noteq> CAP_SLOT_INVALID")
    case True
    then show ?thesis using links_insert [OF inv ins] vp nv by (auto simp: kids_insert_def)
  next
    case False
    then have vx: "valid_slot st c x" using v valid_slot_insert [OF ins] by simp
    have "dll (links st') (Children c x) (map (Sibling c) (kids x))"
      using False vx vp nv kids_iff [OF inv]
      by (intro dll_frame [OF kids_ring [OF inv vx]] links_insert(4) [OF inv ins]) auto
    with False show ?thesis by (simp add: kids_insert_def)
  qed
  have mem: "y \<in> set (kids_insert s p kids x) \<longleftrightarrow> valid_slot st' c y \<and> c_parent (cap_table st' c y) = x" for y
    using v nv vp ns not_valid_INVALID [OF inv] valid_slot_insert(1) [OF ins] kids_iff [OF inv, of x y] parent_valid [OF inv, of y]
    by (auto simp: kids_insert_def par)
  have root: "dll (links st') (Sibling c x) []" if "c_parent (cap_table st' c x) = CAP_SLOT_INVALID"
  proof (cases "x = s")
    case True
    with that show ?thesis using links_insert(2) [OF inv ins] by (simp add: par)
  next
    case False
    then have vx: "valid_slot st c x" using v valid_slot_insert [OF ins] by simp
    show ?thesis
      using False that vx vp kids_iff [OF inv, of p x]
      by (intro dll_frame [OF root_ring [OF inv vx]] links_insert(4) [OF inv ins]) (auto simp: par)
  qed
  show ?thesis using ring mem root by (simp add: cap_links_ok_def)
qed

theorem tree_inv_insert:
  assumes "tree_inv st c kids" and "cap_insert_locked c s t k r b p st = (KERNEL_OK, st')"
  shows "tree_inv st' c (kids_insert s p kids)"
proof -
  have "capacity (cs_of st' c) = capacity (cs_of st c)"
    using cap_insert_locked_OK(5) [OF assms(2)] by simp
  then show ?thesis
    using assms(1) cap_data_ok_insert [OF assms] cap_links_ok_insert [OF assms] by (simp add: tree_inv_def)
qed

lemma insert_other_tables:
  assumes "cap_insert_locked c s t k r b p st = (KERNEL_OK, st')" and "d \<noteq> c"
  shows "cs_of st' d = cs_of st d" and "cap_table st' d = cap_table st d"
  using assms(2) cap_insert_locked_OK(5,6) [OF assms(1)] by simp_all

lemma insert_other_nodes:
  assumes "tree_inv st c kids" and "cap_insert_locked c s t k r b p st = (KERNEL_OK, st')"
    and "\<not> table_node c n"
  shows "links st' n = links st n"
  using assms(3) by (intro links_insert(4) [OF assms(1,2)]) (auto simp: table_node_def)

lemma rights_mono_insert:
  assumes "tree_inv st c kids" and "rights_mono st c"
    and ins: "cap_insert_locked c s t k r b p st = (KERNEL_OK, st')"
    and "p \<noteq> CAP_SLOT_INVALID \<Longrightarrow> rights_le r (c_rights (cap_table st c p))"
  shows "rights_mono st' c"
  unfolding rights_mono_def
proof (intro allI impI)
  fix x assume v: "valid_slot st' c x" and p: "c_parent (cap_table st' c x) \<noteq> CAP_SLOT_INVALID"
  have nv: "\<not> valid_slot st c s" using valid_slot_insert [OF ins] by simp
  have tab: "cap_table st' c = (cap_table st c)(s := inserted_cap st c s t k r b p)"
    using cap_insert_locked_OK(6) [OF ins] by simp
  show "rights_le (c_rights (cap_table st' c x))
          (c_rights (cap_table st' c (c_parent (cap_table st' c x))))"
  proof (cases "x = s")
    case True
    then show ?thesis using assms(4) cap_insert_locked_OK(4) [OF ins] p nv
      by (auto simp: tab inserted_cap_def)
  next
    case False
    then have "valid_slot st c x" using v valid_slot_insert [OF ins] by simp
    with False p assms(2) parent_valid [OF assms(1)] nv show ?thesis
      by (auto simp: tab rights_mono_def)
  qed
qed

end
