(* ===== verification/Cap_Delete.thy ===== *)
theory Cap_Delete
  imports Cap_Tree
begin

text \<open>Deletion of one capability: its children become roots, the rest of the forest stays.\<close>

lemma unlink_sibling:
  assumes inv: "tree_inv st c kids" and v: "valid_slot st c s"
    and p: "p = c_parent (cap_table st c s)" "p \<noteq> CAP_SLOT_INVALID"
  shows "dll (list_del_init (Some (Sibling c s)) (links st)) (Children c p)
           (map (Sibling c) (remove1 s (kids p)))"
    and "dll (list_del_init (Some (Sibling c s)) (links st)) (Sibling c s) []"
    and "n \<notin> set (Children c p # map (Sibling c) (kids p)) \<Longrightarrow>
         list_del_init (Some (Sibling c s)) (links st) n = links st n"
proof -
  have vp: "valid_slot st c p" using parent_valid [OF inv v] p by simp
  have "s \<in> set (kids p)" using kids_iff [OF inv vp] v p by simp
  then obtain us vs where k: "kids p = us @ s # vs" and "s \<notin> set us"
    by (meson split_list_first)
  then have r: "remove1 s (kids p) = us @ vs" by (simp add: remove1_append)
  have ring: "dll (links st) (Children c p) (map (Sibling c) us @ Sibling c s # map (Sibling c) vs)"
    using kids_ring [OF inv vp] k by simp
  show "dll (list_del_init (Some (Sibling c s)) (links st)) (Children c p)
          (map (Sibling c) (remove1 s (kids p)))"
    using dll_list_del_init(1) [OF ring] r by simp
  show "dll (list_del_init (Some (Sibling c s)) (links st)) (Sibling c s) []"
    using dll_list_del_init(2) [OF ring] .
  show "list_del_init (Some (Sibling c s)) (links st) n = links st n"
    if "n \<notin> set (Children c p # map (Sibling c) (kids p))"
    using that k by (intro list_del_untouched(2) [OF ring]) auto
qed

text \<open>
  The child loop of \<^verbatim>\<open>cap_delete\<close>: every child loses its parent and leaves the ring.  \<open>us\<close> are the children
  already visited, \<open>vs\<close> the ones ahead.
\<close>

definition orphaned :: "cap_sys \<Rightarrow> nat \<Rightarrow> u32 \<Rightarrow> u32 list \<Rightarrow> u32 list \<Rightarrow> cap_sys \<Rightarrow> bool" where
  "orphaned st c s us vs st' \<longleftrightarrow>
     s_cspace_pool st' = s_cspace_pool st \<and>
     s_cspace_hash st' = s_cspace_hash st \<and> s_hash_nodes st' = s_hash_nodes st \<and>
     cap_table st' = (cap_table st)(c := (\<lambda>x. if x \<in> set us
        then (cap_table st c x)\<lparr>c_parent := CAP_SLOT_INVALID\<rparr> else cap_table st c x)) \<and>
     (\<forall>k\<in>set us. dll (links st') (Sibling c k) []) \<and>
     dll (links st') (Children c s) (map (Sibling c) vs) \<and>
     (\<forall>n. n \<notin> set (Children c s # map (Sibling c) (us @ vs)) \<longrightarrow> links st' n = links st n)"

lemma orphan_step:
  assumes o: "orphaned st c s us (k # vs) u" and d: "distinct (us @ k # vs)"
  shows "\<exists>u'. orphan_body (Sibling c k) u = Some (False, u') \<and> orphaned st c s (us @ [k]) vs u'"
proof -
  define u' where "u' = upd_links (list_del_init (Some (Sibling c k)))
                    (upd_cap c k (\<lambda>cap. cap\<lparr>c_parent := CAP_SLOT_INVALID\<rparr>) u)"
  have r: "dll (links u) (Children c s) ([] @ Sibling c k # map (Sibling c) vs)"
    using o by (simp add: orphaned_def)
  have "dll (links u') (Sibling c j) []" if "j \<in> set us" for j
    using o that d list_del_init_frame [OF r, of "Sibling c j" "[]"]
    by (auto simp: u'_def orphaned_def)
  moreover have "links u' n = links st n" if "n \<notin> set (Children c s # map (Sibling c) (us @ k # vs))" for n
    using that o list_del_untouched(2) [OF r, of n] by (simp add: u'_def orphaned_def)
  moreover have "cap_table u' = (cap_table st)(c := (\<lambda>x. if x \<in> set (us @ [k])
        then (cap_table st c x)\<lparr>c_parent := CAP_SLOT_INVALID\<rparr> else cap_table st c x))"
    using o d by (auto simp: u'_def orphaned_def fun_eq_iff)
  ultimately have "orphaned st c s (us @ [k]) vs u'"
    using o dll_list_del_init [OF r] by (auto simp: orphaned_def u'_def)
  then show ?thesis by (simp add: orphan_body_def cap_from_sibling_def u'_def)
qed

lemma orphan_loop:
  assumes ring: "dll (links st) (Children c s) (map (Sibling c) ks)"
  shows "\<exists>st'. list_for_each_safe links orphan_body (Children c s) (lh_next (links st (Children c s))) st
           = Some st' \<and> orphaned st c s ks [] st'"
proof -
  have d: "distinct ks" using ring by (auto simp: dll_def distinct_map)
  define P where "P = (\<lambda>ns u. \<exists>us vs. ks = us @ vs \<and> ns = map (Sibling c) vs \<and> orphaned st c s us vs u)"
  have "P (map (Sibling c) ks) st"
    unfolding P_def using ring by (intro exI [of _ "[]"] exI [of _ ks]) (simp add: orphaned_def)
  moreover have "lh_next (links st (Children c s)) = Some (hd (map (Sibling c) ks @ [Children c s]))"
    by (rule dll_next [OF ring])
  moreover have "x \<noteq> Children c s \<and> lh_next (links u x) = Some (hd (xs @ [Children c s])) \<and>
      (\<exists>brk u'. orphan_body x u = Some (brk, u') \<and> (if brk then orphaned st c s ks [] u' else P xs u'))"
    if "P (x # xs) u" for x xs u
  proof -
    obtain us ws where a: "ks = us @ ws" "x # xs = map (Sibling c) ws" "orphaned st c s us ws u"
      using \<open>P (x # xs) u\<close> unfolding P_def by (elim exE conjE)
    then obtain k vs where w: "ws = k # vs" by (cases ws) auto
    with a have e: "x = Sibling c k" "xs = map (Sibling c) vs" and o: "orphaned st c s us (k # vs) u"
      by auto
    have "dseg (links u) x xs (Children c s)" using o e by (simp add: orphaned_def dll_def)
    then have nxt: "lh_next (links u x) = Some (hd (xs @ [Children c s]))" by (rule dseg_next)
    obtain u' where u': "orphan_body x u = Some (False, u')" "orphaned st c s (us @ [k]) vs u'"
      using orphan_step [OF o] d a(1) w e by auto
    then have "P xs u'" unfolding P_def using a(1) w e by (intro exI [of _ "us @ [k]"] exI [of _ vs]) simp
    with u' nxt e show ?thesis by auto
  qed
  moreover have "orphaned st c s ks [] u" if "P [] u" for u
    using that by (auto simp: P_def)
  ultimately show ?thesis by (rule list_for_each_safe_rule)
qed

text \<open>Taking a capability out of its parent's ring, when it has a parent.\<close>

definition unlink_parent :: "nat \<Rightarrow> u32 \<Rightarrow> cap_sys \<Rightarrow> cap_sys" where
  "unlink_parent c s st = (if c_parent (cap_table st c s) \<noteq> CAP_SLOT_INVALID
     then upd_links (list_del_init (Some (Sibling c s))) st else st)"

definition kids_unlink :: "u32 \<Rightarrow> u32 \<Rightarrow> (u32 \<Rightarrow> u32 list) \<Rightarrow> u32 \<Rightarrow> u32 list" where
  "kids_unlink s p kids = (if p \<noteq> CAP_SLOT_INVALID then kids(p := remove1 s (kids p)) else kids)"

lemma unlink_parent_simps [simp]:
  "s_cspace_pool (unlink_parent c s st) = s_cspace_pool st"
  "cap_table (unlink_parent c s st) = cap_table st"
  "s_cspace_hash (unlink_parent c s st) = s_cspace_hash st"
  "s_hash_nodes (unlink_parent c s st) = s_hash_nodes st"
  by (simp_all add: unlink_parent_def)

lemma kids_unlink_mem:
  assumes "tree_inv st c kids" and "valid_slot st c s" and "valid_slot st c x"
  shows "y \<in> set (kids_unlink s (c_parent (cap_table st c s)) kids x) \<longleftrightarrow>
         y \<in> set (kids x) \<and> y \<noteq> s"
proof (cases "x = c_parent (cap_table st c s)")
  case True
  then have "c_parent (cap_table st c s) \<noteq> CAP_SLOT_INVALID"
    using assms(3) not_valid_INVALID [OF assms(1)] by auto
  with True show ?thesis
    using kids_distinct [OF assms(1,3)] by (auto simp: kids_unlink_def set_remove1_eq)
next
  case False
  then have "s \<notin> set (kids x)" using kids_iff [OF assms(1,3), of s] by simp
  with False show ?thesis by (auto simp: kids_unlink_def)
qed

lemma unlink_parent_links:
  assumes inv: "tree_inv st c kids" and v: "valid_slot st c s"
  shows "dll (links (unlink_parent c s st)) (Sibling c s) []"
    and "valid_slot st c x \<Longrightarrow> dll (links (unlink_parent c s st)) (Children c x)
           (map (Sibling c) (kids_unlink s (c_parent (cap_table st c s)) kids x))"
    and "valid_slot st c x \<Longrightarrow> c_parent (cap_table st c x) = CAP_SLOT_INVALID \<Longrightarrow>
         dll (links (unlink_parent c s st)) (Sibling c x) []"
    and "\<not> table_node c n \<Longrightarrow> links (unlink_parent c s st) n = links st n"
    and "\<not> valid_slot st c y \<Longrightarrow> links (unlink_parent c s st) (Sibling c y) = links st (Sibling c y)"
proof -
  define p where "p = c_parent (cap_table st c s)"
  have root: "links (unlink_parent c s st) = links st" if "p = CAP_SLOT_INVALID"
    using that by (simp add: unlink_parent_def p_def)
  have un: "links (unlink_parent c s st) = list_del_init (Some (Sibling c s)) (links st)"
    if "p \<noteq> CAP_SLOT_INVALID" using that by (simp add: unlink_parent_def p_def)
  have vp: "valid_slot st c p" if "p \<noteq> CAP_SLOT_INVALID"
    using parent_valid [OF inv v] that by (simp add: p_def)
  note frame = unlink_sibling(3) [OF inv v p_def]
  show "dll (links (unlink_parent c s st)) (Sibling c s) []"
    using root un unlink_sibling(2) [OF inv v p_def] root_ring [OF inv v] p_def
    by (cases "p = CAP_SLOT_INVALID") auto
  show "dll (links (unlink_parent c s st)) (Children c x)
      (map (Sibling c) (kids_unlink s (c_parent (cap_table st c s)) kids x))" if vx: "valid_slot st c x"
  proof (cases "p = CAP_SLOT_INVALID \<or> x = p")
    case True
    then show ?thesis
      using root un unlink_sibling(1) [OF inv v p_def] kids_ring [OF inv vx] p_def
      by (cases "p = CAP_SLOT_INVALID") (auto simp: kids_unlink_def)
  next
    case False
    then have "dll (links (unlink_parent c s st)) (Children c x) (map (Sibling c) (kids x))"
      using vx vp kids_iff [OF inv]
      by (intro dll_frame [OF kids_ring [OF inv vx]]) (auto simp: un intro!: frame)
    with False show ?thesis by (simp add: kids_unlink_def p_def)
  qed
  show "dll (links (unlink_parent c s st)) (Sibling c x) []"
    if "valid_slot st c x" "c_parent (cap_table st c x) = CAP_SLOT_INVALID"
    using that root un vp kids_iff [OF inv]
    by (cases "p = CAP_SLOT_INVALID")
      (auto intro!: dll_frame [OF root_ring [OF inv that]] frame)
  show "links (unlink_parent c s st) n = links st n" if "\<not> table_node c n"
    using that root un by (cases "p = CAP_SLOT_INVALID") (auto simp: table_node_def intro!: frame)
  show "links (unlink_parent c s st) (Sibling c y) = links st (Sibling c y)" if "\<not> valid_slot st c y"
    using that root un vp kids_iff [OF inv] by (cases "p = CAP_SLOT_INVALID") (auto intro!: frame)
qed

lemma clear_cap_simps [simp]:
  "s_cspace_pool (clear_cap c s st) = s_cspace_pool st"
  "cap_table (clear_cap c s st) =
     (cap_table st)(c := (cap_table st c)(s := zero_cap\<lparr>c_parent := CAP_SLOT_INVALID\<rparr>))"
  "s_cspace_hash (clear_cap c s st) = s_cspace_hash st"
  "s_hash_nodes (clear_cap c s st) = s_hash_nodes st"
  "n \<noteq> Children c s \<Longrightarrow> n \<noteq> Sibling c s \<Longrightarrow> links (clear_cap c s st) n = links st n"
  by (simp_all add: clear_cap_def zero_cap_def)

text \<open>The table after a deletion: the slot is cleared, its children have no parent any more.\<close>

definition deleted_table :: "cap_sys \<Rightarrow> nat \<Rightarrow> u32 \<Rightarrow> u32 \<Rightarrow> cap_t" where
  "deleted_table st c s x =
     (if x = s then zero_cap\<lparr>c_parent := CAP_SLOT_INVALID\<rparr>
      else if valid_slot st c x \<and> c_parent (cap_table st c x) = s
      then (cap_table st c x)\<lparr>c_parent := CAP_SLOT_INVALID\<rparr> else cap_table st c x)"

lemma cap_delete_run:
  assumes inv: "tree_inv st c kids" and v: "valid_slot st c s"
    and r: "root \<noteq> CAP_SLOT_INVALID" "cspace_from_root root st = Some (Some c)"
  shows "\<exists>st2. cap_delete root s st = Some (KERNEL_OK, clear_cap c s st2) \<and>
           orphaned (unlink_parent c s st) c s (kids s) [] st2"
proof -
  have ni: "s \<noteq> CAP_SLOT_INVALID" using v not_valid_INVALID [OF inv] by auto
  have "kids_unlink s (c_parent (cap_table st c s)) kids s = kids s"
    using parent_neq [OF inv v] by (simp add: kids_unlink_def)
  then have "dll (links (unlink_parent c s st)) (Children c s) (map (Sibling c) (kids s))"
    using unlink_parent_links(2) [OF inv v v] by simp
  from orphan_loop [OF this] show ?thesis
    using r ni v by (auto simp: cap_delete_def cspace_lookup_valid unlink_parent_def Let_def)
qed

lemma tree_inv_delete:
  assumes inv: "tree_inv st c kids" and v: "valid_slot st c s"
    and o: "orphaned (unlink_parent c s st) c s (kids s) [] st2"
    and st': "st' = clear_cap c s st2"
  shows "cap_table st' = (cap_table st)(c := deleted_table st c s)"
    and "s_cspace_pool st' = s_cspace_pool st"
    and "tree_inv st' c (kids_unlink s (c_parent (cap_table st c s)) kids)"
    and "\<not> table_node c n \<Longrightarrow> links st' n = links st n"
proof -
  let ?kids = "kids_unlink s (c_parent (cap_table st c s)) kids"
  let ?u = "unlink_parent c s st"
  show tab: "cap_table st' = (cap_table st)(c := deleted_table st c s)"
    using o kids_iff [OF inv v] by (auto simp: orphaned_def deleted_table_def fun_eq_iff st')
  show pool: "s_cspace_pool st' = s_cspace_pool st" using o by (simp add: orphaned_def st')
  have valid: "valid_slot st' c x \<longleftrightarrow> valid_slot st c x \<and> x \<noteq> s" for x
    by (auto simp: valid_slot_def tab pool deleted_table_def zero_cap_def)
  have par: "c_parent (cap_table st' c x) =
      (if c_parent (cap_table st c x) = s then CAP_SLOT_INVALID else c_parent (cap_table st c x))"
    if "valid_slot st c x" "x \<noteq> s" for x
    using that by (simp add: tab deleted_table_def)
  have lk: "links st' n = links ?u n" if "n \<notin> set (Children c s # Sibling c s # map (Sibling c) (kids s))" for n
    using that o by (simp add: orphaned_def st')
  have data: "cap_data_ok st' c x" if vx: "valid_slot st c x" "x \<noteq> s" for x
    using tree_invD(1) [OF inv vx(1)] vx par [OF vx] valid
    by (auto simp: cap_data_ok_def tab deleted_table_def Let_def)
  have ring: "dll (links st') (Children c x) (map (Sibling c) (?kids x))" if vx: "valid_slot st c x" "x \<noteq> s" for x
    using vx kids_unlink_mem [OF inv v vx(1)] kids_iff [OF inv vx(1)] kids_iff [OF inv v]
    by (intro dll_frame [OF unlink_parent_links(2) [OF inv v vx(1)]] lk) auto
  have mem: "y \<in> set (?kids x) \<longleftrightarrow> valid_slot st' c y \<and> c_parent (cap_table st' c y) = x"
    if vx: "valid_slot st c x" "x \<noteq> s" for x y
  proof (cases "valid_slot st c y \<and> y \<noteq> s")
    case True
    have "x \<noteq> CAP_SLOT_INVALID" using vx not_valid_INVALID [OF inv] by auto
    with True show ?thesis
      using vx par [of y] by (simp add: kids_unlink_mem [OF inv v vx(1)] kids_iff [OF inv vx(1)] valid)
  next
    case False
    then show ?thesis by (auto simp: kids_unlink_mem [OF inv v vx(1)] kids_iff [OF inv vx(1)] valid)
  qed
  have root: "dll (links st') (Sibling c x) []"
    if vx: "valid_slot st c x" "x \<noteq> s" and p: "c_parent (cap_table st' c x) = CAP_SLOT_INVALID" for x
  proof (cases "x \<in> set (kids s)")
    case True
    then have "dll (links st2) (Sibling c x) []" using o by (simp add: orphaned_def)
    then show ?thesis using vx by (auto simp: st' intro: dll_frame)
  next
    case False
    then have "c_parent (cap_table st c x) = CAP_SLOT_INVALID"
      using p par [OF vx] kids_iff [OF inv v, of x] vx by (simp split: if_splits)
    then show ?thesis using vx False
      by (intro dll_frame [OF unlink_parent_links(3) [OF inv v vx(1)]] lk) auto
  qed
  show "tree_inv st' c ?kids"
    using inv data ring mem root by (simp add: tree_inv_def valid cap_links_ok_def pool)
  show "links st' n = links st n" if "\<not> table_node c n"
    using that lk [of n] unlink_parent_links(4) [OF inv v that] by (auto simp: table_node_def)
qed

end
