(* ===== verification/Cap_Move.thy ===== *)
theory Cap_Move
  imports Cap_Delete
begin

text \<open>
  Moving a capability inside one CSpace: the copy takes the place of the original in the forest, with the children of
  the original as its own.
\<close>

section \<open>The reparenting loop\<close>

definition reparented :: "nat \<Rightarrow> u32 \<Rightarrow> u32 list \<Rightarrow> cap_sys \<Rightarrow> cap_sys" where
  "reparented c d ks st = st\<lparr>cap_table := (cap_table st)(c := (\<lambda>x. if x \<in> set ks
     then (cap_table st c x)\<lparr>c_parent := d\<rparr> else cap_table st c x))\<rparr>"

lemma reparented_simps [simp]:
  "links (reparented c d ks st) = links st"
  "s_cspace_pool (reparented c d ks st) = s_cspace_pool st"
  "s_cspace_hash (reparented c d ks st) = s_cspace_hash st"
  "s_hash_nodes (reparented c d ks st) = s_hash_nodes st"
  "cap_table (reparented c d ks st) = (cap_table st)(c := (\<lambda>x. if x \<in> set ks
     then (cap_table st c x)\<lparr>c_parent := d\<rparr> else cap_table st c x))"
  by (simp_all add: reparented_def)

lemma reparent_step:
  "reparent_body d (Sibling c k) (reparented c d us st) = Some (False, reparented c d (us @ [k]) st)"
  by (auto simp: reparent_body_def cap_from_sibling_def reparented_def upd_cap_def fun_eq_iff)

lemma reparent_loop:
  assumes ring: "dll (links st) (Children c d) (map (Sibling c) ks)"
  shows "list_for_each_safe links (reparent_body d) (Children c d) (lh_next (links st (Children c d))) st
           = Some (reparented c d ks st)"
proof -
  define P where "P = (\<lambda>ns u. \<exists>us vs. ks = us @ vs \<and> ns = map (Sibling c) vs \<and> u = reparented c d us st)"
  have "P (map (Sibling c) ks) st"
    unfolding P_def by (intro exI [of _ "[]"] exI [of _ ks]) (simp add: reparented_def)
  moreover have "lh_next (links st (Children c d)) = Some (hd (map (Sibling c) ks @ [Children c d]))"
    by (rule dll_next [OF ring])
  moreover have "x \<noteq> Children c d \<and> lh_next (links u x) = Some (hd (xs @ [Children c d])) \<and>
      (\<exists>brk u'. reparent_body d x u = Some (brk, u') \<and>
        (if brk then u' = reparented c d ks st else P xs u'))"
    if "P (x # xs) u" for x xs u
  proof -
    obtain us ws where a: "ks = us @ ws" "x # xs = map (Sibling c) ws" "u = reparented c d us st"
      using \<open>P (x # xs) u\<close> unfolding P_def by (elim exE conjE)
    then obtain k vs where w: "ws = k # vs" by (cases ws) auto
    with a have e: "x = Sibling c k" "xs = map (Sibling c) vs" by auto
    have "dseg (links u) x xs (Children c d)"
      using ring a w e by (simp add: dll_def dseg_append)
    then have nxt: "lh_next (links u x) = Some (hd (xs @ [Children c d]))" by (rule dseg_next)
    have "P xs (reparented c d (us @ [k]) st)"
      unfolding P_def using a(1) w e by (intro exI [of _ "us @ [k]"] exI [of _ vs]) simp
    with nxt e a(3) reparent_step show ?thesis by auto
  qed
  moreover have "u = reparented c d ks st" if "P [] u" for u using that by (auto simp: P_def)
  ultimately have "\<exists>u. list_for_each_safe links (reparent_body d) (Children c d)
      (lh_next (links st (Children c d))) st = Some u \<and> u = reparented c d ks st"
    by (rule list_for_each_safe_rule)
  then show ?thesis by simp
qed

section \<open>Handing the children over\<close>

text \<open>The two statements of \<^verbatim>\<open>cap_move\<close> that give the children of \<open>s\<close> to \<open>d\<close>.\<close>

definition hand_over :: "nat \<Rightarrow> u32 \<Rightarrow> u32 \<Rightarrow> cap_sys \<Rightarrow> cap_sys option" where
  "hand_over c s d st1 = do {
     h \<leftarrow> (if \<not> list_empty (Some (Children c s)) (links st1)
          then list_splice (Some (Children c s)) (Some (Children c d)) (links st1) else Some (links st1));
     let st2 = st1\<lparr>links := h\<rparr>;
     list_for_each_safe links (reparent_body d) (Children c d) (lh_next (links st2 (Children c d))) st2
   }"

lemma hand_over_run:
  assumes inv: "tree_inv st c kids" and v: "valid_slot st c s" "valid_slot st c d" "s \<noteq> d" and e: "kids d = []"
  shows "\<exists>h. hand_over c s d st = Some (reparented c d (kids s) (st\<lparr>links := h\<rparr>)) \<and>
           dll h (Children c d) (map (Sibling c) (kids s)) \<and> dll h (Children c s) [] \<and>
           (\<forall>m. m \<notin> set (Children c s # Children c d # map (Sibling c) (kids s)) \<longrightarrow> h m = links st m)"
proof -
  have rs: "dll (links st) (Children c s) (map (Sibling c) (kids s))" by (rule kids_ring [OF inv v(1)])
  have rd: "dll (links st) (Children c d) []" using kids_ring [OF inv v(2)] e by simp
  obtain h where h: "(if \<not> list_empty (Some (Children c s)) (links st)
        then list_splice (Some (Children c s)) (Some (Children c d)) (links st) else Some (links st)) = Some h"
      and r: "dll h (Children c d) (map (Sibling c) (kids s))" "dll h (Children c s) []"
      and f: "\<forall>m. m \<notin> set (Children c s # Children c d # map (Sibling c) (kids s)) \<longrightarrow> h m = links st m"
  proof (cases "kids s = []")
    case True
    with that [of "links st"] rs rd show ?thesis by (simp add: list_empty_dll [OF rs])
  next
    case False
    have "set (Children c s # map (Sibling c) (kids s)) \<inter> set [Children c d] = {}" using v(3) by auto
    from dll_list_splice [OF rs rd this] obtain h where
      "list_splice (Some (Children c s)) (Some (Children c d)) (links st) = Some h"
      "dll h (Children c d) (map (Sibling c) (kids s))" "dll h (Children c s) []"
      "\<forall>m. m \<notin> set (Children c s # Children c d # map (Sibling c) (kids s)) \<longrightarrow> h m = links st m"
      by auto
    with that [of h] False show ?thesis by (simp add: list_empty_dll [OF rs])
  qed
  have "hand_over c s d st = Some (reparented c d (kids s) (st\<lparr>links := h\<rparr>))"
    using h reparent_loop [of "st\<lparr>links := h\<rparr>" c d "kids s"] r(1) by (simp add: hand_over_def Let_def)
  with r f show ?thesis by blast
qed

lemma tree_inv_hand_over:
  assumes inv: "tree_inv st c kids" and v: "valid_slot st c s" "valid_slot st c d" "s \<noteq> d" and e: "kids d = []"
    and dp: "c_parent (cap_table st c d) \<noteq> s" "c_depth (cap_table st c d) \<le> c_depth (cap_table st c s)"
    and h: "dll h (Children c d) (map (Sibling c) (kids s))" "dll h (Children c s) []"
      "\<forall>m. m \<notin> set (Children c s # Children c d # map (Sibling c) (kids s)) \<longrightarrow> h m = links st m"
    and st': "st' = reparented c d (kids s) (st\<lparr>links := h\<rparr>)"
  shows "tree_inv st' c (kids(d := kids s, s := []))"
proof -
  have valid: "valid_slot st' c x \<longleftrightarrow> valid_slot st c x" for x by (simp add: valid_slot_def st')
  have dk: "d \<notin> set (kids s)" using kids_iff [OF inv v(1)] dp(1) by auto
  have sk: "s \<notin> set (kids s)" using kids_iff [OF inv v(1)] parent_neq [OF inv v(1)] by auto
  have lk: "links st' m = links st m" if "m \<notin> set (Children c s # Children c d # map (Sibling c) (kids s))" for m
    using that h(3) by (simp add: st')
  have par: "c_parent (cap_table st' c x) = (if x \<in> set (kids s) then d else c_parent (cap_table st c x))"
      "c_depth (cap_table st' c x) = c_depth (cap_table st c x)"
      "c_type (cap_table st' c x) = c_type (cap_table st c x)"
      "c_rights (cap_table st' c x) = c_rights (cap_table st c x)" for x
    by (simp_all add: st')
  have data: "cap_data_ok st' c x" if vx: "valid_slot st c x" for x
  proof (cases "x \<in> set (kids s)")
    case True
    then have "c_parent (cap_table st c x) = s" using kids_iff [OF inv v(1)] by simp
    moreover have "s \<noteq> CAP_SLOT_INVALID" using v not_valid_INVALID [OF inv] by auto
    ultimately have "c_depth (cap_table st c s) < c_depth (cap_table st c x)"
      using parent_depth [OF inv vx] by simp
    with dp(2) have "c_depth (cap_table st c d) < c_depth (cap_table st c x)" by simp
    with True v tree_invD(1) [OF inv vx] show ?thesis by (simp add: cap_data_ok_def valid par Let_def)
  next
    case False
    with tree_invD(1) [OF inv vx] show ?thesis by (simp add: cap_data_ok_def valid par Let_def)
  qed
  have ring: "dll (links st') (Children c x) (map (Sibling c) ((kids(d := kids s, s := [])) x))"
    if vx: "valid_slot st c x" for x
  proof (cases "x = s \<or> x = d")
    case True
    then show ?thesis using h(1,2) v(3) by (auto simp: st')
  next
    case False
    then have "set (kids x) \<inter> set (kids s) = {}"
      using kids_iff [OF inv vx] kids_iff [OF inv v(1)] by auto
    with False have "dll (links st') (Children c x) (map (Sibling c) (kids x))"
      by (intro dll_frame [OF kids_ring [OF inv vx]] lk) auto
    with False show ?thesis by simp
  qed
  have mem: "y \<in> set ((kids(d := kids s, s := [])) x) \<longleftrightarrow> valid_slot st c y \<and> c_parent (cap_table st' c y) = x"
    if vx: "valid_slot st c x" for x y
  proof (cases "y \<in> set (kids s)")
    case True
    then have "c_parent (cap_table st c y) = s" "valid_slot st c y" using kids_iff [OF inv v(1)] by auto
    with True show ?thesis using v(3) kids_iff [OF inv vx] by (auto simp: par)
  next
    case False
    then show ?thesis
      using v e kids_iff [OF inv vx, of y] kids_iff [OF inv v(1), of y] kids_iff [OF inv v(2), of y]
      by (auto simp: par)
  qed
  have root: "dll (links st') (Sibling c x) []"
    if vx: "valid_slot st c x" and p: "c_parent (cap_table st' c x) = CAP_SLOT_INVALID" for x
  proof -
    have "x \<notin> set (kids s)" using p v not_valid_INVALID [OF inv] by (auto simp: par split: if_splits)
    then show ?thesis using p
      by (intro dll_frame [OF root_ring [OF inv vx]] lk) (auto simp: par)
  qed
  have "capacity (cs_of st' c) = capacity (cs_of st c)" by (simp add: st')
  then show ?thesis
    using inv data ring mem root unfolding tree_inv_def valid cap_links_ok_def by metis
qed

section \<open>The whole move\<close>

lemma cap_move_guards:
  assumes "cspace_from_root sc st = Some (Some c)" and "cspace_from_root dc st = Some (Some c)"
    and "sc \<noteq> CAP_SLOT_INVALID" "dc \<noteq> CAP_SLOT_INVALID" "s \<noteq> CAP_SLOT_INVALID" "d \<noteq> CAP_SLOT_INVALID"
  shows "cap_move sc s dc d st =
    (let cap = cap_table st c s in
     if \<not> valid_slot st c s then Some (Err ENOENT, st)
     else if c_rights cap AND CAP_RIGHT_GRANT = CAP_RIGHT_NONE then Some (Err EACCES, st)
     else case cap_insert_locked c d (c_type cap) (c_kobj cap) (c_rights cap) (c_badge cap) (c_parent cap) st of
         (Err e, st1) \<Rightarrow> Some (Err e, st1)
       | (KERNEL_OK, st1) \<Rightarrow> do {
           st3 \<leftarrow> hand_over c s d st1;
           Some (KERNEL_OK, clear_cap c s (unlink_parent c s st3))
         })"
  using assms
  by (auto simp: cap_move_def cspace_lookup_valid hand_over_def unlink_parent_def valid_slot_def Let_def
      split: prod.splits status.splits option.splits bind_splits)

definition moved_table :: "cap_sys \<Rightarrow> nat \<Rightarrow> u32 \<Rightarrow> u32 \<Rightarrow> u32 \<Rightarrow> cap_t" where
  "moved_table st c s d x =
     (let cap = cap_table st c s in
      if x = d then inserted_cap st c d (c_type cap) (c_kobj cap) (c_rights cap) (c_badge cap) (c_parent cap)
      else if x = s then zero_cap\<lparr>c_parent := CAP_SLOT_INVALID\<rparr>
      else if valid_slot st c x \<and> c_parent (cap_table st c x) = s then (cap_table st c x)\<lparr>c_parent := d\<rparr>
      else cap_table st c x)"

lemma orphaned_childless:
  assumes "tree_inv st c kids" and "valid_slot st c s" and "kids s = []"
  shows "orphaned (unlink_parent c s st) c s (kids s) [] (unlink_parent c s st)"
  using assms unlink_parent_links(2) [OF assms(1,2,2)] parent_neq [OF assms(1,2)]
  by (auto simp: orphaned_def kids_unlink_def split: if_splits)

lemma cap_move_step:
  assumes inv: "tree_inv st c kids" and v: "valid_slot st c s"
    and cap: "cap = cap_table st c s"
    and ins: "cap_insert_locked c d (c_type cap) (c_kobj cap) (c_rights cap) (c_badge cap) (c_parent cap) st
                = (KERNEL_OK, st1)"
  shows "\<exists>st3 kids'. hand_over c s d st1 = Some st3 \<and>
    tree_inv (clear_cap c s (unlink_parent c s st3)) c kids' \<and>
    cap_table (clear_cap c s (unlink_parent c s st3)) = (cap_table st)(c := moved_table st c s d) \<and>
    s_cspace_pool (clear_cap c s (unlink_parent c s st3)) = s_cspace_pool st1 \<and>
    (\<forall>n. \<not> table_node c n \<longrightarrow> links (clear_cap c s (unlink_parent c s st3)) n = links st n)"
proof -
  define p where "p = c_parent cap"
  define kids1 where "kids1 = kids_insert d p kids"
  note ok = cap_insert_locked_OK [OF ins, folded p_def]
  have nd: "\<not> valid_slot st c d" using valid_slot_insert(2) [OF ins] .
  have sd: "s \<noteq> d" "p \<noteq> s" using v nd parent_neq [OF inv v] by (auto simp: p_def cap)
  have pd: "p \<noteq> CAP_SLOT_INVALID \<Longrightarrow> p \<noteq> d" using ok(4) nd by auto
  have k1: "kids1 d = []" "kids1 s = kids s" using sd pd by (auto simp: kids1_def kids_insert_def)
  have inv1: "tree_inv st1 c kids1" using tree_inv_insert [OF inv ins] by (simp add: kids1_def p_def)
  have v1: "valid_slot st1 c s" "valid_slot st1 c d" using v valid_slot_insert(1) [OF ins] by auto
  have tab1: "cap_table st1 c d = inserted_cap st c d (c_type cap) (c_kobj cap) (c_rights cap) (c_badge cap) p"
      "\<And>x. x \<noteq> d \<Longrightarrow> cap_table st1 c x = cap_table st c x"
    using ok(6) by auto
  have par1: "c_parent (cap_table st1 c d) \<noteq> s" using sd by (simp add: tab1 inserted_cap_def)
  have "c_depth (cap_table st c p) < c_depth (cap_table st c s)" if "p \<noteq> CAP_SLOT_INVALID"
    using parent_depth [OF inv v] that by (simp add: p_def cap)
  then have dep1: "c_depth (cap_table st1 c d) \<le> c_depth (cap_table st1 c s)"
    using sd by (auto simp: tab1 inserted_cap_def inc_le)
  from hand_over_run [OF inv1 v1 sd(1) k1(1)] obtain h where
    ho: "hand_over c s d st1 = Some (reparented c d (kids s) (st1\<lparr>links := h\<rparr>))"
    and h: "dll h (Children c d) (map (Sibling c) (kids1 s))" "dll h (Children c s) []"
      "\<forall>m. m \<notin> set (Children c s # Children c d # map (Sibling c) (kids1 s)) \<longrightarrow> h m = links st1 m"
    unfolding k1 by blast
  define st3 where "st3 = reparented c d (kids s) (st1\<lparr>links := h\<rparr>)"
  have inv3: "tree_inv st3 c (kids1(d := kids1 s, s := []))"
    using tree_inv_hand_over [OF inv1 v1 sd(1) k1(1) par1 dep1 h, of st3] k1 by (simp add: st3_def)
  have v3: "valid_slot st3 c x \<longleftrightarrow> valid_slot st1 c x" for x by (simp add: st3_def valid_slot_def)
  have orph: "orphaned (unlink_parent c s st3) c s ((kids1(d := kids1 s, s := [])) s) [] (unlink_parent c s st3)"
    using v1 v3 by (intro orphaned_childless [OF inv3]) auto
  note del = tree_inv_delete [OF inv3 v3 [THEN iffD2, OF v1(1)] orph refl]
  have sk: "x \<in> set (kids s) \<longleftrightarrow> valid_slot st c x \<and> c_parent (cap_table st c x) = s" for x
    by (rule kids_iff [OF inv v])
  have "deleted_table st3 c s = moved_table st c s d"
    using sk sd nd tab1 v1 valid_slot_insert(1) [OF ins]
    by (auto simp: deleted_table_def moved_table_def fun_eq_iff st3_def v3 [unfolded st3_def] Let_def
        p_def cap inserted_cap_def)
  moreover have "cap_table st3 = (cap_table st)(c := cap_table st3 c)" using ok(6) by (simp add: st3_def fun_eq_iff)
  ultimately have "cap_table (clear_cap c s (unlink_parent c s st3)) = (cap_table st)(c := moved_table st c s d)"
    using del(1) by (metis fun_upd_upd)
  moreover have "links (clear_cap c s (unlink_parent c s st3)) n = links st n" if "\<not> table_node c n" for n
    using del(4) [OF that] h(3) that insert_other_nodes [OF inv ins that]
    by (auto simp: st3_def table_node_def)
  ultimately show ?thesis using ho del(2,3) by (auto simp: st3_def)
qed

end
