(* ===== verification/Cap_Revoke.thy ===== *)
theory Cap_Revoke
  imports Cap_Delete
begin

text \<open>
  Revocation.  \<open>desc st c t\<close> is the subtree of capability \<open>t\<close>: \<open>t\<close> and everything derived from it.  The theory shows that
  the explicit-stack traversal of \<^verbatim>\<open>cap_revoke\<close> terminates, frees exactly this subtree, puts the freed slots in front of the free
  list and keeps the rest of the forest, provided that the subtree fits the stack.
\<close>

section \<open>Subtrees\<close>

inductive desc :: "cap_sys \<Rightarrow> nat \<Rightarrow> u32 \<Rightarrow> u32 \<Rightarrow> bool" for st c t where
  desc_self: "valid_slot st c t \<Longrightarrow> desc st c t t"
| desc_child: "desc st c t p \<Longrightarrow> valid_slot st c x \<Longrightarrow> c_parent (cap_table st c x) = p \<Longrightarrow> desc st c t x"

lemma desc_valid: "desc st c t x \<Longrightarrow> valid_slot st c x"
  by (induction rule: desc.induct) auto

lemma desc_depth:
  assumes "tree_inv st c kids" and "desc st c t x"
  shows "c_depth (cap_table st c t) \<le> c_depth (cap_table st c x)"
  using assms(2)
proof (induction rule: desc.induct)
  case (desc_child p x)
  then have "p \<noteq> CAP_SLOT_INVALID" using desc_valid not_valid_INVALID [OF assms(1)] by metis
  with desc_child parent_depth [OF assms(1)] show ?case by force
qed simp

lemma parent_not_desc:
  assumes "tree_inv st c kids" and "valid_slot st c t"
  shows "\<not> desc st c t (c_parent (cap_table st c t))"
proof
  assume d: "desc st c t (c_parent (cap_table st c t))"
  then have "c_parent (cap_table st c t) \<noteq> CAP_SLOT_INVALID"
    using desc_valid not_valid_INVALID [OF assms(1)] by metis
  with desc_depth [OF assms(1) d] parent_depth [OF assms] show False by simp
qed

section \<open>The child loop\<close>

lemma revoke_push_loop:
  assumes ring: "dll h (Children c s) (map (Sibling c) ks)"
    and room: "length rest + length ks \<le> REVOKE_STACK_SIZE"
  shows "list_for_each_safe (\<lambda>_. h) (revoke_push_body c) (Children c s) (lh_next (h (Children c s)))
           (rest, ov) = Some (rev ks @ rest, ov)"
proof -
  define P where "P = (\<lambda>ns u. \<exists>us vs. ks = us @ vs \<and> ns = map (Sibling c) vs \<and> u = (rev us @ rest, ov))"
  have "P (map (Sibling c) ks) (rest, ov)"
    unfolding P_def by (intro exI [of _ "[]"] exI [of _ ks]) simp
  moreover have "lh_next (h (Children c s)) = Some (hd (map (Sibling c) ks @ [Children c s]))"
    by (rule dll_next [OF ring])
  moreover have "x \<noteq> Children c s \<and> lh_next (h x) = Some (hd (xs @ [Children c s])) \<and>
      (\<exists>brk u'. revoke_push_body c x u = Some (brk, u') \<and> (if brk then u' = (rev ks @ rest, ov) else P xs u'))"
    if "P (x # xs) u" for x xs u
  proof -
    obtain us ws where a: "ks = us @ ws" "x # xs = map (Sibling c) ws" "u = (rev us @ rest, ov)"
      using \<open>P (x # xs) u\<close> unfolding P_def by (elim exE conjE)
    then obtain k vs where w: "ws = k # vs" by (cases ws) auto
    with a have e: "x = Sibling c k" "xs = map (Sibling c) vs" by auto
    have "dseg h x xs (Children c s)" using ring a w e by (simp add: dll_def dseg_append)
    then have nxt: "lh_next (h x) = Some (hd (xs @ [Children c s]))" by (rule dseg_next)
    have "P xs (rev (us @ [k]) @ rest, ov)"
      unfolding P_def using a(1) w e by (intro exI [of _ "us @ [k]"] exI [of _ vs]) simp
    moreover have "revoke_push_body c x u = Some (False, (rev (us @ [k]) @ rest, ov))"
      using room a w e by (simp add: revoke_push_body_def cap_from_sibling_def)
    ultimately show ?thesis using nxt e by auto
  qed
  moreover have "u = (rev ks @ rest, ov)" if "P [] u" for u using that by (auto simp: P_def)
  ultimately have "\<exists>u. list_for_each_safe (\<lambda>_. h) (revoke_push_body c) (Children c s)
      (lh_next (h (Children c s))) (rest, ov) = Some u \<and> u = (rev ks @ rest, ov)"
    by (rule list_for_each_safe_rule)
  then show ?thesis by simp
qed

section \<open>Freeing one slot\<close>

abbreviation freed_cap :: cap_t where "freed_cap \<equiv> zero_cap\<lparr>c_parent := CAP_SLOT_INVALID\<rparr>"

lemma revoke_free_simps [simp]:
  "cap_table (revoke_free c s st) = (cap_table st)(c := (cap_table st c)(s := freed_cap))"
  "s_cspace_pool (revoke_free c s st) = (s_cspace_pool st)(c := (cs_of st c)\<lparr>free_head := s,
     used_count := (if used_count (cs_of st c) > 0 then used_count (cs_of st c) - 1
                    else used_count (cs_of st c))\<rparr>)"
  "s_cspace_hash (revoke_free c s st) = s_cspace_hash st"
  "s_hash_nodes (revoke_free c s st) = s_hash_nodes st"
  by (simp_all add: revoke_free_def Let_def)

lemma revoke_free_links:
  "lh_next (links (revoke_free c s st) (Sibling c s)) = free_link c (free_head (cs_of st c))"
  "n \<noteq> Sibling c s \<Longrightarrow> n \<noteq> Children c s \<Longrightarrow>
     links (revoke_free c s st) n = list_del_init (Some (Sibling c s)) (links st) n"
  by (simp_all add: revoke_free_def Let_def)

section \<open>Loop invariant\<close>

text \<open>
  \<open>st0\<close> is the state in which the target has been taken out of its parent's ring, \<open>ds\<close> the slots freed so far, latest first.
  The stack holds exactly the valid capabilities whose parent is gone.
\<close>

definition revoke_data :: "cap_sys \<Rightarrow> nat \<Rightarrow> u32 \<Rightarrow> u32 list \<Rightarrow> u32 list \<Rightarrow> cap_sys \<Rightarrow> bool" where
  "revoke_data st0 c t ds stack u \<longleftrightarrow>
     (\<forall>d. d \<noteq> c \<longrightarrow> cs_of u d = cs_of st0 d \<and> cap_table u d = cap_table st0 d) \<and>
     cs_of u c = (cs_of st0 c)\<lparr>free_head := free_head (cs_of u c),
       used_count := of_nat (unat (used_count (cs_of st0 c)) - length ds)\<rparr> \<and>
     cap_table u c = (\<lambda>x. if x \<in> set ds then freed_cap else cap_table st0 c x) \<and>
     distinct (ds @ stack) \<and>
     (\<forall>x\<in>set (ds @ stack). desc st0 c t x \<and> (x = t \<or> c_parent (cap_table st0 c x) \<in> set ds)) \<and>
     (\<forall>x. valid_slot st0 c x \<and> (x = t \<or> c_parent (cap_table st0 c x) \<in> set ds) \<longrightarrow> x \<in> set (ds @ stack))"

definition revoke_links ::
  "cap_sys \<Rightarrow> nat \<Rightarrow> (u32 \<Rightarrow> u32 list) \<Rightarrow> u32 \<Rightarrow> u32 list \<Rightarrow> u32 list \<Rightarrow> cap_sys \<Rightarrow> bool" where
  "revoke_links st0 c kids t ds stack u \<longleftrightarrow>
     (\<forall>x. valid_slot st0 c x \<and> x \<notin> set ds \<longrightarrow> dll (links u) (Children c x) (map (Sibling c) (kids x))) \<and>
     (\<forall>x. valid_slot st0 c x \<and> c_parent (cap_table st0 c x) = CAP_SLOT_INVALID \<and> x \<noteq> t \<longrightarrow>
        dll (links u) (Sibling c x) []) \<and>
     half_linked (links u) (Sibling c ` set stack) (Children c ` set ds) \<and>
     free_seg (links u) c (free_head (cs_of u c)) ds (free_head (cs_of st0 c)) \<and>
     (\<forall>n. \<not> table_node c n \<longrightarrow> links u n = links st0 n) \<and>
     (\<forall>x. \<not> valid_slot st0 c x \<longrightarrow> links u (Sibling c x) = links st0 (Sibling c x))"

lemma revoke_dataD:
  assumes "revoke_data st0 c t ds stack u"
  shows "\<And>d. d \<noteq> c \<Longrightarrow> cs_of u d = cs_of st0 d \<and> cap_table u d = cap_table st0 d"
    and "cs_of u c = (cs_of st0 c)\<lparr>free_head := free_head (cs_of u c),
       used_count := of_nat (unat (used_count (cs_of st0 c)) - length ds)\<rparr>"
    and "cap_table u c = (\<lambda>x. if x \<in> set ds then freed_cap else cap_table st0 c x)"
    and "distinct (ds @ stack)"
    and "\<And>x. x \<in> set (ds @ stack) \<Longrightarrow> desc st0 c t x"
    and "\<And>x. x \<in> set (ds @ stack) \<Longrightarrow> x \<noteq> t \<Longrightarrow> c_parent (cap_table st0 c x) \<in> set ds"
    and "\<And>x. valid_slot st0 c x \<Longrightarrow> x = t \<or> c_parent (cap_table st0 c x) \<in> set ds \<Longrightarrow> x \<in> set (ds @ stack)"
  using assms unfolding revoke_data_def by blast+

lemma revoke_pool:
  assumes "revoke_data st0 c t ds stack u"
  shows "capacity (cs_of u c) = capacity (cs_of st0 c)"
    and "root_slot (cs_of u c) = root_slot (cs_of st0 c)"
    and "used_count (cs_of u c) = of_nat (unat (used_count (cs_of st0 c)) - length ds)"
  by (subst revoke_dataD(2) [OF assms]; simp)+

lemma revoke_data_step:
  assumes d: "revoke_data st0 c t ds (cur # rest) u"
    and K: "\<And>x. x \<in> set (kids cur) \<longleftrightarrow> valid_slot st0 c x \<and> c_parent (cap_table st0 c x) = cur \<and> x \<noteq> t"
    and dk: "distinct (kids cur)" and pn: "c_parent (cap_table st0 c cur) \<noteq> cur"
  shows "revoke_data st0 c t (cur # ds) (rev (kids cur) @ rest) (revoke_free c cur u)"
proof -
  note D = revoke_dataD [OF d]
  have new: "x \<notin> set (ds @ cur # rest)" if "x \<in> set (kids cur)" for x
    using that D(4) D(6) [of x] K pn by auto
  have "distinct ((cur # ds) @ rev (kids cur) @ rest)" using D(4) dk new by auto
  moreover have "desc st0 c t x \<and> (x = t \<or> c_parent (cap_table st0 c x) \<in> set (cur # ds))"
    if "x \<in> set ((cur # ds) @ rev (kids cur) @ rest)" for x
    using that D(5) [of x] D(5) [of cur] D(6) [of x] K [of x] by (auto intro: desc_child)
  moreover have "x \<in> set ((cur # ds) @ rev (kids cur) @ rest)"
    if "valid_slot st0 c x" "x = t \<or> c_parent (cap_table st0 c x) \<in> set (cur # ds)" for x
    using that D(7) [of x] K [of x] by auto
  moreover have "cs_of (revoke_free c cur u) c =
      (cs_of st0 c)\<lparr>free_head := free_head (cs_of (revoke_free c cur u) c),
        used_count := of_nat (unat (used_count (cs_of st0 c)) - length (cur # ds))\<rparr>"
  proof -
    define n where "n = unat (used_count (cs_of st0 c)) - length ds"
    have "n < 2 ^ 32" unfolding n_def using unat_u32_bound [of "used_count (cs_of st0 c)"] by simp
    then have "(if (of_nat n :: u32) > 0 then of_nat n - 1 else of_nat n) = (of_nat (n - 1) :: u32)"
      by (rule of_nat_u32_dec)
    moreover obtain fh where "cs_of u c = (cs_of st0 c)\<lparr>free_head := fh, used_count := of_nat n\<rparr>"
      using D(2) unfolding n_def by blast
    moreover have "unat (used_count (cs_of st0 c)) - Suc (length ds) = n - 1" by (simp add: n_def)
    ultimately show ?thesis by (auto split: if_splits)
  qed
  ultimately show ?thesis
    using D(1,3) unfolding revoke_data_def by (auto simp: fun_eq_iff)
qed

lemma revoke_linksD:
  assumes "revoke_links st0 c kids t ds stack u"
  shows "\<And>x. valid_slot st0 c x \<Longrightarrow> x \<notin> set ds \<Longrightarrow> dll (links u) (Children c x) (map (Sibling c) (kids x))"
    and "\<And>x. valid_slot st0 c x \<Longrightarrow> c_parent (cap_table st0 c x) = CAP_SLOT_INVALID \<Longrightarrow> x \<noteq> t \<Longrightarrow>
           dll (links u) (Sibling c x) []"
    and "half_linked (links u) (Sibling c ` set stack) (Children c ` set ds)"
    and "free_seg (links u) c (free_head (cs_of u c)) ds (free_head (cs_of st0 c))"
    and "\<And>n. \<not> table_node c n \<Longrightarrow> links u n = links st0 n"
    and "\<And>x. \<not> valid_slot st0 c x \<Longrightarrow> links u (Sibling c x) = links st0 (Sibling c x)"
  using assms unfolding revoke_links_def by blast+

text \<open>What one iteration writes: the freed slot, its neighbours on the stack and heads already freed.\<close>

lemma revoke_free_untouched:
  assumes "revoke_links st0 c kids t ds (cur # rest) u"
    and "n \<notin> Sibling c ` set (cur # rest)" and "n \<notin> Children c ` set (cur # ds)"
  shows "links (revoke_free c cur u) n = links u n"
  using assms(2,3) revoke_free_links(2) [of n c cur u]
    half_linked_untouched [OF revoke_linksD(3) [OF assms(1)], of "Sibling c cur" n]
  by auto

lemma revoke_links_step:
  assumes d: "revoke_data st0 c t ds (cur # rest) u"
    and l: "revoke_links st0 c kids t ds (cur # rest) u"
    and K: "\<And>x y. valid_slot st0 c x \<Longrightarrow>
       y \<in> set (kids x) \<longleftrightarrow> valid_slot st0 c y \<and> c_parent (cap_table st0 c y) = x \<and> y \<noteq> t"
    and ni: "\<not> valid_slot st0 c CAP_SLOT_INVALID"
  shows "revoke_links st0 c kids t (cur # ds) (rev (kids cur) @ rest) (revoke_free c cur u)"
proof -
  let ?h = "links u" and ?h' = "links (revoke_free c cur u)"
  note D = revoke_dataD [OF d] and L = revoke_linksD [OF l] and keep = revoke_free_untouched [OF l]
  have vd: "valid_slot st0 c x" if "x \<in> set (ds @ cur # rest)" for x using D(5) [OF that] desc_valid by blast
  have vc: "valid_slot st0 c cur" "cur \<notin> set ds" "cur \<notin> set rest" using vd [of cur] D(4) by auto
  have off: "y \<notin> set (cur # rest)" if "valid_slot st0 c x" "x \<notin> set ds" "y \<in> set (kids x)" for x y
    using that K [of x y] D(6) [of y] by auto
  have ring: "dll ?h' (Children c x) (map (Sibling c) (kids x))" if "valid_slot st0 c x" "x \<notin> set (cur # ds)" for x
    using that off [of x] by (intro dll_frame [OF L(1)] keep) auto
  have root: "dll ?h' (Sibling c x) []"
    if "valid_slot st0 c x" "c_parent (cap_table st0 c x) = CAP_SLOT_INVALID" "x \<noteq> t" for x
  proof -
    have "x \<notin> set (cur # rest)" using that D(6) [of x] vd [of CAP_SLOT_INVALID] ni by auto
    then show ?thesis using that by (intro dll_frame [OF L(2)] keep) auto
  qed
  have "half_linked ?h' (Sibling c ` set (cur # rest) - {Sibling c cur}) (Children c ` set ds)"
    using revoke_free_links(2) [of _ c cur u] by (intro half_linked_del_init [OF L(3)]) auto
  moreover have "Sibling c ` set (cur # rest) - {Sibling c cur} = Sibling c ` set rest" using vc by auto
  ultimately have hl1: "half_linked ?h' (Sibling c ` set rest) (Children c ` set (cur # ds))"
    by (auto intro: half_linked_cong)
  have "half_linked ?h (Sibling c ` set (kids cur)) {Children c cur}"
    using half_linked_dll [OF L(1) [OF vc(1,2)]] by simp
  then have hl2: "half_linked ?h' (Sibling c ` set (kids cur)) (Children c ` set (cur # ds))"
    by (rule half_linked_cong) (use off [OF vc(1,2)] in \<open>auto intro!: keep\<close>)
  have "free_seg ?h' c (free_head (cs_of u c)) ds (free_head (cs_of st0 c))"
    using D(4) by (intro free_seg_cong [OF L(4)] keep) auto
  then have fs: "free_seg ?h' c (free_head (cs_of (revoke_free c cur u) c)) (cur # ds) (free_head (cs_of st0 c))"
    using revoke_free_links(1) by auto
  have "links (revoke_free c cur u) n = links st0 n" if "\<not> table_node c n" for n
    using that L(5) keep [of n] by (auto simp: table_node_def)
  moreover have "links (revoke_free c cur u) (Sibling c x) = links st0 (Sibling c x)" if "\<not> valid_slot st0 c x" for x
    using that L(6) [OF that] keep [of "Sibling c x"] vd [of x] by auto
  ultimately show ?thesis
    using ring root fs half_linked_Un [OF hl2 hl1] unfolding revoke_links_def by (simp add: image_Un)
qed

section \<open>The whole traversal\<close>

lemma revoke_stack_room:
  assumes "revoke_data st0 c t ds stack u" and "card {x. desc st0 c t x} \<le> Suc n" and "cur \<in> set ds"
  shows "length stack \<le> n"
proof -
  have "set (ds @ stack) \<subseteq> {x. desc st0 c t x}" using revoke_dataD(5) [OF assms(1)] by auto
  then have "card (set (ds @ stack)) \<le> Suc n"
    using assms(2) by (meson card_mono finite le_trans)
  moreover have "card (set (ds @ stack)) = length ds + length stack"
    using distinct_card [OF revoke_dataD(4) [OF assms(1)]] by simp
  moreover have "length ds > 0" using assms(3) by (auto intro: length_pos_if_in_set)
  ultimately show ?thesis by linarith
qed

lemma revoke_loop_run:
  assumes K: "\<And>x y. valid_slot st0 c x \<Longrightarrow>
       y \<in> set (kids x) \<longleftrightarrow> valid_slot st0 c y \<and> c_parent (cap_table st0 c y) = x \<and> y \<noteq> t"
    and dk: "\<And>x. valid_slot st0 c x \<Longrightarrow> distinct (kids x)"
    and pn: "\<And>x. valid_slot st0 c x \<Longrightarrow> c_parent (cap_table st0 c x) \<noteq> x"
    and ni: "\<not> valid_slot st0 c CAP_SLOT_INVALID"
    and room: "card {x. desc st0 c t x} \<le> Suc REVOKE_STACK_SIZE"
    and "revoke_data st0 c t ds stack u" and "revoke_links st0 c kids t ds stack u"
  shows "\<exists>ds' u'. revoke_loop c stack False u = Some (False, u') \<and>
           revoke_data st0 c t ds' [] u' \<and> revoke_links st0 c kids t ds' [] u'"
  using assms(6,7)
proof (induction "card ({x. desc st0 c t x} - set ds)" arbitrary: ds stack u rule: less_induct)
  case less
  show ?case
  proof (cases stack)
    case Nil
    then show ?thesis using less.prems by (auto simp: revoke_loop.simps)
  next
    case (Cons cur rest)
    note d = less.prems(1) [unfolded Cons] and l = less.prems(2) [unfolded Cons]
    have t: "desc st0 c t cur" and nd: "cur \<notin> set ds" using revoke_dataD(4,5) [OF d] by auto
    have v: "valid_slot st0 c cur" using t by (rule desc_valid)
    have vu: "cspace_lookup (Some c) cur u = Some (c, cur)"
      using v nd revoke_dataD(3) [OF d] revoke_pool(1) [OF d]
      by (simp add: cspace_lookup_valid valid_slot_def)
    let ?u = "revoke_free c cur u"
    have d': "revoke_data st0 c t (cur # ds) (rev (kids cur) @ rest) ?u"
      using revoke_data_step [OF d] K [OF v] dk [OF v] pn [OF v] by blast
    have l': "revoke_links st0 c kids t (cur # ds) (rev (kids cur) @ rest) ?u"
      using revoke_links_step [OF d l K ni] by blast
    have "length (rev (kids cur) @ rest) \<le> REVOKE_STACK_SIZE"
      using revoke_stack_room [OF d' room, of cur] by simp
    then have push: "list_for_each_safe (\<lambda>_. links u) (revoke_push_body c) (Children c cur)
        (lh_next (links u (Children c cur))) (rest, False) = Some (rev (kids cur) @ rest, False)"
      by (intro revoke_push_loop [OF revoke_linksD(1) [OF l v nd]]) simp
    have "card ({x. desc st0 c t x} - set (cur # ds)) < card ({x. desc st0 c t x} - set ds)"
      using t nd by (intro psubset_card_mono) auto
    from less.hyps [OF this d' l'] show ?thesis
      unfolding Cons using vu push by (subst revoke_loop.simps) simp
  qed
qed

text \<open>When the stack is empty, exactly the subtree has been freed.\<close>

lemma revoke_done:
  assumes "revoke_data st0 c t ds [] u" and "valid_slot st0 c t"
  shows "set ds = {x. desc st0 c t x}"
proof
  show "set ds \<subseteq> {x. desc st0 c t x}" using revoke_dataD(5) [OF assms(1)] by auto
  have "x \<in> set ds" if "desc st0 c t x" for x
    using that revoke_dataD(7) [OF assms(1)] by induction auto
  then show "{x. desc st0 c t x} \<subseteq> set ds" by auto
qed

section \<open>Revocation\<close>

lemma desc_cong:
  assumes "desc st c t x" and "cap_table st' c = cap_table st c" and "capacity (cs_of st' c) = capacity (cs_of st c)"
  shows "desc st' c t x"
  using assms by (induction rule: desc.induct) (auto intro: desc.intros simp: valid_slot_def)

lemma desc_unlink: "desc (unlink_parent c t st) c t x \<longleftrightarrow> desc st c t x"
  using desc_cong [of _ c t x] by (metis unlink_parent_simps(1,2))

lemma valid_unlink: "valid_slot (unlink_parent c t st) c x \<longleftrightarrow> valid_slot st c x"
  by (simp add: valid_slot_def)

text \<open>The first iteration does the unlinking from the parent's ring itself.\<close>

lemma revoke_free_unlink:
  assumes "tree_inv st c kids" and "valid_slot st c t"
  shows "revoke_free c t (unlink_parent c t st) = revoke_free c t st"
proof (cases "c_parent (cap_table st c t) = CAP_SLOT_INVALID")
  case False
  let ?h = "list_del_init (Some (Sibling c t)) (links st)"
  have "list_del_init (Some (Sibling c t)) ?h = ?h"
    using unlink_parent_links(1) [OF assms] False
    by (intro list_del_init_alone) (simp add: unlink_parent_def)
  then show ?thesis using False
    by (simp add: revoke_free_def unlink_parent_def upd_links_def Let_def)
qed (simp add: unlink_parent_def)

lemma revoke_loop_unlink:
  assumes "tree_inv st c kids" and "valid_slot st c t" and "length (kids t) \<le> REVOKE_STACK_SIZE"
  shows "revoke_loop c [t] False (unlink_parent c t st) = revoke_loop c [t] False st"
proof -
  have k: "kids_unlink t (c_parent (cap_table st c t)) kids t = kids t"
    using parent_neq [OF assms(1,2)] by (simp add: kids_unlink_def)
  note push = revoke_push_loop [OF kids_ring [OF assms(1,2)], of "[]" False]
    revoke_push_loop [OF unlink_parent_links(2) [OF assms(1,2,2)], of "[]" False, unfolded k]
  show ?thesis
    using assms(2,3) push by (simp add: revoke_loop.simps [of c "[t]"] cspace_lookup_valid valid_unlink
        revoke_free_unlink [OF assms(1,2)])
qed

lemma revoke_start:
  assumes inv: "tree_inv st c kids" and v: "valid_slot st c t"
  shows "revoke_data (unlink_parent c t st) c t [] [t] (unlink_parent c t st)"
    and "revoke_links (unlink_parent c t st) c (kids_unlink t (c_parent (cap_table st c t)) kids) t [] [t]
           (unlink_parent c t st)"
  using v unlink_parent_links [OF inv v] half_linked_self [OF unlink_parent_links(1) [OF inv v]]
  by (auto simp: revoke_data_def revoke_links_def valid_unlink intro: desc.intros)

lemma kids_room:
  assumes inv: "tree_inv st c kids" and v: "valid_slot st c t"
    and room: "card {x. desc st c t x} \<le> Suc n"
  shows "length (kids t) \<le> n"
proof -
  have "distinct (t # kids t)"
    using kids_distinct [OF inv v] kids_iff [OF inv v] parent_neq [OF inv v] by auto
  moreover have "set (t # kids t) \<subseteq> {x. desc st c t x}"
    using v kids_iff [OF inv v] by (auto intro: desc.intros)
  ultimately have "Suc (length (kids t)) \<le> card {x. desc st c t x}"
    by (metis card_mono distinct_card finite length_Cons)
  with room show ?thesis by simp
qed

definition revoked :: "cap_sys \<Rightarrow> nat \<Rightarrow> u32 \<Rightarrow> u32 list \<Rightarrow> cap_sys \<Rightarrow> bool" where
  "revoked st c t ds st' \<longleftrightarrow>
     distinct ds \<and> set ds = {x. desc st c t x} \<and>
     (\<forall>d. d \<noteq> c \<longrightarrow> cs_of st' d = cs_of st d) \<and>
     cap_table st' = (cap_table st)(c := (\<lambda>x. if desc st c t x then freed_cap else cap_table st c x)) \<and>
     capacity (cs_of st' c) = capacity (cs_of st c) \<and> root_slot (cs_of st' c) = root_slot (cs_of st c) \<and>
     used_count (cs_of st' c) = of_nat (unat (used_count (cs_of st c)) - length ds) \<and>
     free_seg (links st') c (free_head (cs_of st' c)) ds (free_head (cs_of st c)) \<and>
     (\<forall>n. \<not> table_node c n \<longrightarrow> links st' n = links st n) \<and>
     (\<forall>x. \<not> valid_slot st c x \<longrightarrow> links st' (Sibling c x) = links st (Sibling c x))"

lemma revoke_final:
  assumes inv: "tree_inv st c kids" and v: "valid_slot st c t"
    and d: "revoke_data (unlink_parent c t st) c t ds [] st'"
    and l: "revoke_links (unlink_parent c t st) c kids' t ds [] st'"
    and k: "kids' = kids_unlink t (c_parent (cap_table st c t)) kids"
  shows "revoked st c t ds st'" and "tree_inv st' c kids'"
proof -
  note D = revoke_dataD [OF d] and L = revoke_linksD [OF l] and P = revoke_pool [OF d]
  have ds: "set ds = {x. desc st c t x}" using revoke_done [OF d] v by (simp add: valid_unlink desc_unlink)
  have tab: "cap_table st' = (cap_table st)(c := (\<lambda>x. if desc st c t x then freed_cap else cap_table st c x))"
    using D(1,3) ds by (auto simp: fun_eq_iff)
  show "revoked st c t ds st'"
    unfolding revoked_def using D(1,4) ds tab P L(4-6) unlink_parent_links(4,5) [OF inv v]
    by (simp add: valid_unlink)
  have t: "desc st c t t" using v by (rule desc_self)
  have valid: "valid_slot st' c x \<longleftrightarrow> valid_slot st c x \<and> \<not> desc st c t x" for x
    using P(1) by (simp add: valid_slot_def tab zero_cap_def)
  have up: "\<not> desc st c t (c_parent (cap_table st c x))" if "valid_slot st c x" "\<not> desc st c t x" for x
    using that by (auto intro: desc_child)
  have data: "cap_data_ok st' c x" if vx: "valid_slot st c x" "\<not> desc st c t x" for x
    using tree_invD(1) [OF inv vx(1)] vx up [OF vx] by (simp add: cap_data_ok_def valid tab Let_def)
  have mem: "y \<in> set (kids' x) \<longleftrightarrow> valid_slot st' c y \<and> c_parent (cap_table st' c y) = x"
    if vx: "valid_slot st c x" "\<not> desc st c t x" for x y
  proof (cases "desc st c t y")
    case True
    then have "y = t \<or> c_parent (cap_table st c y) \<noteq> x" using vx by (auto elim: desc.cases)
    with True show ?thesis
      using kids_unlink_mem [OF inv v vx(1)] kids_iff [OF inv vx(1)] by (auto simp: k valid)
  next
    case False
    then show ?thesis
      using t kids_unlink_mem [OF inv v vx(1)] kids_iff [OF inv vx(1)] by (auto simp: k valid tab)
  qed
  have links: "cap_links_ok st' c kids' x" if vx: "valid_slot st c x" "\<not> desc st c t x" for x
    using vx t L(1) [of x] L(2) [of x] mem [OF vx] ds by (auto simp: cap_links_ok_def valid_unlink tab)
  show "tree_inv st' c kids'" using inv data links P(1) by (simp add: tree_inv_def valid)
qed

lemma cap_revoke_run:
  assumes inv: "tree_inv st c kids" and v: "valid_slot st c t"
    and r: "root \<noteq> CAP_SLOT_INVALID" "cspace_from_root root st = Some (Some c)"
    and rv: "c_rights (cap_table st c t) AND CAP_RIGHT_REVOKE \<noteq> CAP_RIGHT_NONE"
    and room: "card {x. desc st c t x} \<le> Suc REVOKE_STACK_SIZE"
  shows "\<exists>ds st'. cap_revoke root t st = Some (KERNEL_OK, st') \<and> revoked st c t ds st' \<and>
           tree_inv st' c (kids_unlink t (c_parent (cap_table st c t)) kids)"
proof -
  let ?u = "unlink_parent c t st" and ?k = "kids_unlink t (c_parent (cap_table st c t)) kids"
  have dk: "distinct (?k x)" if "valid_slot st c x" for x
    using kids_distinct [OF inv that] by (auto simp: kids_unlink_def distinct_remove1)
  obtain ds st' where run: "revoke_loop c [t] False ?u = Some (False, st')"
      and d: "revoke_data ?u c t ds [] st'" and l: "revoke_links ?u c ?k t ds [] st'"
    using revoke_loop_run [of ?u c ?k t "[]" "[t]" ?u] revoke_start [OF inv v] room dk
      kids_unlink_mem [OF inv v] kids_iff [OF inv] parent_neq [OF inv] not_valid_INVALID [OF inv]
    by (auto simp: valid_unlink desc_unlink)
  have ni: "t \<noteq> CAP_SLOT_INVALID" using v not_valid_INVALID [OF inv] by auto
  have "revoke_loop c [t] False st = Some (False, st')"
    using run revoke_loop_unlink [OF inv v kids_room [OF inv v room]] by simp
  then have "cap_revoke root t st = Some (KERNEL_OK, st')"
    using v r rv ni by (simp add: cap_revoke_def cspace_lookup_valid valid_slot_def)
  with revoke_final [OF inv v d l refl] show ?thesis by blast
qed

end
