(* ===== verification/Cap_Inv.thy ===== *)
theory Cap_Inv
  imports Cap_Move Cap_Revoke
begin

text \<open>
  The invariant of the whole capability system, \<open>all_inv\<close>: the forest of every CSpace is well formed and no capability
  has a right that its parent lacks.  Every operation of \<^verbatim>\<open>capability.c\<close> preserves it, as long as copy, derive and move stay inside
  one CSpace.
\<close>

definition all_inv :: "cap_sys \<Rightarrow> bool" where
  "all_inv st \<longleftrightarrow> (\<forall>c. cap_inv st c)"

lemma all_invI_tables:
  assumes "all_inv st" and "cap_inv st' c"
    and "\<And>d. d \<noteq> c \<Longrightarrow> capacity (cs_of st' d) = capacity (cs_of st d) \<and> cap_table st' d = cap_table st d"
    and "\<And>d n. d \<noteq> c \<Longrightarrow> table_node d n \<Longrightarrow> links st' n = links st n"
  shows "all_inv st'"
  unfolding all_inv_def
proof
  fix d
  show "cap_inv st' d"
  proof (cases "d = c")
    case False
    then show ?thesis
      using assms(1,3,4) by (intro cap_inv_cong [of st d st']) (auto simp: all_inv_def)
  qed (simp add: assms)
qed

text \<open>A capability operation keeps the invariant and does not touch the list node of any CSpace.\<close>

definition keeps :: "cap_sys \<Rightarrow> cap_sys \<Rightarrow> bool" where
  "keeps st st' \<longleftrightarrow> all_inv st' \<and> (\<forall>d. links st' (CspaceNode d) = links st (CspaceNode d))"

lemma keeps_refl: "all_inv st \<Longrightarrow> keeps st st"
  by (simp add: keeps_def)

lemma keepsI:
  assumes "all_inv st" and "cap_inv st' c"
    and "\<And>d. d \<noteq> c \<Longrightarrow> capacity (cs_of st' d) = capacity (cs_of st d) \<and> cap_table st' d = cap_table st d"
    and "\<And>n. \<not> table_node c n \<Longrightarrow> links st' n = links st n"
  shows "keeps st st'"
  using assms all_invI_tables [of st st' c] by (auto simp: keeps_def table_node_def)

lemma cap_inv_empty: "capacity (cs_of st c) = 0 \<Longrightarrow> cap_inv st c"
  by (auto simp: cap_inv_def tree_inv_def rights_mono_def valid_slot_def)

lemma keeps_insert:
  assumes inv: "all_inv st" and ins: "cap_insert_locked c s t k r b p st = (res, st')"
    and p: "p \<noteq> CAP_SLOT_INVALID \<Longrightarrow> valid_slot st c p \<Longrightarrow> rights_le r (c_rights (cap_table st c p))"
  shows "keeps st st'"
proof (cases res)
  case KERNEL_OK
  note i = ins [unfolded KERNEL_OK]
  obtain kids where t: "tree_inv st c kids" and m: "rights_mono st c"
    using inv by (auto simp: all_inv_def cap_inv_def)
  have "cap_inv st' c"
    using tree_inv_insert [OF t i] rights_mono_insert [OF t m i] cap_insert_locked_OK(4) [OF i] p
    by (auto simp: cap_inv_def)
  then show ?thesis
    using insert_other_tables [OF i] insert_other_nodes [OF t i] by (intro keepsI [OF inv]) auto
next
  case (Err e)
  then show ?thesis using keeps_refl [OF inv] ins cap_insert_locked_fail by blast
qed

section \<open>Copy, derive, mint, badge\<close>

lemma keeps_copy:
  assumes "all_inv st" and "cspace_from_root sc st = cspace_from_root dc st"
    and "cap_copy sc s dc d m st = Some (r, st')"
  shows "keeps st st'"
proof -
  have "st' = st \<or> (\<exists>c t k b. cap_insert_locked c d t k (if m \<noteq> 0 then c_rights (cap_table st c s) AND m
           else c_rights (cap_table st c s)) b s st = (r, st'))"
    using assms(2,3) by (auto simp: cap_copy_def Let_def cspace_lookup_valid
        split: bind_splits option.splits if_splits)
  then show ?thesis
    using keeps_refl [OF assms(1)] by (elim disjE exE keeps_insert [OF assms(1)]) auto
qed

lemma keeps_derive:
  assumes "all_inv st" and "cspace_from_root sc st = cspace_from_root dc st"
    and "cap_derive sc s dc d nr b st = Some (r, st')"
  shows "keeps st st'"
proof -
  have "st' = st \<or> (\<exists>c t k. rights_le nr (c_rights (cap_table st c s)) \<and>
           cap_insert_locked c d t k nr b s st = (r, st'))"
    using assms(2,3) by (auto simp: cap_derive_def Let_def cspace_lookup_valid rights_le_def
        split: bind_splits option.splits if_splits)
  then show ?thesis
    using keeps_refl [OF assms(1)] by (elim disjE exE conjE keeps_insert [OF assms(1)]) auto
qed

lemma keeps_mint:
  assumes "all_inv st" and "cap_mint root s t k r b st = Some (res, st')"
  shows "keeps st st'"
  using assms(2) keeps_refl [OF assms(1)]
  by (auto simp: cap_mint_def intro: keeps_insert [OF assms(1)]
      split: bind_splits option.splits if_splits prod.splits)

text \<open>The invariant reads no badge, object id or inheritance flag.\<close>

lemma keeps_core:
  assumes "all_inv st" and "links st' = links st" and "\<And>c. capacity (cs_of st' c) = capacity (cs_of st c)"
    and core: "\<And>c x. c_state (cap_table st' c x) = c_state (cap_table st c x)"
      "\<And>c x. c_type (cap_table st' c x) = c_type (cap_table st c x)"
      "\<And>c x. c_rights (cap_table st' c x) = c_rights (cap_table st c x)"
      "\<And>c x. c_parent (cap_table st' c x) = c_parent (cap_table st c x)"
      "\<And>c x. c_depth (cap_table st' c x) = c_depth (cap_table st c x)"
  shows "keeps st st'"
proof -
  have v: "valid_slot st' = valid_slot st" by (simp add: valid_slot_def fun_eq_iff assms)
  have "tree_inv st' = tree_inv st"
    by (simp add: tree_inv_def cap_data_ok_def cap_links_ok_def fun_eq_iff assms v Let_def)
  moreover have "rights_mono st' = rights_mono st" by (simp add: rights_mono_def fun_eq_iff assms v)
  ultimately show ?thesis using assms(1,2) by (simp add: keeps_def all_inv_def cap_inv_def)
qed

lemma keeps_badge:
  assumes "all_inv st" and "cap_badge_update root s b st = Some (res, st')"
  shows "keeps st st'"
proof -
  have "st' = st \<or> (\<exists>c s. st' = upd_cap c s (\<lambda>cap. cap\<lparr>c_badge := b\<rparr>) st)"
    using assms(2) by (auto simp: cap_badge_update_def split: bind_splits option.splits if_splits prod.splits)
  then show ?thesis using assms(1) keeps_refl by (auto intro: keeps_core)
qed

section \<open>Delete, move, revoke\<close>

lemma rights_mono_subset:
  assumes "rights_mono st c"
    and "\<And>x. valid_slot st' c x \<Longrightarrow> valid_slot st c x \<and> c_rights (cap_table st' c x) = c_rights (cap_table st c x)"
    and "\<And>x. valid_slot st' c x \<Longrightarrow> c_parent (cap_table st' c x) \<noteq> CAP_SLOT_INVALID \<Longrightarrow>
          c_parent (cap_table st' c x) = c_parent (cap_table st c x) \<and> valid_slot st' c (c_parent (cap_table st c x))"
  shows "rights_mono st' c"
  using assms unfolding rights_mono_def by metis

lemma keeps_delete:
  assumes inv: "all_inv st" and run: "cap_delete root s st = Some (res, st')"
  shows "keeps st st'"
proof (cases "st' = st")
  case False
  obtain c where r: "root \<noteq> CAP_SLOT_INVALID" "cspace_from_root root st = Some (Some c)" "valid_slot st c s"
    using run False by (auto simp: cap_delete_def cspace_lookup_valid split: bind_splits option.splits if_splits)
  obtain kids where t: "tree_inv st c kids" and m: "rights_mono st c"
    using inv by (auto simp: all_inv_def cap_inv_def)
  obtain st2 where e: "st' = clear_cap c s st2" and o: "orphaned (unlink_parent c s st) c s (kids s) [] st2"
    using cap_delete_run [OF t r(3,1,2)] run by auto
  note del = tree_inv_delete [OF t r(3) o e]
  have v: "valid_slot st' c x \<longleftrightarrow> valid_slot st c x \<and> x \<noteq> s" for x
    by (auto simp: valid_slot_def del(1,2) deleted_table_def zero_cap_def)
  have "rights_mono st' c"
    using parent_valid [OF t] by (intro rights_mono_subset [OF m])
      (auto simp: v del(1) deleted_table_def split: if_splits)
  then have "cap_inv st' c" using del(3) by (auto simp: cap_inv_def)
  then show ?thesis using del(1,2,4) by (intro keepsI [OF inv]) auto
qed (simp add: inv keeps_refl)

lemma keeps_revoke:
  assumes inv: "all_inv st" and run: "cap_revoke root t st = Some (res, st')"
    and room: "\<And>c. cspace_from_root root st = Some (Some c) \<Longrightarrow>
       card {x. desc st c t x} \<le> Suc REVOKE_STACK_SIZE"
  shows "keeps st st'"
proof (cases "st' = st")
  case False
  obtain c where r: "root \<noteq> CAP_SLOT_INVALID" "cspace_from_root root st = Some (Some c)" "valid_slot st c t"
      "c_rights (cap_table st c t) AND CAP_RIGHT_REVOKE \<noteq> CAP_RIGHT_NONE"
    using run False by (auto simp: cap_revoke_def cspace_lookup_valid split: bind_splits option.splits if_splits)
  obtain kids where t: "tree_inv st c kids" and m: "rights_mono st c"
    using inv by (auto simp: all_inv_def cap_inv_def)
  obtain ds kids' where rv: "revoked st c t ds st'" and t': "tree_inv st' c kids'"
    using cap_revoke_run [OF t r(3,1,2,4) room [OF r(2)]] run by auto
  have v: "valid_slot st' c x \<longleftrightarrow> valid_slot st c x \<and> \<not> desc st c t x" for x
    using rv by (auto simp: revoked_def valid_slot_def zero_cap_def)
  have "rights_mono st' c"
    using parent_valid [OF t'] rv by (intro rights_mono_subset [OF m]) (auto simp: v revoked_def)
  then have "cap_inv st' c" using t' by (auto simp: cap_inv_def)
  then show ?thesis using rv by (intro keepsI [OF inv]) (auto simp: revoked_def)
qed (simp add: inv keeps_refl)

lemma rights_mono_move:
  assumes t: "tree_inv st c kids" and m: "rights_mono st c" and v: "valid_slot st c s" and nd: "\<not> valid_slot st c d"
    and d: "d < capacity (cs_of st c)" "d \<noteq> CAP_SLOT_INVALID"
    and tab: "cap_table st' c = moved_table st c s d" and cap: "capacity (cs_of st' c) = capacity (cs_of st c)"
  shows "rights_mono st' c"
  unfolding rights_mono_def
proof (intro allI impI)
  fix x assume vx: "valid_slot st' c x" and p: "c_parent (cap_table st' c x) \<noteq> CAP_SLOT_INVALID"
  have sd: "s \<noteq> d" using v nd by auto
  have x: "x = d \<or> x \<noteq> s \<and> valid_slot st c x"
    using vx v by (auto simp: valid_slot_def tab cap moved_table_def zero_cap_def Let_def split: if_splits)
  have up: "rights_le (c_rights (cap_table st c y)) (c_rights (cap_table st c (c_parent (cap_table st c y))))
      \<and> valid_slot st c (c_parent (cap_table st c y))"
    if "valid_slot st c y" "c_parent (cap_table st c y) \<noteq> CAP_SLOT_INVALID" for y
    using that m parent_valid [OF t] by (auto simp: rights_mono_def)
  have r: "c_rights (cap_table st' c y) = (if y = d then c_rights (cap_table st c s) else c_rights (cap_table st c y))"
    if "y \<noteq> s" for y
    using that by (simp add: tab moved_table_def inserted_cap_def Let_def)
  show "rights_le (c_rights (cap_table st' c x)) (c_rights (cap_table st' c (c_parent (cap_table st' c x))))"
  proof (cases "x = d")
    case True
    then have e: "c_parent (cap_table st' c x) = c_parent (cap_table st c s)"
      by (simp add: tab moved_table_def inserted_cap_def Let_def)
    with p up [OF v] nd parent_neq [OF t v] True sd show ?thesis
      by (auto simp: r)
  next
    case False
    with x have vx': "x \<noteq> s" "valid_slot st c x" by auto
    show ?thesis
    proof (cases "c_parent (cap_table st c x) = s")
      case True
      then have "c_parent (cap_table st' c x) = d" "s \<noteq> CAP_SLOT_INVALID"
        using False vx' v not_valid_INVALID [OF t] by (auto simp: tab moved_table_def Let_def)
      with True up [OF vx'(2)] False vx' sd show ?thesis by (simp add: r)
    next
      case F: False
      then have "c_parent (cap_table st' c x) = c_parent (cap_table st c x)"
        using False vx' by (simp add: tab moved_table_def Let_def)
      with F p up [OF vx'(2)] False vx' nd show ?thesis by (auto simp: r)
    qed
  qed
qed

lemma cap_move_OK:
  assumes "tree_inv st c kids" and "cspace_from_root sc st = Some (Some c)" "cspace_from_root dc st = Some (Some c)"
    and "cap_move sc s dc d st = Some (KERNEL_OK, st')"
  shows "\<exists>kids'. tree_inv st' c kids'" and "cap_table st' = (cap_table st)(c := moved_table st c s d)"
    and "s_cspace_pool st' = (s_cspace_pool st)(c := (cs_of st c)\<lparr>used_count := used_count (cs_of st c) + 1\<rparr>)"
    and "\<And>n. \<not> table_node c n \<Longrightarrow> links st' n = links st n"
    and "valid_slot st c s" "\<not> valid_slot st c d" "d < capacity (cs_of st c)" "d \<noteq> CAP_SLOT_INVALID"
proof -
  let ?cap = "cap_table st c s"
  have ni: "sc \<noteq> CAP_SLOT_INVALID" "dc \<noteq> CAP_SLOT_INVALID" "s \<noteq> CAP_SLOT_INVALID" "d \<noteq> CAP_SLOT_INVALID"
    using assms(4) by (auto simp: cap_move_def split: if_splits)
  obtain st1 where v: "valid_slot st c s" and ins: "cap_insert_locked c d (c_type ?cap) (c_kobj ?cap) (c_rights ?cap)
        (c_badge ?cap) (c_parent ?cap) st = (KERNEL_OK, st1)"
      and run: "Option.bind (hand_over c s d st1)
        (\<lambda>st3. Some (KERNEL_OK, clear_cap c s (unlink_parent c s st3))) = Some (KERNEL_OK, st')"
    using assms(4) unfolding cap_move_guards [OF assms(2,3) ni]
    by (auto simp: Let_def split: if_splits prod.splits status.splits)
  from cap_move_step [OF assms(1) v refl ins] obtain st3 where ho: "hand_over c s d st1 = Some st3"
      and r: "\<exists>kids'. tree_inv (clear_cap c s (unlink_parent c s st3)) c kids'"
        "cap_table (clear_cap c s (unlink_parent c s st3)) = (cap_table st)(c := moved_table st c s d)"
        "s_cspace_pool (clear_cap c s (unlink_parent c s st3)) = s_cspace_pool st1"
        "\<forall>n. \<not> table_node c n \<longrightarrow> links (clear_cap c s (unlink_parent c s st3)) n = links st n"
    by blast
  have e: "st' = clear_cap c s (unlink_parent c s st3)" using run ho by simp
  show "\<exists>kids'. tree_inv st' c kids'" "cap_table st' = (cap_table st)(c := moved_table st c s d)"
    "s_cspace_pool st' = (s_cspace_pool st)(c := (cs_of st c)\<lparr>used_count := used_count (cs_of st c) + 1\<rparr>)"
    "\<And>n. \<not> table_node c n \<Longrightarrow> links st' n = links st n"
    using r cap_insert_locked_OK(5) [OF ins] unfolding e by simp_all
  show "valid_slot st c s" "\<not> valid_slot st c d" "d < capacity (cs_of st c)" "d \<noteq> CAP_SLOT_INVALID"
    using v ni valid_slot_insert(2) [OF ins] cap_insert_locked_OK(1) [OF ins] by auto
qed

lemma cap_move_fail:
  assumes "cap_move sc s dc d st = Some (Err e, st')"
  shows "st' = st"
  using assms cap_insert_locked_fail
  by (fastforce simp: cap_move_def Let_def split: bind_splits option.splits if_splits prod.splits status.splits)

lemma keeps_move:
  assumes inv: "all_inv st" and same: "cspace_from_root sc st = cspace_from_root dc st"
    and run: "cap_move sc s dc d st = Some (res, st')"
  shows "keeps st st'"
proof (cases res)
  case KERNEL_OK
  obtain c where r: "cspace_from_root sc st = Some (Some c)"
    using run [unfolded KERNEL_OK] by (auto simp: cap_move_def split: bind_splits option.splits if_splits)
  obtain kids where t: "tree_inv st c kids" and m: "rights_mono st c"
    using inv by (auto simp: all_inv_def cap_inv_def)
  note mv = cap_move_OK [OF t r r [unfolded same] run [unfolded KERNEL_OK]]
  have "rights_mono st' c" using mv(2,3) by (intro rights_mono_move [OF t m mv(5-8)]) auto
  then have "cap_inv st' c" using mv(1) by (auto simp: cap_inv_def)
  then show ?thesis using mv(2,3,4) by (intro keepsI [OF inv]) auto
qed (use keeps_refl [OF inv] run cap_move_fail in blast)

end
