(* ===== verification/CSpace_Hash.thy ===== *)
theory CSpace_Hash
  imports CSpace
begin

text \<open>
  The hash index from object id to CSpace.  The locale \<open>id_index\<close> states what the CSpace subsystem relies on: an index
  in which every slot of the node pool holds at most one entry, with registration, removal and search.  The chained
  hash table of \<^verbatim>\<open>cspace.c\<close> is shown to be one, so that a search terminates and finds exactly the registered ids.
\<close>

section \<open>The interface\<close>

locale id_index =
  fixes ok :: "'s \<Rightarrow> bool"
    and entries :: "'s \<Rightarrow> (u32 \<times> nat) set"
    and search :: "u32 \<Rightarrow> 's \<Rightarrow> nat option option"
    and reg :: "u32 \<Rightarrow> nat \<Rightarrow> 's \<Rightarrow> 's"
    and unreg :: "u32 \<Rightarrow> 's \<Rightarrow> 's option"
    and size :: nat
  assumes keys: "ok s \<Longrightarrow> (k, i) \<in> entries s \<Longrightarrow> (k, j) \<in> entries s \<Longrightarrow> i = j"
    and hit: "ok s \<Longrightarrow> (k, i) \<in> entries s \<Longrightarrow> search k s = Some (Some i)"
    and miss: "ok s \<Longrightarrow> k \<notin> fst ` entries s \<Longrightarrow> search k s = Some None"
    and reg_entries: "ok s \<Longrightarrow> k \<notin> fst ` entries s \<Longrightarrow> i \<notin> snd ` entries s \<Longrightarrow> i < size \<Longrightarrow>
      ok (reg k i s) \<and> entries (reg k i s) = insert (k, i) (entries s)"
    and unreg_entries: "ok s \<Longrightarrow>
      \<exists>s'. unreg k s = Some s' \<and> ok s' \<and> entries s' = {e \<in> entries s. fst e \<noteq> k}"
begin

text \<open>A search always ends.\<close>

lemma search_total: "ok s \<Longrightarrow> \<exists>r. search k s = Some r"
  using hit [of s k] miss [of s k] by (cases "k \<in> fst ` entries s") auto

lemma search_iff:
  assumes "ok s"
  shows "search k s = Some (Some i) \<longleftrightarrow> (k, i) \<in> entries s"
proof
  assume f: "search k s = Some (Some i)"
  show "(k, i) \<in> entries s"
  proof (rule ccontr)
    assume n: "(k, i) \<notin> entries s"
    show False
    proof (cases "k \<in> fst ` entries s")
      case True
      then obtain j where "(k, j) \<in> entries s" by auto
      with hit [OF assms this] f n show False by simp
    qed (use miss [OF assms] f in simp)
  qed
qed (rule hit [OF assms])

text \<open>Insert then look up: the new entry is found, every other key is found as before.\<close>

lemma search_reg:
  assumes "ok s" and "k \<notin> fst ` entries s" and "i \<notin> snd ` entries s" and "i < size"
  shows "search k' (reg k i s) = (if k' = k then Some (Some i) else search k' s)"
proof -
  note r = reg_entries [OF assms]
  show ?thesis
  proof (cases "k' \<in> fst ` entries (reg k i s)")
    case True
    then obtain j where j: "(k', j) \<in> entries (reg k i s)" by auto
    then have "search k' (reg k i s) = Some (Some j)" using r hit by blast
    moreover have "k' = k \<Longrightarrow> j = i" using keys r j by blast
    moreover have "k' \<noteq> k \<Longrightarrow> search k' s = Some (Some j)" using r j hit [OF assms(1)] by auto
    ultimately show ?thesis by auto
  next
    case False
    then have "k' \<noteq> k" "k' \<notin> fst ` entries s" using r by auto
    then show ?thesis using False r miss assms(1) by simp
  qed
qed

lemma search_unreg:
  assumes "ok s" and "unreg k s = Some s'"
  shows "search k' s' = (if k' = k then Some None else search k' s)"
proof -
  have r: "ok s'" "entries s' = {e \<in> entries s. fst e \<noteq> k}" using unreg_entries [OF assms(1), of k] assms(2) by auto
  show ?thesis
  proof (cases "k' \<in> fst ` entries s'")
    case True
    then obtain j where j: "(k', j) \<in> entries s'" by auto
    then show ?thesis using r hit [OF r(1) j] hit [OF assms(1), of k' j] by auto
  next
    case False
    then have "k' = k \<or> k' \<notin> fst ` entries s" using r by force
    then show ?thesis using miss [OF r(1) False] miss [OF assms(1)] by auto
  qed
qed

text \<open>Removing what was just registered restores every search.\<close>

lemma reg_unreg:
  assumes "ok s" and "k \<notin> fst ` entries s" and "i \<notin> snd ` entries s" and "i < size"
    and "unreg k (reg k i s) = Some s'"
  shows "search k' s' = search k' s"
proof -
  have "ok (reg k i s)" using reg_entries [OF assms(1-4)] by simp
  from search_unreg [OF this assms(5), of k'] search_reg [OF assms(1-4), of k'] miss [OF assms(1,2)]
  show ?thesis by (cases "k' = k") auto
qed

end

section \<open>Chains\<close>

fun hchain :: "(nat \<Rightarrow> hash_node) \<Rightarrow> nat option \<Rightarrow> nat list \<Rightarrow> bool" where
  "hchain nodes p [] \<longleftrightarrow> p = None"
| "hchain nodes p (i # is) \<longleftrightarrow> p = Some i \<and> hchain nodes (hn_next (nodes i)) is"

lemma hchain_unique: "hchain nodes p xs \<Longrightarrow> hchain nodes p ys \<Longrightarrow> xs = ys"
proof (induction xs arbitrary: p ys)
  case Nil
  then show ?case by (cases ys) auto
next
  case (Cons x xs)
  then show ?case by (cases ys) auto
qed

lemma hchain_cong:
  "hchain nodes p xs \<Longrightarrow> (\<And>i. i \<in> set xs \<Longrightarrow> hn_next (nodes' i) = hn_next (nodes i)) \<Longrightarrow> hchain nodes' p xs"
  by (induction xs arbitrary: p) auto

lemma hash_find_loop_chain:
  assumes "hchain nodes p xs"
  shows "hash_find_loop nodes key p =
    Some (case find (\<lambda>i. hn_key (nodes i) = key) xs of None \<Rightarrow> Miss | Some i \<Rightarrow> Hit (hn_value (nodes i)))"
  using assms
proof (induction xs arbitrary: p)
  case Nil
  then show ?case by (simp add: hash_find_loop.simps [of _ _ None])
next
  case (Cons x xs)
  then show ?case by (subst hash_find_loop.simps) auto
qed

text \<open>
  \<open>hash_ok st\<close>: every bucket is a finite chain of distinct pool nodes whose keys hash to the bucket and are distinct, and
  every node points to the CSpace with its own index.
\<close>

definition bucket_ok :: "cap_sys \<Rightarrow> u32 \<Rightarrow> nat list \<Rightarrow> bool" where
  "bucket_ok st b is \<longleftrightarrow> hchain (s_hash_nodes st) (s_cspace_hash st b) is \<and> distinct is \<and>
     inj_on (\<lambda>i. hn_key (s_hash_nodes st i)) (set is) \<and>
     (\<forall>i\<in>set is. i < CONFIG_MAX_CSPACES \<and> hn_value (s_hash_nodes st i) = Some i \<and>
        cspace_hash_index (hn_key (s_hash_nodes st i)) = b)"

definition hash_ok :: "cap_sys \<Rightarrow> bool" where
  "hash_ok st \<longleftrightarrow> (\<forall>b. \<exists>is. bucket_ok st b is)"

definition hash_entries :: "cap_sys \<Rightarrow> (u32 \<times> nat) set" where
  "hash_entries st = {(hn_key (s_hash_nodes st i), i) | b is i. bucket_ok st b is \<and> i \<in> set is}"

definition hash_search :: "u32 \<Rightarrow> cap_sys \<Rightarrow> nat option option" where
  "hash_search key st = map_option (\<lambda>r. case r of Hit v \<Rightarrow> v | Miss \<Rightarrow> None)
     (hash_find_loop (s_hash_nodes st) key (s_cspace_hash st (cspace_hash_index key)))"

lemma bucket_unique: "bucket_ok st b xs \<Longrightarrow> bucket_ok st b ys \<Longrightarrow> xs = ys"
  using hchain_unique by (auto simp: bucket_ok_def)

lemma hash_entriesD:
  assumes "bucket_ok st (cspace_hash_index k) is"
  shows "(k, i) \<in> hash_entries st \<longleftrightarrow> i \<in> set is \<and> hn_key (s_hash_nodes st i) = k"
proof
  assume "(k, i) \<in> hash_entries st"
  then obtain b js where j: "bucket_ok st b js" "i \<in> set js" "hn_key (s_hash_nodes st i) = k"
    by (auto simp: hash_entries_def)
  then have "b = cspace_hash_index k" by (auto simp: bucket_ok_def)
  then have "js = is" using j(1) assms bucket_unique by blast
  with j show "i \<in> set is \<and> hn_key (s_hash_nodes st i) = k" by simp
next
  assume "i \<in> set is \<and> hn_key (s_hash_nodes st i) = k"
  with assms show "(k, i) \<in> hash_entries st" unfolding hash_entries_def by blast
qed

lemma hash_search_bucket:
  assumes "bucket_ok st (cspace_hash_index k) is"
  shows "(k, i) \<in> hash_entries st \<Longrightarrow> hash_search k st = Some (Some i)"
    and "k \<notin> fst ` hash_entries st \<Longrightarrow> hash_search k st = Some None"
proof -
  let ?f = "find (\<lambda>i. hn_key (s_hash_nodes st i) = k) is"
  have s: "hash_search k st = Some (case ?f of None \<Rightarrow> None | Some i \<Rightarrow> hn_value (s_hash_nodes st i))"
    using assms hash_find_loop_chain [of "s_hash_nodes st" _ "is" k]
    by (auto simp: hash_search_def bucket_ok_def split: option.splits)
  show "hash_search k st = Some (Some i)" if e: "(k, i) \<in> hash_entries st"
  proof -
    have i: "i \<in> set is" "hn_key (s_hash_nodes st i) = k" using e hash_entriesD [OF assms] by auto
    then obtain j where j: "?f = Some j" by (cases ?f) (auto simp: find_None_iff)
    then have "j \<in> set is" "hn_key (s_hash_nodes st j) = k" by (auto simp: find_Some_iff)
    with i assms have "j = i" by (auto simp: bucket_ok_def inj_on_def)
    with s j i assms show ?thesis by (simp add: bucket_ok_def)
  qed
  show "hash_search k st = Some None" if "k \<notin> fst ` hash_entries st"
  proof -
    have "?f = None" using that hash_entriesD [OF assms] by (force simp: find_None_iff)
    with s show ?thesis by simp
  qed
qed

section \<open>Registration\<close>

lemma bucket_ok_register:
  assumes b: "bucket_ok st b is" and i: "i < CONFIG_MAX_CSPACES" "i \<notin> set is"
    and k: "k \<notin> (\<lambda>j. hn_key (s_hash_nodes st j)) ` set is"
  shows "bucket_ok (cspace_hash_register k i st) b (if b = cspace_hash_index k then i # is else is)"
proof -
  let ?n = "s_hash_nodes st" and ?n' = "s_hash_nodes (cspace_hash_register k i st)"
  have n: "?n' = ?n(i := \<lparr>hn_key = k, hn_value = Some i, hn_next = s_cspace_hash st (cspace_hash_index k)\<rparr>)"
    and h: "s_cspace_hash (cspace_hash_register k i st) = (s_cspace_hash st)(cspace_hash_index k := Some i)"
    using i by (simp_all add: cspace_hash_register_def Let_def)
  have same: "?n' j = ?n j" if "j \<in> set is" for j using that i(2) by (auto simp: n)
  have "hchain ?n' (s_cspace_hash st b) is"
    using b same by (auto simp: bucket_ok_def intro: hchain_cong)
  moreover have "inj_on (\<lambda>j. hn_key (?n' j)) (set is) \<longleftrightarrow> inj_on (\<lambda>j. hn_key (?n j)) (set is)"
    by (rule inj_on_cong) (simp add: same)
  ultimately show ?thesis
    using b i k same by (auto simp: bucket_ok_def h n)
qed

lemma hash_register_ok:
  assumes ok: "hash_ok st" and k: "k \<notin> fst ` hash_entries st" and i: "i \<notin> snd ` hash_entries st" "i < CONFIG_MAX_CSPACES"
  shows "hash_ok (cspace_hash_register k i st)"
    and "hash_entries (cspace_hash_register k i st) = insert (k, i) (hash_entries st)"
proof -
  let ?st = "cspace_hash_register k i st"
  have b: "bucket_ok ?st b (if b = cspace_hash_index k then i # is else is)" if "bucket_ok st b is" for b "is"
  proof (rule bucket_ok_register [OF that i(2)])
    show "i \<notin> set is" using i(1) that by (force simp: hash_entries_def)
    show "k \<notin> (\<lambda>j. hn_key (s_hash_nodes st j)) ` set is" using k that by (force simp: hash_entries_def)
  qed
  then show "hash_ok ?st" using ok unfolding hash_ok_def by blast
  have "(k', j) \<in> hash_entries ?st \<longleftrightarrow> (k', j) \<in> insert (k, i) (hash_entries st)" for k' j
  proof -
    obtain "is" where o: "bucket_ok st (cspace_hash_index k') is" using ok by (auto simp: hash_ok_def)
    have "i \<notin> set is" using i(1) o by (force simp: hash_entries_def)
    moreover have "s_hash_nodes ?st i = \<lparr>hn_key = k, hn_value = Some i,
        hn_next = s_cspace_hash st (cspace_hash_index k)\<rparr>" "\<And>j. j \<noteq> i \<Longrightarrow> s_hash_nodes ?st j = s_hash_nodes st j"
      using i(2) by (auto simp: cspace_hash_register_def Let_def)
    ultimately show ?thesis
      using hash_entriesD [OF o, of j] hash_entriesD [OF b [OF o], of j]
      by (cases "j = i") (auto split: if_splits)
  qed
  then show "hash_entries ?st = insert (k, i) (hash_entries st)" by (auto simp: set_eq_iff)
qed

section \<open>Removal\<close>

text \<open>Taking node \<open>x\<close> out of a chain \<open>us @ x # vs\<close> of bucket \<open>b\<close>.\<close>

definition hash_unlink :: "u32 \<Rightarrow> nat list \<Rightarrow> nat \<Rightarrow> cap_sys \<Rightarrow> cap_sys" where
  "hash_unlink b us x st =
     (let nxt = hn_next (s_hash_nodes st x);
          st1 = (if us = [] then st\<lparr>s_cspace_hash := (s_cspace_hash st)(b := nxt)\<rparr>
                 else st\<lparr>s_hash_nodes := (s_hash_nodes st)(last us := (s_hash_nodes st (last us))\<lparr>hn_next := nxt\<rparr>)\<rparr>)
      in st1\<lparr>s_hash_nodes := (s_hash_nodes st1)(x := \<lparr>hn_key = KOBJ_ID_INVALID, hn_value = None, hn_next = None\<rparr>)\<rparr>)"

lemma hash_unlink_simps:
  "x \<notin> set us \<Longrightarrow> j \<noteq> x \<Longrightarrow> hn_next (s_hash_nodes (hash_unlink b us x st) j) =
     (if us \<noteq> [] \<and> j = last us then hn_next (s_hash_nodes st x) else hn_next (s_hash_nodes st j))"
  "j \<noteq> x \<Longrightarrow> hn_key (s_hash_nodes (hash_unlink b us x st) j) = hn_key (s_hash_nodes st j)"
  "j \<noteq> x \<Longrightarrow> hn_value (s_hash_nodes (hash_unlink b us x st) j) = hn_value (s_hash_nodes st j)"
  "s_cspace_hash (hash_unlink b us x st) =
     (if us = [] then (s_cspace_hash st)(b := hn_next (s_hash_nodes st x)) else s_cspace_hash st)"
  by (auto simp: hash_unlink_def Let_def)

lemma hash_unregister_loop_chain:
  assumes "hchain (s_hash_nodes st) p vs"
  shows "hash_unregister_loop k b (if us = [] then None else Some (last us)) p st =
    Some (case find (\<lambda>i. hn_key (s_hash_nodes st i) = k) vs of
        None \<Rightarrow> st
      | Some x \<Rightarrow> hash_unlink b (us @ takeWhile (\<lambda>i. hn_key (s_hash_nodes st i) \<noteq> k) vs) x st)"
  using assms
proof (induction vs arbitrary: p us)
  case Nil
  then show ?case by (subst hash_unregister_loop.simps) simp
next
  case (Cons x vs)
  show ?case
  proof (cases "hn_key (s_hash_nodes st x) = k")
    case True
    with Cons.prems show ?thesis
      by (subst hash_unregister_loop.simps) (auto simp: hash_unlink_def Let_def)
  next
    case False
    with Cons.prems Cons.IH [of "hn_next (s_hash_nodes st x)" "us @ [x]"] show ?thesis
      by (subst hash_unregister_loop.simps) (auto simp: Let_def split: option.split)
  qed
qed

lemma hchain_unlink:
  assumes "hchain nodes p (us @ x # vs)" and "distinct (us @ x # vs)" and "us \<noteq> []"
    and "\<And>j. j \<in> set (us @ vs) \<Longrightarrow> hn_next (nodes' j) = (if j = last us then hn_next (nodes x) else hn_next (nodes j))"
  shows "hchain nodes' p (us @ vs)"
  using assms
proof (induction us arbitrary: p)
  case (Cons u us)
  show ?case
  proof (cases "us = []")
    case True
    have "u \<notin> set vs" using Cons.prems(2) by auto
    with True Cons.prems show ?thesis by (auto intro: hchain_cong [of nodes])
  next
    case False
    then have "hchain nodes' (hn_next (nodes u)) (us @ vs)"
      using Cons.prems by (intro Cons.IH) auto
    moreover have "u \<noteq> last us" using False Cons.prems(2) by auto
    ultimately show ?thesis using Cons.prems False by auto
  qed
qed simp

lemma bucket_ok_unlink:
  assumes b: "bucket_ok st b (us @ x # vs)"
  shows "bucket_ok (hash_unlink b us x st) b (us @ vs)"
    and "b' \<noteq> b \<Longrightarrow> bucket_ok st b' is \<Longrightarrow> bucket_ok (hash_unlink b us x st) b' is"
proof -
  let ?st = "hash_unlink b us x st"
  have d: "distinct (us @ x # vs)" and c: "hchain (s_hash_nodes st) (s_cspace_hash st b) (us @ x # vs)"
    using b by (auto simp: bucket_ok_def)
  have "hchain (s_hash_nodes ?st) (s_cspace_hash ?st b) (us @ vs)"
  proof (cases "us = []")
    case True
    have "hchain (s_hash_nodes ?st) (hn_next (s_hash_nodes st x)) vs"
      by (rule hchain_cong [of "s_hash_nodes st"]) (use True c d in \<open>auto simp: hash_unlink_def Let_def\<close>)
    with True show ?thesis by (simp add: hash_unlink_simps)
  next
    case False
    have "hchain (s_hash_nodes ?st) (s_cspace_hash st b) (us @ vs)"
      by (rule hchain_unlink [OF c d False]) (use False d in \<open>auto simp: hash_unlink_def Let_def\<close>)
    with False show ?thesis by (simp add: hash_unlink_simps)
  qed
  moreover have key: "hn_key (s_hash_nodes ?st j) = hn_key (s_hash_nodes st j) \<and>
      hn_value (s_hash_nodes ?st j) = hn_value (s_hash_nodes st j)" if "j \<in> set (us @ vs)" for j
    using that d by (intro conjI hash_unlink_simps) auto
  moreover have "inj_on (\<lambda>i. hn_key (s_hash_nodes ?st i)) (set (us @ vs)) \<longleftrightarrow>
      inj_on (\<lambda>i. hn_key (s_hash_nodes st i)) (set (us @ vs))"
    using key by (intro inj_on_cong) simp
  moreover have "inj_on (\<lambda>i. hn_key (s_hash_nodes st i)) (set (us @ vs))"
    by (rule inj_on_subset [of _ "set (us @ x # vs)"]) (use b in \<open>auto simp: bucket_ok_def\<close>)
  ultimately show "bucket_ok ?st b (us @ vs)" using b d unfolding bucket_ok_def by auto
  assume b': "b' \<noteq> b" "bucket_ok st b' is"
  have idx: "cspace_hash_index (hn_key (s_hash_nodes st j)) = b'" if "j \<in> set is" for j
    using that b'(2) unfolding bucket_ok_def by blast
  have idx': "cspace_hash_index (hn_key (s_hash_nodes st j)) = b" if "j \<in> set (us @ x # vs)" for j
    using that b unfolding bucket_ok_def by blast
  have out: "j \<noteq> x" "j \<notin> set us" if "j \<in> set is" for j
    using idx [OF that] idx' [of j] b'(1) by auto
  have lst: "us \<noteq> [] \<Longrightarrow> last us \<notin> set is" using out(2) [of "last us"] last_in_set [of us] by blast
  have "inj_on (\<lambda>i. hn_key (s_hash_nodes ?st i)) (set is) \<longleftrightarrow> inj_on (\<lambda>i. hn_key (s_hash_nodes st i)) (set is)"
    using out by (intro inj_on_cong) (auto simp: hash_unlink_simps)
  moreover have "hchain (s_hash_nodes ?st) (s_cspace_hash ?st b') is"
  proof -
    have "hchain (s_hash_nodes ?st) (s_cspace_hash st b') is"
      by (rule hchain_cong [of "s_hash_nodes st"])
        (use b' out d lst in \<open>auto simp: bucket_ok_def hash_unlink_simps\<close>)
    with b'(1) show ?thesis by (auto simp: hash_unlink_simps)
  qed
  ultimately show "bucket_ok ?st b' is"
    using b' out by (auto simp: bucket_ok_def hash_unlink_simps)
qed

lemma find_split:
  assumes "find P xs = Some x"
  shows "xs = takeWhile (\<lambda>i. \<not> P i) xs @ x # tl (dropWhile (\<lambda>i. \<not> P i) xs) \<and> P x"
  using assms by (induction xs) (auto split: if_splits)

lemma hash_unregister_ok:
  assumes ok: "hash_ok st"
  shows "\<exists>st'. cspace_hash_unregister k st = Some st' \<and> hash_ok st' \<and>
           hash_entries st' = {e \<in> hash_entries st. fst e \<noteq> k}"
proof -
  let ?b = "cspace_hash_index k"
  obtain "is" where b: "bucket_ok st ?b is" using ok by (auto simp: hash_ok_def)
  let ?f = "find (\<lambda>i. hn_key (s_hash_nodes st i) = k) is"
  have run: "cspace_hash_unregister k st = Some (case ?f of None \<Rightarrow> st
      | Some x \<Rightarrow> hash_unlink ?b (takeWhile (\<lambda>i. hn_key (s_hash_nodes st i) \<noteq> k) is) x st)"
    using hash_unregister_loop_chain [of st "s_cspace_hash st ?b" "is" k ?b "[]"] b
    by (simp add: cspace_hash_unregister_def bucket_ok_def cong: option.case_cong)
  show ?thesis
  proof (cases ?f)
    case None
    then have "hash_entries st = {e \<in> hash_entries st. fst e \<noteq> k}"
      using hash_entriesD [OF b] by (auto simp: find_None_iff)
    with None run ok show ?thesis by auto
  next
    case (Some x)
    define us where "us = takeWhile (\<lambda>i. hn_key (s_hash_nodes st i) \<noteq> k) is"
    define vs where "vs = tl (dropWhile (\<lambda>i. hn_key (s_hash_nodes st i) \<noteq> k) is)"
    let ?st = "hash_unlink ?b us x st"
    have e: "is = us @ x # vs" and x: "hn_key (s_hash_nodes st x) = k"
      using find_split [OF Some] by (auto simp: us_def vs_def)
    note un = bucket_ok_unlink [OF b [unfolded e]]
    have ok': "hash_ok ?st" unfolding hash_ok_def using ok un by (metis hash_ok_def)
    have "(k', j) \<in> hash_entries ?st \<longleftrightarrow> (k', j) \<in> hash_entries st \<and> k' \<noteq> k" for k' j
    proof (cases "cspace_hash_index k' = ?b")
      case True
      have "j \<in> set is \<Longrightarrow> j \<noteq> x \<Longrightarrow> hn_key (s_hash_nodes st j) \<noteq> k" "distinct is"
        using b x e by (auto simp: bucket_ok_def inj_on_def)
      moreover have "(k', j) \<in> hash_entries ?st \<longleftrightarrow> j \<in> set (us @ vs) \<and> hn_key (s_hash_nodes ?st j) = k'"
        using un(1) True by (intro hash_entriesD) simp
      moreover have "(k', j) \<in> hash_entries st \<longleftrightarrow> j \<in> set is \<and> hn_key (s_hash_nodes st j) = k'"
        using b True by (intro hash_entriesD) simp
      ultimately show ?thesis using x by (cases "j = x") (auto simp: e hash_unlink_simps)
    next
      case False
      then obtain js where j: "bucket_ok st (cspace_hash_index k') js" using ok by (auto simp: hash_ok_def)
      have "j \<in> set js \<Longrightarrow> j \<noteq> x" using j False x by (auto simp: bucket_ok_def)
      then show ?thesis
        using False hash_entriesD [OF j, of j] hash_entriesD [OF un(2) [OF False j], of j]
        by (auto simp: hash_unlink_simps)
    qed
    then have "hash_entries ?st = {e \<in> hash_entries st. fst e \<noteq> k}" by auto
    with run Some ok' show ?thesis by (simp add: us_def)
  qed
qed

lemma hash_unregister_frame:
  assumes "hash_ok st" and "cspace_hash_unregister k st = Some st'"
  shows "s_cspace_pool st' = s_cspace_pool st \<and> cap_table st' = cap_table st \<and> links st' = links st \<and>
    s_cspace_free_stack st' = s_cspace_free_stack st \<and> s_cspace_free_count st' = s_cspace_free_count st \<and>
    s_cspace_id_counter st' = s_cspace_id_counter st"
proof -
  obtain "is" where b: "bucket_ok st (cspace_hash_index k) is" using assms(1) by (auto simp: hash_ok_def)
  then show ?thesis
    using assms(2) hash_unregister_loop_chain [of st _ "is" k "cspace_hash_index k" "[]"]
    by (auto simp: cspace_hash_unregister_def bucket_ok_def hash_unlink_def Let_def split: option.splits)
qed

section \<open>The hash table is an index\<close>

interpretation cspace_index: id_index hash_ok hash_entries hash_search
  cspace_hash_register cspace_hash_unregister CONFIG_MAX_CSPACES
proof
  fix s :: cap_sys and k i j
  assume ok: "hash_ok s"
  then obtain "is" where b: "bucket_ok s (cspace_hash_index k) is" by (auto simp: hash_ok_def)
  show "(k, i) \<in> hash_entries s \<Longrightarrow> (k, j) \<in> hash_entries s \<Longrightarrow> i = j"
    using hash_entriesD [OF b] b by (auto simp: bucket_ok_def inj_on_def)
  show "(k, i) \<in> hash_entries s \<Longrightarrow> hash_search k s = Some (Some i)" by (rule hash_search_bucket(1) [OF b])
  show "k \<notin> fst ` hash_entries s \<Longrightarrow> hash_search k s = Some None" by (rule hash_search_bucket(2) [OF b])
  show "k \<notin> fst ` hash_entries s \<Longrightarrow> i \<notin> snd ` hash_entries s \<Longrightarrow> i < CONFIG_MAX_CSPACES \<Longrightarrow>
      hash_ok (cspace_hash_register k i s) \<and>
      hash_entries (cspace_hash_register k i s) = insert (k, i) (hash_entries s)"
    using hash_register_ok [OF ok] by blast
  show "\<exists>s'. cspace_hash_unregister k s = Some s' \<and> hash_ok s' \<and>
      hash_entries s' = {e \<in> hash_entries s. fst e \<noteq> k}"
    by (rule hash_unregister_ok [OF ok])
qed

end
