(* ===== verification/Index_Pool.thy ===== *)
theory Index_Pool
  imports Kernel_Prelude
begin

text \<open>
  The contract of a static object pool managed by a stack of free indices, the pattern by which the kernel hands out
  CSpaces, notifications and endpoints.  A component proves the laws for its own allocation functions and then uses the
  lemmas below.
\<close>

section \<open>Stacks of free indices\<close>

text \<open>The free indices are the first \<open>n\<close> entries of an array of \<open>limit\<close> entries.\<close>

definition stack_ok :: "nat \<Rightarrow> nat \<Rightarrow> nat list \<Rightarrow> bool" where
  "stack_ok limit n xs \<longleftrightarrow> n \<le> limit \<and> length xs = limit \<and> distinct (take n xs) \<and> set (take n xs) \<subseteq> {..<limit}"

lemma stack_pop:
  assumes "stack_ok limit n xs" and "0 < n"
  shows "xs ! (n - 1) \<in> set (take n xs)" and "stack_ok limit (n - 1) xs" and "set (take (n - 1) xs) = set (take n xs) - {xs ! (n - 1)}"
proof -
  have "n - 1 < length xs" using assms by (auto simp: stack_ok_def)
  then have "take n xs = take (n - 1) xs @ [xs ! (n - 1)]" using assms(2) take_Suc_conv_app_nth [of "n - 1" xs] by simp
  then show "xs ! (n - 1) \<in> set (take n xs)" "stack_ok limit (n - 1) xs" "set (take (n - 1) xs) = set (take n xs) - {xs ! (n - 1)}"
    using assms by (auto simp: stack_ok_def)
qed

lemma stack_push:
  assumes "stack_ok limit n xs" and "i < limit" and "i \<notin> set (take n xs)"
  shows "n < limit" and "stack_ok limit (Suc n) (xs[n := i])" and "set (take (Suc n) (xs[n := i])) = insert i (set (take n xs))"
proof -
  show n: "n < limit"
  proof (rule ccontr)
    assume "\<not> n < limit"
    then have "card (set (take n xs)) = limit" using assms(1) by (auto simp: stack_ok_def distinct_card)
    then have "set (take n xs) = {..<limit}" using assms(1) by (intro card_subset_eq) (auto simp: stack_ok_def)
    then show False using assms(2,3) by simp
  qed
  have "take (Suc n) (xs[n := i]) = take n xs @ [i]" using assms(1) n by (simp add: stack_ok_def take_Suc_conv_app_nth)
  then show "stack_ok limit (Suc n) (xs[n := i])" "set (take (Suc n) (xs[n := i])) = insert i (set (take n xs))"
    using assms n by (auto simp: stack_ok_def)
qed

lemma stack_empty: "stack_ok limit n xs \<Longrightarrow> set (take n xs) = {} \<longleftrightarrow> n = 0"
  by (auto simp: stack_ok_def)

section \<open>The contract\<close>

locale index_pool =
  fixes ok :: "'s \<Rightarrow> bool"
    and free_ix :: "'s \<Rightarrow> nat set"
    and alloc :: "'s \<Rightarrow> (nat \<times> 's) option"
    and release :: "nat \<Rightarrow> 's \<Rightarrow> 's"
    and limit :: nat
  assumes bound: "ok s \<Longrightarrow> free_ix s \<subseteq> {..<limit}"
    and alloc_ok: "ok s \<Longrightarrow> alloc s = Some (i, s') \<Longrightarrow> i \<in> free_ix s \<and> ok s' \<and> free_ix s' = free_ix s - {i}"
    and alloc_fails: "ok s \<Longrightarrow> alloc s = None \<longleftrightarrow> free_ix s = {}"
    and release_ok: "ok s \<Longrightarrow> i < limit \<Longrightarrow> i \<notin> free_ix s \<Longrightarrow>
      ok (release i s) \<and> free_ix (release i s) = insert i (free_ix s)"
begin

definition live :: "'s \<Rightarrow> nat set" where
  "live s = {..<limit} - free_ix s"

text \<open>An allocated index was not live before and is live after; nothing else changes.\<close>

lemma alloc_live:
  assumes "ok s" and "alloc s = Some (i, s')"
  shows "i \<notin> live s" and "live s' = insert i (live s)" and "i < limit"
  using alloc_ok [OF assms] bound [OF assms(1)] by (auto simp: live_def)

lemma release_live:
  assumes "ok s" and "i \<in> live s"
  shows "live (release i s) = live s - {i}" and "ok (release i s)"
  using release_ok [OF assms(1), of i] assms(2) by (auto simp: live_def)

text \<open>Allocation fails only when every index is live.\<close>

lemma alloc_fails_full: "ok s \<Longrightarrow> alloc s = None \<Longrightarrow> live s = {..<limit}"
  using alloc_fails by (simp add: live_def)

lemma alloc_release:
  assumes "ok s" and "alloc s = Some (i, s')"
  shows "free_ix (release i s') = free_ix s"
  using alloc_ok [OF assms] release_ok [of s' i] alloc_live(3) [OF assms] by auto

fun allocs :: "nat \<Rightarrow> 's \<Rightarrow> nat list \<times> 's" where
  "allocs 0 s = ([], s)"
| "allocs (Suc n) s = (case alloc s of None \<Rightarrow> ([], s)
     | Some (i, s') \<Rightarrow> (let (xs, t) = allocs n s' in (i # xs, t)))"

text \<open>Successive allocations hand out distinct indices, as many as are free.\<close>

lemma allocs_distinct:
  "ok s \<Longrightarrow> allocs n s = (xs, t) \<Longrightarrow>
   distinct xs \<and> set xs \<subseteq> free_ix s \<and> length xs = min n (card (free_ix s)) \<and> ok t \<and> free_ix t = free_ix s - set xs"
proof (induction n arbitrary: s xs t)
  case (Suc n)
  have fin: "finite (free_ix s)" using bound [OF Suc.prems(1)] finite_subset by blast
  show ?case
  proof (cases "alloc s")
    case None
    then show ?thesis using Suc.prems alloc_fails [OF Suc.prems(1)] by auto
  next
    case (Some p)
    obtain i s' where p: "p = (i, s')" by (cases p)
    note a = alloc_ok [OF Suc.prems(1) Some [unfolded p]]
    obtain ys where ys: "allocs n s' = (ys, t)" "xs = i # ys"
      using Suc.prems(2) Some p by (auto split: prod.splits)
    have "card (free_ix s) = Suc (card (free_ix s'))"
      using a fin by (metis card_Suc_Diff1)
    moreover have ih: "distinct ys" "set ys \<subseteq> free_ix s - {i}" "length ys = min n (card (free_ix s'))" "ok t"
        "free_ix t = free_ix s - {i} - set ys"
      using Suc.IH [OF _ ys(1)] a by simp_all
    ultimately have "length xs = min (Suc n) (card (free_ix s))" using ys(2) by simp
    moreover have "distinct xs" "set xs \<subseteq> free_ix s" using ih(1,2) a ys(2) by auto
    moreover have "free_ix t = free_ix s - set xs" using ih(5) ys(2) by auto
    ultimately show ?thesis using ih(4) by blast
  qed
qed simp

end

end
