(* ===== verification/CSpace_Life.thy ===== *)
theory CSpace_Life
  imports Cap_Inv CSpace_Hash Index_Pool
begin

text \<open>
  The life of CSpaces: the pool as an index pool, creation, destruction, growth.  \<open>sys_inv\<close> ties the pool, the hash index and the
  CSpace headers together: the index holds exactly the live CSpaces, each under its own id.
\<close>

section \<open>The pool of CSpaces\<close>

definition pool_ok :: "cap_sys \<Rightarrow> bool" where
  "pool_ok st \<longleftrightarrow> s_cspace_free_count st \<le> CONFIG_MAX_CSPACES \<and>
     length (s_cspace_free_stack st) = CONFIG_MAX_CSPACES \<and>
     distinct (take (s_cspace_free_count st) (s_cspace_free_stack st)) \<and>
     set (take (s_cspace_free_count st) (s_cspace_free_stack st)) \<subseteq> {..<CONFIG_MAX_CSPACES}"

definition pool_free_ix :: "cap_sys \<Rightarrow> nat set" where
  "pool_free_ix st = set (take (s_cspace_free_count st) (s_cspace_free_stack st))"

definition pool_take :: "cap_sys \<Rightarrow> (nat \<times> cap_sys) option" where
  "pool_take st = (case cspace_pool_alloc st of (Inl e, _) \<Rightarrow> None | (Inr i, st') \<Rightarrow> Some (i, st'))"

lemma pool_ok_stack: "pool_ok st \<longleftrightarrow> stack_ok CONFIG_MAX_CSPACES (s_cspace_free_count st) (s_cspace_free_stack st)"
  by (simp add: pool_ok_def stack_ok_def)

lemma pool_not_full:
  assumes "pool_ok st" and "i < CONFIG_MAX_CSPACES" and "i \<notin> pool_free_ix st"
  shows "s_cspace_free_count st < CONFIG_MAX_CSPACES"
  using stack_push(1) assms by (simp add: pool_ok_stack pool_free_ix_def)

interpretation cspool: index_pool pool_ok pool_free_ix pool_take
  "\<lambda>i. cspace_pool_free (Some i)" CONFIG_MAX_CSPACES
proof
  fix s s' :: cap_sys and i
  assume ok: "pool_ok s"
  let ?n = "s_cspace_free_count s" and ?xs = "s_cspace_free_stack s"
  note st = ok [unfolded pool_ok_stack]
  show "pool_free_ix s \<subseteq> {..<CONFIG_MAX_CSPACES}" using ok by (simp add: pool_ok_def pool_free_ix_def)
  show "i \<in> pool_free_ix s \<and> pool_ok s' \<and> pool_free_ix s' = pool_free_ix s - {i}" if "pool_take s = Some (i, s')"
  proof -
    have n: "0 < ?n" and i: "i = ?xs ! (?n - 1)" and s': "s' = s\<lparr>s_cspace_free_count := ?n - 1\<rparr>"
      using that by (auto simp: pool_take_def cspace_pool_alloc_def Let_def split: if_splits)
    show ?thesis using stack_pop [OF st n] by (simp add: pool_ok_stack pool_free_ix_def s' i)
  qed
  show "pool_take s = None \<longleftrightarrow> pool_free_ix s = {}"
    using stack_empty [OF st] by (simp add: pool_take_def cspace_pool_alloc_def Let_def pool_free_ix_def)
  show "pool_ok (cspace_pool_free (Some i) s) \<and> pool_free_ix (cspace_pool_free (Some i) s) = insert i (pool_free_ix s)"
    if i: "i < CONFIG_MAX_CSPACES" "i \<notin> pool_free_ix s"
    using stack_push [OF st i(1)] i by (simp add: cspace_pool_free_def pool_ok_stack pool_free_ix_def)
qed

abbreviation live_cs :: "cap_sys \<Rightarrow> nat set" where
  "live_cs \<equiv> cspool.live"

section \<open>Fresh tables\<close>

lemma set_slots_from: "set (slots_from a b) = {s. a \<le> s \<and> s < b}"
proof -
  have "s \<in> set (slots_from a b) \<longleftrightarrow> unat a \<le> unat s \<and> unat s < unat b" for s
  proof
    assume "s \<in> set (slots_from a b)"
    then obtain n where n: "s = of_nat n" "unat a \<le> n" "n < unat b" by (auto simp: slots_from_def)
    then have "n < 2 ^ 32" using unat_u32_bound [of b] by linarith
    with n show "unat a \<le> unat s \<and> unat s < unat b" by (simp add: unat_of_nat_u32)
  next
    assume "unat a \<le> unat s \<and> unat s < unat b"
    then show "s \<in> set (slots_from a b)"
      by (auto simp: slots_from_def image_iff intro!: bexI [of _ "unat s"])
  qed
  then show ?thesis by (auto simp: word_le_nat_alt word_less_nat_alt)
qed

lemma distinct_slots_from: "distinct (slots_from a b)"
proof -
  have "inj_on (of_nat :: nat \<Rightarrow> u32) {unat a..<unat b}"
  proof (rule inj_onI)
    fix x y assume "x \<in> {unat a..<unat b}" "y \<in> {unat a..<unat b}" "(of_nat x :: u32) = of_nat y"
    then show "x = y" using unat_of_nat_u32 [of x] unat_of_nat_u32 [of y] unat_u32_bound [of b]
      by (metis atLeastLessThan_iff order.strict_trans)
  qed
  then show ?thesis by (simp add: slots_from_def distinct_map)
qed

text \<open>Everything but the tables, the links and the CSpace headers.\<close>

definition same_admin :: "cap_sys \<Rightarrow> cap_sys \<Rightarrow> bool" where
  "same_admin st st' \<longleftrightarrow> s_cspace_free_stack st' = s_cspace_free_stack st \<and>
     s_cspace_free_count st' = s_cspace_free_count st \<and> s_cspace_id_counter st' = s_cspace_id_counter st \<and>
     s_cspace_hash st' = s_cspace_hash st \<and> s_hash_nodes st' = s_hash_nodes st"

text \<open>What a loop over the slots of \<open>c\<close> leaves alone when its body does.\<close>

definition table_only :: "nat \<Rightarrow> cap_sys \<Rightarrow> cap_sys \<Rightarrow> bool" where
  "table_only c st st' \<longleftrightarrow> same_admin st st' \<and> s_cspace_pool st' = s_cspace_pool st \<and>
     (\<forall>d. d \<noteq> c \<longrightarrow> cap_table st' d = cap_table st d) \<and> (\<forall>n. \<not> table_node c n \<longrightarrow> links st' n = links st n)"

lemma table_only_refl [simp]: "table_only c st st"
  by (simp add: table_only_def same_admin_def)

lemma table_only_trans: "table_only c st st' \<Longrightarrow> table_only c st' st'' \<Longrightarrow> table_only c st st''"
  by (simp add: table_only_def same_admin_def)

lemma table_only_fold:
  "(\<And>x u. x \<in> set xs \<Longrightarrow> table_only c u (f x u)) \<Longrightarrow> table_only c st (fold f xs st)"
  by (induction xs arbitrary: st) (auto intro: table_only_trans)

lemma init_table_only_steps:
  "table_only c u (memset_cap c i u)"
  "table_only c u (upd_links (\<lambda>h. INIT_LIST_HEAD (Some (Sibling c i)) (INIT_LIST_HEAD (Some (Children c i)) h)) u)"
  "table_only c u (upd_cap c i g u)"
  "table_only c u (upd_links (set_next (Sibling c i) p) u)"
  by (auto simp: table_only_def same_admin_def table_node_def)

lemma fold_memset_caps:
  "cap_table (fold (memset_cap c) xs st) = (cap_table st)(c := (\<lambda>s. if s \<in> set xs then zero_cap else cap_table st c s))"
  by (induction xs arbitrary: st) (auto simp: fun_eq_iff)

lemma fold_free_caps:
  "cap_table (fold (\<lambda>i st. upd_links (k i) (upd_cap c i (\<lambda>cap. cap\<lparr>c_state := CAP_STATE_FREE\<rparr>) st)) xs st)
     = (cap_table st)(c := (\<lambda>s. if s \<in> set xs then (cap_table st c s)\<lparr>c_state := CAP_STATE_FREE\<rparr> else cap_table st c s))"
  by (induction xs arbitrary: st) (auto simp: fun_eq_iff)

lemma fold_links_caps: "cap_table (fold (\<lambda>i. upd_links (k i)) xs st) = cap_table st"
  by (induction xs arbitrary: st) auto

lemma fold_set_next:
  assumes "distinct xs" and "i \<in> set xs"
  shows "lh_next (links (fold (\<lambda>i. upd_links (set_next (Sibling c i) (g i))) xs st) (Sibling c i)) = g i"
proof -
  have out: "lh_next (links (fold (\<lambda>i. upd_links (set_next (Sibling c i) (g i))) ys u) (Sibling c i)) =
      lh_next (links u (Sibling c i))" if "i \<notin> set ys" for ys u
    using that by (induction ys arbitrary: u) auto
  show ?thesis using assms by (induction xs arbitrary: st) (auto simp: out)
qed

lemma init_cap_table:
  assumes "n = capacity (cs_of st c)"
  shows "cap_table (cspace_init_cap_table c st) =
           (cap_table st)(c := (\<lambda>s. if s < n then zero_cap else cap_table st c s))"
    and "s_cspace_pool (cspace_init_cap_table c st) =
           (s_cspace_pool st)(c := (cs_of st c)\<lparr>free_head := (if n > 1 then 1 else CAP_SLOT_INVALID)\<rparr>)"
    and "same_admin st (cspace_init_cap_table c st)"
    and "\<And>m. \<not> table_node c m \<Longrightarrow> links (cspace_init_cap_table c st) m = links st m"
    and "\<And>i. 1 \<le> i \<Longrightarrow> i < n \<Longrightarrow> lh_next (links (cspace_init_cap_table c st) (Sibling c i)) =
           (if i + 1 < n then Some (CapBase c (i + 1)) else None)"
proof -
  define st1 where "st1 = fold (memset_cap c) (slots_from 0 n) st"
  define st2 where "st2 = fold (\<lambda>i st. upd_links (\<lambda>h. INIT_LIST_HEAD (Some (Sibling c i))
         (INIT_LIST_HEAD (Some (Children c i)) h)) (upd_cap c i (\<lambda>cap. cap\<lparr>c_state := CAP_STATE_FREE\<rparr>) st))
       (slots_from 0 n) st1"
  define st3 where "st3 = fold (\<lambda>i. upd_links (set_next (Sibling c i)
         (if i + 1 < n then Some (CapBase c (i + 1)) else None))) (slots_from 1 n) st2"
  have r: "cspace_init_cap_table c st =
      upd_cs c (\<lambda>cs. cs\<lparr>free_head := (if n > 1 then 1 else CAP_SLOT_INVALID)\<rparr>) st3"
    by (simp add: cspace_init_cap_table_def assms st1_def st2_def st3_def Let_def)
  have "table_only c st st1" unfolding st1_def by (intro table_only_fold init_table_only_steps)
  moreover have "table_only c st1 st2"
    unfolding st2_def by (intro table_only_fold) (blast intro: table_only_trans init_table_only_steps)
  moreover have "table_only c st2 st3" unfolding st3_def by (intro table_only_fold init_table_only_steps)
  ultimately have t: "table_only c st st3" by (blast intro: table_only_trans)
  have "cap_table st3 = (cap_table st)(c := (\<lambda>s. if s < n then zero_cap else cap_table st c s))"
    unfolding st3_def fold_links_caps st2_def fold_free_caps st1_def fold_memset_caps
    by (auto simp: fun_eq_iff set_slots_from zero_cap_def)
  then show "cap_table (cspace_init_cap_table c st) =
      (cap_table st)(c := (\<lambda>s. if s < n then zero_cap else cap_table st c s))" by (simp add: r)
  show "s_cspace_pool (cspace_init_cap_table c st) =
      (s_cspace_pool st)(c := (cs_of st c)\<lparr>free_head := (if n > 1 then 1 else CAP_SLOT_INVALID)\<rparr>)"
    "same_admin st (cspace_init_cap_table c st)"
    "\<And>m. \<not> table_node c m \<Longrightarrow> links (cspace_init_cap_table c st) m = links st m"
    using t by (auto simp: r table_only_def same_admin_def)
  show "lh_next (links (cspace_init_cap_table c st) (Sibling c i)) =
      (if i + 1 < n then Some (CapBase c (i + 1)) else None)" if "1 \<le> i" "i < n" for i
    using fold_set_next [OF distinct_slots_from, of i 1 n] that by (simp add: r st3_def set_slots_from)
qed

section \<open>Creation\<close>

definition root_cap :: "u32 \<Rightarrow> cap_t" where
  "root_cap oid = zero_cap\<lparr>c_state := CAP_STATE_VALID, c_type := KOBJ_CSPACE,
     c_rights := CAP_RIGHT_READ OR CAP_RIGHT_WRITE OR CAP_RIGHT_GRANT OR CAP_RIGHT_REVOKE,
     c_kobj := oid, c_parent := CAP_SLOT_INVALID\<rparr>"

lemma cspace_create_OK:
  assumes "cspace_create n tok st = (Inr c, st')"
  shows "n \<noteq> 0" "n \<le> CSPACE_MAX_CAPACITY"
    and "\<exists>st1. pool_take st = Some (c, st1)"
    and "s_cspace_pool st' = (s_cspace_pool st)(c := \<lparr>cs_type = KOBJ_CSPACE, cs_id = s_cspace_id_counter st,
           capacity = n, used_count = 1, root_slot = 0, free_head = (if n > 1 then 1 else CAP_SLOT_INVALID)\<rparr>)"
    and "cap_table st' = (cap_table st)(c := (\<lambda>s. if s = 0 then root_cap (s_cspace_id_counter st)
           else if s < n then zero_cap else cap_table st c s))"
    and "s_cspace_id_counter st' = s_cspace_id_counter st + 1"
    and "s_cspace_free_stack st' = s_cspace_free_stack st" "s_cspace_free_count st' = s_cspace_free_count st - 1"
    and "\<exists>u. s_cspace_hash u = s_cspace_hash st \<and> s_hash_nodes u = s_hash_nodes st \<and>
           s_cspace_hash st' = s_cspace_hash (cspace_hash_register (s_cspace_id_counter st) c u) \<and>
           s_hash_nodes st' = s_hash_nodes (cspace_hash_register (s_cspace_id_counter st) c u)"
    and "dll (links st') (Children c 0) []" "dll (links st') (Sibling c 0) []" "dll (links st') (CspaceNode c) []"
    and "\<And>m. \<not> table_node c m \<Longrightarrow> m \<noteq> ChildCspaces c \<Longrightarrow> m \<noteq> CspaceNode c \<Longrightarrow> links st' m = links st m"
    and "\<And>i. 1 \<le> i \<Longrightarrow> i < n \<Longrightarrow> lh_next (links st' (Sibling c i)) =
           (if i + 1 < n then Some (CapBase c (i + 1)) else None)"
proof -
  have nz: "n \<noteq> 0" "n \<le> CSPACE_MAX_CAPACITY" and cnt: "s_cspace_free_count st \<noteq> 0"
      and c: "c = s_cspace_free_stack st ! (s_cspace_free_count st - 1)"
    using assms by (auto simp: cspace_create_def cspace_pool_alloc_def Let_def
        split: if_splits prod.splits status.splits)
  then have n0: "0 < n" by (simp add: word_gt_0)
  define st3 where "st3 = upd_cs c (\<lambda>cs. cs\<lparr>cs_type := KOBJ_CSPACE, cs_id := s_cspace_id_counter st, capacity := n\<rparr>)
     (st\<lparr>s_cspace_free_count := s_cspace_free_count st - 1, s_cspace_id_counter := s_cspace_id_counter st + 1\<rparr>)"
  define st5 where "st5 = upd_links (\<lambda>h. INIT_LIST_HEAD (Some (CspaceNode c))
     (INIT_LIST_HEAD (Some (ChildCspaces c)) h)) (upd_cs c (\<lambda>cs. cs\<lparr>used_count := 0,
        root_slot := CAP_SLOT_INVALID, free_head := CAP_SLOT_INVALID\<rparr>) st3)"
  define st7 where "st7 = snd (cspace_create_root_cap (Some c) (cspace_init_cap_table c st5))"
  have r: "st' = cspace_hash_register (s_cspace_id_counter st) c st7"
    using assms nz cnt c
    by (auto simp: cspace_create_def cspace_pool_alloc_def Let_def st7_def st5_def st3_def cspace_create_root_cap_def
        split: if_splits)
  have "capacity (cs_of st5 c) = n" by (simp add: st5_def st3_def)
  note ini = init_cap_table [OF this [symmetric]]
  have reg: "s_cspace_pool (cspace_hash_register k i u) = s_cspace_pool u"
      "cap_table (cspace_hash_register k i u) = cap_table u" "links (cspace_hash_register k i u) = links u"
      "s_cspace_id_counter (cspace_hash_register k i u) = s_cspace_id_counter u"
      "s_cspace_free_stack (cspace_hash_register k i u) = s_cspace_free_stack u"
      "s_cspace_free_count (cspace_hash_register k i u) = s_cspace_free_count u" for k i u
    by (simp_all add: cspace_hash_register_def Let_def)
  show "n \<noteq> 0" "n \<le> CSPACE_MAX_CAPACITY" by (fact nz)+
  show "\<exists>st1. pool_take st = Some (c, st1)"
    using cnt c by (simp add: pool_take_def cspace_pool_alloc_def Let_def)
  show "s_cspace_pool st' = (s_cspace_pool st)(c := \<lparr>cs_type = KOBJ_CSPACE, cs_id = s_cspace_id_counter st,
      capacity = n, used_count = 1, root_slot = 0, free_head = (if n > 1 then 1 else CAP_SLOT_INVALID)\<rparr>)"
    by (simp add: r reg st7_def cspace_create_root_cap_def ini(2)) (simp add: st5_def st3_def fun_eq_iff)
  show "cap_table st' = (cap_table st)(c := (\<lambda>s. if s = 0 then root_cap (s_cspace_id_counter st)
      else if s < n then zero_cap else cap_table st c s))"
    using n0 by (simp add: r reg st7_def cspace_create_root_cap_def ini(1,2))
      (auto simp: st5_def st3_def fun_eq_iff root_cap_def zero_cap_def)
  show "s_cspace_id_counter st' = s_cspace_id_counter st + 1" "s_cspace_free_stack st' = s_cspace_free_stack st"
    "s_cspace_free_count st' = s_cspace_free_count st - 1"
    using ini(3) by (simp_all add: r reg st7_def cspace_create_root_cap_def same_admin_def st5_def st3_def)
  show "\<exists>u. s_cspace_hash u = s_cspace_hash st \<and> s_hash_nodes u = s_hash_nodes st \<and>
      s_cspace_hash st' = s_cspace_hash (cspace_hash_register (s_cspace_id_counter st) c u) \<and>
      s_hash_nodes st' = s_hash_nodes (cspace_hash_register (s_cspace_id_counter st) c u)"
    using ini(3) by (intro exI [of _ st7])
      (simp add: r st7_def cspace_create_root_cap_def same_admin_def st5_def st3_def)
  show "dll (links st') (Children c 0) []" "dll (links st') (Sibling c 0) []"
    by (auto simp: r reg st7_def cspace_create_root_cap_def dll_def INIT_LIST_HEAD_def)
  have "links st' (CspaceNode c) = links st5 (CspaceNode c)"
    using ini(4) [of "CspaceNode c"] by (simp add: r reg st7_def cspace_create_root_cap_def table_node_def)
  then show "dll (links st') (CspaceNode c) []"
    by (simp add: dll_def st5_def INIT_LIST_HEAD_def)
  show "links st' m = links st m" if "\<not> table_node c m" "m \<noteq> ChildCspaces c" "m \<noteq> CspaceNode c" for m
    using that ini(4) [of m]
    by (auto simp: r reg st7_def cspace_create_root_cap_def table_node_def st5_def st3_def)
  show "lh_next (links st' (Sibling c i)) = (if i + 1 < n then Some (CapBase c (i + 1)) else None)"
    if "1 \<le> i" "i < n" for i
  proof -
    have "i \<noteq> 0" using that by auto
    then show ?thesis using ini(5) [OF that] by (simp add: r reg st7_def cspace_create_root_cap_def)
  qed
qed

lemma cspace_create_fail:
  assumes "cspace_create n tok st = (Inl e, st')"
  shows "st' = st \<or> (\<exists>c st1. pool_take st = Some (c, st1) \<and> e = ENOMEM \<and> \<not> tok \<and>
    st' = cspace_pool_free (Some c) (upd_cs c (\<lambda>cs. cs\<lparr>cs_type := KOBJ_CSPACE, cs_id := s_cspace_id_counter st,
      capacity := n\<rparr>) (st1\<lparr>s_cspace_id_counter := s_cspace_id_counter st + 1\<rparr>)))"
  using assms by (auto simp: cspace_create_def pool_take_def cspace_pool_alloc_def cspace_create_root_cap_def Let_def
      split: if_splits)

lemma cap_inv_create:
  assumes "cspace_create n tok st = (Inr c, st')"
  shows "cap_inv st' c"
proof -
  note C = cspace_create_OK [OF assms]
  have v: "valid_slot st' c s \<longleftrightarrow> s = 0" for s
    using C(1,4,5) by (auto simp: valid_slot_def root_cap_def zero_cap_def word_gt_0)
  have "cap_validate_rights_for_type KOBJ_CSPACE
      (CAP_RIGHT_READ OR CAP_RIGHT_WRITE OR CAP_RIGHT_GRANT OR CAP_RIGHT_REVOKE) = KERNEL_OK"
    by code_simp
  then have "tree_inv st' c (\<lambda>_. [])"
    using C(1,2,4,5,10,11) by (auto simp: tree_inv_def v cap_data_ok_def cap_links_ok_def root_cap_def zero_cap_def)
  moreover have "rights_mono st' c" using C(5) by (simp add: rights_mono_def v root_cap_def)
  ultimately show ?thesis by (auto simp: cap_inv_def)
qed

lemma pool_free_tables:
  "cap_table (cspace_pool_free p st) = cap_table st"
  "table_node d n \<Longrightarrow> links (cspace_pool_free p st) n = links st n"
  "d \<noteq> c \<Longrightarrow> cs_of (cspace_pool_free (Some c) st) d = cs_of st d"
  by (auto simp: cspace_pool_free_def table_node_def split: option.splits)

lemma pool_take_simps:
  assumes "pool_take st = Some (c, st1)"
  shows "st1 = st\<lparr>s_cspace_free_count := s_cspace_free_count st - 1\<rparr>" and "s_cspace_free_count st > 0"
  using assms by (auto simp: pool_take_def cspace_pool_alloc_def Let_def split: if_splits)

lemma all_inv_create:
  assumes inv: "all_inv st" and ok: "pool_ok st" and run: "cspace_create n tok st = (r, st')"
  shows "all_inv st'"
proof (cases r)
  case (Inr c)
  note C = cspace_create_OK [OF run [unfolded Inr]]
  show ?thesis
    using cap_inv_create [OF run [unfolded Inr]] C(4,5,13)
    by (intro all_invI_tables [OF inv, of st' c]) (auto simp: table_node_def)
next
  case (Inl e)
  show ?thesis
  proof (cases "st' = st")
    case False
    then obtain c st1 where t: "pool_take st = Some (c, st1)" and e: "st' = cspace_pool_free (Some c)
        (upd_cs c (\<lambda>cs. cs\<lparr>cs_type := KOBJ_CSPACE, cs_id := s_cspace_id_counter st,
         capacity := n\<rparr>) (st1\<lparr>s_cspace_id_counter := s_cspace_id_counter st + 1\<rparr>))"
      using cspace_create_fail [OF run [unfolded Inl]] by blast
    have "c < CONFIG_MAX_CSPACES" "s_cspace_free_count st1 < CONFIG_MAX_CSPACES"
      using cspool.alloc_live(3) [OF ok t] pool_take_simps [OF t] ok by (auto simp: pool_ok_def)
    then have "capacity (cs_of st' c) = 0" by (simp add: e cspace_pool_free_def zero_cspace_def)
    then show ?thesis
      using pool_take_simps [OF t] by (intro all_invI_tables [OF inv, of st' c] cap_inv_empty)
        (simp_all add: e pool_free_tables)
  qed (simp add: inv)
qed

section \<open>System invariant\<close>

definition sys_inv :: "cap_sys \<Rightarrow> bool" where
  "sys_inv st \<longleftrightarrow> pool_ok st \<and> hash_ok st \<and>
     hash_entries st = (\<lambda>c. (cs_id (cs_of st c), c)) ` live_cs st \<and>
     (\<forall>c\<in>live_cs st. cs_type (cs_of st c) = KOBJ_CSPACE \<and> cs_id (cs_of st c) \<noteq> KOBJ_ID_INVALID \<and>
        cs_id (cs_of st c) < s_cspace_id_counter st \<and> root_slot (cs_of st c) = 0) \<and>
     (\<forall>c. c \<notin> live_cs st \<longrightarrow> capacity (cs_of st c) = 0 \<and> cs_type (cs_of st c) = 0) \<and>
     0 < s_cspace_id_counter st \<and> (\<forall>c\<in>live_cs st. dll (links st) (CspaceNode c) [])"

lemma sys_invD:
  assumes "sys_inv st"
  shows "pool_ok st" "hash_ok st" "hash_entries st = (\<lambda>c. (cs_id (cs_of st c), c)) ` live_cs st"
    and "c \<in> live_cs st \<Longrightarrow> cs_type (cs_of st c) = KOBJ_CSPACE \<and> cs_id (cs_of st c) \<noteq> KOBJ_ID_INVALID \<and>
        cs_id (cs_of st c) < s_cspace_id_counter st \<and> root_slot (cs_of st c) = 0"
    and "c \<notin> live_cs st \<Longrightarrow> capacity (cs_of st c) = 0 \<and> cs_type (cs_of st c) = 0"
    and "0 < s_cspace_id_counter st" and "c \<in> live_cs st \<Longrightarrow> dll (links st) (CspaceNode c) []"
  using assms by (simp_all add: sys_inv_def)

lemma pool_cong:
  assumes "s_cspace_free_stack st' = s_cspace_free_stack st" "s_cspace_free_count st' = s_cspace_free_count st"
  shows "pool_ok st' = pool_ok st" and "live_cs st' = live_cs st"
  using assms by (simp_all add: pool_ok_def cspool.live_def pool_free_ix_def)

lemma hash_cong:
  assumes "s_cspace_hash st' = s_cspace_hash st" "s_hash_nodes st' = s_hash_nodes st"
  shows "hash_ok st' = hash_ok st" and "hash_entries st' = hash_entries st" and "hash_search k st' = hash_search k st"
proof -
  have "bucket_ok st' = bucket_ok st" by (intro ext) (simp add: bucket_ok_def assms)
  then show "hash_ok st' = hash_ok st" "hash_entries st' = hash_entries st"
    using assms by (simp_all add: hash_ok_def hash_entries_def)
  show "hash_search k st' = hash_search k st" using assms by (simp add: hash_search_def)
qed

text \<open>Operations that leave the pool, the index and the identity of every CSpace alone keep the invariant.\<close>

lemma sys_inv_cong:
  assumes "sys_inv st" and a: "same_admin st st'"
    and "\<And>c. cs_type (cs_of st' c) = cs_type (cs_of st c) \<and> cs_id (cs_of st' c) = cs_id (cs_of st c) \<and>
           root_slot (cs_of st' c) = root_slot (cs_of st c)"
    and "\<And>c. c \<notin> live_cs st \<Longrightarrow> capacity (cs_of st' c) = 0"
    and lk: "\<And>c. links st' (CspaceNode c) = links st (CspaceNode c)"
  shows "sys_inv st'"
proof -
  have "dll (links st') (CspaceNode c) [] = dll (links st) (CspaceNode c) []" for c
    by (rule dll_cong) (simp add: lk)
  moreover
  have "pool_ok st' = pool_ok st" "live_cs st' = live_cs st" "hash_ok st' = hash_ok st"
      "hash_entries st' = hash_entries st" "s_cspace_id_counter st' = s_cspace_id_counter st"
    using a pool_cong [of st' st] hash_cong [of st' st] by (simp_all add: same_admin_def)
  ultimately show ?thesis using assms(1,3,4) by (simp add: sys_inv_def)
qed

lemma valid_live: "sys_inv st \<Longrightarrow> valid_slot st c s \<Longrightarrow> c \<in> live_cs st"
  using sys_invD(5) by (fastforce simp: valid_slot_def)

lemma sys_inv_create_OK:
  assumes inv: "sys_inv st" and run: "cspace_create n tok st = (Inr c, st')"
    and room: "s_cspace_id_counter st < 0xFFFFFFFF"
  shows "sys_inv st'" and "live_cs st' = insert c (live_cs st)" and "c \<notin> live_cs st"
proof -
  note C = cspace_create_OK [OF run] and I = sys_invD [OF inv]
  obtain st1 where t: "pool_take st = Some (c, st1)" using C(3) by blast
  have p: "pool_ok st1" "live_cs st1 = insert c (live_cs st)" "c \<notin> live_cs st" "c < CONFIG_MAX_CSPACES"
    using cspool.alloc_ok [OF I(1) t] cspool.alloc_live [OF I(1) t] by auto
  have p': "pool_ok st'" "live_cs st' = insert c (live_cs st)"
    using p pool_cong [of st' st1] C(7,8) pool_take_simps [OF t] by auto
  let ?k = "s_cspace_id_counter st"
  have "?k \<noteq> cs_id (cs_of st d)" if "d \<in> live_cs st" for d using I(4) [OF that] by auto
  then have "?k \<notin> fst ` hash_entries st" unfolding I(3) by (simp add: image_image) blast
  moreover have "c \<notin> snd ` hash_entries st" using p(3) unfolding I(3) by (simp add: image_image)
  ultimately have fresh: "?k \<notin> fst ` hash_entries st" "c \<notin> snd ` hash_entries st" by auto
  obtain u where u: "s_cspace_hash u = s_cspace_hash st" "s_hash_nodes u = s_hash_nodes st"
      "s_cspace_hash st' = s_cspace_hash (cspace_hash_register ?k c u)"
      "s_hash_nodes st' = s_hash_nodes (cspace_hash_register ?k c u)"
    using C(9) by blast
  have "hash_ok u" "hash_entries u = hash_entries st" using hash_cong [OF u(1,2)] I(2) by auto
  then have h: "hash_ok st'" "hash_entries st' = insert (?k, c) (hash_entries st)"
    using hash_register_ok [of u ?k c] fresh p(4) hash_cong [OF u(3,4)] by auto
  have up: "?k < ?k + 1" "0 < ?k + 1" using u32_less_Suc [OF room] I(6) by (auto intro: less_trans)
  have "hash_entries st' = (\<lambda>c. (cs_id (cs_of st' c), c)) ` live_cs st'"
    using p(3) by (auto simp: h(2) p'(2) C(4) I(3))
  moreover have "cs_type (cs_of st' d) = KOBJ_CSPACE \<and> cs_id (cs_of st' d) \<noteq> KOBJ_ID_INVALID \<and>
      cs_id (cs_of st' d) < s_cspace_id_counter st' \<and> root_slot (cs_of st' d) = 0" if "d \<in> live_cs st'" for d
  proof (cases "d = c")
    case True
    then show ?thesis using C(4,6) up I(6) by (simp add: word_gt_0)
  next
    case False
    then show ?thesis using that p'(2) I(4) [of d] up(1) C(4,6) less_trans by auto
  qed
  moreover have "capacity (cs_of st' d) = 0 \<and> cs_type (cs_of st' d) = 0" if "d \<notin> live_cs st'" for d
    using that p'(2) I(5) [of d] C(4) by auto
  moreover have "dll (links st') (CspaceNode d) []" if "d \<in> live_cs st'" for d
  proof (cases "d = c")
    case False
    then show ?thesis using that p'(2) by (intro dll_frame [OF I(7)]) (auto simp: table_node_def intro!: C(13))
  qed (simp add: C(12))
  ultimately show "sys_inv st'" using p'(1) h(1) up(2) C(6) unfolding sys_inv_def by simp
  show "live_cs st' = insert c (live_cs st)" "c \<notin> live_cs st" by (fact p' p)+
qed

lemma sys_inv_create_fail:
  assumes inv: "sys_inv st" and run: "cspace_create n tok st = (Inl e, st')"
    and room: "s_cspace_id_counter st < 0xFFFFFFFF"
  shows "sys_inv st'"
proof (cases "st' = st")
  case False
  note I = sys_invD [OF inv]
  obtain c st1 where t: "pool_take st = Some (c, st1)" and e': "st' = cspace_pool_free (Some c)
      (upd_cs c (\<lambda>cs. cs\<lparr>cs_type := KOBJ_CSPACE, cs_id := s_cspace_id_counter st,
       capacity := n\<rparr>) (st1\<lparr>s_cspace_id_counter := s_cspace_id_counter st + 1\<rparr>))"
    using cspace_create_fail [OF run] False by blast
  define u where "u = upd_cs c (\<lambda>cs. cs\<lparr>cs_type := KOBJ_CSPACE, cs_id := s_cspace_id_counter st,
       capacity := n\<rparr>) (st1\<lparr>s_cspace_id_counter := s_cspace_id_counter st + 1\<rparr>)"
  have e: "st' = cspace_pool_free (Some c) u" by (simp add: e' u_def)
  have p: "pool_ok u" "live_cs u = insert c (live_cs st)" "c \<notin> live_cs st" "c \<in> live_cs u"
    using cspool.alloc_ok [OF I(1) t] cspool.alloc_live [OF I(1) t] pool_cong [of u st1] by (simp_all add: u_def)
  have p': "pool_ok st'" "live_cs st' = live_cs st"
    using cspool.release_live [OF p(1,4)] p(2,3) by (simp_all add: e)
  have f: "c < CONFIG_MAX_CSPACES" "s_cspace_free_count st1 < CONFIG_MAX_CSPACES"
    using cspool.alloc_live(3) [OF I(1) t] pool_take_simps [OF t] I(1) by (auto simp: pool_ok_def)
  have o: "cs_of st' d = cs_of st d" if "d \<noteq> c" for d
    using that pool_take_simps [OF t] by (simp add: e pool_free_tables u_def)
  have c0: "cs_of st' c = zero_cspace" using f by (simp add: e cspace_pool_free_def u_def)
  have h: "s_cspace_hash st' = s_cspace_hash st" "s_hash_nodes st' = s_hash_nodes st"
      "s_cspace_id_counter st' = s_cspace_id_counter st + 1"
    using f pool_take_simps [OF t] by (simp_all add: e cspace_pool_free_def u_def)
  have up: "s_cspace_id_counter st < s_cspace_id_counter st'" using u32_less_Suc [OF room] by (simp add: h)
  have ol: "cs_of st' d = cs_of st d" if "d \<in> live_cs st" for d using that p(3) by (intro o) auto
  have "hash_entries st' = (\<lambda>c. (cs_id (cs_of st' c), c)) ` live_cs st'"
    using I(3) p'(2) ol hash_cong(2) [OF h(1,2)] by simp
  moreover have "cs_type (cs_of st' d) = KOBJ_CSPACE \<and> cs_id (cs_of st' d) \<noteq> KOBJ_ID_INVALID \<and>
      cs_id (cs_of st' d) < s_cspace_id_counter st' \<and> root_slot (cs_of st' d) = 0" if "d \<in> live_cs st'" for d
    using that p'(2) I(4) [of d] ol [of d] less_trans [OF _ up] by auto
  moreover have "capacity (cs_of st' d) = 0 \<and> cs_type (cs_of st' d) = 0" if "d \<notin> live_cs st'" for d
    using that p'(2) I(5) [of d] o [of d] c0 by (cases "d = c") (auto simp: zero_cspace_def)
  moreover have "0 < s_cspace_id_counter st'" using I(6) up by (rule less_trans)
  moreover have "dll (links st') (CspaceNode d) []" if "d \<in> live_cs st'" for d
    using that p'(2) p(3) pool_take_simps [OF t]
    by (intro dll_frame [OF I(7)]) (auto simp: e u_def cspace_pool_free_def)
  ultimately show ?thesis
    using p'(1) hash_cong(1) [OF h(1,2)] I(2) unfolding sys_inv_def by simp
qed (simp add: inv)

lemma sys_inv_create:
  assumes "sys_inv st" and "cspace_create n tok st = (r, st')" and "s_cspace_id_counter st < 0xFFFFFFFF"
  shows "sys_inv st'"
  using assms sys_inv_create_OK(1) sys_inv_create_fail by (cases r) blast+

end
