(* ===== verification/Cap_System.thy ===== *)
theory Cap_System
  imports CSpace_Life
begin

text \<open>
  Destruction and growth of CSpaces, the step relation of the capability system and the invariants of its reachable
  states.
\<close>

section \<open>Destruction\<close>

text \<open>
  While the slots are cleared one after the other the rings fall apart; what stays true is that the sibling links of a slot that is
  still valid point into the same table.
\<close>

definition links_closed :: "nat \<Rightarrow> u32 \<Rightarrow> cap_sys \<Rightarrow> bool" where
  "links_closed c n st \<longleftrightarrow> (\<forall>s<n. c_state (cap_table st c s) = CAP_STATE_VALID \<longrightarrow>
     (\<exists>x p. lh_next (links st (Sibling c s)) = Some x \<and> lh_prev (links st (Sibling c s)) = Some p \<and>
        table_node c x \<and> table_node c p))"

lemma tree_links_closed:
  assumes "tree_inv st c kids"
  shows "links_closed c (capacity (cs_of st c)) st"
  unfolding links_closed_def
proof (intro allI impI)
  fix s assume "s < capacity (cs_of st c)" "c_state (cap_table st c s) = CAP_STATE_VALID"
  then have v: "valid_slot st c s" by (simp add: valid_slot_def)
  show "\<exists>x p. lh_next (links st (Sibling c s)) = Some x \<and> lh_prev (links st (Sibling c s)) = Some p \<and>
      table_node c x \<and> table_node c p"
  proof (cases "c_parent (cap_table st c s) = CAP_SLOT_INVALID")
    case True
    then show ?thesis using root_ring [OF assms v] by (simp add: dll_def)
  next
    case False
    let ?p = "c_parent (cap_table st c s)"
    have vp: "valid_slot st c ?p" by (rule parent_valid [OF assms v False])
    then have "s \<in> set (kids ?p)" using kids_iff [OF assms vp] v by simp
    then obtain us vs where "kids ?p = us @ s # vs" by (meson split_list)
    then have "dll (links st) (Children c ?p) (map (Sibling c) us @ Sibling c s # map (Sibling c) vs)"
      using kids_ring [OF assms vp] by simp
    from dll_neighbours [OF this] show ?thesis by auto
  qed
qed

lemma destroy_slot_step:
  assumes cl: "links_closed c n st" and i: "i < n"
  shows "table_only c st (cspace_destroy_slot c i st)" and "links_closed c n (cspace_destroy_slot c i st)"
proof -
  have "table_only c st (cspace_destroy_slot c i st) \<and> links_closed c n (cspace_destroy_slot c i st)"
  proof (cases "c_state (cap_table st c i) = CAP_STATE_VALID")
    case True
    then obtain x p where l: "lh_next (links st (Sibling c i)) = Some x" "lh_prev (links st (Sibling c i)) = Some p"
        "table_node c x" "table_node c p"
      using cl i by (auto simp: links_closed_def)
    have o: "list_del (Some (Sibling c i)) (links st) m = links st m" if "\<not> table_node c m" for m
    proof -
      have "m \<noteq> x" "m \<noteq> p" "m \<noteq> Sibling c i" using that l(3,4) by auto
      then show ?thesis using l(1,2) by (simp add: list_del_def list_del_between_def)
    qed
    have nxt: "lh_next (list_del (Some (Sibling c i)) (links st) (Sibling c s)) =
          (if Sibling c s = p then Some x else lh_next (links st (Sibling c s)))"
        "lh_prev (list_del (Some (Sibling c i)) (links st) (Sibling c s)) =
          (if Sibling c s = x then Some p else lh_prev (links st (Sibling c s)))" if "s \<noteq> i" for s
      using that l(1,2) by (auto simp: list_del_def list_del_between_def)
    have ini: "INIT_LIST_HEAD (Some (Children c i)) h m = h m" if "\<not> table_node c m" for h m
      using that by (intro INIT_LIST_HEAD_other) auto
    have "table_only c st (cspace_destroy_slot c i st)"
      using True o ini by (auto simp: cspace_destroy_slot_def table_only_def same_admin_def Let_def)
    moreover have "links_closed c n (cspace_destroy_slot c i st)"
      using True cl l(3,4) nxt unfolding links_closed_def
      by (auto simp: cspace_destroy_slot_def Let_def)
    ultimately show ?thesis by simp
  next
    case False
    then show ?thesis using cl by (simp add: cspace_destroy_slot_def Let_def)
  qed
  then show "table_only c st (cspace_destroy_slot c i st)" "links_closed c n (cspace_destroy_slot c i st)" by auto
qed

lemma destroy_slots:
  assumes "links_closed c n st" and "\<And>i. i \<in> set xs \<Longrightarrow> i < n"
  shows "table_only c st (fold (cspace_destroy_slot c) xs st)"
  using assms
proof (induction xs arbitrary: st)
  case (Cons i xs)
  then have i: "i < n" by simp
  note d = destroy_slot_step [OF Cons.prems(1) i]
  have "table_only c (cspace_destroy_slot c i st) (fold (cspace_destroy_slot c) xs (cspace_destroy_slot c i st))"
    using Cons.IH [OF d(2)] Cons.prems(2) by simp
  then show ?case using table_only_trans [OF d(1)] by simp
qed simp

text \<open>Everything \<^verbatim>\<open>cspace_destroy\<close> does before the pool slot is given back.\<close>

definition destroyed :: "nat \<Rightarrow> cap_sys \<Rightarrow> cap_sys \<Rightarrow> bool" where
  "destroyed c st u \<longleftrightarrow> s_cspace_free_stack u = s_cspace_free_stack st \<and> s_cspace_free_count u = s_cspace_free_count st \<and>
     s_cspace_id_counter u = s_cspace_id_counter st \<and>
     (\<forall>d. d \<noteq> c \<longrightarrow> cs_of u d = cs_of st d \<and> cap_table u d = cap_table st d) \<and>
     (\<forall>n. \<not> table_node c n \<and> n \<noteq> CspaceNode c \<and> n \<noteq> ChildCspaces c \<longrightarrow> links u n = links st n) \<and>
     hash_ok u \<and> hash_entries u = {e \<in> hash_entries st. fst e \<noteq> cs_id (cs_of st c)}"

lemma cspace_destroy_prefix:
  assumes inv: "all_inv st" and sys: "sys_inv st" and c: "c \<in> live_cs st"
  shows "\<exists>u. cspace_destroy (Some c) st = Some (cspace_pool_free (Some c) u) \<and> destroyed c st u"
proof -
  note I = sys_invD [OF sys]
  let ?n = "capacity (cs_of st c)"
  define st1 where "st1 = fold (cspace_destroy_slot c) (slots_from 0 ?n) st"
  define st3 where "st3 = upd_links (\<lambda>h. INIT_LIST_HEAD (Some (ChildCspaces c)) (list_del (Some (CspaceNode c)) h))
    (upd_cs c (\<lambda>cs. cs\<lparr>used_count := 0, free_head := CAP_SLOT_INVALID, root_slot := CAP_SLOT_INVALID\<rparr>) st1)"
  obtain kids where "tree_inv st c kids" using inv by (auto simp: all_inv_def cap_inv_def)
  then have t: "table_only c st st1"
    unfolding st1_def by (intro destroy_slots [OF tree_links_closed]) (auto simp: set_slots_from)
  have self: "dll (links st1) (CspaceNode c) ([] @ [])"
    using I(7) [OF c] t by (auto simp: table_only_def table_node_def intro: dll_frame)
  have lk: "list_del (Some (CspaceNode c)) (links st1) m = links st1 m" if "m \<noteq> CspaceNode c" for m
    using self that by (auto simp: dll_def list_del_def list_del_between_def)
  have h: "hash_ok st3" "hash_entries st3 = hash_entries st"
    using I(2) t hash_cong [of st3 st] by (simp_all add: st3_def table_only_def same_admin_def)
  have oid: "cs_id (cs_of st3 c) = cs_id (cs_of st c)" using t by (simp add: st3_def table_only_def)
  obtain u where u: "cspace_hash_unregister (cs_id (cs_of st c)) st3 = Some u" "hash_ok u"
      "hash_entries u = {e \<in> hash_entries st. fst e \<noteq> cs_id (cs_of st c)}"
    using hash_unregister_ok [OF h(1), of "cs_id (cs_of st c)"] h(2) by auto
  have "destroyed c st u"
    using u(2,3) hash_unregister_frame [OF h(1) u(1)] t lk
    by (auto simp: destroyed_def st3_def table_only_def same_admin_def)
  moreover have "cspace_destroy (Some c) st = Some (cspace_pool_free (Some c) u)"
    using u(1) oid by (simp add: cspace_destroy_def st1_def st3_def Let_def)
  ultimately show ?thesis by blast
qed

lemma cspace_destroy_run:
  assumes inv: "all_inv st" and sys: "sys_inv st" and c: "c \<in> live_cs st"
  shows "\<exists>st'. cspace_destroy (Some c) st = Some st' \<and> all_inv st' \<and> sys_inv st' \<and> live_cs st' = live_cs st - {c}"
proof -
  note I = sys_invD [OF sys]
  obtain u where run: "cspace_destroy (Some c) st = Some (cspace_pool_free (Some c) u)" and d: "destroyed c st u"
    using cspace_destroy_prefix [OF assms] by blast
  define st' where "st' = cspace_pool_free (Some c) u"
  have p: "pool_ok u" "live_cs u = live_cs st" using I(1) d pool_cong [of u st] by (auto simp: destroyed_def)
  have l: "live_cs st' = live_cs st - {c}" "pool_ok st'"
    using cspool.release_live [OF p(1), of c] p(2) c by (auto simp: st'_def)
  have f: "c < CONFIG_MAX_CSPACES" "s_cspace_free_count u < CONFIG_MAX_CSPACES"
    using c p pool_not_full [of u c] by (auto simp: cspool.live_def)
  have c0: "cs_of st' c = zero_cspace" using f by (simp add: st'_def cspace_pool_free_def)
  have o: "cs_of st' e = cs_of st e" if "e \<noteq> c" for e
    using that d by (simp add: st'_def pool_free_tables destroyed_def)
  have inj: "e = c" if "e \<in> live_cs st" "cs_id (cs_of st e) = cs_id (cs_of st c)" for e
  proof (rule cspace_index.keys [OF I(2)])
    show "(cs_id (cs_of st c), e) \<in> hash_entries st" "(cs_id (cs_of st c), c) \<in> hash_entries st"
      using that c unfolding I(3) by (auto simp: image_iff)
  qed
  have "all_inv st'"
    using c0 d o by (intro all_invI_tables [OF inv, of st' c] cap_inv_empty)
      (auto simp: zero_cspace_def st'_def pool_free_tables destroyed_def table_node_def)
  moreover have "sys_inv st'"
  proof -
    have "hash_entries st' = (\<lambda>c. (cs_id (cs_of st' c), c)) ` live_cs st'"
    proof -
      have "hash_entries st' = {e \<in> hash_entries st. fst e \<noteq> cs_id (cs_of st c)}"
        using d hash_cong(2) [of st' u] f by (simp add: st'_def cspace_pool_free_def destroyed_def)
      also have "\<dots> = (\<lambda>d. (cs_id (cs_of st d), d)) ` (live_cs st - {c})"
        using inj c unfolding I(3) by auto
      finally show ?thesis using o l(1) by auto
    qed
    moreover have "hash_ok st'" using d hash_cong(1) [of st' u] f by (simp add: st'_def cspace_pool_free_def destroyed_def)
    moreover have "s_cspace_id_counter st' = s_cspace_id_counter st"
      using f d by (simp add: st'_def cspace_pool_free_def destroyed_def)
    moreover have "capacity (cs_of st' e) = 0 \<and> cs_type (cs_of st' e) = 0" if "e \<notin> live_cs st'" for e
      using that l(1) I(5) [of e] o [of e] c0 by (cases "e = c") (auto simp: zero_cspace_def)
    moreover have "dll (links st') (CspaceNode e) []" if "e \<in> live_cs st'" for e
      using that l(1) d f by (intro dll_frame [OF I(7)])
        (auto simp: st'_def cspace_pool_free_def destroyed_def table_node_def)
    ultimately show ?thesis using l I(4,6) o by (auto simp: sys_inv_def)
  qed
  ultimately show ?thesis using run l(1) by (auto simp: st'_def)
qed

section \<open>What the capability operations leave alone\<close>

definition cap_frame :: "cap_sys \<Rightarrow> cap_sys \<Rightarrow> bool" where
  "cap_frame st st' \<longleftrightarrow> same_admin st st' \<and>
     (\<forall>c. cs_type (cs_of st' c) = cs_type (cs_of st c) \<and> cs_id (cs_of st' c) = cs_id (cs_of st c) \<and>
        root_slot (cs_of st' c) = root_slot (cs_of st c) \<and> capacity (cs_of st' c) = capacity (cs_of st c))"

lemma cap_frame_refl [simp]: "cap_frame st st"
  by (simp add: cap_frame_def same_admin_def)

lemma cap_frame_trans: "cap_frame st st' \<Longrightarrow> cap_frame st' st'' \<Longrightarrow> cap_frame st st''"
  by (simp add: cap_frame_def same_admin_def)

lemma cap_frame_upd [simp]:
  "cap_frame st (upd_links f u) = cap_frame st u"
  "cap_frame st (upd_cap c s g u) = cap_frame st u"
  "cap_frame st (clear_cap c s u) = cap_frame st u"
  "cap_frame st (u\<lparr>links := h\<rparr>) = cap_frame st u"
  "cap_frame st (unlink_parent c s u) = cap_frame st u"
  "cap_frame st (revoke_free c s u) = cap_frame st u"
  "cap_frame (upd_links f st) u = cap_frame st u"
  by (auto simp: cap_frame_def same_admin_def clear_cap_def unlink_parent_def revoke_free_def Let_def)

lemma cap_frame_insert:
  assumes "cap_insert_locked c s t k r b p st = (res, st')"
  shows "cap_frame st st'"
proof -
  have "cap_frame st (upd_cs c (\<lambda>cs. cs\<lparr>used_count := n\<rparr>) u)" if "cap_frame st u" for u n
    using that by (simp add: cap_frame_def same_admin_def)
  with assms show ?thesis
    by (auto simp: cap_insert_locked_def Let_def cap_frame_def same_admin_def split: if_splits)
qed

lemma cap_frame_loops:
  assumes "list_for_each_safe links b head pos st = Some st'" and "b = orphan_body \<or> b = reparent_body d"
  shows "cap_frame st st'"
  using assms(2)
  by (intro list_for_each_safe_inv [OF assms(1), of "cap_frame st"])
    (auto simp: orphan_body_def reparent_body_def split: bind_splits prod.splits)

lemma cap_frame_revoke_loop:
  assumes "revoke_loop c stack ov st = Some r"
  shows "cap_frame st (snd r)"
proof (rule revoke_loop.raw_induct [where P = "\<lambda>c stack ov st r. cap_frame st (snd r)", OF _ assms])
  fix f c stack ov st r
  assume ih: "\<And>c stack ov st r. f c stack ov st = Some r \<Longrightarrow> cap_frame st (snd r)"
    and run: "(case stack of [] \<Rightarrow> Some (ov, st) | cur # rest \<Rightarrow>
      if cspace_lookup (Some c) cur st = None then f c rest ov st
      else Option.bind (list_for_each_safe (\<lambda>_. links st) (revoke_push_body c) (Children c cur)
             (lh_next (links st (Children c cur))) (rest, ov))
           (\<lambda>(stack', ov'). f c stack' ov' (revoke_free c cur st))) = Some r"
  have "cap_frame st (snd r)" if "f c stk ov' (revoke_free c s st) = Some r" for stk ov' s
    using ih [OF that] by (rule cap_frame_trans [rotated]) simp
  then show "cap_frame st (snd r)" using ih run by (auto split: list.splits if_splits bind_splits)
qed

lemma cap_frame_ops:
  "cap_copy sc s dc d m st = Some (r, st') \<Longrightarrow> cap_frame st st'"
  "cap_derive sc s dc d nr b st = Some (r, st') \<Longrightarrow> cap_frame st st'"
  "cap_mint root s t k rt b st = Some (r, st') \<Longrightarrow> cap_frame st st'"
  "cap_badge_update root s b st = Some (r, st') \<Longrightarrow> cap_frame st st'"
  "cap_revoke root s st = Some (r, st') \<Longrightarrow> cap_frame st st'"
  "cap_delete root s st = Some (r, st') \<Longrightarrow> cap_frame st st'"
  by (auto simp: cap_copy_def cap_derive_def cap_mint_def cap_badge_update_def cap_revoke_def cap_delete_def Let_def
      dest: cap_frame_insert cap_frame_revoke_loop cap_frame_loops
      split: bind_splits option.splits if_splits prod.splits)

lemma cap_frame_move:
  assumes "cap_move sc s dc d st = Some (r, st')"
  shows "cap_frame st st'"
proof -
  have loop: "cap_frame st u'" if "list_for_each_safe links (reparent_body d) hd' pos st2 = Some u'"
      "st2 = st1 \<or> st2 = st1\<lparr>links := h\<rparr>" "cap_insert_locked c d t k rt b p st = (KERNEL_OK, st1)"
    for hd' pos st1 st2 h u' c t k rt b p
  proof -
    have "cap_frame st2 u'" using cap_frame_loops [OF that(1)] by blast
    moreover have "cap_frame st st2" using cap_frame_insert [OF that(3)] that(2) by auto
    ultimately show ?thesis using cap_frame_trans by blast
  qed
  show ?thesis
    using assms
    by (auto simp: cap_move_def Let_def intro: loop dest: cap_frame_insert
        split: bind_splits option.splits if_splits prod.splits status.splits)
qed

section \<open>Growth\<close>

definition resize_body :: "nat \<Rightarrow> u32 \<Rightarrow> cap_sys \<Rightarrow> cap_sys" where
  "resize_body c i st = (let st1 = upd_cap c i (\<lambda>cap. cap\<lparr>c_state := CAP_STATE_FREE\<rparr>) (memset_cap c i st);
     st2 = upd_links (\<lambda>h. INIT_LIST_HEAD (Some (Sibling c i)) (INIT_LIST_HEAD (Some (Children c i)) h)) st1;
     st3 = upd_links (set_next (Sibling c i) (free_link c (free_head (cs_of st2 c)))) st2
     in upd_cs c (\<lambda>cs. cs\<lparr>free_head := i\<rparr>) st3)"

lemma resize_body_frame:
  "cap_frame st (resize_body c i u) = cap_frame st u"
  "d \<noteq> c \<Longrightarrow> cap_table (resize_body c i u) d = cap_table u d"
  "cap_table (resize_body c i u) c = (cap_table u c)(i := zero_cap)"
  "n \<noteq> Sibling c i \<Longrightarrow> n \<noteq> Children c i \<Longrightarrow> links (resize_body c i u) n = links u n"
  by (auto simp: resize_body_def cap_frame_def same_admin_def zero_cap_def Let_def)

lemma resize_fold_frame:
  "cap_frame st (fold (resize_body c) xs st)"
  "d \<noteq> c \<Longrightarrow> cap_table (fold (resize_body c) xs st) d = cap_table st d"
  "cap_table (fold (resize_body c) xs st) c = (\<lambda>s. if s \<in> set xs then zero_cap else cap_table st c s)"
  "n \<notin> Sibling c ` set xs \<Longrightarrow> n \<notin> Children c ` set xs \<Longrightarrow> links (fold (resize_body c) xs st) n = links st n"
proof -
  show "cap_frame st (fold (resize_body c) xs st)"
    by (rule fold_invariant [where P = "cap_frame st" and Q = "\<lambda>_. True"]) (simp_all add: resize_body_frame)
  show "d \<noteq> c \<Longrightarrow> cap_table (fold (resize_body c) xs st) d = cap_table st d"
    by (induction xs arbitrary: st) (simp_all add: resize_body_frame)
  show "cap_table (fold (resize_body c) xs st) c = (\<lambda>s. if s \<in> set xs then zero_cap else cap_table st c s)"
    by (induction xs arbitrary: st) (auto simp: resize_body_frame fun_eq_iff)
  show "n \<notin> Sibling c ` set xs \<Longrightarrow> n \<notin> Children c ` set xs \<Longrightarrow> links (fold (resize_body c) xs st) n = links st n"
    by (induction xs arbitrary: st) (auto simp: resize_body_frame)
qed

lemma cspace_resize_OK:
  assumes "cspace_resize (Some c) n st = (KERNEL_OK, st')"
  shows "capacity (cs_of st c) < n" "n \<le> CSPACE_MAX_CAPACITY"
    and "st' = upd_cs c (\<lambda>cs. cs\<lparr>capacity := n\<rparr>)
           (fold (resize_body c) (slots_from (capacity (cs_of st c)) n) st)"
  using assms by (auto simp: cspace_resize_def resize_body_def [abs_def] split: if_splits)

lemma keeps_resize:
  assumes inv: "all_inv st" and run: "cspace_resize (Some c) n st = (r, st')"
  shows "keeps st st'"
proof (cases r)
  case KERNEL_OK
  note R = cspace_resize_OK [OF run [unfolded KERNEL_OK]]
  let ?xs = "slots_from (capacity (cs_of st c)) n"
  note F = resize_fold_frame [where c = c and xs = ?xs and st = st]
  have out: "s \<notin> set ?xs" if "s < capacity (cs_of st c)" for s using that by (auto simp: set_slots_from)
  have v: "valid_slot st' c s = valid_slot st c s" for s
    using R(1) by (auto simp: valid_slot_def R(3) F(3) set_slots_from zero_cap_def)
  have tab: "cap_table st' c s = cap_table st c s" if "valid_slot st c s" for s
    using out that by (simp add: valid_slot_def R(3) F(3))
  have lk: "links st' n = links st n" if "n = Children c s \<or> n = Sibling c s" "valid_slot st c s" for n s
    using out that by (auto simp: valid_slot_def R(3) intro!: F(4))
  obtain kids where t: "tree_inv st c kids" and m: "rights_mono st c"
    using inv by (auto simp: all_inv_def cap_inv_def)
  have ring: "dll (links st') (Children c s) (map (Sibling c) (kids s))" if vs: "valid_slot st c s" for s
    using vs kids_iff [OF t vs] by (intro dll_frame [OF kids_ring [OF t vs]]) (auto intro: lk)
  have root: "dll (links st') (Sibling c s) []"
    if vs: "valid_slot st c s" "c_parent (cap_table st c s) = CAP_SLOT_INVALID" for s
    using vs by (intro dll_frame [OF root_ring [OF t vs]]) (auto intro: lk)
  have "cap_data_ok st' c s" if vs: "valid_slot st c s" for s
    using tree_invD(1) [OF t vs] by (auto simp: cap_data_ok_def v tab vs Let_def)
  moreover have "cap_links_ok st' c kids s" if vs: "valid_slot st c s" for s
    using ring [OF vs] root [OF vs] kids_iff [OF t vs] tab by (auto simp: cap_links_ok_def v vs)
  moreover have "capacity (cs_of st' c) = n" by (simp add: R(3))
  ultimately have "tree_inv st' c kids" using R(2) by (simp add: tree_inv_def v)
  moreover have "rights_mono st' c" using m parent_valid [OF t] tab by (auto simp: rights_mono_def v)
  ultimately have "cap_inv st' c" by (auto simp: cap_inv_def)
  then show ?thesis
    using F(1) by (intro keepsI [OF inv]) (auto simp: R(3) F(2) cap_frame_def table_node_def intro!: F(4))
next
  case (Err e)
  then show ?thesis using run inv by (auto simp: cspace_resize_def Let_def keeps_refl split: if_splits)
qed

section \<open>Reachable states\<close>

text \<open>
  The steps of the capability system: every operation that changes its state.  Copy, derive and move are taken inside one CSpace;
  a revocation has a subtree that fits the explicit stack; ids are not exhausted; a pointer to a CSpace is one
  that creation returned and destruction did not take back.  The destination slots are arbitrary.
\<close>

inductive cap_step :: "cap_sys \<Rightarrow> cap_sys \<Rightarrow> bool" where
  create: "cspace_create n tok st = (r, st') \<Longrightarrow> s_cspace_id_counter st < 0xFFFFFFFF \<Longrightarrow> cap_step st st'"
| destroy: "cspace_destroy (Some c) st = Some st' \<Longrightarrow> c \<in> live_cs st \<Longrightarrow> cap_step st st'"
| resize: "cspace_resize (Some c) n st = (res, st') \<Longrightarrow> c \<in> live_cs st \<Longrightarrow> cap_step st st'"
| copy: "cap_copy sc s dc d m st = Some (res, st') \<Longrightarrow> cspace_from_root sc st = cspace_from_root dc st \<Longrightarrow>
    cap_step st st'"
| derive: "cap_derive sc s dc d nr b st = Some (res, st') \<Longrightarrow> cspace_from_root sc st = cspace_from_root dc st \<Longrightarrow>
    cap_step st st'"
| move: "cap_move sc s dc d st = Some (res, st') \<Longrightarrow> cspace_from_root sc st = cspace_from_root dc st \<Longrightarrow>
    cap_step st st'"
| mint: "cap_mint root s t k rt b st = Some (res, st') \<Longrightarrow> cap_step st st'"
| badge: "cap_badge_update root s b st = Some (res, st') \<Longrightarrow> cap_step st st'"
| delete: "cap_delete root s st = Some (res, st') \<Longrightarrow> cap_step st st'"
| revoke: "cap_revoke root s st = Some (res, st') \<Longrightarrow>
    (\<And>c. cspace_from_root root st = Some (Some c) \<Longrightarrow> card {x. desc st c s x} \<le> Suc REVOKE_STACK_SIZE) \<Longrightarrow>
    cap_step st st'"

inductive cap_reach :: "cap_sys \<Rightarrow> bool" where
  boot: "cspace_subsys_init slab_ok raw = (KERNEL_OK, st) \<Longrightarrow> cap_reach st"
| step: "cap_reach st \<Longrightarrow> cap_step st st' \<Longrightarrow> cap_reach st'"

lemma boot_state:
  assumes "cspace_subsys_init slab_ok raw = (res, st)"
  shows "all_inv st" and "sys_inv st" and "live_cs st = {}"
proof -
  let ?xs = "map (\<lambda>i. CONFIG_MAX_CSPACES - 1 - i) [0..<CONFIG_MAX_CSPACES]"
  have f: "s_cspace_free_count st = CONFIG_MAX_CSPACES" "s_cspace_free_stack st = ?xs"
      "s_cspace_pool st = (\<lambda>_. zero_cspace)" "s_cspace_hash st = (\<lambda>_. None)"
      "s_cspace_id_counter st = 1"
    using assms by (auto simp: cspace_subsys_init_def Let_def simp del: upt_rec_numeral split: if_splits)
  have xs: "set ?xs = {..<CONFIG_MAX_CSPACES}" "distinct ?xs" by (auto simp: upt_rec lessThan_nat_numeral)
  show "all_inv st" by (simp add: all_inv_def cap_inv_empty f zero_cspace_def)
  have p: "pool_ok st" "pool_free_ix st = {..<CONFIG_MAX_CSPACES}"
    using xs by (simp_all add: pool_ok_def pool_free_ix_def f del: upt_rec_numeral)
  then show l: "live_cs st = {}" by (simp add: cspool.live_def)
  have b: "bucket_ok st b is \<longleftrightarrow> is = []" for b "is"
    by (cases "is") (auto simp: bucket_ok_def f)
  then have "hash_ok st" "hash_entries st = {}" by (auto simp: hash_ok_def hash_entries_def)
  with p(1) l show "sys_inv st" by (simp add: sys_inv_def f zero_cspace_def)
qed

lemma keeps_sys:
  assumes "keeps st st'" and "cap_frame st st'" and "sys_inv st"
  shows "sys_inv st'"
  using assms sys_invD(5) [OF assms(3)]
  by (intro sys_inv_cong [OF assms(3), of st']) (auto simp: cap_frame_def keeps_def)

lemma sys_inv_resize:
  assumes k: "keeps st st'" and sys: "sys_inv st" and run: "cspace_resize (Some c) n st = (res, st')"
    and c: "c \<in> live_cs st"
  shows "sys_inv st'"
proof (cases res)
  case KERNEL_OK
  let ?u = "fold (resize_body c) (slots_from (capacity (cs_of st c)) n) st"
  have e: "st' = upd_cs c (\<lambda>cs. cs\<lparr>capacity := n\<rparr>) ?u"
    using cspace_resize_OK(3) [OF run [unfolded KERNEL_OK]] .
  have u: "cap_frame st ?u" by (rule resize_fold_frame(1))
  show ?thesis
    using k u c sys_invD(5) [OF sys] by (intro sys_inv_cong [OF sys, of st'])
      (auto simp: e cap_frame_def same_admin_def keeps_def)
next
  case (Err e)
  then show ?thesis using run sys by (auto simp: cspace_resize_def Let_def split: if_splits)
qed

lemma step_inv:
  assumes step: "cap_step st st'" and inv: "all_inv st" and sys: "sys_inv st"
  shows "all_inv st' \<and> sys_inv st'"
proof -
  have k: "all_inv st' \<and> sys_inv st'" if "keeps st st'" "cap_frame st st'"
    using that keeps_sys [OF that sys] by (simp add: keeps_def)
  show ?thesis
    using step
  proof cases
    case (create n tok r)
    then show ?thesis using all_inv_create [OF inv sys_invD(1) [OF sys]] sys_inv_create [OF sys] by blast
  next
    case (destroy c)
    then show ?thesis using cspace_destroy_run [OF inv sys] by fastforce
  next
    case (resize c n res)
    then have "keeps st st'" using keeps_resize [OF inv] by blast
    with resize show ?thesis using sys_inv_resize [OF _ sys] by (auto simp: keeps_def)
  next
    case (revoke root s res)
    then show ?thesis using k keeps_revoke [OF inv] cap_frame_ops(5) by blast
  next
    case (copy sc s dc d m res)
    then show ?thesis using k keeps_copy [OF inv] cap_frame_ops(1) by blast
  next
    case (derive sc s dc d nr b res)
    then show ?thesis using k keeps_derive [OF inv] cap_frame_ops(2) by blast
  next
    case (move sc s dc d res)
    then show ?thesis using k keeps_move [OF inv] cap_frame_move by blast
  next
    case (mint root s t k' rt b res)
    then show ?thesis using k keeps_mint [OF inv] cap_frame_ops(3) by blast
  next
    case (badge root s b res)
    then show ?thesis using k keeps_badge [OF inv] cap_frame_ops(4) by blast
  next
    case (delete root s res)
    then show ?thesis using k keeps_delete [OF inv] cap_frame_ops(6) by blast
  qed
qed

lemma reach_inv: "cap_reach st \<Longrightarrow> all_inv st \<and> sys_inv st"
  by (induction rule: cap_reach.induct) (use boot_state step_inv in blast)+

end
