(* ===== verification/Cap_Scenario.thy ===== *)
theory Cap_Scenario
  imports Cap_System
begin

text \<open>
  How \<^verbatim>\<open>cspace_from_root\<close> resolves a number in a reachable state, and a short history of the capability system:
  boot, one CSpace of five slots, a minted channel capability and one derived from it.  The history serves the
  concrete instances of the properties.
\<close>

section \<open>Resolving a CSpace root\<close>

lemma from_root_live:
  assumes sys: "sys_inv st" and "c \<in> live_cs st"
  shows "cspace_from_root (cs_id (cs_of st c)) st = Some (Some c)"
proof -
  have "hash_search (cs_id (cs_of st c)) st = Some (Some c)"
    using assms(2) sys_invD(3) [OF sys] cspace_index.hit [OF sys_invD(2) [OF sys]] by blast
  then obtain r where "hash_find_loop (s_hash_nodes st) (cs_id (cs_of st c))
      (s_cspace_hash st (cspace_hash_index (cs_id (cs_of st c)))) = Some r" "r = Hit (Some c)"
    by (auto simp: hash_search_def split: hash_result.splits) (metis hash_result.exhaust)
  then show ?thesis by (simp add: cspace_from_root_def)
qed

abbreviation root_match :: "cap_sys \<Rightarrow> u32 \<Rightarrow> nat \<Rightarrow> bool" where
  "root_match st root \<equiv> \<lambda>i. cs_type (cs_of st i) = KOBJ_CSPACE \<and> cs_id (cs_of st i) \<noteq> KOBJ_ID_INVALID
     \<and> root_slot (cs_of st i) = root"

lemma from_root_scan:
  assumes sys: "sys_inv st" and "k \<notin> (\<lambda>c. cs_id (cs_of st c)) ` live_cs st"
  shows "cspace_from_root k st = Some (find (root_match st k) [0..<CONFIG_MAX_CSPACES])"
proof -
  obtain xs where b: "bucket_ok st (cspace_hash_index k) xs" using sys_invD(2) [OF sys] by (auto simp: hash_ok_def)
  have "(k, i) \<notin> hash_entries st" for i using assms(2) unfolding sys_invD(3) [OF sys] by auto
  then have "find (\<lambda>i. hn_key (s_hash_nodes st i) = k) xs = None"
    using hash_entriesD [OF b] by (auto simp: find_None_iff)
  then show ?thesis
    using b hash_find_loop_chain [of "s_hash_nodes st" _ xs k]
    by (simp add: cspace_from_root_def bucket_ok_def del: upt_rec_numeral)
qed

lemma root_match_live:
  assumes sys: "sys_inv st"
  shows "root_match st k i \<longleftrightarrow> k = 0 \<and> i \<in> live_cs st"
  using sys_invD(4,5) [OF sys, of i] by (cases "i \<in> live_cs st") auto

lemma from_root_frame: "cap_frame st st' \<Longrightarrow> cspace_from_root k st' = cspace_from_root k st"
  by (simp add: cspace_from_root_def cap_frame_def same_admin_def del: upt_rec_numeral cong: hash_result.case_cong)

lemma step_from_root:
  "cap_mint root s t k rt b st = Some (r, st') \<Longrightarrow> cspace_from_root x st' = cspace_from_root x st"
  "cap_derive sc s dc d nr b st = Some (r, st') \<Longrightarrow> cspace_from_root x st' = cspace_from_root x st"
  by (simp_all add: from_root_frame [OF cap_frame_ops(2)] from_root_frame [OF cap_frame_ops(3)])

section \<open>A short history\<close>

definition demo_raw :: cap_sys where
  "demo_raw = \<lparr>s_cspace_pool = (\<lambda>_. zero_cspace), cap_table = (\<lambda>_ _. zero_cap), links = (\<lambda>_. null_links),
     s_cspace_free_stack = [], s_cspace_free_count = 0, s_cspace_id_counter = 0, s_cspace_hash = (\<lambda>_. None),
     s_hash_nodes = (\<lambda>_. zero_hash_node), slab_initialized = False\<rparr>"

definition demo_boot :: cap_sys where
  "demo_boot = snd (cspace_subsys_init (\<lambda>_. True) demo_raw)"

definition demo_new :: cap_sys where
  "demo_new = snd (cspace_create 5 True demo_boot)"

definition demo_mint :: cap_sys where
  "demo_mint = snd (the (cap_mint 1 2 KOBJ_CHANNEL 7
     (CAP_RIGHT_READ OR CAP_RIGHT_WRITE OR CAP_RIGHT_GRANT OR CAP_RIGHT_REVOKE) 0 demo_new))"

definition demo_derive :: cap_sys where
  "demo_derive = snd (the (cap_derive 1 2 1 3 (CAP_RIGHT_READ OR CAP_RIGHT_GRANT) 9 demo_mint))"

lemma demo_boot_facts:
  "cap_reach demo_boot" "s_cspace_id_counter demo_boot = 1" "cs_of demo_boot c = zero_cspace"
  "cap_table demo_boot = (\<lambda>_ _. zero_cap)"
proof -
  show "cap_reach demo_boot"
    unfolding demo_boot_def
    by (rule cap_reach.boot [where slab_ok = "\<lambda>_. True" and raw = demo_raw]) (simp add: cspace_subsys_init_def Let_def)
qed (simp_all add: demo_boot_def demo_raw_def cspace_subsys_init_def Let_def)

lemma demo_boot_live: "live_cs demo_boot = {}"
  by (rule boot_state(3) [of "\<lambda>_. True" demo_raw "fst (cspace_subsys_init (\<lambda>_. True) demo_raw)"]) (simp add: demo_boot_def)

lemma demo_new_run: "cspace_create 5 True demo_boot = (Inr 0, demo_new)"
proof -
  have "fst (cspace_create 5 True demo_boot) = Inr 0"
    by (simp add: cspace_create_def cspace_pool_alloc_def cspace_create_root_cap_def demo_boot_def
        cspace_subsys_init_def Let_def)
  then show ?thesis by (simp add: demo_new_def prod_eq_iff)
qed

lemma demo_new_facts:
  "cap_reach demo_new" "live_cs demo_new = {0}" "cspace_from_root 1 demo_new = Some (Some 0)"
  "cs_of demo_new 0 = \<lparr>cs_type = KOBJ_CSPACE, cs_id = 1, capacity = 5, used_count = 1, root_slot = 0, free_head = 1\<rparr>"
  "cap_table demo_new 0 = (\<lambda>s. if s = 0 then root_cap 1 else zero_cap)"
proof -
  note r = reach_inv [OF demo_boot_facts(1)]
  note c = sys_inv_create_OK [OF _ demo_new_run] and f = cspace_create_OK [OF demo_new_run]
  show "cap_reach demo_new"
    by (rule cap_reach.step [OF demo_boot_facts(1)], rule cap_step.create [OF demo_new_run])
      (simp add: demo_boot_facts)
  show l: "live_cs demo_new = {0}"
    using c(2) r by (simp add: demo_boot_facts demo_boot_live)
  show cs: "cs_of demo_new 0 = \<lparr>cs_type = KOBJ_CSPACE, cs_id = 1, capacity = 5, used_count = 1, root_slot = 0,
      free_head = 1\<rparr>"
    using f(4) by (simp add: demo_boot_facts)
  show "cap_table demo_new 0 = (\<lambda>s. if s = 0 then root_cap 1 else zero_cap)"
    using f(5) by (auto simp: demo_boot_facts)
  show "cspace_from_root 1 demo_new = Some (Some 0)"
    using from_root_live [of demo_new 0] c(1) r l by (simp add: cs demo_boot_facts)
qed

lemma channel_rights:
  "cap_validate_rights_for_type KOBJ_CHANNEL
     (CAP_RIGHT_READ OR CAP_RIGHT_WRITE OR CAP_RIGHT_GRANT OR CAP_RIGHT_REVOKE) = KERNEL_OK"
  "cap_validate_rights_for_type KOBJ_CHANNEL (CAP_RIGHT_READ OR CAP_RIGHT_GRANT) = KERNEL_OK"
  by code_simp+

lemma demo_mint_run: "cap_mint 1 2 KOBJ_CHANNEL 7
    (CAP_RIGHT_READ OR CAP_RIGHT_WRITE OR CAP_RIGHT_GRANT OR CAP_RIGHT_REVOKE) 0 demo_new = Some (KERNEL_OK, demo_mint)"
proof -
  have "\<exists>st. cap_mint 1 2 KOBJ_CHANNEL 7
      (CAP_RIGHT_READ OR CAP_RIGHT_WRITE OR CAP_RIGHT_GRANT OR CAP_RIGHT_REVOKE) 0 demo_new = Some (KERNEL_OK, st)"
    using channel_rights(1)
    by (simp add: cap_mint_def cspace_lookup_def demo_new_facts root_cap_def zero_cap_def cap_insert_locked_def Let_def)
  then show ?thesis by (auto simp: demo_mint_def)
qed

abbreviation demo_channel :: cap_t where
  "demo_channel \<equiv> \<lparr>c_state = CAP_STATE_VALID, c_type = KOBJ_CHANNEL,
     c_rights = CAP_RIGHT_READ OR CAP_RIGHT_WRITE OR CAP_RIGHT_GRANT OR CAP_RIGHT_REVOKE, c_badge = 0, c_kobj = 7,
     c_parent = CAP_SLOT_INVALID, c_root = 0, c_depth = 0, c_inherit = False\<rparr>"

lemma demo_mint_facts:
  "cap_reach demo_mint" "cspace_from_root k demo_mint = cspace_from_root k demo_new"
  "cs_of demo_mint 0 = (cs_of demo_new 0)\<lparr>used_count := 2\<rparr>"
  "cap_table demo_mint 0 = (cap_table demo_new 0)(2 := demo_channel)"
proof -
  show "cap_reach demo_mint" by (rule cap_reach.step [OF demo_new_facts(1)], rule cap_step.mint [OF demo_mint_run])
  show "cspace_from_root k demo_mint = cspace_from_root k demo_new" by (rule step_from_root(1) [OF demo_mint_run])
  have "cap_insert_locked 0 2 KOBJ_CHANNEL 7
      (CAP_RIGHT_READ OR CAP_RIGHT_WRITE OR CAP_RIGHT_GRANT OR CAP_RIGHT_REVOKE) 0 CAP_SLOT_INVALID demo_new
      = (KERNEL_OK, demo_mint)"
    using demo_mint_run by (simp add: cap_mint_def cspace_lookup_def demo_new_facts root_cap_def)
  from cap_insert_locked_OK(5,6) [OF this]
  show "cs_of demo_mint 0 = (cs_of demo_new 0)\<lparr>used_count := 2\<rparr>"
      "cap_table demo_mint 0 = (cap_table demo_new 0)(2 := demo_channel)"
    by (simp_all add: inserted_cap_def demo_new_facts zero_cap_def)
qed

lemma demo_derive_run:
  "cap_derive 1 2 1 3 (CAP_RIGHT_READ OR CAP_RIGHT_GRANT) 9 demo_mint = Some (KERNEL_OK, demo_derive)"
proof -
  have "\<exists>st. cap_derive 1 2 1 3 (CAP_RIGHT_READ OR CAP_RIGHT_GRANT) 9 demo_mint = Some (KERNEL_OK, st)"
    using channel_rights(2)
    by (simp add: cap_derive_def cspace_lookup_def demo_mint_facts demo_new_facts zero_cap_def cap_insert_locked_def Let_def)
  then show ?thesis by (auto simp: demo_derive_def)
qed

lemma demo_derive_facts:
  "cap_reach demo_derive" "cspace_from_root k demo_derive = cspace_from_root k demo_new"
  "cs_of demo_derive 0 = (cs_of demo_new 0)\<lparr>used_count := 3\<rparr>"
  "cap_table demo_derive 0 = (cap_table demo_mint 0)(3 := demo_channel\<lparr>c_rights := CAP_RIGHT_READ OR CAP_RIGHT_GRANT,
     c_badge := 9, c_parent := 2, c_depth := 1\<rparr>)"
proof -
  show "cap_reach demo_derive"
    by (rule cap_reach.step [OF demo_mint_facts(1)], rule cap_step.derive [OF demo_derive_run]) simp
  show "cspace_from_root k demo_derive = cspace_from_root k demo_new"
    using step_from_root(2) [OF demo_derive_run] demo_mint_facts(2) by simp
  have "cap_insert_locked 0 3 KOBJ_CHANNEL 7 (CAP_RIGHT_READ OR CAP_RIGHT_GRANT) 9 2 demo_mint
      = (KERNEL_OK, demo_derive)"
    using demo_derive_run by (simp add: cap_derive_def cspace_lookup_def demo_mint_facts demo_new_facts)
  from cap_insert_locked_OK(5,6) [OF this]
  show "cs_of demo_derive 0 = (cs_of demo_new 0)\<lparr>used_count := 3\<rparr>"
      "cap_table demo_derive 0 = (cap_table demo_mint 0)(3 := demo_channel\<lparr>c_rights := CAP_RIGHT_READ OR CAP_RIGHT_GRANT,
     c_badge := 9, c_parent := 2, c_depth := 1\<rparr>)"
    by (simp_all add: inserted_cap_def demo_mint_facts demo_new_facts zero_cap_def)
qed

lemmas demo_facts = demo_derive_facts(2-) demo_mint_facts(2-) demo_new_facts(2-)

end
