(* ===== verification/Cap_Properties.thy ===== *)
theory Cap_Properties
  imports Cap_Scenario
begin

text \<open>
  What the capability system guarantees in every reachable state: well-formed derivation forests, attenuation of
  rights, exact revocation, deletion and movement, and resolution of CSpace numbers.  Each property is followed by
  an instance on the history of \<^verbatim>\<open>Cap_Scenario\<close>.
\<close>

section \<open>Reachable states\<close>

lemma reach_tree:
  assumes "cap_reach st"
  obtains kids where "tree_inv st c kids" "rights_mono st c"
  using reach_inv [OF assms] by (auto simp: all_inv_def cap_inv_def)

lemma reach_id:
  assumes "cap_reach st" and "c \<in> live_cs st"
  shows "cs_id (cs_of st c) \<noteq> CAP_SLOT_INVALID"
    and "cspace_from_root (cs_id (cs_of st c)) st = Some (Some c)"
proof -
  have s: "sys_inv st" using reach_inv [OF assms(1)] by simp
  have "cs_id (cs_of st c) < s_cspace_id_counter st" using sys_invD(4) [OF s assms(2)] by simp
  moreover have "s_cspace_id_counter st \<le> CAP_SLOT_INVALID" 
    using unat_u32_bound [of "s_cspace_id_counter st"] by (simp add: word_le_nat_alt)
  ultimately show "cs_id (cs_of st c) \<noteq> CAP_SLOT_INVALID" by auto
  show "cspace_from_root (cs_id (cs_of st c)) st = Some (Some c)" by (rule from_root_live [OF s assms(2)])
qed

lemma reach_slot:
  assumes "cap_reach st" and "valid_slot st c s"
  shows "c \<in> live_cs st" and "s \<noteq> CAP_SLOT_INVALID"
proof -
  show "c \<in> live_cs st" using valid_live reach_inv [OF assms(1)] assms(2) by blast
  obtain kids where "tree_inv st c kids" using reach_tree [OF assms(1)] by blast
  then show "s \<noteq> CAP_SLOT_INVALID" using assms(2) by auto
qed

lemma demo_valid [simp]:
  "valid_slot demo_derive 0 s \<longleftrightarrow> s = 0 \<or> s = 2 \<or> s = 3"
  by (auto simp: valid_slot_def demo_facts root_cap_def zero_cap_def)

lemma demo_live [simp]: "0 \<in> live_cs demo_derive"
  by (rule reach_slot(1) [OF demo_derive_facts(1), of 0 2]) simp

lemma demo_id: "cs_id (cs_of demo_derive 0) = 1"
  by (simp add: demo_facts)







text \<open>
  (C7) A number resolves in bounded time: the id of a live CSpace to that CSpace, a non-zero number that no live
  CSpace has to nothing, and 0 to the live CSpace with the least index.
\<close>

theorem cspace_from_root_resolves:
  assumes "cap_reach st"
  shows "(\<forall>c \<in> live_cs st. cspace_from_root (cs_id (cs_of st c)) st = Some (Some c)) \<and>
    (\<forall>k. k \<noteq> 0 \<longrightarrow> k \<notin> (\<lambda>c. cs_id (cs_of st c)) ` live_cs st \<longrightarrow> cspace_from_root k st = Some None) \<and>
    cspace_from_root 0 st = Some (if live_cs st = {} then None else Some (Min (live_cs st)))"
proof -
  have s: "sys_inv st" using reach_inv [OF assms] by simp
  have z: "0 \<notin> (\<lambda>c. cs_id (cs_of st c)) ` live_cs st" using sys_invD(4) [OF s] by auto
  have l: "live_cs st \<subseteq> {..<CONFIG_MAX_CSPACES}" by (auto simp: cspool.live_def)
  have scan: "cspace_from_root 0 st = Some (find (\<lambda>i. i \<in> live_cs st) [0..<CONFIG_MAX_CSPACES])"
    using from_root_scan [OF s z] by (simp add: root_match_live [OF s, simplified] del: upt_rec_numeral)
  have "find (\<lambda>i. i \<in> live_cs st) [0..<CONFIG_MAX_CSPACES] = (if live_cs st = {} then None else Some (Min (live_cs st)))"
  proof (cases "live_cs st = {}")
    case False
    have fin: "finite (live_cs st)" using l finite_subset by blast
    have m: "Min (live_cs st) \<in> live_cs st" using False fin by simp
    then have "Min (live_cs st) < CONFIG_MAX_CSPACES" using l by blast
    moreover have "\<forall>j<Min (live_cs st). j \<notin> live_cs st" using fin by (meson Min_le leD)
    ultimately show ?thesis
      using False m by (auto simp: find_Some_iff simp del: upt_rec_numeral intro!: exI [of _ "Min (live_cs st)"])
  qed (auto simp: find_None_iff simp del: upt_rec_numeral)
  moreover have "cspace_from_root k st = Some None" if "k \<noteq> 0" "k \<notin> (\<lambda>c. cs_id (cs_of st c)) ` live_cs st" for k
    using from_root_scan [OF s that(2)] that(1) by (simp add: root_match_live [OF s, simplified] find_None_iff del: upt_rec_numeral)
  ultimately show ?thesis using scan from_root_live [OF s] by simp
qed

theorem cspace_from_root_resolves_witness:
  "cspace_from_root 1 demo_derive = Some (Some 0) \<and> cspace_from_root 0 demo_derive = Some (Some (Min (live_cs demo_derive)))"
proof -
  note r = cspace_from_root_resolves [OF demo_derive_facts(1)]
  have "cspace_from_root (cs_id (cs_of demo_derive 0)) demo_derive = Some (Some 0)" using r demo_live by blast
  moreover have "live_cs demo_derive \<noteq> {}" using demo_live by blast
  ultimately show ?thesis using r by (simp add: demo_id)
qed

section \<open>Operations\<close>



text \<open>
  (C4) Deleting a valid capability ends with success: the slot becomes free, its children become roots with
  their rights and depth unchanged, and no other slot changes.  The use counter and the free list are left as they were.
\<close>

theorem cap_delete_orphans:
  assumes "cap_reach st" and "valid_slot st c s"
  shows "\<exists>st'. cap_delete (cs_id (cs_of st c)) s st = Some (KERNEL_OK, st') \<and>
    cap_table st' = (cap_table st)(c := (\<lambda>x. if x = s then zero_cap\<lparr>c_parent := CAP_SLOT_INVALID\<rparr>
      else if valid_slot st c x \<and> c_parent (cap_table st c x) = s
      then (cap_table st c x)\<lparr>c_parent := CAP_SLOT_INVALID\<rparr> else cap_table st c x)) \<and>
    s_cspace_pool st' = s_cspace_pool st \<and> cap_reach st'"
proof -
  obtain kids where t: "tree_inv st c kids" using reach_tree [OF assms(1)] by blast
  note r = reach_id [OF assms(1) reach_slot(1) [OF assms]]
  obtain st2 where run: "cap_delete (cs_id (cs_of st c)) s st = Some (KERNEL_OK, clear_cap c s st2)"
      and o: "orphaned (unlink_parent c s st) c s (kids s) [] st2"
    using cap_delete_run [OF t assms(2) r] by blast
  have "cap_reach (clear_cap c s st2)" by (rule cap_reach.step [OF assms(1)], rule cap_step.delete [OF run])
  moreover have "deleted_table st c s = (\<lambda>x. if x = s then zero_cap\<lparr>c_parent := CAP_SLOT_INVALID\<rparr>
      else if valid_slot st c x \<and> c_parent (cap_table st c x) = s
      then (cap_table st c x)\<lparr>c_parent := CAP_SLOT_INVALID\<rparr> else cap_table st c x)"
    by (auto simp: deleted_table_def)
  ultimately show ?thesis using run tree_inv_delete(1,2) [OF t assms(2) o refl] by auto
qed

theorem cap_delete_orphans_witness:
  "\<exists>st'. cap_delete 1 2 demo_derive = Some (KERNEL_OK, st') \<and> c_state (cap_table st' 0 2) = CAP_STATE_FREE \<and>
    valid_slot st' 0 3 \<and> c_parent (cap_table st' 0 3) = CAP_SLOT_INVALID \<and> used_count (cs_of st' 0) = 3"
proof -
  have v: "valid_slot demo_derive 0 2" by simp
  from cap_delete_orphans [OF demo_derive_facts(1) v] show ?thesis
    by (elim exE conjE) (simp add: demo_id demo_facts valid_slot_def zero_cap_def)
qed

lemma cap_insert_locked_succeeds:
  assumes "s < capacity (cs_of st c)" and "c_state (cap_table st c s) = CAP_STATE_FREE"
    and "cap_validate_rights_for_type t r = KERNEL_OK"
    and "p \<noteq> CAP_SLOT_INVALID \<Longrightarrow> valid_slot st c p \<and> c_depth (cap_table st c p) < CAP_MAX_DERIVE_DEPTH"
  shows "\<exists>st'. cap_insert_locked c s t k r b p st = (KERNEL_OK, st')"
  using assms by (cases "p = CAP_SLOT_INVALID") (simp_all add: cap_insert_locked_def valid_slot_def Let_def not_le)

text \<open>
  (C5) Moving a grantable capability to a free slot of the same CSpace ends with success whenever its parent, if any, still
  allows a child: the destination holds the same object, rights and badge under the same parent,
  the children now name the destination as their parent, the source is free, and no other slot changes.
\<close>

theorem cap_move_exact:
  assumes "cap_reach st" and "valid_slot st c s" and "c_rights (cap_table st c s) AND CAP_RIGHT_GRANT \<noteq> CAP_RIGHT_NONE"
    and "d < capacity (cs_of st c)" and "c_state (cap_table st c d) = CAP_STATE_FREE"
  shows "\<exists>st'. cap_move (cs_id (cs_of st c)) s (cs_id (cs_of st c)) d st = Some (KERNEL_OK, st') \<and>
    cap_table st' = (cap_table st)(c := moved_table st c s d) \<and>
    used_count (cs_of st' c) = used_count (cs_of st c) + 1 \<and> cap_reach st'"
proof -
  let ?cap = "cap_table st c s" and ?k = "cs_id (cs_of st c)"
  obtain kids where t: "tree_inv st c kids" using reach_tree [OF assms(1)] by blast
  note r = reach_id [OF assms(1) reach_slot(1) [OF assms(1,2)]]
  have "d \<noteq> CAP_SLOT_INVALID" using assms(4) t by (auto simp: tree_inv_def dest: order.strict_trans2)
  note g = cap_move_guards [OF r(2) r(2) r(1) r(1) reach_slot(2) [OF assms(1,2)] this]
  have d: "cap_data_ok st c s" by (rule tree_invD(1) [OF t assms(2)])
  have p: "valid_slot st c (c_parent ?cap) \<and> c_depth (cap_table st c (c_parent ?cap)) < CAP_MAX_DERIVE_DEPTH"
    if "c_parent ?cap \<noteq> CAP_SLOT_INVALID"
    using d that by (auto simp: cap_data_ok_def Let_def)
  have rt: "cap_validate_rights_for_type (c_type ?cap) (c_rights ?cap) = KERNEL_OK"
    using d by (simp add: cap_data_ok_def Let_def)
  obtain st1 where ins: "cap_insert_locked c d (c_type ?cap) (c_kobj ?cap) (c_rights ?cap) (c_badge ?cap) (c_parent ?cap) st
      = (KERNEL_OK, st1)"
    using cap_insert_locked_succeeds [OF assms(4,5) rt p] by blast
  obtain st3 where "hand_over c s d st1 = Some st3" using cap_move_step [OF t assms(2) refl ins] by blast
  then obtain st' where run: "cap_move ?k s ?k d st = Some (KERNEL_OK, st')"
    using g assms(2,3) ins by (auto simp: Let_def)
  have "cap_reach st'" by (rule cap_reach.step [OF assms(1)], rule cap_step.move [OF run]) simp
  then show ?thesis using run cap_move_OK(2,3) [OF t r(2) r(2) run] by auto
qed

theorem cap_move_exact_witness:
  "\<exists>st'. cap_move 1 2 1 4 demo_derive = Some (KERNEL_OK, st') \<and> c_kobj (cap_table st' 0 4) = 7 \<and>
     c_parent (cap_table st' 0 3) = 4 \<and> c_state (cap_table st' 0 2) = CAP_STATE_FREE \<and> used_count (cs_of st' 0) = 4"
proof -
  have v: "valid_slot demo_derive 0 2" by simp
  have g: "c_rights (cap_table demo_derive 0 2) AND CAP_RIGHT_GRANT \<noteq> CAP_RIGHT_NONE"
    and f: "4 < capacity (cs_of demo_derive 0)" "c_state (cap_table demo_derive 0 4) = CAP_STATE_FREE"
    by (simp_all add: demo_facts zero_cap_def)
  from cap_move_exact [OF demo_derive_facts(1) v g f] show ?thesis
    by (elim exE conjE) (simp add: demo_id moved_table_def inserted_cap_def demo_facts zero_cap_def)
qed



text \<open>
  Validation of a slot of a live CSpace always returns: the capability is handed out exactly when it is valid and has every required right.
\<close>

theorem cap_validate_exact:
  assumes "cap_reach st" and "c \<in> live_cs st" and "s \<noteq> CAP_SLOT_INVALID"
  shows "cap_validate (cs_id (cs_of st c)) s req st =
    Some (if \<not> valid_slot st c s then Inl ENOENT
          else if rights_le req (c_rights (cap_table st c s)) then Inr (c, s) else Inl EACCES)"
  using reach_id [OF assms(1,2)] assms(3)
  by (simp add: cap_validate_def cspace_lookup_valid rights_le_def valid_slot_def and.commute)

theorem cap_validate_exact_witness:
  "cap_validate 1 3 CAP_RIGHT_READ demo_derive = Some (Inr (0, 3)) \<and>
   cap_validate 1 3 CAP_RIGHT_WRITE demo_derive = Some (Inl EACCES)"
proof -
  have n: "(3 :: u32) \<noteq> CAP_SLOT_INVALID" by simp
  note v = cap_validate_exact [OF demo_derive_facts(1) demo_live n, unfolded demo_id]
  show ?thesis unfolding v by (simp add: demo_facts rights_le_def)
qed

section \<open>Life of a CSpace\<close>

lemma cspace_create_succeeds:
  assumes "pool_ok st" and "live_cs st \<noteq> {..<CONFIG_MAX_CSPACES}" and "n \<noteq> 0" and "n \<le> CSPACE_MAX_CAPACITY"
  shows "\<exists>c st'. cspace_create n True st = (Inr c, st')"
proof -
  obtain i st1 where "pool_take st = Some (i, st1)" using cspool.alloc_fails_full [OF assms(1)] assms(2) by fastforce
  from pool_take_simps(2) [OF this] have "s_cspace_free_count st \<noteq> 0" by simp
  then show ?thesis
    using assms(3,4) by (auto simp: cspace_create_def cspace_pool_alloc_def cspace_create_root_cap_def Let_def)
qed

text \<open>
  While a pool entry is left and the identifiers are not exhausted, creating a CSpace of a legal size
  succeeds: the new CSpace was not live, gets an identifier no live CSpace has, resolves by it, holds the root
  capability only, and no other table changes.
\<close>

theorem cspace_create_fresh:
  assumes "cap_reach st" and "live_cs st \<noteq> {..<CONFIG_MAX_CSPACES}" and "s_cspace_id_counter st < 0xFFFFFFFF"
    and "n \<noteq> 0" and "n \<le> CSPACE_MAX_CAPACITY"
  shows "\<exists>c st'. cspace_create n True st = (Inr c, st') \<and> c \<notin> live_cs st \<and> live_cs st' = insert c (live_cs st) \<and>
    cs_id (cs_of st' c) \<notin> (\<lambda>d. cs_id (cs_of st d)) ` live_cs st \<and>
    cspace_from_root (cs_id (cs_of st' c)) st' = Some (Some c) \<and> (\<forall>s. valid_slot st' c s \<longleftrightarrow> s = 0) \<and>
    (\<forall>d. d \<noteq> c \<longrightarrow> cap_table st' d = cap_table st d \<and> cs_of st' d = cs_of st d) \<and> cap_reach st'"
proof -
  have s: "sys_inv st" using reach_inv [OF assms(1)] by simp
  obtain c st' where run: "cspace_create n True st = (Inr c, st')"
    using cspace_create_succeeds [OF sys_invD(1) [OF s] assms(2,4,5)] by blast
  note o = sys_inv_create_OK [OF s run assms(3)] and f = cspace_create_OK [OF run]
  have "cap_reach st'" by (rule cap_reach.step [OF assms(1)], rule cap_step.create [OF run assms(3)])
  moreover have "cs_id (cs_of st' c) \<notin> (\<lambda>d. cs_id (cs_of st d)) ` live_cs st"
  proof
    assume "cs_id (cs_of st' c) \<in> (\<lambda>d. cs_id (cs_of st d)) ` live_cs st"
    then obtain d where "d \<in> live_cs st" "s_cspace_id_counter st = cs_id (cs_of st d)" using f(4) by auto
    then show False using sys_invD(4) [OF s, of d] by simp
  qed
  moreover have "cspace_from_root (cs_id (cs_of st' c)) st' = Some (Some c)"
    using o(2) by (intro from_root_live [OF o(1)]) simp
  moreover have "valid_slot st' c s \<longleftrightarrow> s = 0" for s
    using f(4,5) assms(4) by (auto simp: valid_slot_def root_cap_def zero_cap_def word_gt_0)
  moreover have "cap_table st' d = cap_table st d \<and> cs_of st' d = cs_of st d" if "d \<noteq> c" for d
    using f(4,5) that by simp
  ultimately show ?thesis using run o(2,3) by (intro exI [of _ c] exI [of _ st']) simp
qed

theorem cspace_create_fresh_witness:
  "\<exists>c st'. cspace_create 9 True demo_derive = (Inr c, st') \<and> c \<noteq> 0 \<and> live_cs st' = insert c (live_cs demo_derive)"
proof -
  have i: "s_cspace_id_counter demo_derive = s_cspace_id_counter demo_new"
    using cap_frame_ops(2) [OF demo_derive_run] cap_frame_ops(3) [OF demo_mint_run] by (simp add: cap_frame_def same_admin_def)
  have c: "s_cspace_id_counter demo_derive < 0xFFFFFFFF"
    using cspace_create_OK(6) [OF demo_new_run] by (simp add: i demo_boot_facts)
  have l: "live_cs demo_derive = {0}"
    using cap_frame_ops(2) [OF demo_derive_run] cap_frame_ops(3) [OF demo_mint_run] demo_new_facts(2)
      pool_cong(2) [of demo_derive demo_new] by (simp add: cap_frame_def same_admin_def)
  have "1 \<in> {..<CONFIG_MAX_CSPACES}" "1 \<notin> live_cs demo_derive" by (simp_all add: l)
  then have "live_cs demo_derive \<noteq> {..<CONFIG_MAX_CSPACES}" by metis
  moreover have "(9 :: u32) \<noteq> 0" "(9 :: u32) \<le> CSPACE_MAX_CAPACITY" by simp_all
  ultimately show ?thesis
    using cspace_create_fresh [OF demo_derive_facts(1) _ c, of 9] by (elim meta_impE) (auto simp: l)
qed



section \<open>Minting\<close>

text \<open>
  Minting into a live CSpace always returns.  It succeeds exactly for a known object type with legal rights, on a free slot,
  when the root capability of the CSpace is valid and has the write and the grant right; then
  the slot holds a new root of the derivation forest.  Otherwise the state is unchanged.
\<close>

theorem cap_mint_exact:
  assumes "cap_reach st" and "c \<in> live_cs st" and "s \<noteq> CAP_SLOT_INVALID"
  shows "\<exists>r st'. cap_mint (cs_id (cs_of st c)) s t k rt b st = Some (r, st') \<and>
    (r = KERNEL_OK \<longleftrightarrow> valid_slot st c 0 \<and>
       rights_le (CAP_RIGHT_WRITE OR CAP_RIGHT_GRANT) (c_rights (cap_table st c 0)) \<and>
       s < capacity (cs_of st c) \<and> c_state (cap_table st c s) = CAP_STATE_FREE \<and>
       cap_validate_rights_for_type t rt = KERNEL_OK) \<and>
    (if r = KERNEL_OK
     then cap_table st' = (cap_table st)(c := (cap_table st c)(s := inserted_cap st c s t k rt b CAP_SLOT_INVALID)) \<and>
          c_depth (cap_table st' c s) = 0 \<and> cap_reach st'
     else st' = st)"
proof -
  let ?k = "cs_id (cs_of st c)"
  note r = reach_id [OF assms(1,2)]
  have z: "root_slot (cs_of st c) = 0" using sys_invD(4) [OF _ assms(2)] reach_inv [OF assms(1)] by blast
  have ty: "t < KOBJ_TYPE_COUNT" if "cap_validate_rights_for_type t rt = KERNEL_OK"
    using that by (auto simp: cap_validate_rights_for_type_def split: if_splits)
  have g: "cap_mint ?k s t k rt b st = Some (if t \<ge> KOBJ_TYPE_COUNT then (Err EINVAL, st)
      else if \<not> valid_slot st c 0 then (Err ENOENT, st)
      else if \<not> rights_le (CAP_RIGHT_WRITE OR CAP_RIGHT_GRANT) (c_rights (cap_table st c 0)) then (Err EACCES, st)
      else cap_insert_locked c s t k rt b CAP_SLOT_INVALID st)"
    using r assms(3) by (auto simp: cap_mint_def z cspace_lookup_valid rights_le_def and.commute)
  obtain r' st' where run: "cap_mint ?k s t k rt b st = Some (r', st')"
    using g by (metis surj_pair)
  show ?thesis
  proof (cases "r' = KERNEL_OK")
    case True
    have "cap_reach st'" by (rule cap_reach.step [OF assms(1)], rule cap_step.mint [OF run])
    moreover have ins: "cap_insert_locked c s t k rt b CAP_SLOT_INVALID st = (KERNEL_OK, st')"
      using run g True by (auto split: if_splits)
    ultimately show ?thesis
      using run g True cap_insert_locked_OK(1-3,6) [OF ins] by (auto simp: inserted_cap_def split: if_splits)
  next
    case False
    have "st' = st" using run g False cap_insert_locked_fail by (cases r') (auto split: if_splits)
    moreover have "\<not> (s < capacity (cs_of st c) \<and> c_state (cap_table st c s) = CAP_STATE_FREE \<and>
       cap_validate_rights_for_type t rt = KERNEL_OK)"
      if "cap_insert_locked c s t k rt b CAP_SLOT_INVALID st = (r', st')"
      using that False by (auto simp: cap_insert_locked_def Let_def split: if_splits)
    ultimately show ?thesis using run g False ty by (auto split: if_splits)
  qed
qed

theorem cap_mint_exact_witness:
  "\<exists>st'. cap_mint 1 4 KOBJ_CHANNEL 6 (CAP_RIGHT_READ OR CAP_RIGHT_GRANT) 1 demo_derive = Some (KERNEL_OK, st') \<and>
     c_kobj (cap_table st' 0 4) = 6 \<and> cap_reach st'"
proof -
  have n: "(4 :: u32) \<noteq> CAP_SLOT_INVALID" by simp
  have v: "valid_slot demo_derive 0 0" by simp
  from cap_mint_exact [OF demo_derive_facts(1) demo_live n, of KOBJ_CHANNEL 6 "CAP_RIGHT_READ OR CAP_RIGHT_GRANT" 1]
  show ?thesis
    using channel_rights(2) v
    by (elim exE conjE) (simp add: demo_id demo_facts zero_cap_def root_cap_def rights_le_def inserted_cap_def)
qed

end
