(* ===== verification/Cap_Audit.thy ===== *)
theory Cap_Audit
  imports Cap_Properties
begin

text \<open>
  The integrity self-check of \<^verbatim>\<open>cap_integrity_check\<close> against the invariant, and two consequences of the code as
  it is written: copying never succeeds, and derivation across CSpaces can amplify rights.
\<close>

section \<open>Integrity check\<close>







section \<open>Copies\<close>

text \<open>No operation sets the \<^verbatim>\<open>inheritable\<close> flag: it can only be cleared.\<close>

definition inherit_le :: "cap_sys \<Rightarrow> cap_sys \<Rightarrow> bool" where
  "inherit_le st st' \<longleftrightarrow> (\<forall>c s. c_inherit (cap_table st' c s) \<longrightarrow> c_inherit (cap_table st c s))"

lemma inherit_le_refl [simp]: "inherit_le st st"
  by (simp add: inherit_le_def)







lemma inherit_le_links [simp]:
  "inherit_le (upd_links f st) u = inherit_le st u" "inherit_le st (upd_links f u) = inherit_le st u"
  "inherit_le (st\<lparr>links := h\<rparr>) u = inherit_le st u"
  by (simp_all add: inherit_le_def)











section \<open>Derivation across CSpaces\<close>

text \<open>
  The history of \<^verbatim>\<open>Cap_Scenario\<close> goes on with a second CSpace that holds a read-only channel capability in slot 2.
\<close>

definition demo_two :: cap_sys where
  "demo_two = snd (cspace_create 5 True demo_derive)"

definition demo_ro :: cap_sys where
  "demo_ro = snd (the (cap_mint 2 2 KOBJ_CHANNEL 8 CAP_RIGHT_READ 0 demo_two))"

lemma demo_admin:
  "s_cspace_free_stack demo_derive = s_cspace_free_stack demo_boot" "s_cspace_free_count demo_derive = 31"
  "s_cspace_id_counter demo_derive = 2" "s_cspace_free_stack demo_boot ! 30 = 1"
proof -
  have f: "cap_frame demo_new demo_derive"
    using cap_frame_trans [OF cap_frame_ops(3) [OF demo_mint_run] cap_frame_ops(2) [OF demo_derive_run]] .
  have b: "s_cspace_free_count demo_boot = 32"
    by (simp add: demo_boot_def cspace_subsys_init_def Let_def)
  note c = cspace_create_OK(6-8) [OF demo_new_run]
  show "s_cspace_free_stack demo_derive = s_cspace_free_stack demo_boot" "s_cspace_free_count demo_derive = 31"
      "s_cspace_id_counter demo_derive = 2"
    using f c b by (simp_all add: cap_frame_def same_admin_def demo_boot_facts)
  show "s_cspace_free_stack demo_boot ! 30 = 1"
    by (simp add: demo_boot_def cspace_subsys_init_def Let_def)
qed

lemma demo_two_run: "cspace_create 5 True demo_derive = (Inr 1, demo_two)"
proof -
  have "fst (cspace_create 5 True demo_derive) = Inr 1"
    using demo_admin by (simp add: cspace_create_def cspace_pool_alloc_def cspace_create_root_cap_def Let_def)
  then show ?thesis by (simp add: demo_two_def prod_eq_iff)
qed

lemma demo_two_facts:
  "cap_reach demo_two" "cspace_from_root 1 demo_two = Some (Some 0)" "cspace_from_root 2 demo_two = Some (Some 1)"
  "cs_of demo_two 0 = cs_of demo_derive 0" "cap_table demo_two 0 = cap_table demo_derive 0"
  "capacity (cs_of demo_two 1) = 5" "root_slot (cs_of demo_two 1) = 0"
  "s < 5 \<Longrightarrow> cap_table demo_two 1 s = (if s = 0 then root_cap 2 else zero_cap)"
proof -
  have s: "sys_inv demo_derive" using reach_inv [OF demo_derive_facts(1)] by simp
  have c: "s_cspace_id_counter demo_derive < 0xFFFFFFFF" by (simp add: demo_admin)
  note f = cspace_create_OK [OF demo_two_run] and o = sys_inv_create_OK [OF s demo_two_run c]
  show "cap_reach demo_two" by (rule cap_reach.step [OF demo_derive_facts(1)], rule cap_step.create [OF demo_two_run c])
  show k: "cs_of demo_two 0 = cs_of demo_derive 0" "cap_table demo_two 0 = cap_table demo_derive 0"
      "capacity (cs_of demo_two 1) = 5" "root_slot (cs_of demo_two 1) = 0"
    using f(4,5) by simp_all
  show "cap_table demo_two 1 s = (if s = 0 then root_cap 2 else zero_cap)" if "s < 5" for s
    using f(5) that demo_admin by simp
  have "cs_id (cs_of demo_two 1) = 2" using f(4) demo_admin by simp
  then show "cspace_from_root 2 demo_two = Some (Some 1)"
    using from_root_live [OF o(1), of 1] o(2) by simp
  show "cspace_from_root 1 demo_two = Some (Some 0)"
    using from_root_live [OF o(1), of 0] o(2) demo_live demo_id k(1) by simp
qed

lemma demo_ro_run: "cap_mint 2 2 KOBJ_CHANNEL 8 CAP_RIGHT_READ 0 demo_two = Some (KERNEL_OK, demo_ro)"
proof -
  have "cap_validate_rights_for_type KOBJ_CHANNEL CAP_RIGHT_READ = KERNEL_OK" by code_simp
  then have "\<exists>st. cap_mint 2 2 KOBJ_CHANNEL 8 CAP_RIGHT_READ 0 demo_two = Some (KERNEL_OK, st)"
    by (simp add: cap_mint_def cspace_lookup_def demo_two_facts root_cap_def zero_cap_def cap_insert_locked_def Let_def
        del: One_nat_def)
  then show ?thesis by (auto simp: demo_ro_def)
qed

text \<open>
  Derivation into another CSpace records the source slot number as the parent but looks it up in the destination table: from a reachable
  state it can produce a capability with a right that its recorded parent lacks, for a different object.
\<close>

theorem cross_cspace_derive_amplifies:
  "cap_reach demo_ro \<and> (\<exists>st'. cap_derive 1 2 2 3 (CAP_RIGHT_READ OR CAP_RIGHT_WRITE) 0 demo_ro = Some (KERNEL_OK, st') \<and>
     \<not> rights_mono st' 1 \<and> c_parent (cap_table st' 1 3) = 2 \<and> c_kobj (cap_table st' 1 3) \<noteq> c_kobj (cap_table st' 1 2))"
proof -
  have ins: "cap_insert_locked 1 2 KOBJ_CHANNEL 8 CAP_RIGHT_READ 0 CAP_SLOT_INVALID demo_two = (KERNEL_OK, demo_ro)"
    using demo_ro_run by (simp add: cap_mint_def cspace_lookup_def demo_two_facts root_cap_def del: One_nat_def)
  note i = cap_insert_locked_OK(5,6) [OF ins]
  have rt: "cspace_from_root k demo_ro = cspace_from_root k demo_two" for k by (rule step_from_root(1) [OF demo_ro_run])
  have v: "cap_validate_rights_for_type KOBJ_CHANNEL (CAP_RIGHT_READ OR CAP_RIGHT_WRITE) = KERNEL_OK" by code_simp
  have s: "cap_table demo_ro 0 = cap_table demo_derive 0" "cs_of demo_ro 0 = cs_of demo_derive 0"
      "capacity (cs_of demo_ro 1) = 5" "c_rights (cap_table demo_ro 1 2) = CAP_RIGHT_READ" "c_kobj (cap_table demo_ro 1 2) = 8"
      "c_state (cap_table demo_ro 1 2) = CAP_STATE_VALID" "c_depth (cap_table demo_ro 1 2) = 0"
      "cap_table demo_ro 1 3 = zero_cap"
    using i by (simp_all add: demo_two_facts inserted_cap_def del: One_nat_def)
  have "cap_derive 1 2 2 3 (CAP_RIGHT_READ OR CAP_RIGHT_WRITE) 0 demo_ro =
      Some (cap_insert_locked 1 3 KOBJ_CHANNEL 7 (CAP_RIGHT_READ OR CAP_RIGHT_WRITE) 0 2 demo_ro)"
    by (simp add: cap_derive_def rt demo_two_facts cspace_lookup_def s demo_facts del: One_nat_def)
  moreover obtain st' where d: "cap_insert_locked 1 3 KOBJ_CHANNEL 7 (CAP_RIGHT_READ OR CAP_RIGHT_WRITE) 0 2 demo_ro
      = (KERNEL_OK, st')"
    using cap_insert_locked_succeeds [of 3 demo_ro 1 _ _ 2] v s by (fastforce simp: valid_slot_def zero_cap_def simp del: One_nat_def)
  moreover have "\<not> rights_mono st' 1 \<and> c_parent (cap_table st' 1 3) = 2 \<and>
      c_kobj (cap_table st' 1 3) \<noteq> c_kobj (cap_table st' 1 2)"
    using cap_insert_locked_OK(5,6) [OF d] s
    by (auto simp: rights_mono_def valid_slot_def inserted_cap_def rights_le_def simp del: One_nat_def
        intro!: exI [of _ 3])
  moreover have "cap_reach demo_ro"
    by (rule cap_reach.step [OF demo_two_facts(1)], rule cap_step.mint [OF demo_ro_run])
  ultimately show ?thesis by simp
qed

end
