(* ===== verification/Kernel_Memory.thy ===== *)
theory Kernel_Memory
  imports Kernel_Prelude
begin

text \<open>
  Byte buffers.  A buffer is a list of bytes; \<^verbatim>\<open>memcpy\<close> into or out of it is defined only inside its bounds.
\<close>

definition mem_write :: "u8 list \<Rightarrow> nat \<Rightarrow> u8 list \<Rightarrow> u8 list option" where
  "mem_write b off xs = (if off + length xs \<le> length b
     then Some (take off b @ xs @ drop (off + length xs) b) else None)"

definition mem_read :: "u8 list \<Rightarrow> nat \<Rightarrow> nat \<Rightarrow> u8 list option" where
  "mem_read b off n = (if off + n \<le> length b then Some (take n (drop off b)) else None)"

lemma mem_write_total: "off + length xs \<le> length b \<Longrightarrow> \<exists>b'. mem_write b off xs = Some b'"
  by (simp add: mem_write_def)

lemma mem_write_nth:
  assumes "mem_write b off xs = Some b'"
  shows "length b' = length b" and "i < length b \<Longrightarrow> b' ! i = (if off \<le> i \<and> i < off + length xs then xs ! (i - off) else b ! i)"
  using assms by (auto simp: mem_write_def nth_append min_def split: if_splits)

lemma mem_read_nth:
  assumes "mem_read b off n = Some xs"
  shows "length xs = n" and "i < n \<Longrightarrow> xs ! i = b ! (off + i)"
  using assms by (auto simp: mem_read_def split: if_splits)

lemma mem_write_read: "mem_write b off xs = Some b' \<Longrightarrow> mem_read b' off (length xs) = Some xs"
  by (auto simp: mem_write_def mem_read_def split: if_splits)

section \<open>Arithmetic of 64-bit sizes\<close>

lemma unat_u64_bound: "unat (x :: u64) < 2 ^ 64"
  using unsigned_less [of x] by simp

lemma unat_add_u64: "unat (a :: u64) + unat b < 2 ^ 64 \<Longrightarrow> unat (a + b) = unat a + unat b"
  by (simp add: unat_word_ariths)

lemma unat_sub_u64: "(b :: u64) \<le> a \<Longrightarrow> unat (a - b) = unat a - unat b"
  by (rule unat_sub)

lemma add_mod_inj:
  assumes "((a :: nat) + i) mod n = (a + j) mod n" and "i < n" and "j < n"
  shows "i = j"
proof (rule ccontr)
  assume "i \<noteq> j"
  then consider "i < j" | "j < i" by linarith
  then show False
  proof cases
    case 1
    then have "n dvd j - i" using assms(1) mod_eq_dvd_iff_nat [of "a + i" "a + j" n] by simp
    then show False using 1 assms(3) by (auto dest: dvd_imp_le)
  next
    case 2
    then have "n dvd i - j" using assms(1) mod_eq_dvd_iff_nat [of "a + j" "a + i" n] by simp
    then show False using 2 assms(2) by (auto dest: dvd_imp_le)
  qed
qed

end
