(* ===== verification/Byte_Fifo.thy ===== *)
theory Byte_Fifo
  imports Kernel_Memory "HOL-Library.Monad_Syntax"
begin

text \<open>
  The contract of a bounded byte queue: what is queued, how much fits, and what a write and a read do to it.  A client sees only
  the sequence of operations; the lemmas show that the bytes come out in the order in which they went in.
\<close>

datatype fifo_op = Put "u8 list" | Get nat

text \<open>A history of operations: the bytes accepted, the bytes delivered and the queue left.\<close>

fun fifo_run :: "(u8 list \<Rightarrow> 'q \<Rightarrow> (status \<times> 'q) option) \<Rightarrow> (nat \<Rightarrow> 'q \<Rightarrow> ((errno + u8 list) \<times> 'q) option) \<Rightarrow>
    fifo_op list \<Rightarrow> 'q \<Rightarrow> (u8 list \<times> u8 list \<times> 'q) option" where
  "fifo_run put get [] q = Some ([], [], q)"
| "fifo_run put get (Put xs # ops) q = do {
     (r, q1) \<leftarrow> put xs q;
     (acc, del, q2) \<leftarrow> fifo_run put get ops q1;
     Some ((if r = KERNEL_OK then xs else []) @ acc, del, q2)
   }"
| "fifo_run put get (Get n # ops) q = do {
     (r, q1) \<leftarrow> get n q;
     (acc, del, q2) \<leftarrow> fifo_run put get ops q1;
     Some (acc, (case r of Inr ys \<Rightarrow> ys | Inl _ \<Rightarrow> []) @ del, q2)
   }"

fun fifo_op_ok :: "fifo_op \<Rightarrow> bool" where
  "fifo_op_ok (Put xs) \<longleftrightarrow> xs \<noteq> [] \<and> length xs < 2 ^ 64"
| "fifo_op_ok (Get n) \<longleftrightarrow> 0 < n \<and> n < 2 ^ 64"

locale byte_fifo =
  fixes ok :: "'q \<Rightarrow> bool"
    and content :: "'q \<Rightarrow> u8 list"
    and limit :: "'q \<Rightarrow> nat"
    and put :: "u8 list \<Rightarrow> 'q \<Rightarrow> (status \<times> 'q) option"
    and get :: "nat \<Rightarrow> 'q \<Rightarrow> ((errno + u8 list) \<times> 'q) option"
  assumes bound: "ok q \<Longrightarrow> length (content q) \<le> limit q"
    and put_fits: "ok q \<Longrightarrow> fifo_op_ok (Put xs) \<Longrightarrow> length (content q) + length xs \<le> limit q \<Longrightarrow>
      \<exists>q'. put xs q = Some (KERNEL_OK, q') \<and> ok q' \<and> content q' = content q @ xs \<and> limit q' = limit q"
    and put_full: "ok q \<Longrightarrow> fifo_op_ok (Put xs) \<Longrightarrow> limit q < length (content q) + length xs \<Longrightarrow>
      put xs q = Some (Err ENOMEM, q)"
    and get_some: "ok q \<Longrightarrow> fifo_op_ok (Get n) \<Longrightarrow> content q \<noteq> [] \<Longrightarrow>
      \<exists>q'. get n q = Some (Inr (take n (content q)), q') \<and> ok q' \<and> content q' = drop n (content q) \<and> limit q' = limit q"
    and get_none: "ok q \<Longrightarrow> fifo_op_ok (Get n) \<Longrightarrow> content q = [] \<Longrightarrow> get n q = Some (Inl EAGAIN, q)"
begin

text \<open>One operation: the queue before it with what was accepted is what was delivered with the queue after it.\<close>

lemma put_step:
  assumes "ok q" and "fifo_op_ok (Put xs)"
  shows "\<exists>r q'. put xs q = Some (r, q') \<and> ok q' \<and> limit q' = limit q \<and>
    content q' = content q @ (if r = KERNEL_OK then xs else [])"
  using put_fits [OF assms] put_full [OF assms] assms(1) by (cases "length (content q) + length xs \<le> limit q") auto

lemma get_step:
  assumes "ok q" and "fifo_op_ok (Get n)"
  shows "\<exists>r q'. get n q = Some (r, q') \<and> ok q' \<and> limit q' = limit q \<and>
    content q = (case r of Inr ys \<Rightarrow> ys | Inl _ \<Rightarrow> []) @ content q'"
proof (cases "content q = []")
  case False
  from get_some [OF assms this] obtain q' where "get n q = Some (Inr (take n (content q)), q')" "ok q'"
    "content q' = drop n (content q)" "limit q' = limit q" by blast
  then show ?thesis by (intro exI [of _ "Inr (take n (content q))"] exI [of _ q']) simp
qed (use get_none [OF assms] assms(1) in auto)

lemma fifo_order:
  assumes "ok q" and "\<And>x. x \<in> set ops \<Longrightarrow> fifo_op_ok x"
  shows "\<exists>acc del q'. fifo_run put get ops q = Some (acc, del, q') \<and> ok q' \<and> limit q' = limit q \<and>
    content q @ acc = del @ content q'"
  using assms
proof (induction ops arbitrary: q)
  case (Cons x ops)
  show ?case
  proof (cases x)
    case (Put xs)
    then obtain r q1 where p: "put xs q = Some (r, q1)" "ok q1" "limit q1 = limit q"
        "content q1 = content q @ (if r = KERNEL_OK then xs else [])"
      using put_step [OF Cons.prems(1)] Cons.prems(2) by (metis list.set_intros(1))
    obtain acc del q' where "fifo_run put get ops q1 = Some (acc, del, q')" "ok q'" "limit q' = limit q1"
        "content q1 @ acc = del @ content q'"
      using Cons.IH [OF p(2)] Cons.prems(2) by auto
    then show ?thesis using p Put by auto
  next
    case (Get n)
    then obtain r q1 where p: "get n q = Some (r, q1)" "ok q1" "limit q1 = limit q"
        "content q = (case r of Inr ys \<Rightarrow> ys | Inl _ \<Rightarrow> []) @ content q1"
      using get_step [OF Cons.prems(1)] Cons.prems(2) by (metis list.set_intros(1))
    obtain acc del q' where "fifo_run put get ops q1 = Some (acc, del, q')" "ok q'" "limit q' = limit q1"
        "content q1 @ acc = del @ content q'"
      using Cons.IH [OF p(2)] Cons.prems(2) by auto
    then show ?thesis using p Get by auto
  qed
qed simp

end

end
