(* ===== verification/Ring_Buffer.thy ===== *)
theory Ring_Buffer
  imports Byte_Fifo
begin

text \<open>
  The ring buffer of \<^verbatim>\<open>kernel/ipc/ring_buffer.c\<close>.  The write position may stand one past the end: it wraps only with the
  next write.  \<open>None\<close> as a result means that a \<^verbatim>\<open>memcpy\<close> leaves the buffer or the caller's data.
\<close>

section \<open>Operations\<close>

record ring_buffer =
  rb_buffer :: "u8 list"
  rb_size :: u64
  rb_head :: u64
  rb_tail :: u64
  rb_count :: u64

definition ring_buffer_init :: "ring_buffer option \<Rightarrow> u8 list option \<Rightarrow> u64 \<Rightarrow> status \<times> ring_buffer option" where
  "ring_buffer_init rb buf n =
     (case (rb, buf) of
        (Some r, Some b) \<Rightarrow>
          if n = 0 then (Err EINVAL, rb)
          else (KERNEL_OK, Some \<lparr>rb_buffer = b, rb_size = n, rb_head = 0, rb_tail = 0, rb_count = 0\<rparr>)
      | _ \<Rightarrow> (Err EINVAL, rb))"

definition ring_buffer_write ::
  "ring_buffer option \<Rightarrow> u8 list option \<Rightarrow> u64 \<Rightarrow> (status \<times> ring_buffer option) option" where
  "ring_buffer_write rb data len =
     (case (rb, data) of
        (Some r, Some d) \<Rightarrow>
          if len = 0 then Some (Err EINVAL, rb)
          else if len > rb_size r - rb_count r then Some (Err ENOMEM, rb)
          else if rb_head r + len \<le> rb_size r then do {
            xs \<leftarrow> mem_read d 0 (unat len);
            b \<leftarrow> mem_write (rb_buffer r) (unat (rb_head r)) xs;
            Some (KERNEL_OK, Some (r\<lparr>rb_buffer := b, rb_head := rb_head r + len, rb_count := rb_count r + len\<rparr>))
          }
          else do {
            let first = rb_size r - rb_head r;
            xs \<leftarrow> mem_read d 0 (unat first);
            b1 \<leftarrow> mem_write (rb_buffer r) (unat (rb_head r)) xs;
            ys \<leftarrow> mem_read d (unat first) (unat (len - first));
            b2 \<leftarrow> mem_write b1 0 ys;
            Some (KERNEL_OK, Some (r\<lparr>rb_buffer := b2, rb_head := len - first, rb_count := rb_count r + len\<rparr>))
          }
      | _ \<Rightarrow> Some (Err EINVAL, rb))"

text \<open>The caller's data buffer is returned with what was copied to its front.\<close>

definition ring_buffer_read ::
  "ring_buffer option \<Rightarrow> u8 list option \<Rightarrow> u64 \<Rightarrow> (status \<times> ring_buffer option \<times> u8 list option) option" where
  "ring_buffer_read rb data req =
     (case (rb, data) of
        (Some r, Some d) \<Rightarrow>
          if req = 0 then Some (Err EINVAL, rb, data)
          else if rb_count r = 0 then Some (Err EAGAIN, rb, data)
          else do {
            let len = (if req > rb_count r then rb_count r else req);
            if rb_tail r + len \<le> rb_size r then do {
              xs \<leftarrow> mem_read (rb_buffer r) (unat (rb_tail r)) (unat len);
              d1 \<leftarrow> mem_write d 0 xs;
              Some (KERNEL_OK, Some (r\<lparr>rb_tail := rb_tail r + len, rb_count := rb_count r - len\<rparr>), Some d1)
            }
            else do {
              let first = rb_size r - rb_tail r;
              xs \<leftarrow> mem_read (rb_buffer r) (unat (rb_tail r)) (unat first);
              d1 \<leftarrow> mem_write d 0 xs;
              ys \<leftarrow> mem_read (rb_buffer r) 0 (unat (len - first));
              d2 \<leftarrow> mem_write d1 (unat first) ys;
              Some (KERNEL_OK, Some (r\<lparr>rb_tail := len - first, rb_count := rb_count r - len\<rparr>), Some d2)
            }
          }
      | _ \<Rightarrow> Some (Err EINVAL, rb, data))"

definition ring_buffer_space :: "ring_buffer option \<Rightarrow> u64" where
  "ring_buffer_space rb = (case rb of None \<Rightarrow> 0 | Some r \<Rightarrow> rb_size r - rb_count r)"

definition ring_buffer_available :: "ring_buffer option \<Rightarrow> u64" where
  "ring_buffer_available rb = (case rb of None \<Rightarrow> 0 | Some r \<Rightarrow> rb_count r)"

definition ring_buffer_clear :: "ring_buffer option \<Rightarrow> ring_buffer option" where
  "ring_buffer_clear rb = (case rb of None \<Rightarrow> None
     | Some r \<Rightarrow> Some (r\<lparr>rb_head := 0, rb_tail := 0, rb_count := 0\<rparr>))"

section \<open>Invariant and contents\<close>

definition rb_ok :: "ring_buffer \<Rightarrow> bool" where
  "rb_ok r \<longleftrightarrow> 0 < rb_size r \<and> unat (rb_size r) < 2 ^ 63 \<and> length (rb_buffer r) = unat (rb_size r) \<and>
     rb_head r \<le> rb_size r \<and> rb_tail r \<le> rb_size r \<and> rb_count r \<le> rb_size r \<and>
     unat (rb_head r) mod unat (rb_size r) = (unat (rb_tail r) + unat (rb_count r)) mod unat (rb_size r)"

definition rb_content :: "ring_buffer \<Rightarrow> u8 list" where
  "rb_content r = map (\<lambda>i. rb_buffer r ! ((unat (rb_tail r) + i) mod unat (rb_size r))) [0..<unat (rb_count r)]"

lemma rb_okD:
  assumes "rb_ok r"
  shows "0 < unat (rb_size r)" "unat (rb_size r) < 2 ^ 63" "length (rb_buffer r) = unat (rb_size r)"
    "unat (rb_head r) \<le> unat (rb_size r)" "unat (rb_tail r) \<le> unat (rb_size r)" "unat (rb_count r) \<le> unat (rb_size r)"
    "unat (rb_head r) mod unat (rb_size r) = (unat (rb_tail r) + unat (rb_count r)) mod unat (rb_size r)"
  using assms by (auto simp: rb_ok_def word_le_nat_alt word_less_nat_alt)

text \<open>Writing at a position that wraps: every index of the ring either got its byte or kept the old one.\<close>

definition ring_put :: "u8 list \<Rightarrow> nat \<Rightarrow> u8 list \<Rightarrow> u8 list \<Rightarrow> bool" where
  "ring_put b h xs b' \<longleftrightarrow> length b' = length b \<and> (\<forall>j<length xs. b' ! ((h + j) mod length b) = xs ! j) \<and>
     (\<forall>i<length b. (\<forall>j<length xs. i \<noteq> (h + j) mod length b) \<longrightarrow> b' ! i = b ! i)"

lemma ring_put_straight:
  assumes "mem_write b h xs = Some b'" and "xs \<noteq> []" and "h + length xs \<le> length b"
  shows "ring_put b h xs b'"
proof -
  note w = mem_write_nth [OF assms(1)]
  have "b' ! ((h + j) mod length b) = xs ! j" if "j < length xs" for j
    using that assms(3) w(2) [of "h + j"] by simp
  moreover have "b' ! i = b ! i" if i: "i < length b" and n: "\<forall>j<length xs. i \<noteq> (h + j) mod length b" for i
  proof -
    have "\<not> (h \<le> i \<and> i < h + length xs)"
    proof
      assume "h \<le> i \<and> i < h + length xs"
      then have "i - h < length xs" "i = (h + (i - h)) mod length b" using i by auto
      with n show False by blast
    qed
    then show ?thesis using w(2) [OF i] by auto
  qed
  ultimately show ?thesis using w(1) by (simp add: ring_put_def)
qed

lemma ring_put_wrap:
  assumes "mem_write b h (take f xs) = Some b1" and "mem_write b1 0 (drop f xs) = Some b'"
    and f: "f = length b - h" "h \<le> length b" "f \<le> length xs" "length xs \<le> length b" "0 < length b"
  shows "ring_put b h xs b'"
proof -
  note w1 = mem_write_nth [OF assms(1)] and w2 = mem_write_nth [OF assms(2)]
  have nth: "b' ! i = (if i < length xs - f then xs ! (f + i) else if h \<le> i then xs ! (i - h) else b ! i)"
    if i: "i < length b" for i
    using w1(1) w1(2) [OF i] w2(2) [of i] i f by auto
  have "b' ! ((h + j) mod length b) = xs ! j" if j: "j < length xs" for j
  proof (cases "j < f")
    case True
    then have "(h + j) mod length b = h + j" using f by simp
    then show ?thesis using nth [of "h + j"] True f by auto
  next
    case False
    then have "length b \<le> h + j" "h + j - length b < length b" "h + j - length b = j - f" using f j by linarith+
    then have "(h + j) mod length b = j - f" by (simp add: le_mod_geq)
    then show ?thesis using nth [of "j - f"] False f j by auto
  qed
  moreover have "b' ! i = b ! i" if i: "i < length b" and n: "\<forall>j<length xs. i \<noteq> (h + j) mod length b" for i
  proof -
    have a: "\<not> i < length xs - f"
    proof
      assume "i < length xs - f"
      then have "f + i < length xs" "i = (h + (f + i)) mod length b" using f i by simp_all
      with n show False by blast
    qed
    have c: "\<not> h \<le> i"
    proof
      assume "h \<le> i"
      then have "i - h < length xs" "i = (h + (i - h)) mod length b" using f i by simp_all
      with n show False by blast
    qed
    from a c show ?thesis using nth [OF i] by simp
  qed
  ultimately show ?thesis using w1(1) w2(1) by (simp add: ring_put_def)
qed

text \<open>Content after a write and after a read.\<close>

lemma content_put:
  assumes "rb_ok r" and put: "ring_put (rb_buffer r) (unat (rb_head r)) xs b"
    and xs: "unat (rb_count r) + length xs \<le> unat (rb_size r)"
    and r': "rb_buffer r' = b" "rb_size r' = rb_size r" "rb_tail r' = rb_tail r"
      "unat (rb_count r') = unat (rb_count r) + length xs"
  shows "rb_content r' = rb_content r @ xs"
proof (rule nth_equalityI)
  note D = rb_okD [OF assms(1)]
  let ?n = "unat (rb_size r)" and ?t = "unat (rb_tail r)" and ?c = "unat (rb_count r)"
  have h: "(unat (rb_head r) + j) mod ?n = (?t + (?c + j)) mod ?n" for j
    using mod_add_cong [OF D(7) refl, of j] by (simp only: add.assoc)
  show len: "length (rb_content r') = length (rb_content r @ xs)" using r'(4) by (simp add: rb_content_def)
  fix i assume "i < length (rb_content r')"
  then have i: "i < ?c + length xs" using r'(4) by (simp add: rb_content_def)
  then have lhs: "rb_content r' ! i = b ! ((?t + i) mod ?n)" using r' by (simp add: rb_content_def)
  show "rb_content r' ! i = (rb_content r @ xs) ! i"
  proof (cases "i < ?c")
    case True
    have "(?t + i) mod ?n \<noteq> (unat (rb_head r) + j) mod ?n" if "j < length xs" for j
      using add_mod_inj [of ?t i ?n "?c + j"] True xs that by (auto simp: h)
    then have "b ! ((?t + i) mod ?n) = rb_buffer r ! ((?t + i) mod ?n)"
      using put D(1,3) by (simp add: ring_put_def)
    then show ?thesis using True lhs by (simp add: rb_content_def nth_append)
  next
    case False
    then have "i - ?c < length xs" "(?t + i) mod ?n = (unat (rb_head r) + (i - ?c)) mod ?n" using i h [of "i - ?c"] by simp_all
    then have "b ! ((?t + i) mod ?n) = xs ! (i - ?c)" using put D(3) by (simp add: ring_put_def)
    then show ?thesis using False lhs by (simp add: rb_content_def nth_append)
  qed
qed

lemma content_get:
  assumes "unat n \<le> unat (rb_count r)" and "rb_buffer r' = rb_buffer r" "rb_size r' = rb_size r"
    "unat (rb_count r') = unat (rb_count r) - unat n" and "0 < unat (rb_size r)"
    "unat (rb_tail r') mod unat (rb_size r) = (unat (rb_tail r) + unat n) mod unat (rb_size r)"
  shows "rb_content r' = drop (unat n) (rb_content r)"
proof (rule nth_equalityI)
  show "length (rb_content r') = length (drop (unat n) (rb_content r))" using assms by (simp add: rb_content_def)
  fix i assume "i < length (rb_content r')"
  then have i: "i < unat (rb_count r) - unat n" using assms by (simp add: rb_content_def)
  have "(unat (rb_tail r') + i) mod unat (rb_size r) = (unat (rb_tail r) + (unat n + i)) mod unat (rb_size r)"
    using mod_add_cong [OF assms(6) refl, of i] by (simp only: add.assoc)
  then show "rb_content r' ! i = drop (unat n) (rb_content r) ! i"
    using i assms by (simp add: rb_content_def less_diff_conv add.commute [of "unat n"])
qed

lemma write_room:
  assumes "rb_ok r" and "len \<le> rb_size r - rb_count r"
  shows "unat (rb_count r) + unat len \<le> unat (rb_size r)" and "unat (rb_count r + len) = unat (rb_count r) + unat len"
    and "unat (rb_head r + len) = unat (rb_head r) + unat len"
proof -
  note D = rb_okD [OF assms(1)]
  have "rb_count r \<le> rb_size r" using assms(1) by (simp add: rb_ok_def)
  then have "unat (rb_size r - rb_count r) = unat (rb_size r) - unat (rb_count r)" by (rule unat_sub_u64)
  then show s: "unat (rb_count r) + unat len \<le> unat (rb_size r)" using assms(2) D(6) by (simp add: word_le_nat_alt)
  show "unat (rb_count r + len) = unat (rb_count r) + unat len" using s D(2) by (intro unat_add_u64) simp
  show "unat (rb_head r + len) = unat (rb_head r) + unat len" using s D(2,4) by (intro unat_add_u64) simp
qed

lemma mod_before: "h \<le> n \<Longrightarrow> (h + l) mod n = (if h + l \<le> n then (h + l) mod n else (l - (n - h)) mod (n::nat))"
  by (auto simp: le_mod_geq add.commute)

lemma ring_buffer_write_run:
  assumes ok: "rb_ok r" and d: "unat len \<le> length d" and len: "len \<noteq> 0" "len \<le> rb_size r - rb_count r"
  shows "\<exists>r'. ring_buffer_write (Some r) (Some d) len = Some (KERNEL_OK, Some r') \<and> rb_ok r' \<and>
    rb_content r' = rb_content r @ take (unat len) d \<and> rb_size r' = rb_size r"
proof -
  note D = rb_okD [OF ok] and R = write_room [OF ok len(2)]
  let ?n = "unat (rb_size r)" and ?h = "unat (rb_head r)" and ?l = "unat len" and ?xs = "take (unat len) d"
  have l0: "0 < ?l" using len(1) by (simp add: unat_gt_0)
  have xs: "length ?xs = ?l" using d by simp
  have fin: "\<exists>r'. Some (KERNEL_OK, Some (r\<lparr>rb_buffer := b, rb_head := h', rb_count := rb_count r + len\<rparr>)) =
      Some (KERNEL_OK, Some r') \<and> rb_ok r' \<and> rb_content r' = rb_content r @ ?xs \<and> rb_size r' = rb_size r"
    if b: "ring_put (rb_buffer r) ?h ?xs b" and h': "unat h' \<le> ?n" "unat h' mod ?n = (?h + ?l) mod ?n" for b h'
  proof -
    let ?r = "r\<lparr>rb_buffer := b, rb_head := h', rb_count := rb_count r + len\<rparr>"
    have "rb_content ?r = rb_content r @ ?xs" by (rule content_put [OF ok b]) (use R xs in simp_all)
    moreover have "(?h + ?l) mod ?n = (unat (rb_tail r) + (unat (rb_count r) + ?l)) mod ?n"
      using mod_add_cong [OF D(7) refl, of ?l] by (simp only: add.assoc)
    then have "rb_ok ?r" using ok b h' R D by (simp add: rb_ok_def ring_put_def word_le_nat_alt)
    ultimately show ?thesis by simp
  qed
  show ?thesis
  proof (cases "?h + ?l \<le> ?n")
    case True
    then have c: "rb_head r + len \<le> rb_size r" using R(3) by (simp add: word_le_nat_alt)
    obtain b where b: "mem_write (rb_buffer r) ?h ?xs = Some b" using True D(3) xs by (auto simp: mem_write_def)
    have "ring_put (rb_buffer r) ?h ?xs b" using True D(3) xs l0 by (intro ring_put_straight [OF b]) auto
    from fin [OF this, of "rb_head r + len"] show ?thesis
      using c len R(3) True b d by (simp add: ring_buffer_write_def mem_read_def)
  next
    case False
    then have c: "\<not> rb_head r + len \<le> rb_size r" using R(3) by (simp add: word_le_nat_alt)
    let ?f = "rb_size r - rb_head r"
    have f: "unat ?f = ?n - ?h" using ok by (intro unat_sub_u64) (simp add: rb_ok_def)
    have fl: "unat ?f \<le> ?l" using False f by linarith
    have lf: "unat (len - ?f) = ?l - unat ?f" using False f by (intro unat_sub_u64) (simp add: word_le_nat_alt)
    obtain b1 where b1: "mem_write (rb_buffer r) ?h (take (unat ?f) ?xs) = Some b1"
      using False D(3,4) f xs by (auto simp: mem_write_def)
    have "0 + length (drop (unat ?f) ?xs) \<le> length b1" using D(3) xs R(1) mem_write_nth(1) [OF b1] by simp
    then obtain b where b: "mem_write b1 0 (drop (unat ?f) ?xs) = Some b" using mem_write_total by blast
    have "ring_put (rb_buffer r) ?h ?xs b"
      using False D(1,3,4) f xs R(1) by (intro ring_put_wrap [OF b1 b]) auto
    moreover have "(?h + ?l) mod ?n = (?l - (?n - ?h)) mod ?n" using False D(4) mod_before [of ?h ?n ?l] by simp
    ultimately have "\<exists>r'. Some (KERNEL_OK, Some (r\<lparr>rb_buffer := b, rb_head := len - ?f, rb_count := rb_count r + len\<rparr>)) =
      Some (KERNEL_OK, Some r') \<and> rb_ok r' \<and> rb_content r' = rb_content r @ ?xs \<and> rb_size r' = rb_size r"
      using R(1) D(4,6) f lf by (intro fin) auto
    moreover have "take (unat ?f) ?xs = take (unat ?f) d" "drop (unat ?f) ?xs = take (?l - unat ?f) (drop (unat ?f) d)"
      using fl by (simp_all add: min_def drop_take)
    ultimately show ?thesis
      using c len b1 b d fl f lf by (simp add: ring_buffer_write_def mem_read_def not_less)
  qed
qed

text \<open>The bytes a read of \<open>n\<close> bytes from the read position copies out, straight or wrapped.\<close>

lemma content_take:
  assumes "rb_ok r" and "n \<le> unat (rb_count r)"
  shows "unat (rb_tail r) + n \<le> unat (rb_size r) \<Longrightarrow>
      mem_read (rb_buffer r) (unat (rb_tail r)) n = Some (take n (rb_content r))"
    and "unat (rb_size r) < unat (rb_tail r) + n \<Longrightarrow>
      \<exists>xs ys. mem_read (rb_buffer r) (unat (rb_tail r)) (unat (rb_size r) - unat (rb_tail r)) = Some xs \<and>
        mem_read (rb_buffer r) 0 (n - (unat (rb_size r) - unat (rb_tail r))) = Some ys \<and> xs @ ys = take n (rb_content r)"
proof -
  note D = rb_okD [OF assms(1)]
  let ?n = "unat (rb_size r)" and ?t = "unat (rb_tail r)"
  have c: "rb_content r ! i = rb_buffer r ! ((?t + i) mod ?n)" if "i < n" for i
    using that assms(2) by (simp add: rb_content_def)
  have ln: "length (take n (rb_content r)) = n" using assms(2) by (simp add: rb_content_def)
  show "mem_read (rb_buffer r) ?t n = Some (take n (rb_content r))" if "?t + n \<le> ?n"
  proof -
    have "take n (drop ?t (rb_buffer r)) = take n (rb_content r)"
      using that D(3) ln by (intro nth_equalityI) (simp_all add: c)
    then show ?thesis using that D(3) by (simp add: mem_read_def)
  qed
  assume w: "?n < ?t + n"
  let ?f = "?n - ?t"
  have "take ?f (drop ?t (rb_buffer r)) @ take (n - ?f) (rb_buffer r) = take n (rb_content r)"
  proof (rule nth_equalityI)
    show "length (take ?f (drop ?t (rb_buffer r)) @ take (n - ?f) (rb_buffer r)) = length (take n (rb_content r))"
      using D w assms(2) by (simp add: rb_content_def)
    fix i assume "i < length (take ?f (drop ?t (rb_buffer r)) @ take (n - ?f) (rb_buffer r))"
    then have i: "i < n" using D w assms(2) by (simp split: if_splits)
    show "(take ?f (drop ?t (rb_buffer r)) @ take (n - ?f) (rb_buffer r)) ! i = take n (rb_content r) ! i"
    proof (cases "i < ?f")
      case True
      then show ?thesis using c [OF i] i D(3) by (simp add: nth_append)
    next
      case False
      then have "?n \<le> ?t + i" "?t + i - ?n < ?n" "?t + i - ?n = i - ?f" using D(5,6) i w assms(2) by linarith+
      then have "(?t + i) mod ?n = i - ?f" by (simp add: le_mod_geq)
      then show ?thesis using c [OF i] i D(3) False i by (simp add: nth_append)
    qed
  qed
  moreover have "?t + ?f \<le> length (rb_buffer r)" "0 + (n - ?f) \<le> length (rb_buffer r)" using D w assms(2) by auto
  ultimately show "\<exists>xs ys. mem_read (rb_buffer r) ?t ?f = Some xs \<and> mem_read (rb_buffer r) 0 (n - ?f) = Some ys \<and>
      xs @ ys = take n (rb_content r)"
    by (simp add: mem_read_def)
qed

lemma ring_buffer_read_run:
  assumes ok: "rb_ok r" and c: "rb_count r \<noteq> 0" "req \<noteq> 0" and n: "n = min (unat req) (unat (rb_count r))" "n \<le> length d"
  shows "\<exists>r'. ring_buffer_read (Some r) (Some d) req =
      Some (KERNEL_OK, Some r', Some (take n (rb_content r) @ drop n d)) \<and>
    rb_ok r' \<and> rb_content r' = drop n (rb_content r) \<and> rb_size r' = rb_size r"
proof -
  note D = rb_okD [OF ok]
  let ?n = "unat (rb_size r)" and ?t = "unat (rb_tail r)" and ?xs = "take n (rb_content r)"
  define len where "len = (if req > rb_count r then rb_count r else req)"
  have len: "unat len = n" using n(1) by (auto simp: len_def min_def word_less_nat_alt)
  have le: "n \<le> unat (rb_count r)" using n(1) by simp
  have xs: "length ?xs = n" using le by (simp add: rb_content_def)
  have add: "unat (rb_tail r + len) = ?t + n" using len D(2,5,6) le by (subst unat_add_u64) auto
  have fin: "rb_ok (r\<lparr>rb_tail := t', rb_count := rb_count r - len\<rparr>) \<and>
      rb_content (r\<lparr>rb_tail := t', rb_count := rb_count r - len\<rparr>) = drop n (rb_content r)"
    if t': "unat t' \<le> ?n" "unat t' mod ?n = (?t + n) mod ?n" for t'
  proof -
    let ?r = "r\<lparr>rb_tail := t', rb_count := rb_count r - len\<rparr>"
    have cl: "unat (rb_count r - len) = unat (rb_count r) - n"
      using len le by (subst unat_sub_u64) (auto simp: word_le_nat_alt)
    have "rb_content ?r = drop (unat len) (rb_content r)"
      by (rule content_get) (use cl len le t' D(1) in simp_all)
    moreover have "(unat t' + (unat (rb_count r) - n)) mod ?n = (?t + n + (unat (rb_count r) - n)) mod ?n"
      by (rule mod_add_cong [OF t'(2) refl])
    then have "rb_ok ?r" using ok t' cl le D by (simp add: rb_ok_def word_le_nat_alt)
    ultimately show ?thesis using len by simp
  qed
  show ?thesis
  proof (cases "?t + n \<le> ?n")
    case True
    then have b: "rb_tail r + len \<le> rb_size r" using add by (simp add: word_le_nat_alt)
    have w: "mem_write d 0 ?xs = Some (?xs @ drop n d)" using xs n(2) by (simp add: mem_write_def)
    show ?thesis
      using c b w content_take(1) [OF ok le True] fin [of "rb_tail r + len"] add True len
      by (simp add: ring_buffer_read_def Let_def flip: len_def)
  next
    case False
    then have b: "\<not> rb_tail r + len \<le> rb_size r" using add by (simp add: word_le_nat_alt)
    let ?f = "rb_size r - rb_tail r"
    have f: "unat ?f = ?n - ?t" using ok by (intro unat_sub_u64) (simp add: rb_ok_def)
    have lf: "unat (len - ?f) = n - unat ?f" using False f len by (subst unat_sub_u64) (auto simp: word_le_nat_alt)
    obtain ys zs where r: "mem_read (rb_buffer r) ?t (unat ?f) = Some ys" "mem_read (rb_buffer r) 0 (n - unat ?f) = Some zs"
        "ys @ zs = ?xs"
      using content_take(2) [OF ok le] False f by auto
    have l: "length ys = unat ?f" "length zs = n - unat ?f" using mem_read_nth(1) r by blast+
    have fn: "unat ?f \<le> n" using False f by linarith
    then have w: "mem_write d 0 ys = Some (ys @ drop (unat ?f) d)"
        "mem_write (ys @ drop (unat ?f) d) (unat ?f) zs = Some (ys @ zs @ drop n d)"
      using l n(2) by (simp_all add: mem_write_def)
    have "(?t + n) mod ?n = (n - (?n - ?t)) mod ?n" using False D(5) mod_before [of ?t ?n n] by simp
    then have "rb_ok (r\<lparr>rb_tail := len - ?f, rb_count := rb_count r - len\<rparr>) \<and>
      rb_content (r\<lparr>rb_tail := len - ?f, rb_count := rb_count r - len\<rparr>) = drop n (rb_content r)"
      using lf f le D(6) by (intro fin) auto
    then show ?thesis
      using c b w r lf len by (simp add: ring_buffer_read_def Let_def flip: len_def)
  qed
qed

section \<open>A byte queue\<close>

text \<open>
  How a caller uses the ring buffer as a queue: it writes all of its data, and it reads into a buffer of
  the requested size and asks for the amount available first, because a short read is not reported.
\<close>

definition rb_put :: "u8 list \<Rightarrow> ring_buffer \<Rightarrow> (status \<times> ring_buffer) option" where
  "rb_put xs r = (case ring_buffer_write (Some r) (Some xs) (of_nat (length xs)) of
     Some (s, Some r') \<Rightarrow> Some (s, r') | _ \<Rightarrow> None)"

definition rb_get :: "nat \<Rightarrow> ring_buffer \<Rightarrow> ((errno + u8 list) \<times> ring_buffer) option" where
  "rb_get n r = (case ring_buffer_read (Some r) (Some (replicate n 0)) (of_nat n) of
     Some (KERNEL_OK, Some r', Some d) \<Rightarrow> Some (Inr (take (unat (ring_buffer_available (Some r))) d), r')
   | Some (Err e, Some r', _) \<Rightarrow> Some (Inl e, r') | _ \<Rightarrow> None)"

lemma unat_of_nat_u64: "n < 2 ^ 64 \<Longrightarrow> unat (of_nat n :: u64) = n"
  by (simp add: unat_of_nat take_bit_eq_mod)

interpretation rbq: byte_fifo rb_ok rb_content "\<lambda>r. unat (rb_size r)" rb_put rb_get
proof
  fix q :: ring_buffer and xs :: "u8 list" and n :: nat
  assume ok: "rb_ok q"
  note D = rb_okD [OF ok]
  have lc: "length (rb_content q) = unat (rb_count q)" by (simp add: rb_content_def)
  show "length (rb_content q) \<le> unat (rb_size q)" using D(6) lc by simp
  have sp: "unat (rb_size q - rb_count q) = unat (rb_size q) - unat (rb_count q)"
    using ok by (intro unat_sub_u64) (simp add: rb_ok_def)
  show "\<exists>q'. rb_put xs q = Some (KERNEL_OK, q') \<and> rb_ok q' \<and> rb_content q' = rb_content q @ xs \<and>
      unat (rb_size q') = unat (rb_size q)"
    if p: "fifo_op_ok (Put xs)" and fits: "length (rb_content q) + length xs \<le> unat (rb_size q)"
  proof -
    have u: "unat (of_nat (length xs) :: u64) = length xs" using p by (intro unat_of_nat_u64) simp
    moreover have "(of_nat (length xs) :: u64) \<noteq> 0" using u p by auto
    moreover have "of_nat (length xs) \<le> rb_size q - rb_count q" using u fits sp lc by (simp add: word_le_nat_alt)
    ultimately show ?thesis using ring_buffer_write_run [OF ok, of "of_nat (length xs)" xs] by (auto simp: rb_put_def)
  qed
  show "rb_put xs q = Some (Err ENOMEM, q)"
    if p: "fifo_op_ok (Put xs)" and full: "unat (rb_size q) < length (rb_content q) + length xs"
  proof -
    have u: "unat (of_nat (length xs) :: u64) = length xs" using p by (intro unat_of_nat_u64) simp
    moreover have "(of_nat (length xs) :: u64) \<noteq> 0" using u p by auto
    moreover have "rb_size q - rb_count q < of_nat (length xs)" using u full sp lc D(6) by (simp add: word_less_nat_alt)
    ultimately show ?thesis by (simp add: rb_put_def ring_buffer_write_def)
  qed
  show "\<exists>q'. rb_get n q = Some (Inr (take n (rb_content q)), q') \<and> rb_ok q' \<and> rb_content q' = drop n (rb_content q) \<and>
      unat (rb_size q') = unat (rb_size q)"
    if p: "fifo_op_ok (Get n)" and ne: "rb_content q \<noteq> []"
  proof -
    have u: "unat (of_nat n :: u64) = n" using p by (intro unat_of_nat_u64) simp
    let ?m = "min n (unat (rb_count q))"
    have "rb_count q \<noteq> 0" "(of_nat n :: u64) \<noteq> 0" using ne p u by (auto simp: rb_content_def)
    then obtain q' where "ring_buffer_read (Some q) (Some (replicate n 0)) (of_nat n) =
        Some (KERNEL_OK, Some q', Some (take ?m (rb_content q) @ drop ?m (replicate n 0)))"
        "rb_ok q'" "rb_content q' = drop ?m (rb_content q)" "rb_size q' = rb_size q"
      using ring_buffer_read_run [OF ok, of "of_nat n" ?m "replicate n 0"] u by auto
    moreover have "take (unat (rb_count q)) (take ?m (rb_content q) @ drop ?m (replicate n 0)) = take n (rb_content q)"
      using lc by (auto simp: min_def)
    moreover have "drop ?m (rb_content q) = drop n (rb_content q)" using lc by (auto simp: min_def)
    ultimately show ?thesis by (simp add: rb_get_def ring_buffer_available_def)
  qed
  show "rb_get n q = Some (Inl EAGAIN, q)" if p: "fifo_op_ok (Get n)" and e: "rb_content q = []"
  proof -
    have "unat (of_nat n :: u64) = n" using p by (intro unat_of_nat_u64) simp
    then have "(of_nat n :: u64) \<noteq> 0" using p by auto
    moreover have "rb_count q = 0" using e by (simp add: rb_content_def unat_eq_0)
    ultimately show ?thesis by (simp add: rb_get_def ring_buffer_read_def)
  qed
qed

section \<open>Properties\<close>

lemma ring_buffer_init_ok:
  assumes "ring_buffer_init (Some r0) (Some b) n = (KERNEL_OK, Some r)" and "length b = unat n" and "unat n < 2 ^ 63"
  shows "rb_ok r" and "rb_content r = []" and "rb_size r = n"
  using assms by (auto simp: ring_buffer_init_def rb_ok_def rb_content_def word_less_nat_alt unat_gt_0 split: if_splits)

text \<open>
  (C11) A freshly initialised ring buffer is a first-in first-out byte queue: for every sequence of writes and reads, no
  access leaves the buffer, and the bytes accepted are the bytes delivered followed by the bytes still queued, in order.
\<close>

theorem ring_buffer_fifo:
  assumes "ring_buffer_init (Some r0) (Some b) n = (KERNEL_OK, Some r)" and "length b = unat n" and "unat n < 2 ^ 63"
    and "\<And>x. x \<in> set ops \<Longrightarrow> fifo_op_ok x"
  shows "\<exists>acc del r'. fifo_run rb_put rb_get ops r = Some (acc, del, r') \<and> acc = del @ rb_content r' \<and>
    length (rb_content r') \<le> unat n"
proof -
  note i = ring_buffer_init_ok [OF assms(1-3)]
  obtain acc del r' where r: "fifo_run rb_put rb_get ops r = Some (acc, del, r')" "rb_ok r'"
      "unat (rb_size r') = unat (rb_size r)" "rb_content r @ acc = del @ rb_content r'"
    using rbq.fifo_order [OF i(1) assms(4)] by blast
  then show ?thesis using i rbq.bound [OF r(2)] by simp
qed

theorem ring_buffer_fifo_witness:
  "\<exists>acc del r'. fifo_run rb_put rb_get [Put [1, 2, 3], Get 2, Put [4, 5], Get 3]
      \<lparr>rb_buffer = [0, 0, 0, 0], rb_size = 4, rb_head = 0, rb_tail = 0, rb_count = 0\<rparr> = Some (acc, del, r') \<and>
    acc = del @ rb_content r' \<and> length (rb_content r') \<le> unat (4 :: u64)"
  by (rule ring_buffer_fifo [where ?r0.0 = undefined and b = "[0, 0, 0, 0]"]) (auto simp: ring_buffer_init_def)

text \<open>
  A write of \<open>len\<close> bytes into a well-formed ring buffer never copies out of bounds.  It is refused without
  effect when the bytes do not fit, and appends exactly these bytes to the queue otherwise.
\<close>

theorem ring_buffer_write_exact:
  assumes "rb_ok r" and "unat len \<le> length d" and "len \<noteq> 0"
  shows "\<exists>s r'. ring_buffer_write (Some r) (Some d) len = Some (s, Some r') \<and> rb_ok r' \<and>
    (if len \<le> ring_buffer_space (Some r)
     then s = KERNEL_OK \<and> rb_content r' = rb_content r @ take (unat len) d \<and>
       ring_buffer_available (Some r') = ring_buffer_available (Some r) + len
     else s = Err ENOMEM \<and> r' = r)"
proof (cases "len \<le> rb_size r - rb_count r")
  case True
  obtain r' where r': "ring_buffer_write (Some r) (Some d) len = Some (KERNEL_OK, Some r')" "rb_ok r'"
      "rb_content r' = rb_content r @ take (unat len) d" "rb_size r' = rb_size r"
    using ring_buffer_write_run [OF assms True] by blast
  have "length (rb_content r') = length (rb_content r) + unat len" using r'(3) assms(2) by simp
  then have "unat (rb_count r') = unat (rb_count r + len)"
    using write_room(2) [OF assms(1) True] by (simp add: rb_content_def)
  then show ?thesis using True r' by (simp add: ring_buffer_space_def ring_buffer_available_def word_unat_eq_iff)
qed (use assms in \<open>auto simp: ring_buffer_write_def ring_buffer_space_def\<close>)

theorem ring_buffer_write_exact_witness:
  "\<exists>s r'. ring_buffer_write (Some \<lparr>rb_buffer = [1, 2, 3, 4], rb_size = 4, rb_head = 4, rb_tail = 2, rb_count = 2\<rparr>)
      (Some [7, 8]) 2 = Some (s, Some r') \<and> s = KERNEL_OK \<and> rb_content r' = [3, 4, 7, 8]"
proof -
  let ?r = "\<lparr>rb_buffer = [1, 2, 3, 4], rb_size = 4, rb_head = 4, rb_tail = 2, rb_count = 2\<rparr> :: ring_buffer"
  have ok: "rb_ok ?r" by (simp add: rb_ok_def)
  have c: "rb_content ?r = [3, 4]" by (simp add: rb_content_def upt_rec)
  from ring_buffer_write_exact [OF ok, of 2 "[7, 8]"] show ?thesis
    by (simp add: ring_buffer_space_def c) blast
qed

end
