(* ===== verification/Bitmap256.thy ===== *)
theory Bitmap256
  imports Kernel_Prelude
begin

unbundle bit_operations_syntax

text \<open>
  The 256-bit priority bitmap of \<^verbatim>\<open>include/kernel/bitmap.h\<close>: four 64-bit words, read as a set of priorities.  A null bitmap
  pointer is \<open>None\<close>.
\<close>

section \<open>Operations\<close>

record bitmap256 =
  bits :: "nat \<Rightarrow> u64"

text \<open>The compiler builtins: zeros above the highest and below the lowest bit set, and the number of bits set.\<close>

definition builtin_clzll :: "u64 \<Rightarrow> nat" where
  "builtin_clzll x = length (takeWhile (\<lambda>i. \<not> bit x i) (rev [0..<64]))"

definition builtin_ctzll :: "u64 \<Rightarrow> nat" where
  "builtin_ctzll x = length (takeWhile (\<lambda>i. \<not> bit x i) [0..<64])"

definition builtin_popcountll :: "u64 \<Rightarrow> nat" where
  "builtin_popcountll x = length (filter (bit x) [0..<64])"

definition upd_word :: "u32 \<Rightarrow> (u64 \<Rightarrow> u64 \<Rightarrow> u64) \<Rightarrow> bitmap256 \<Rightarrow> bitmap256" where
  "upd_word n f bm = (let w = unat (n div 64); off = unat (n mod 64)
     in bm\<lparr>bits := (bits bm)(w := f (bits bm w) (push_bit off 1))\<rparr>)"

definition bitmap256_clear_all :: "bitmap256 option \<Rightarrow> bitmap256 option" where
  "bitmap256_clear_all bm = (case bm of None \<Rightarrow> None
     | Some b \<Rightarrow> Some (b\<lparr>bits := (bits b)(0 := 0, 1 := 0, 2 := 0, 3 := 0)\<rparr>))"

definition bitmap256_set :: "bitmap256 option \<Rightarrow> u32 \<Rightarrow> bitmap256 option" where
  "bitmap256_set bm n = (case bm of None \<Rightarrow> None
     | Some b \<Rightarrow> if n \<ge> 256 then bm else Some (upd_word n (\<lambda>w m. w OR m) b))"

definition bitmap256_clear :: "bitmap256 option \<Rightarrow> u32 \<Rightarrow> bitmap256 option" where
  "bitmap256_clear bm n = (case bm of None \<Rightarrow> None
     | Some b \<Rightarrow> if n \<ge> 256 then bm else Some (upd_word n (\<lambda>w m. w AND NOT m) b))"

definition bitmap256_test :: "bitmap256 option \<Rightarrow> u32 \<Rightarrow> bool" where
  "bitmap256_test bm n = (case bm of None \<Rightarrow> False
     | Some b \<Rightarrow> n < 256 \<and> bits b (unat (n div 64)) AND push_bit (unat (n mod 64)) 1 \<noteq> 0)"

fun find_highest_from :: "bitmap256 \<Rightarrow> nat \<Rightarrow> u32" where
  "find_highest_from b 0 = 256"
| "find_highest_from b (Suc i) =
     (if bits b i \<noteq> 0 then of_nat i * 64 + 63 - of_nat (builtin_clzll (bits b i)) else find_highest_from b i)"

definition bitmap256_find_highest :: "bitmap256 option \<Rightarrow> u32" where
  "bitmap256_find_highest bm = (case bm of None \<Rightarrow> 256 | Some b \<Rightarrow> find_highest_from b 4)"

fun find_lowest_in :: "bitmap256 \<Rightarrow> nat list \<Rightarrow> u32" where
  "find_lowest_in b [] = 256"
| "find_lowest_in b (i # is) =
     (if bits b i \<noteq> 0 then of_nat i * 64 + of_nat (builtin_ctzll (bits b i)) else find_lowest_in b is)"

definition bitmap256_find_lowest :: "bitmap256 option \<Rightarrow> u32" where
  "bitmap256_find_lowest bm = (case bm of None \<Rightarrow> 256 | Some b \<Rightarrow> find_lowest_in b [0..<4])"

definition bitmap256_empty :: "bitmap256 option \<Rightarrow> bool" where
  "bitmap256_empty bm = (case bm of None \<Rightarrow> True
     | Some b \<Rightarrow> bits b 0 OR bits b 1 OR bits b 2 OR bits b 3 = 0)"

definition bitmap256_count :: "bitmap256 option \<Rightarrow> u32" where
  "bitmap256_count bm = (case bm of None \<Rightarrow> 0
     | Some b \<Rightarrow> of_nat (builtin_popcountll (bits b 0)) + of_nat (builtin_popcountll (bits b 1)) +
         of_nat (builtin_popcountll (bits b 2)) + of_nat (builtin_popcountll (bits b 3)))"

definition bitmap256_merge :: "bitmap256 option \<Rightarrow> bitmap256 option \<Rightarrow> bitmap256 option" where
  "bitmap256_merge dst src = (case (dst, src) of
     (Some d, Some s) \<Rightarrow> Some (d\<lparr>bits := (bits d)(0 := bits d 0 OR bits s 0, 1 := bits d 1 OR bits s 1,
        2 := bits d 2 OR bits s 2, 3 := bits d 3 OR bits s 3)\<rparr>)
   | _ \<Rightarrow> dst)"

section \<open>The set of a bitmap\<close>

definition bm_set :: "bitmap256 \<Rightarrow> nat set" where
  "bm_set b = {n. n < 256 \<and> bit (bits b (n div 64)) (n mod 64)}"

lemma bm_setD: "n \<in> bm_set b \<Longrightarrow> n < 256"
  by (simp add: bm_set_def)

lemma finite_bm_set [simp]: "finite (bm_set b)"
  by (rule finite_subset [of _ "{..<256}"]) (auto dest: bm_setD)

lemma split64: "n < 256 \<longleftrightarrow> n div 64 < 4 \<and> n mod 64 < 64" for n :: nat
  by auto

lemma word64_eq_0: "(w :: u64) = 0 \<longleftrightarrow> (\<forall>i<64. \<not> bit w i)"
  by (auto simp: bit_eq_iff)

lemma bit_push1: "bit (2 ^ k :: u64) i \<longleftrightarrow> i = k \<and> k < 64"
  by (auto simp: bit_exp_iff)

lemma u32_div_mod: "unat ((n :: u32) div 64) = unat n div 64" "unat (n mod 64) = unat n mod 64"
  by (simp_all add: unat_div unat_mod)

lemma bitmap256_set_abs:
  assumes "n < 256"
  shows "\<exists>b'. bitmap256_set (Some b) n = Some b' \<and> bm_set b' = insert (unat n) (bm_set b)"
proof -
  have n: "unat n < 256" using assms by (simp add: word_less_nat_alt)
  let ?b = "upd_word n (\<lambda>w m. w OR m) b"
  have "i \<in> bm_set ?b \<longleftrightarrow> i = unat n \<or> i \<in> bm_set b" for i
  proof -
    have "i mod 64 = unat n mod 64 \<and> i div 64 = unat n div 64 \<longleftrightarrow> i = unat n" by (metis div_mult_mod_eq)
    then show ?thesis
      using n by (auto simp: bm_set_def upd_word_def u32_div_mod bit_or_iff bit_push1 Let_def)
  qed
  then show ?thesis using assms by (auto simp: bitmap256_set_def)
qed

lemma bitmap256_clear_abs:
  assumes "n < 256"
  shows "\<exists>b'. bitmap256_clear (Some b) n = Some b' \<and> bm_set b' = bm_set b - {unat n}"
proof -
  have n: "unat n < 256" using assms by (simp add: word_less_nat_alt)
  let ?b = "upd_word n (\<lambda>w m. w AND NOT m) b"
  have "i \<in> bm_set ?b \<longleftrightarrow> i \<noteq> unat n \<and> i \<in> bm_set b" for i
  proof -
    have "i mod 64 = unat n mod 64 \<and> i div 64 = unat n div 64 \<longleftrightarrow> i = unat n" by (metis div_mult_mod_eq)
    then show ?thesis
      using n by (auto simp: bm_set_def upd_word_def u32_div_mod bit_and_iff bit_not_iff bit_push1 Let_def)
  qed
  then show ?thesis using assms by (auto simp: bitmap256_clear_def)
qed

lemma bitmap256_test_abs: "bitmap256_test (Some b) n \<longleftrightarrow> unat n \<in> bm_set b"
proof -
  have "bits b w AND push_bit k 1 \<noteq> 0 \<longleftrightarrow> bit (bits b w) k" if "k < 64" for w k
    using that by (auto simp: word64_eq_0 bit_and_iff bit_push1)
  then show ?thesis by (auto simp: bitmap256_test_def bm_set_def u32_div_mod word_less_nat_alt)
qed

lemma bitmap256_clear_all_abs: "\<exists>b'. bitmap256_clear_all (Some b) = Some b' \<and> bm_set b' = {}"
proof -
  have "n div 64 = 0 \<or> n div 64 = 1 \<or> n div 64 = 2 \<or> n div 64 = 3" if "n < 256" for n :: nat using that by auto
  then show ?thesis by (auto simp: bitmap256_clear_all_def bm_set_def)
qed

lemma word_highest:
  assumes "(w :: u64) \<noteq> 0"
  shows "builtin_clzll w \<le> 63" and "bit w (63 - builtin_clzll w)" and "\<And>j. 63 - builtin_clzll w < j \<Longrightarrow> \<not> bit w j"
proof -
  let ?xs = "rev [0..<64]" and ?P = "\<lambda>i. \<not> bit w i" and ?n = "builtin_clzll w"
  obtain i where i: "i < 64" "bit w i" using assms by (auto simp: word64_eq_0)
  have n: "?n < 64"
  proof (rule ccontr)
    assume "\<not> ?n < 64"
    then have "takeWhile ?P ?xs = ?xs"
      using takeWhile_eq_take [of ?P ?xs] by (simp add: builtin_clzll_def del: upt_rec_numeral)
    then have "\<forall>x\<in>set ?xs. ?P x" by (simp only: takeWhile_eq_all_conv)
    with i show False by simp
  qed
  then show "?n \<le> 63" by simp
  have nth: "?xs ! k = 63 - k" if "k < 64" for k using that by (simp add: rev_nth del: upt_rec_numeral)
  have "\<not> ?P (?xs ! ?n)"
    using nth_length_takeWhile [of ?P ?xs] n by (simp add: builtin_clzll_def del: upt_rec_numeral)
  then show "bit w (63 - ?n)" using nth [OF n] by simp
  fix j assume j: "63 - ?n < j"
  show "\<not> bit w j"
  proof (cases "j < 64")
    case True
    have k: "63 - j < ?n" using j True by simp
    then have "takeWhile ?P ?xs ! (63 - j) = ?xs ! (63 - j)" unfolding builtin_clzll_def by (rule takeWhile_nth)
    moreover have "takeWhile ?P ?xs ! (63 - j) \<in> set (takeWhile ?P ?xs)" using k unfolding builtin_clzll_def by (rule nth_mem)
    ultimately have "?P (?xs ! (63 - j))" using set_takeWhileD by metis
    then show ?thesis using nth [of "63 - j"] True by simp
  next
    case False
    then show ?thesis using bit_imp_le_length [of w j] by auto
  qed
qed

lemma find_highest_from_abs:
  assumes "k \<le> 4"
  shows "(\<forall>n\<in>bm_set b. 64 * k \<le> n) \<and> find_highest_from b k = 256 \<or>
    (\<exists>m\<in>bm_set b. m < 64 * k \<and> find_highest_from b k = of_nat m \<and> (\<forall>n\<in>bm_set b. n < 64 * k \<longrightarrow> n \<le> m))"
  using assms
proof (induction k)
  case (Suc i)
  have blk: "n \<in> bm_set b \<longleftrightarrow> bit (bits b i) (n - 64 * i)" if "64 * i \<le> n" "n < 64 * Suc i" for n
  proof -
    have "n div 64 = i" using that by (intro div_nat_eqI) auto
    moreover from this have "n mod 64 = n - 64 * i" by (simp add: minus_mult_div_eq_mod [symmetric])
    ultimately show ?thesis using that Suc.prems by (simp add: bm_set_def)
  qed
  show ?case
  proof (cases "bits b i = 0")
    case True
    then have dich: "64 * Suc i \<le> n \<or> n < 64 * i" if "n \<in> bm_set b" for n
      using blk [of n] that by (cases "n < 64 * Suc i"; cases "64 * i \<le> n") simp_all
    have e: "find_highest_from b (Suc i) = find_highest_from b i" using True by simp
    have "i \<le> 4" using Suc.prems by simp
    from Suc.IH [OF this] show ?thesis
    proof (elim disjE conjE bexE)
      assume a: "\<forall>n\<in>bm_set b. 64 * i \<le> n" "find_highest_from b i = 256"
      have "\<forall>n\<in>bm_set b. 64 * Suc i \<le> n" using a(1) dich by (meson not_less)
      then show ?thesis using a(2) e by simp
    next
      fix m assume a: "m \<in> bm_set b" "m < 64 * i" "find_highest_from b i = of_nat m" "\<forall>n\<in>bm_set b. n < 64 * i \<longrightarrow> n \<le> m"
      have "n \<le> m" if "n \<in> bm_set b" "n < 64 * Suc i" for n using a(4) dich [OF that(1)] that by auto
      then show ?thesis using a e by (intro disjI2 bexI [of _ m]) auto
    qed
  next
    case False
    let ?c = "builtin_clzll (bits b i)"
    let ?m = "64 * i + (63 - ?c)"
    note h = word_highest [OF False]
    have "of_nat i * 64 + 63 - of_nat ?c = (of_nat ?m :: u32)" using h(1) by (simp add: of_nat_diff)
    then have "find_highest_from b (Suc i) = of_nat ?m" using False by simp
    moreover have "?m \<in> bm_set b" using blk [of ?m] h(2) by simp
    moreover have "n \<le> ?m" if "n \<in> bm_set b" "n < 64 * Suc i" for n
    proof (cases "64 * i \<le> n")
      case True
      then show ?thesis using blk [OF True that(2)] that(1) h(3) [of "n - 64 * i"] by linarith
    qed auto
    ultimately show ?thesis by (intro disjI2 bexI [of _ ?m]) auto
  qed
qed simp

lemma bitmap256_find_highest_abs:
  "bitmap256_find_highest (Some b) = (if bm_set b = {} then 256 else of_nat (Max (bm_set b)))"
proof -
  have less: "n < 64 * 4" if "n \<in> bm_set b" for n using bm_setD [OF that] by simp
  show ?thesis
  proof (cases "bm_set b = {}")
    case True
    then show ?thesis using find_highest_from_abs [of 4 b] by (auto simp: bitmap256_find_highest_def)
  next
    case False
    then obtain m where m: "m \<in> bm_set b" "find_highest_from b 4 = of_nat m" "\<forall>n\<in>bm_set b. n \<le> m"
    proof -
      have "\<not> (\<forall>n\<in>bm_set b. 64 * 4 \<le> n)" using False less by (meson ex_in_conv not_less)
      then show ?thesis using find_highest_from_abs [of 4 b] less that by blast
    qed
    then have "Max (bm_set b) = m" by (intro Max_eqI) auto
    then show ?thesis using False m(2) by (simp add: bitmap256_find_highest_def)
  qed
qed

lemma bitmap256_find_highest_lt: "bitmap256_find_highest (Some b) < 256 \<longleftrightarrow> bm_set b \<noteq> {}"
    and unat_find_highest: "bm_set b \<noteq> {} \<Longrightarrow> unat (bitmap256_find_highest (Some b)) = Max (bm_set b)"
proof -
  have m: "Max (bm_set b) < 256" if "bm_set b \<noteq> {}" using that bm_setD [OF Max_in] by simp
  then have u: "unat (of_nat (Max (bm_set b)) :: u32) = Max (bm_set b)" if "bm_set b \<noteq> {}"
    using that by (intro unat_of_nat_u32) (auto intro: order.strict_trans)
  show "bitmap256_find_highest (Some b) < 256 \<longleftrightarrow> bm_set b \<noteq> {}"
    using m u by (simp add: bitmap256_find_highest_abs word_less_nat_alt)
  show "unat (bitmap256_find_highest (Some b)) = Max (bm_set b)" if "bm_set b \<noteq> {}"
    using that u by (simp add: bitmap256_find_highest_abs)
qed

lemma bitmap256_empty_abs: "bitmap256_empty (Some b) \<longleftrightarrow> bm_set b = {}"
proof -
  have or0: "v OR w = 0 \<longleftrightarrow> v = 0 \<and> w = 0" for v w :: u64 by (auto simp: word64_eq_0 bit_or_iff)
  have "bm_set b = {} \<longleftrightarrow> (\<forall>i<4. \<forall>j<64. \<not> bit (bits b i) j)"
  proof
    assume e: "bm_set b = {}"
    show "\<forall>i<4. \<forall>j<64. \<not> bit (bits b i) j"
    proof (intro allI impI)
      fix i j :: nat assume "i < 4" "j < 64"
      then show "\<not> bit (bits b i) j" using e by (auto simp: bm_set_def dest: spec [of _ "64 * i + j"])
    qed
  qed (auto simp: bm_set_def)
  moreover have "(\<forall>i<4. \<forall>j<64. \<not> bit (bits b i) j) \<longleftrightarrow> (\<forall>i<4. bits b i = 0)" by (simp add: word64_eq_0)
  moreover have "(\<forall>i<4. bits b i = 0) \<longleftrightarrow> bits b 0 = 0 \<and> bits b 1 = 0 \<and> bits b 2 = 0 \<and> bits b 3 = 0"
    by (auto simp: less_Suc_eq numeral_eq_Suc)
  ultimately show ?thesis by (simp add: bitmap256_empty_def or0)
qed

lemma word_lowest:
  assumes "(w :: u64) \<noteq> 0"
  shows "builtin_ctzll w < 64" and "bit w (builtin_ctzll w)" and "\<And>j. j < builtin_ctzll w \<Longrightarrow> \<not> bit w j"
proof -
  let ?xs = "[0..<64]" and ?P = "\<lambda>i. \<not> bit w i" and ?n = "builtin_ctzll w"
  obtain i where i: "i < 64" "bit w i" using assms by (auto simp: word64_eq_0)
  show n: "?n < 64"
  proof (rule ccontr)
    assume "\<not> ?n < 64"
    then have "takeWhile ?P ?xs = ?xs"
      using takeWhile_eq_take [of ?P ?xs] by (simp add: builtin_ctzll_def del: upt_rec_numeral)
    then have "\<forall>x\<in>set ?xs. ?P x" by (simp only: takeWhile_eq_all_conv)
    with i show False by simp
  qed
  have "\<not> ?P (?xs ! ?n)"
    using nth_length_takeWhile [of ?P ?xs] n by (simp add: builtin_ctzll_def del: upt_rec_numeral)
  then show "bit w ?n" using n by (simp del: upt_rec_numeral)
  fix j assume k: "j < ?n"
  then have "takeWhile ?P ?xs ! j = ?xs ! j" unfolding builtin_ctzll_def by (rule takeWhile_nth)
  moreover have "takeWhile ?P ?xs ! j \<in> set (takeWhile ?P ?xs)" using k unfolding builtin_ctzll_def by (rule nth_mem)
  ultimately have "?P (?xs ! j)" using set_takeWhileD by metis
  then show "\<not> bit w j" using k n by (simp del: upt_rec_numeral)
qed

lemma bm_block:
  assumes "i < 4" and "j < 64"
  shows "64 * i + j \<in> bm_set b \<longleftrightarrow> bit (bits b i) j"
  using assms by (simp add: bm_set_def)

lemma bm_set_blocks:
  assumes "n \<in> bm_set b"
  shows "n = 64 * (n div 64) + n mod 64" "n div 64 < 4" "n mod 64 < 64"
  using bm_setD [OF assms] by auto

lemma find_lowest_in_abs:
  assumes "k \<le> 4" and "\<forall>n\<in>bm_set b. 64 * k \<le> n"
  shows "bm_set b = {} \<and> find_lowest_in b [k..<4] = 256 \<or>
    (\<exists>m\<in>bm_set b. find_lowest_in b [k..<4] = of_nat m \<and> (\<forall>n\<in>bm_set b. m \<le> n))"
  using assms
proof (induction "4 - k" arbitrary: k)
  case 0
  then have "k = 4" by simp
  then have "bm_set b = {}" using 0(3) bm_setD by fastforce
  then show ?case using \<open>k = 4\<close> by simp
next
  case (Suc d)
  then have k: "k < 4" "[k..<4] = k # [Suc k..<4]" by (simp_all add: upt_conv_Cons)
  show ?case
  proof (cases "bits b k = 0")
    case True
    have "64 * Suc k \<le> n" if "n \<in> bm_set b" for n
    proof -
      have "n div 64 \<noteq> k" using True that by (auto simp: bm_set_def)
      moreover have "k \<le> n div 64" using Suc.prems(2) that div_le_mono [of "64 * k" n 64] by auto
      ultimately have "Suc k \<le> n div 64" by simp
      then have "64 * Suc k \<le> 64 * (n div 64)" by (rule mult_le_mono2)
      then show ?thesis using times_div_less_eq_dividend [of 64 n] by (rule order_trans)
    qed
    then show ?thesis using Suc.hyps(1) [of "Suc k"] Suc.hyps(2) k True by simp
  next
    case False
    note l = word_lowest [OF False]
    let ?m = "64 * k + builtin_ctzll (bits b k)"
    have "?m \<le> n" if "n \<in> bm_set b" for n
    proof (cases "n div 64 = k")
      case True
      then have "bit (bits b k) (n mod 64)" using that by (simp add: bm_set_def)
      then have "builtin_ctzll (bits b k) \<le> n mod 64" using l(3) not_le by blast
      then show ?thesis using mult_div_mod_eq [of 64 n, unfolded True] by linarith
    next
      case n: False
      have "k \<le> n div 64" using Suc.prems(2) that div_le_mono [of "64 * k" n 64] by auto
      with n have "Suc k \<le> n div 64" by simp
      then have "64 * Suc k \<le> 64 * (n div 64)" by (rule mult_le_mono2)
      also have "\<dots> \<le> n" by (rule times_div_less_eq_dividend)
      finally show ?thesis using l(1) by simp
    qed
    moreover have "?m \<in> bm_set b" using bm_block [OF k(1) l(1)] l(2) by simp
    ultimately show ?thesis using False k(2) by (intro disjI2 bexI [of _ ?m]) simp_all
  qed
qed

lemma bitmap256_find_lowest_abs:
  "bitmap256_find_lowest (Some b) = (if bm_set b = {} then 256 else of_nat (Min (bm_set b)))"
proof (cases "bm_set b = {}")
  case True
  then show ?thesis using find_lowest_in_abs [of 0 b] by (auto simp: bitmap256_find_lowest_def simp del: upt_rec_numeral)
next
  case False
  then obtain m where m: "m \<in> bm_set b" "find_lowest_in b [0..<4] = of_nat m" "\<forall>n\<in>bm_set b. m \<le> n"
    using find_lowest_in_abs [of 0 b] by auto
  then have "Min (bm_set b) = m" by (intro Min_eqI) auto
  then show ?thesis using False m(2) by (simp add: bitmap256_find_lowest_def del: upt_rec_numeral)
qed

lemma bm_set_union: "bm_set b = (\<Union>i<4. (\<lambda>j. 64 * i + j) ` {j. j < 64 \<and> bit (bits b i) j})"
proof (intro equalityI subsetI)
  fix n assume n: "n \<in> bm_set b"
  then show "n \<in> (\<Union>i<4. (\<lambda>j. 64 * i + j) ` {j. j < 64 \<and> bit (bits b i) j})"
    using bm_set_blocks [OF n] by (intro UN_I [of "n div 64"] image_eqI [of _ _ "n mod 64"]) (auto simp: bm_set_def)
qed (auto simp: bm_set_def)

lemma bitmap256_count_abs: "bitmap256_count (Some b) = of_nat (card (bm_set b))"
proof -
  let ?B = "\<lambda>i. (\<lambda>j. 64 * i + j) ` {j. j < 64 \<and> bit (bits b i) j}"
  have p: "card (?B i) = builtin_popcountll (bits b i)" for i
  proof -
    have "card (?B i) = card {j. j < 64 \<and> bit (bits b i) j}" by (intro card_image) (simp add: inj_on_def)
    also have "{j. j < 64 \<and> bit (bits b i) j} = set (filter (bit (bits b i)) [0..<64])" by auto
    finally show ?thesis using distinct_card [of "filter (bit (bits b i)) [0..<64]"] by (simp add: builtin_popcountll_def)
  qed
  have dv: "x div 64 = i" if "x \<in> ?B i" for x i using that by auto
  have "\<forall>i\<in>{..<4}. \<forall>j\<in>{..<4}. i \<noteq> j \<longrightarrow> ?B i \<inter> ?B j = {}"
  proof (intro ballI impI equals0I)
    fix i j x assume "i \<noteq> j" "x \<in> ?B i \<inter> ?B j"
    then show False using dv [of x i] dv [of x j] by simp
  qed
  then have "card (bm_set b) = (\<Sum>i<4. card (?B i))"
    unfolding bm_set_union by (intro card_UN_disjoint) simp_all
  then show ?thesis by (simp add: p bitmap256_count_def lessThan_nat_numeral lessThan_Suc)
qed

lemma bitmap256_merge_abs:
  "\<exists>d'. bitmap256_merge (Some d) (Some s) = Some d' \<and> bm_set d' = bm_set d \<union> bm_set s"
proof -
  have "n div 64 = 0 \<or> n div 64 = 1 \<or> n div 64 = 2 \<or> n div 64 = 3" if "n < 256" for n :: nat using that by auto
  then show ?thesis by (auto simp: bitmap256_merge_def bm_set_def bit_or_iff)
qed

lemma prio_u32 [simp]: "(ucast (p :: u8) :: u32) < 256" "unat (ucast p :: u32) = unat p"
proof -
  have "unat p < 256" using unsigned_less [of p] by simp
  then show u: "unat (ucast p :: u32) = unat p" by (simp add: unsigned_ucast_eq take_bit_eq_mod)
  have "unat p < 256" using unsigned_less [of p] by simp
  then show "(ucast p :: u32) < 256" using u by (simp add: word_less_nat_alt)
qed

text \<open>
  (C12) The bitmap implements a set of priorities: setting, clearing and testing a priority, the searches for the highest and
  the lowest one, the emptiness test, the count and the merge are insertion, removal, membership,
  maximum, minimum, emptiness, cardinality and union of the set of bits.
\<close>

theorem bitmap256_refines_set:
  "(\<exists>b'. bitmap256_set (Some b) (ucast (p :: u8)) = Some b' \<and> bm_set b' = insert (unat p) (bm_set b)) \<and>
   (\<exists>b'. bitmap256_clear (Some b) (ucast p) = Some b' \<and> bm_set b' = bm_set b - {unat p}) \<and>
   bitmap256_test (Some b) (ucast p) = (unat p \<in> bm_set b) \<and>
   bitmap256_find_highest (Some b) = (if bm_set b = {} then 256 else of_nat (Max (bm_set b))) \<and>
   bitmap256_find_lowest (Some b) = (if bm_set b = {} then 256 else of_nat (Min (bm_set b))) \<and>
   bitmap256_empty (Some b) = (bm_set b = {}) \<and>
   bitmap256_count (Some b) = of_nat (card (bm_set b)) \<and>
   (\<exists>b'. bitmap256_merge (Some b) (Some c) = Some b' \<and> bm_set b' = bm_set b \<union> bm_set c)"
  using bitmap256_set_abs [of "ucast p" b] bitmap256_clear_abs [of "ucast p" b] bitmap256_merge_abs [of b c]
  by (simp add: bitmap256_test_abs bitmap256_find_highest_abs bitmap256_find_lowest_abs bitmap256_empty_abs
      bitmap256_count_abs)

end
