(* ===== verification/Sched.thy ===== *)
theory Sched
  imports Kernel_List Bitmap256 "HOL-Library.Monad_Syntax"
begin

text \<open>
  The scheduler: \<^verbatim>\<open>kernel/sched/scheduler.c\<close>, \<^verbatim>\<open>sched_class.c\<close>, \<^verbatim>\<open>sched_rr.c\<close> and \<^verbatim>\<open>thread.c\<close>.

  A thread pointer is an index of the thread table, a scheduling-class pointer a number (0 is \<^verbatim>\<open>sched_rr\<close>, the only
  class of the kernel).  All list nodes share one heap over \<open>sched_node\<close>: the ready-queue heads, the three nodes inside a
  thread control block, and the wait-queue heads of other components.  The answer of \<^verbatim>\<open>hal_get_cpu_id\<close> is the argument
  \<open>cpu\<close>.  \<open>None\<close> is undefined behaviour (a null or foreign pointer followed) or a loop that does not end.

  A call of \<^verbatim>\<open>schedule\<close> is followed up to the context switch; what the switched-out thread does when it runs again
  is a definition of its own in the components that block.
\<close>

section \<open>Data\<close>

abbreviation CONFIG_MAX_CPUS :: nat where "CONFIG_MAX_CPUS \<equiv> 8"
abbreviation MAX_THREADS :: nat where "MAX_THREADS \<equiv> 256"
abbreviation THREAD_ID_INVALID :: u32 where "THREAD_ID_INVALID \<equiv> 0xFFFFFFFF"
abbreviation PRIORITY_MIN :: u8 where "PRIORITY_MIN \<equiv> 0"

datatype kthread_state =
    KTHREAD_STATE_DEAD | KTHREAD_STATE_READY | KTHREAD_STATE_RUNNING | KTHREAD_STATE_BLOCKED
  | KTHREAD_STATE_SLEEPING | KTHREAD_STATE_SUSPENDED

datatype kthread_policy = KTHREAD_POLICY_FIFO | KTHREAD_POLICY_RR

datatype sched_node = ReadyQ nat u8 | RqList nat | EdfNode nat | SleepNode nat | WaitQ nat | SleepQ nat

record kthread =
  tid :: u32
  pid :: u32
  state :: kthread_state
  entry :: u64
  entry_arg :: u64
  stack_base :: u64
  stack_size :: u32
  prio :: u8
  policy :: kthread_policy
  time_slice :: u32
  time_slice_reload :: u32
  affinity_mask :: u32
  sched_class :: "nat option"
  wakeup_tick :: u64
  kname :: string

record cpu_queue =
  bitmap :: bitmap256
  nr_running :: u32
  current_thread :: "nat option"
  idle_thread :: "nat option"
  need_resched :: u32

record sched =
  cpu_queues :: "nat \<Rightarrow> cpu_queue"
  thread_table :: "nat \<Rightarrow> kthread"
  slinks :: "sched_node heap"
  preempt_count :: "nat \<Rightarrow> u32"
  initialized :: bool
  class_priority :: "nat \<Rightarrow> int"
  class_next :: "nat \<Rightarrow> nat option"
  s_sched_class_head :: "nat option"
  s_default_sched_class :: "nat option"
  s_heap_ptr :: u64
  stack_slab_ready :: bool
  s_schedule_count :: "nat \<Rightarrow> u64"
  lb_interval :: "nat \<Rightarrow> u32"
  lb_pending :: "nat \<Rightarrow> u32"

abbreviation cpu_q :: "sched \<Rightarrow> nat \<Rightarrow> cpu_queue" where
  "cpu_q s cpu \<equiv> cpu_queues s cpu"

abbreviation thr :: "sched \<Rightarrow> nat \<Rightarrow> kthread" where
  "thr s t \<equiv> thread_table s t"

definition upd_cpu :: "nat \<Rightarrow> (cpu_queue \<Rightarrow> cpu_queue) \<Rightarrow> sched \<Rightarrow> sched" where
  "upd_cpu cpu f s = s\<lparr>cpu_queues := (cpu_queues s)(cpu := f (cpu_queues s cpu))\<rparr>"

definition upd_thr :: "nat \<Rightarrow> (kthread \<Rightarrow> kthread) \<Rightarrow> sched \<Rightarrow> sched" where
  "upd_thr t f s = s\<lparr>thread_table := (thread_table s)(t := f (thread_table s t))\<rparr>"

definition upd_slinks :: "(sched_node heap \<Rightarrow> sched_node heap) \<Rightarrow> sched \<Rightarrow> sched" where
  "upd_slinks f s = s\<lparr>slinks := f (slinks s)\<rparr>"

section \<open>Ready queues\<close>

definition upd_bitmap :: "nat \<Rightarrow> (bitmap256 option \<Rightarrow> bitmap256 option) \<Rightarrow> sched \<Rightarrow> sched" where
  "upd_bitmap cpu f = upd_cpu cpu (\<lambda>q. q\<lparr>bitmap := the (f (Some (bitmap q)))\<rparr>)"

definition sched_dequeue_locked :: "nat \<Rightarrow> nat \<Rightarrow> sched \<Rightarrow> sched" where
  "sched_dequeue_locked cpu t s =
     (let s1 = upd_slinks (list_del_init (Some (RqList t))) s;
          p = prio (thr s1 t);
          s2 = (if list_empty (Some (ReadyQ cpu p)) (slinks s1)
                then upd_bitmap cpu (\<lambda>b. bitmap256_clear b (ucast p)) s1 else s1)
      in upd_cpu cpu (\<lambda>q. q\<lparr>nr_running := (if nr_running q > 0 then nr_running q - 1 else nr_running q)\<rparr>) s2)"

definition sched_enqueue_locked :: "nat \<Rightarrow> nat \<Rightarrow> sched \<Rightarrow> sched" where
  "sched_enqueue_locked cpu t s =
     (let p = prio (thr s t);
          s1 = upd_bitmap cpu (\<lambda>b. bitmap256_set b (ucast p)) s;
          s2 = upd_slinks (list_add_tail (Some (RqList t)) (Some (ReadyQ cpu p))) s1
      in upd_cpu cpu (\<lambda>q. q\<lparr>nr_running := nr_running q + 1\<rparr>) s2)"

definition scheduler_enqueue :: "nat \<Rightarrow> nat option \<Rightarrow> sched \<Rightarrow> sched" where
  "scheduler_enqueue cpu thread s = (case thread of None \<Rightarrow> s | Some t \<Rightarrow> sched_enqueue_locked cpu t s)"

definition scheduler_dequeue :: "nat \<Rightarrow> nat option \<Rightarrow> sched \<Rightarrow> sched" where
  "scheduler_dequeue cpu thread s = (case thread of None \<Rightarrow> s | Some t \<Rightarrow> sched_dequeue_locked cpu t s)"

text \<open>\<^verbatim>\<open>list_first_entry\<close> on a ready queue: on an empty ring the address is not that of a thread.\<close>

definition first_ready :: "nat \<Rightarrow> u8 \<Rightarrow> sched \<Rightarrow> nat option" where
  "first_ready cpu p s = (case lh_next (slinks s (ReadyQ cpu p)) of Some (RqList t) \<Rightarrow> Some t | _ \<Rightarrow> None)"

definition scheduler_pick_next_locked :: "nat \<Rightarrow> sched \<Rightarrow> nat option option" where
  "scheduler_pick_next_locked cpu s =
     (let highest_prio = bitmap256_find_highest (Some (bitmap (cpu_q s cpu)))
      in if highest_prio < 256 then map_option Some (first_ready cpu (ucast highest_prio) s) else Some None)"

definition scheduler_pick_next :: "nat \<Rightarrow> sched \<Rightarrow> nat option option" where
  "scheduler_pick_next cpu s = do {
     next \<leftarrow> scheduler_pick_next_locked cpu s;
     Some (case next of None \<Rightarrow> idle_thread (cpu_q s cpu) | Some t \<Rightarrow> Some t)
   }"

definition scheduler_load_current :: "nat \<Rightarrow> nat option \<Rightarrow> sched \<Rightarrow> sched" where
  "scheduler_load_current cpu thread s = (case thread of None \<Rightarrow> s
     | Some t \<Rightarrow> upd_thr t (\<lambda>k. k\<lparr>state := KTHREAD_STATE_RUNNING\<rparr>)
                  (upd_cpu cpu (\<lambda>q. q\<lparr>current_thread := Some t\<rparr>) s))"

definition scheduler_set_need_resched :: "nat \<Rightarrow> sched \<Rightarrow> sched" where
  "scheduler_set_need_resched cpu = upd_cpu cpu (\<lambda>q. q\<lparr>need_resched := 1\<rparr>)"

definition scheduler_test_and_clear_need_resched :: "nat \<Rightarrow> sched \<Rightarrow> u32 \<times> sched" where
  "scheduler_test_and_clear_need_resched cpu s =
     (let flag = need_resched (cpu_q s cpu)
      in (flag, if flag \<noteq> 0 then upd_cpu cpu (\<lambda>q. q\<lparr>need_resched := 0\<rparr>) s else s))"

definition kthread_get_current :: "nat \<Rightarrow> sched \<Rightarrow> nat option" where
  "kthread_get_current cpu s = (if cpu < CONFIG_MAX_CPUS then current_thread (cpu_q s cpu) else None)"

definition kthread_get_current_tid :: "nat \<Rightarrow> sched \<Rightarrow> u32" where
  "kthread_get_current_tid cpu s = (case kthread_get_current cpu s of
     Some t \<Rightarrow> tid (thr s t) | None \<Rightarrow> THREAD_ID_INVALID)"

section \<open>Scheduling classes\<close>

text \<open>The position of a class in the list, kept in descending priority: the nodes before and after it.\<close>

partial_function (option) class_position ::
  "int \<Rightarrow> nat option \<Rightarrow> nat option \<Rightarrow> sched \<Rightarrow> (nat option \<times> nat option) option" where
  "class_position p prev cur s =
     (case cur of
        None \<Rightarrow> Some (prev, None)
      | Some c \<Rightarrow> if class_priority s c \<ge> p then class_position p cur (class_next s c) s else Some (prev, cur))"

declare class_position.simps [code]

definition sched_class_register :: "nat option \<Rightarrow> sched \<Rightarrow> sched option" where
  "sched_class_register cls s =
     (case cls of
        None \<Rightarrow> Some s
      | Some c \<Rightarrow>
          if class_next s c \<noteq> None then Some s
          else do {
            (prev, cur) \<leftarrow> class_position (class_priority s c) None (s_sched_class_head s) s;
            let s1 = s\<lparr>class_next := (class_next s)(c := cur)\<rparr>;
            Some (case prev of
                None \<Rightarrow> s1\<lparr>s_sched_class_head := Some c\<rparr>
              | Some q \<Rightarrow> s1\<lparr>class_next := (class_next s1)(q := Some c)\<rparr>)
          })"

definition sched_class_set_default :: "nat option \<Rightarrow> sched \<Rightarrow> sched" where
  "sched_class_set_default cls s = s\<lparr>s_default_sched_class := cls\<rparr>"

abbreviation sched_rr :: nat where "sched_rr \<equiv> 0"

definition sched_rr_init :: "sched \<Rightarrow> sched option" where
  "sched_rr_init s = map_option (sched_class_set_default (Some sched_rr)) (sched_class_register (Some sched_rr) s)"

definition sched_rr_tick :: "nat \<Rightarrow> nat option \<Rightarrow> sched \<Rightarrow> sched" where
  "sched_rr_tick cpu thread s =
     (case thread of
        None \<Rightarrow> s
      | Some t \<Rightarrow>
          if policy (thr s t) = KTHREAD_POLICY_RR \<and> time_slice (thr s t) > 0 then
            (let s1 = upd_thr t (\<lambda>k. k\<lparr>time_slice := time_slice k - 1\<rparr>) s
             in if time_slice (thr s1 t) = 0
                then scheduler_set_need_resched cpu (upd_thr t (\<lambda>k. k\<lparr>time_slice := time_slice_reload k\<rparr>) s1)
                else s1)
          else s)"

text \<open>The methods of a class; only \<^verbatim>\<open>sched_rr\<close> exists.\<close>

definition class_of :: "nat \<Rightarrow> sched \<Rightarrow> nat option" where
  "class_of t s = (case sched_class (thr s t) of None \<Rightarrow> s_default_sched_class s | Some c \<Rightarrow> Some c)"

definition sched_class_enqueue :: "nat \<Rightarrow> nat option \<Rightarrow> sched \<Rightarrow> sched option" where
  "sched_class_enqueue cpu thread s =
     (case thread of None \<Rightarrow> Some s | Some t \<Rightarrow>
       (case class_of t s of None \<Rightarrow> Some s
        | Some c \<Rightarrow> if c = sched_rr then Some (scheduler_enqueue cpu thread s) else None))"

definition sched_class_dequeue :: "nat \<Rightarrow> nat option \<Rightarrow> sched \<Rightarrow> sched option" where
  "sched_class_dequeue cpu thread s =
     (case thread of None \<Rightarrow> Some s | Some t \<Rightarrow>
       (case class_of t s of None \<Rightarrow> Some s
        | Some c \<Rightarrow> if c = sched_rr then Some (scheduler_dequeue cpu thread s) else None))"

definition sched_class_tick :: "nat \<Rightarrow> nat option \<Rightarrow> sched \<Rightarrow> sched option" where
  "sched_class_tick cpu thread s =
     (case thread of None \<Rightarrow> Some s | Some t \<Rightarrow>
       (case class_of t s of None \<Rightarrow> Some s
        | Some c \<Rightarrow> if c = sched_rr then Some (sched_rr_tick cpu thread s) else None))"

partial_function (option) class_pick_loop :: "nat \<Rightarrow> nat option \<Rightarrow> sched \<Rightarrow> nat option option" where
  "class_pick_loop cpu cur s =
     (case cur of
        None \<Rightarrow> Some None
      | Some c \<Rightarrow>
          if c = sched_rr then
            Option.bind (scheduler_pick_next_locked cpu s)
              (\<lambda>next. if next \<noteq> None then Some next else class_pick_loop cpu (class_next s c) s)
          else None)"

declare class_pick_loop.simps [code]

definition sched_class_pick_next :: "nat \<Rightarrow> sched \<Rightarrow> nat option option" where
  "sched_class_pick_next cpu s = class_pick_loop cpu (s_sched_class_head s) s"

section \<open>Scheduling\<close>

text \<open>
  \<open>guard_bad t\<close> is whether the stack canary of thread \<open>t\<close> is enabled and found overwritten.  The check comes after
  the current thread has been replaced; \<^verbatim>\<open>kthread_exit\<close> then ends the thread that is current at that moment
  and schedules again.
\<close>

definition switch_to :: "nat \<Rightarrow> nat option \<Rightarrow> nat \<Rightarrow> sched \<Rightarrow> sched" where
  "switch_to cpu prev t s =
     (let s1 = (case prev of
            Some p \<Rightarrow> if state (thr s p) = KTHREAD_STATE_RUNNING
                      then sched_enqueue_locked cpu p (upd_thr p (\<lambda>k. k\<lparr>state := KTHREAD_STATE_READY\<rparr>) s) else s
          | None \<Rightarrow> s)
      in upd_thr t (\<lambda>k. k\<lparr>state := KTHREAD_STATE_RUNNING\<rparr>)
           (upd_cpu cpu (\<lambda>q. q\<lparr>current_thread := Some t\<rparr>) s1))"

partial_function (option) schedule :: "(nat \<Rightarrow> bool) \<Rightarrow> nat \<Rightarrow> sched \<Rightarrow> sched option" where
  "schedule guard_bad cpu s =
     Option.bind (sched_class_pick_next cpu s) (\<lambda>picked.
       (let prev = current_thread (cpu_q s cpu);
            next = (case picked of None \<Rightarrow> idle_thread (cpu_q s cpu) | Some t \<Rightarrow> Some t)
        in case next of
             None \<Rightarrow> Some s
           | Some t \<Rightarrow>
              (let s1 = (if state (thr s t) = KTHREAD_STATE_READY then sched_dequeue_locked cpu t s else s)
               in if prev = Some t then Some s1
                  else (let s2 = switch_to cpu prev t s1
                        in case prev of
                             None \<Rightarrow> None
                           | Some p \<Rightarrow>
                               if guard_bad p
                               then schedule guard_bad cpu (upd_thr t (\<lambda>k. k\<lparr>state := KTHREAD_STATE_DEAD\<rparr>) s2)
                               else Some s2))))"

declare schedule.simps [code]

definition kthread_exit :: "(nat \<Rightarrow> bool) \<Rightarrow> nat \<Rightarrow> sched \<Rightarrow> sched option" where
  "kthread_exit guard_bad cpu s = (case current_thread (cpu_q s cpu) of
     None \<Rightarrow> None
   | Some t \<Rightarrow> schedule guard_bad cpu (upd_thr t (\<lambda>k. k\<lparr>state := KTHREAD_STATE_DEAD\<rparr>) s))"


section \<open>Preemption and ticks\<close>

text \<open>\<^verbatim>\<open>smp_get_percpu\<close> falls back to the data of CPU 0 for a number out of range.\<close>

definition percpu_ix :: "nat \<Rightarrow> nat" where
  "percpu_ix cpu = (if cpu < CONFIG_MAX_CPUS then cpu else 0)"

definition preempt_disable :: "nat \<Rightarrow> sched \<Rightarrow> sched" where
  "preempt_disable cpu s = s\<lparr>preempt_count := (preempt_count s)(percpu_ix cpu := preempt_count s (percpu_ix cpu) + 1)\<rparr>"

definition preempt_enable :: "(nat \<Rightarrow> bool) \<Rightarrow> nat \<Rightarrow> sched \<Rightarrow> sched option" where
  "preempt_enable guard_bad cpu s =
     (let n = preempt_count s (percpu_ix cpu);
          s1 = (if n > 0 then s\<lparr>preempt_count := (preempt_count s)(percpu_ix cpu := n - 1)\<rparr> else s)
      in if preempt_count s1 (percpu_ix cpu) = 0
         then (let (flag, s2) = scheduler_test_and_clear_need_resched cpu s1
               in if flag \<noteq> 0 then schedule guard_bad cpu s2 else Some s2)
         else Some s1)"

definition preempt_is_disabled :: "nat \<Rightarrow> sched \<Rightarrow> bool" where
  "preempt_is_disabled cpu s \<longleftrightarrow> preempt_count s (percpu_ix cpu) > 0"

definition scheduler_irq_exit_check :: "(nat \<Rightarrow> bool) \<Rightarrow> nat \<Rightarrow> sched \<Rightarrow> sched option" where
  "scheduler_irq_exit_check guard_bad cpu s =
     (if preempt_is_disabled cpu s then Some s
      else (let (flag, s1) = scheduler_test_and_clear_need_resched cpu s
            in if flag \<noteq> 0 then schedule guard_bad cpu s1 else Some s1))"

definition smp_tick_check_balance :: "nat \<Rightarrow> sched \<Rightarrow> sched option" where
  "smp_tick_check_balance cpu s =
     (if cpu \<ge> CONFIG_MAX_CPUS then Some s
      else (let s1 = s\<lparr>s_schedule_count := (s_schedule_count s)(cpu := s_schedule_count s cpu + 1)\<rparr>
            in if lb_interval s1 cpu = 0 then None
               else Some (if s_schedule_count s1 cpu mod ucast (lb_interval s1 cpu) = 0
                          then s1\<lparr>lb_pending := (lb_pending s1)(cpu := 1)\<rparr> else s1)))"

definition scheduler_tick :: "nat \<Rightarrow> sched \<Rightarrow> sched option" where
  "scheduler_tick cpu s =
     (case current_thread (cpu_q s cpu) of
        None \<Rightarrow> Some s
      | Some cur \<Rightarrow> do {
          s1 \<leftarrow> sched_class_tick cpu (Some cur) s;
          if need_resched (cpu_q s1 cpu) \<noteq> 0 then Some s1
          else do {
            next \<leftarrow> scheduler_pick_next cpu s1;
            smp_tick_check_balance cpu
              (case next of
                 None \<Rightarrow> s1
               | Some t \<Rightarrow> if t \<noteq> cur \<and> prio (thr s1 t) > prio (thr s1 cur) then scheduler_set_need_resched cpu s1 else s1)
          }
        })"

text \<open>
  The start of the first thread of a CPU; \<open>None\<close> also stands for the idle loop without any thread.  A secondary CPU
  looks for its idle thread a second time.
\<close>

definition start_first :: "nat \<Rightarrow> nat \<Rightarrow> sched \<Rightarrow> sched" where
  "start_first cpu t s = scheduler_load_current cpu (Some t)
     (if state (thr s t) = KTHREAD_STATE_READY then scheduler_dequeue cpu (Some t) s else s)"

definition scheduler_start :: "nat \<Rightarrow> sched \<Rightarrow> sched option" where
  "scheduler_start cpu s = do {
     first \<leftarrow> scheduler_pick_next cpu s;
     case first of None \<Rightarrow> None | Some t \<Rightarrow> Some (start_first cpu t s)
   }"

definition scheduler_start_secondary :: "nat \<Rightarrow> sched \<Rightarrow> sched option" where
  "scheduler_start_secondary cpu s = do {
     first \<leftarrow> scheduler_pick_next cpu s;
     case (case first of None \<Rightarrow> idle_thread (cpu_q s cpu) | Some t \<Rightarrow> Some t) of
       None \<Rightarrow> None
     | Some t \<Rightarrow> Some (start_first cpu t s)
   }"

section \<open>Stacks\<close>

text \<open>The bump allocator for stacks; the bounds of the heap come from the linker script.\<close>

definition stack_alloc :: "u64 \<Rightarrow> u64 \<Rightarrow> u32 \<Rightarrow> sched \<Rightarrow> u64 \<times> sched" where
  "stack_alloc heap_start heap_end sz s =
     (let s1 = (if s_heap_ptr s = 0 then s\<lparr>s_heap_ptr := heap_start\<rparr> else s);
          new_ptr = (s_heap_ptr s1 + ucast sz + 15) AND NOT 15
      in if new_ptr > heap_end then (0, s1) else (new_ptr, s1\<lparr>s_heap_ptr := new_ptr\<rparr>))"

definition select_stack_cache :: "u32 \<Rightarrow> errno + nat" where
  "select_stack_cache sz = (if sz \<le> 4096 then Inr 0 else if sz \<le> 8192 then Inr 1
     else if sz \<le> 16384 then Inr 2 else Inl EINVAL)"

text \<open>\<open>slab_new c\<close> is the answer of \<^verbatim>\<open>slab_alloc\<close> on cache \<open>c\<close>, 0 for no memory.\<close>

definition stack_alloc_slab :: "(nat \<Rightarrow> u64) \<Rightarrow> u64 \<Rightarrow> u64 \<Rightarrow> u32 \<Rightarrow> sched \<Rightarrow> u64 \<times> sched" where
  "stack_alloc_slab slab_new heap_start heap_end sz s =
     (if \<not> stack_slab_ready s then (0, s)
      else case select_stack_cache sz of
          Inl _ \<Rightarrow> stack_alloc heap_start heap_end sz s
        | Inr c \<Rightarrow> if slab_new c = 0 then (0, s) else (slab_new c + ucast sz, s))"

definition stack_alloc_by_scheduler :: "(nat \<Rightarrow> u64) \<Rightarrow> u64 \<Rightarrow> u64 \<Rightarrow> u32 \<Rightarrow> sched \<Rightarrow> u64 \<times> sched" where
  "stack_alloc_by_scheduler slab_new heap_start heap_end sz s =
     (case stack_alloc_slab slab_new heap_start heap_end sz s of
        (stk_top, s1) \<Rightarrow> if stk_top \<noteq> 0 then (stk_top, s1) else stack_alloc heap_start heap_end sz s1)"

text \<open>The cache and the address handed to \<^verbatim>\<open>slab_free\<close>, if it is called.\<close>

definition stack_free_slab :: "u64 \<Rightarrow> u32 \<Rightarrow> sched \<Rightarrow> (nat \<times> u64) list" where
  "stack_free_slab base sz s =
     (if \<not> stack_slab_ready s then []
      else case select_stack_cache sz of Inl _ \<Rightarrow> [] | Inr c \<Rightarrow> [(c, base)])"

section \<open>Threads\<close>

definition alloc_thread_id :: "(nat \<Rightarrow> bool) \<Rightarrow> nat \<Rightarrow> sched \<Rightarrow> (u32 \<times> sched) option" where
  "alloc_thread_id guard_bad cpu s =
     (let s1 = preempt_disable cpu s
      in case find (\<lambda>t. state (thr s1 t) = KTHREAD_STATE_DEAD) [0..<MAX_THREADS] of
           Some t \<Rightarrow> map_option (Pair (of_nat t))
             (preempt_enable guard_bad cpu (upd_thr t (\<lambda>k. k\<lparr>state := KTHREAD_STATE_READY\<rparr>) s1))
         | None \<Rightarrow> map_option (Pair THREAD_ID_INVALID) (preempt_enable guard_bad cpu s1))"

definition get_thread_by_id :: "u32 \<Rightarrow> nat option" where
  "get_thread_by_id t = (if t \<ge> 256 then None else Some (unat t))"

text \<open>A name is cut after fifteen characters or at its terminator.\<close>

definition copy_thread_name :: "string \<Rightarrow> string" where
  "copy_thread_name src = take 15 (takeWhile (\<lambda>c. c \<noteq> CHR 0x00) src)"

definition clamp_stack_size :: "u32 \<Rightarrow> u32" where
  "clamp_stack_size n =
     (let n1 = (if n < 4096 then 4096 else n);
          n2 = (if n1 > 65536 then 65536 else n1)
      in (n2 + 15) AND NOT 15)"

definition init_links :: "nat \<Rightarrow> sched_node heap \<Rightarrow> sched_node heap" where
  "init_links t h = INIT_LIST_HEAD (Some (SleepNode t)) (INIT_LIST_HEAD (Some (EdfNode t)) (INIT_LIST_HEAD (Some (RqList t)) h))"

text \<open>The control block of a new thread.  Registers, address space and stack canary are not part of the model.\<close>

definition fill_thread :: "u32 \<Rightarrow> string \<Rightarrow> u64 \<Rightarrow> u64 \<Rightarrow> u8 \<Rightarrow> kthread_policy \<Rightarrow> u32 \<Rightarrow> u64 \<Rightarrow> sched \<Rightarrow> sched" where
  "fill_thread t nm en arg pr pol sz stk_top s =
     (let slice = (if pol = KTHREAD_POLICY_RR then 10 else 0)
      in upd_slinks (init_links (unat t))
           (upd_thr (unat t) (\<lambda>k. k\<lparr>tid := t, pid := 0, entry := en, entry_arg := arg, stack_base := stk_top - ucast sz,
              stack_size := sz, prio := pr, policy := pol, time_slice := slice, time_slice_reload := slice,
              affinity_mask := 0, sched_class := None, wakeup_tick := 0, kname := copy_thread_name nm\<rparr>) s))"

definition kthread_create ::
  "(nat \<Rightarrow> bool) \<Rightarrow> (nat \<Rightarrow> u64) \<Rightarrow> u64 \<Rightarrow> u64 \<Rightarrow> nat \<Rightarrow> string option \<Rightarrow> u64 \<Rightarrow> u64 \<Rightarrow> u8 \<Rightarrow>
   kthread_policy \<Rightarrow> u32 \<Rightarrow> sched \<Rightarrow> (u32 \<times> sched) option" where
  "kthread_create guard_bad slab_new heap_start heap_end cpu name en arg pr pol stack_sz s =
     (case name of
        None \<Rightarrow> Some (THREAD_ID_INVALID, s)
      | Some nm \<Rightarrow>
          if en = 0 then Some (THREAD_ID_INVALID, s)
          else do {
            let sz = clamp_stack_size stack_sz;
            (t, s1) \<leftarrow> alloc_thread_id guard_bad cpu s;
            if t = THREAD_ID_INVALID then Some (THREAD_ID_INVALID, s1)
            else (case stack_alloc_by_scheduler slab_new heap_start heap_end sz s1 of
                    (stk_top, s2) \<Rightarrow>
                      if stk_top = 0 then Some (THREAD_ID_INVALID, s2)
                      else Some (t, scheduler_enqueue cpu (Some (unat t)) (fill_thread t nm en arg pr pol sz stk_top s2)))
          })"

definition cleanup_dead_stack :: "nat \<Rightarrow> (nat \<times> u64) list \<times> sched \<Rightarrow> (nat \<times> u64) list \<times> sched" where
  "cleanup_dead_stack t = (\<lambda>(freed, s).
     if state (thr s t) = KTHREAD_STATE_DEAD \<and> stack_base (thr s t) \<noteq> 0
     then (freed @ stack_free_slab (stack_base (thr s t)) (stack_size (thr s t)) s,
           upd_thr t (\<lambda>k. k\<lparr>stack_base := 0, stack_size := 0\<rparr>) s)
     else (freed, s))"

definition kthread_cleanup_dead_stacks :: "sched \<Rightarrow> (nat \<times> u64) list \<times> sched" where
  "kthread_cleanup_dead_stacks s = fold cleanup_dead_stack [0..<MAX_THREADS] ([], s)"

definition kthread_suspend :: "nat \<Rightarrow> u32 \<Rightarrow> sched \<Rightarrow> status \<times> sched" where
  "kthread_suspend cpu i s =
     (case get_thread_by_id i of
        None \<Rightarrow> (Err ESRCH, s)
      | Some t \<Rightarrow>
          if state (thr s t) = KTHREAD_STATE_READY
          then (KERNEL_OK, upd_thr t (\<lambda>k. k\<lparr>state := KTHREAD_STATE_SUSPENDED\<rparr>) (scheduler_dequeue cpu (Some t) s))
          else (Err EINVAL, s))"

definition kthread_resume :: "(nat \<Rightarrow> bool) \<Rightarrow> nat \<Rightarrow> u32 \<Rightarrow> sched \<Rightarrow> (status \<times> sched) option" where
  "kthread_resume guard_bad cpu i s =
     (case get_thread_by_id i of
        None \<Rightarrow> Some (Err ESRCH, s)
      | Some t \<Rightarrow>
          if state (thr s t) \<noteq> KTHREAD_STATE_SUSPENDED then Some (Err EINVAL, s)
          else (let s1 = scheduler_enqueue cpu (Some t) (upd_thr t (\<lambda>k. k\<lparr>state := KTHREAD_STATE_READY\<rparr>) s)
                in case kthread_get_current cpu s1 of
                     None \<Rightarrow> Some (KERNEL_OK, s1)
                   | Some c \<Rightarrow> if prio (thr s1 t) > prio (thr s1 c)
                               then map_option (Pair KERNEL_OK) (schedule guard_bad cpu s1)
                               else Some (KERNEL_OK, s1)))"

definition kthread_set_priority :: "(nat \<Rightarrow> bool) \<Rightarrow> nat \<Rightarrow> u32 \<Rightarrow> u8 \<Rightarrow> sched \<Rightarrow> (status \<times> sched) option" where
  "kthread_set_priority guard_bad cpu i p s =
     (case get_thread_by_id i of
        None \<Rightarrow> Some (Err ESRCH, s)
      | Some t \<Rightarrow>
          (let s1 = (if state (thr s t) = KTHREAD_STATE_READY
                     then scheduler_enqueue cpu (Some t) (upd_thr t (\<lambda>k. k\<lparr>prio := p\<rparr>) (scheduler_dequeue cpu (Some t) s))
                     else upd_thr t (\<lambda>k. k\<lparr>prio := p\<rparr>) s)
           in case kthread_get_current cpu s1 of
                None \<Rightarrow> Some (KERNEL_OK, s1)
              | Some c \<Rightarrow> if t \<noteq> c \<and> state (thr s1 t) = KTHREAD_STATE_READY \<and> prio (thr s1 t) > prio (thr s1 c)
                          then map_option (Pair KERNEL_OK) (schedule guard_bad cpu s1)
                          else Some (KERNEL_OK, s1)))"

section \<open>Initialisation\<close>

definition init_cpu :: "nat \<Rightarrow> sched \<Rightarrow> sched" where
  "init_cpu cpu s =
     (let s1 = upd_bitmap cpu bitmap256_clear_all s;
          s2 = upd_slinks (fold (\<lambda>j. INIT_LIST_HEAD (Some (ReadyQ cpu (of_nat j)))) [0..<256]) s1
      in upd_cpu cpu (\<lambda>q. q\<lparr>nr_running := 0, current_thread := None, idle_thread := None, need_resched := 0\<rparr>) s2)"

definition init_thread :: "nat \<Rightarrow> sched \<Rightarrow> sched" where
  "init_thread i s = upd_slinks (init_links i)
     (upd_thr i (\<lambda>k. k\<lparr>tid := of_nat i, state := KTHREAD_STATE_DEAD, entry := 0, entry_arg := 0, stack_base := 0,
        stack_size := 0, prio := PRIORITY_MIN, policy := KTHREAD_POLICY_FIFO, time_slice := 0,
        time_slice_reload := 0, sched_class := None, wakeup_tick := 0, kname := []\<rparr>) s)"

text \<open>The idle threads, one CPU after the other; \<open>idle_entry\<close> is the address of \<^verbatim>\<open>idle_task_entry\<close>,
  \<open>slab_new c\<close> the answers of the stack caches in the creation for CPU \<open>c\<close>.\<close>

fun create_idles ::
  "(nat \<Rightarrow> bool) \<Rightarrow> (nat \<Rightarrow> nat \<Rightarrow> u64) \<Rightarrow> u64 \<Rightarrow> u64 \<Rightarrow> u64 \<Rightarrow> nat \<Rightarrow> nat list \<Rightarrow> sched \<Rightarrow> (status \<times> sched) option" where
  "create_idles guard_bad slab_new hs he idle_entry cpu [] s = Some (KERNEL_OK, s)"
| "create_idles guard_bad slab_new hs he idle_entry cpu (c # cs) s = do {
     (t, s1) \<leftarrow> kthread_create guard_bad (slab_new c) hs he cpu (Some ''idle'') idle_entry 0 PRIORITY_MIN
                KTHREAD_POLICY_FIFO 8192 s;
     if t = THREAD_ID_INVALID then Some (Err ENOMEM, s1)
     else do {
       let s2 = upd_cpu c (\<lambda>q. q\<lparr>idle_thread := Some (unat t)\<rparr>) s1;
       create_idles guard_bad slab_new hs he idle_entry cpu cs
         (if c \<noteq> 0
          then upd_cpu 0 (\<lambda>q. q\<lparr>nr_running := (if nr_running q > 0 then nr_running q - 1 else nr_running q)\<rparr>)
                 (upd_slinks (list_del_init (Some (RqList (unat t)))) s2)
          else s2)
     }
   }"

text \<open>\<open>slabs_created\<close> is whether \<^verbatim>\<open>slab_create\<close> succeeded for all the stack caches.\<close>

definition scheduler_init ::
  "(nat \<Rightarrow> bool) \<Rightarrow> (nat \<Rightarrow> nat \<Rightarrow> u64) \<Rightarrow> u64 \<Rightarrow> u64 \<Rightarrow> u64 \<Rightarrow> bool \<Rightarrow> nat \<Rightarrow> sched \<Rightarrow> (status \<times> sched) option" where
  "scheduler_init guard_bad slab_new hs he idle_entry slabs_created cpu s =
     (if initialized s then Some (KERNEL_OK, s)
      else do {
        s1 \<leftarrow> sched_rr_init s;
        if \<not> slabs_created then Some (Err ENOMEM, s1)
        else do {
          let s2 = s1\<lparr>stack_slab_ready := True\<rparr>;
          let s3 = fold init_cpu [0..<CONFIG_MAX_CPUS] s2;
          let s4 = fold init_thread [0..<MAX_THREADS] s3;
          (r, s5) \<leftarrow> create_idles guard_bad slab_new hs he idle_entry cpu [0..<CONFIG_MAX_CPUS] s4;
          Some (r, if r = KERNEL_OK then s5\<lparr>initialized := True\<rparr> else s5)
        }
      })"

end
