(* ===== verification/Node_Rings.thy ===== *)
theory Node_Rings
  imports Kernel_List
begin

text \<open>
  Families of rings: a set \<open>H\<close> of list heads over a set \<open>N\<close> of nodes, each node on at most one ring and linked to itself
  otherwise.  This is the state in which the kernel keeps the queue nodes of its threads; the list primitives act on
  the contents \<open>qs\<close> of the rings.
\<close>

definition queued :: "'p set \<Rightarrow> ('p \<Rightarrow> 'p list) \<Rightarrow> 'p \<Rightarrow> bool" where
  "queued H qs n \<longleftrightarrow> (\<exists>a\<in>H. n \<in> set (qs a))"

definition rings :: "'p heap \<Rightarrow> 'p set \<Rightarrow> 'p set \<Rightarrow> ('p \<Rightarrow> 'p list) \<Rightarrow> bool" where
  "rings h H N qs \<longleftrightarrow> H \<inter> N = {} \<and> (\<forall>a\<in>H. dll h a (qs a)) \<and> (\<forall>a\<in>H. \<forall>n\<in>set (qs a). n \<in> N) \<and>
     (\<forall>a\<in>H. \<forall>b\<in>H. \<forall>n\<in>set (qs a). n \<in> set (qs b) \<longrightarrow> a = b) \<and>
     (\<forall>n\<in>N. \<not> queued H qs n \<longrightarrow> dll h n [])"

lemma ringsD:
  assumes "rings h H N qs"
  shows "H \<inter> N = {}"
    and "a \<in> H \<Longrightarrow> dll h a (qs a)"
    and "a \<in> H \<Longrightarrow> n \<in> set (qs a) \<Longrightarrow> n \<in> N"
    and "a \<in> H \<Longrightarrow> b \<in> H \<Longrightarrow> n \<in> set (qs a) \<Longrightarrow> n \<in> set (qs b) \<Longrightarrow> a = b"
    and "n \<in> N \<Longrightarrow> \<not> queued H qs n \<Longrightarrow> dll h n []"
    and "a \<in> H \<Longrightarrow> distinct (qs a)"
proof -
  show d: "a \<in> H \<Longrightarrow> dll h a (qs a)" for a using assms unfolding rings_def by blast
  show "a \<in> H \<Longrightarrow> distinct (qs a)" using d [of a] by (simp add: dll_def)
qed (use assms in \<open>unfold rings_def, blast+\<close>)

lemma ringsI:
  assumes "H \<inter> N = {}" and "\<And>a. a \<in> H \<Longrightarrow> dll h a (qs a)" and "\<And>a n. a \<in> H \<Longrightarrow> n \<in> set (qs a) \<Longrightarrow> n \<in> N"
    and "\<And>a b n. a \<in> H \<Longrightarrow> b \<in> H \<Longrightarrow> n \<in> set (qs a) \<Longrightarrow> n \<in> set (qs b) \<Longrightarrow> a = b"
    and "\<And>n. n \<in> N \<Longrightarrow> \<not> queued H qs n \<Longrightarrow> dll h n []"
  shows "rings h H N qs"
  using assms unfolding rings_def by blast

lemma queued_split: "a \<in> H \<Longrightarrow> queued H qs m \<longleftrightarrow> m \<in> set (qs a) \<or> queued (H - {a}) qs m"
  by (auto simp: queued_def)

lemma queued_upd: "a \<in> H \<Longrightarrow> queued H (qs(a := ys)) m \<longleftrightarrow> m \<in> set ys \<or> queued (H - {a}) qs m"
  by (auto simp: queued_def)

lemma rings_separate:
  assumes "rings h H N qs" and "a \<in> H" and "b \<in> H" and "a \<noteq> b"
  shows "set (a # qs a) \<inter> set (b # qs b) = {}"
  using assms ringsD(1) [OF assms(1)] ringsD(3,4) [OF assms(1)] by auto

lemma rings_empty:
  assumes "rings h H N qs" and "a \<in> H"
  shows "list_empty (Some a) h \<longleftrightarrow> qs a = []"
  using list_empty_dll [OF ringsD(2) [OF assms]] .

lemma rings_first:
  assumes "rings h H N qs" and "a \<in> H" and "qs a \<noteq> []"
  shows "lh_next (h a) = Some (hd (qs a))"
  using dll_next [OF ringsD(2) [OF assms(1,2)]] assms(3) by simp

lemma rings_cong:
  assumes "rings h H N qs" and "\<And>n. n \<in> H \<union> N \<Longrightarrow> h' n = h n" and "\<And>a. a \<in> H \<Longrightarrow> qs' a = qs a"
  shows "rings h' H N qs'"
proof -
  have "dll h' a (qs' a)" if "a \<in> H" for a
    using dll_frame [OF ringsD(2) [OF assms(1) that], of h'] assms(2,3) that ringsD(3) [OF assms(1) that] by auto
  moreover have "dll h' n []" if "n \<in> N" "dll h n []" for n
    using dll_frame [OF that(2), of h'] assms(2) that by simp
  moreover have "queued H qs' n = queued H qs n" for n using assms(3) by (auto simp: queued_def)
  ultimately show ?thesis using ringsD [OF assms(1)] assms(3) by (intro ringsI) auto
qed

text \<open>Insertion of a node that is on no ring; \<open>ins\<close> is \<open>list_add\<close> or \<open>list_add_tail\<close>.\<close>

lemma rings_insert:
  assumes r: "rings h H N qs" and a: "a \<in> H" and n: "n \<in> N" "\<not> queued H qs n"
    and ring: "dll h' a ys" and ys: "set ys = insert n (set (qs a))"
    and frame: "\<And>m. m \<notin> set (a # qs a) \<Longrightarrow> m \<noteq> n \<Longrightarrow> h' m = h m"
  shows "rings h' H N (qs(a := ys))"
proof -
  have d: "dll h' b (qs b)" if "b \<in> H" "b \<noteq> a" for b
  proof (rule dll_frame [OF ringsD(2) [OF r that(1)]])
    fix m assume m: "m \<in> set (b # qs b)"
    then have "m \<notin> set (a # qs a)" using rings_separate [OF r that(1) a that(2)] by blast
    moreover have "m \<noteq> n" using m that n ringsD(1) [OF r] by (auto simp: queued_def)
    ultimately show "h' m = h m" by (rule frame)
  qed
  moreover have "dll h' m []" if "m \<in> N" "m \<noteq> n" "\<not> queued H qs m" for m
    using dll_frame [OF ringsD(5) [OF r that(1,3)], of h'] that a frame [of m] ringsD(1) [OF r]
    by (auto simp: queued_def)
  moreover have "queued H (qs(a := ys)) m \<longleftrightarrow> queued H qs m \<or> m = n" for m
    using queued_upd [OF a, of qs ys m] queued_split [OF a, of qs m] ys by auto
  moreover have "b = c" if "b \<in> H" "c \<in> H" "m \<in> set ((qs(a := ys)) b)" "m \<in> set ((qs(a := ys)) c)" for b c m
    using that a n(2) ys ringsD(4) [OF r, of b c m] by (auto simp: queued_def split: if_splits)
  moreover have "m \<in> N" if "b \<in> H" "m \<in> set ((qs(a := ys)) b)" for b m
    using that ys n(1) ringsD(3) [OF r, of b m] by (auto split: if_splits)
  moreover have "dll h' b ((qs(a := ys)) b)" if "b \<in> H" for b using d [OF that] ring by (cases "b = a") auto
  ultimately show ?thesis using ringsD(1) [OF r] by (intro ringsI) blast+
qed

lemma rings_add_tail:
  assumes "rings h H N qs" and "a \<in> H" and "n \<in> N" and "\<not> queued H qs n"
  shows "rings (list_add_tail (Some n) (Some a) h) H N (qs(a := qs a @ [n]))"
proof (rule rings_insert [OF assms])
  have "n \<notin> set (a # qs a)" using assms ringsD(1) [OF assms(1)] by (auto simp: queued_def)
  then show "dll (list_add_tail (Some n) (Some a) h) a (qs a @ [n])"
    by (rule dll_list_add_tail [OF ringsD(2) [OF assms(1,2)]])
qed (auto intro: list_add_tail_untouched [OF ringsD(2) [OF assms(1,2)]])

lemma rings_add:
  assumes "rings h H N qs" and "a \<in> H" and "n \<in> N" and "\<not> queued H qs n"
  shows "rings (list_add (Some n) (Some a) h) H N (qs(a := n # qs a))"
proof (rule rings_insert [OF assms])
  note d = ringsD(2) [OF assms(1,2)]
  have "n \<notin> set (a # qs a)" using assms ringsD(1) [OF assms(1)] by (auto simp: queued_def)
  then show "dll (list_add (Some n) (Some a) h) a (n # qs a)" by (rule dll_list_add [OF d])
  fix m assume m: "m \<notin> set (a # qs a)" "m \<noteq> n"
  have "hd (qs a @ [a]) \<in> set (a # qs a)" by (cases "qs a") auto
  with m have "m \<noteq> hd (qs a @ [a])" by metis
  with m show "list_add (Some n) (Some a) h m = h m"
    using dll_next [OF d] by (simp add: list_add_def list_add_between_def)
qed auto

lemma rings_del:
  assumes r: "rings h H N qs" and a: "a \<in> H" and n: "n \<in> set (qs a)"
  shows "rings (list_del_init (Some n) h) H N (qs(a := remove1 n (qs a)))"
proof -
  let ?h = "list_del_init (Some n) h"
  obtain us vs where q: "qs a = us @ n # vs" "n \<notin> set us" using split_list_first [OF n] by blast
  have d: "dll h a (us @ n # vs)" using ringsD(2) [OF r a] q by simp
  have rm: "remove1 n (qs a) = us @ vs" using q by (simp add: remove1_append)
  have nv: "n \<notin> set vs" using ringsD(6) [OF r a] q by simp
  have frame: "?h m = h m" if "m \<notin> set (a # qs a)" for m
    using that q by (intro list_del_untouched(2) [OF d]) auto
  have o: "dll ?h b (qs b)" if "b \<in> H" "b \<noteq> a" for b
    using that rings_separate [OF r that(1) a that(2)] by (intro dll_frame [OF ringsD(2) [OF r that(1)]] frame) blast
  have "dll ?h m []" if "m \<in> N" "m \<noteq> n" "\<not> queued H qs m" for m
    using that a ringsD(1) [OF r] by (intro dll_frame [OF ringsD(5) [OF r that(1,3)]] frame) (auto simp: queued_def)
  moreover have "queued H qs m \<longleftrightarrow> queued H (qs(a := us @ vs)) m \<or> m = n" for m
    using queued_upd [OF a, of qs "us @ vs" m] queued_split [OF a, of qs m] q by auto
  moreover have "b = c" if "b \<in> H" "c \<in> H" "m \<in> set ((qs(a := us @ vs)) b)" "m \<in> set ((qs(a := us @ vs)) c)" for b c m
    using that q ringsD(4) [OF r, of b c m] by (auto split: if_splits)
  moreover have "m \<in> N" if "b \<in> H" "m \<in> set ((qs(a := us @ vs)) b)" for b m
    using that q ringsD(3) [OF r, of b m] by (auto split: if_splits)
  moreover have "dll ?h b ((qs(a := us @ vs)) b)" if "b \<in> H" for b
    using o [OF that] dll_list_del_init(1) [OF d] by (cases "b = a") auto
  ultimately show ?thesis
    unfolding rm using dll_list_del_init(2) [OF d] ringsD(1) [OF r] by (intro ringsI) blast+
qed

lemma rings_del_alone:
  assumes "rings h H N qs" and "n \<in> N" and "\<not> queued H qs n"
  shows "list_del_init (Some n) h = h"
  by (rule list_del_init_alone [OF ringsD(5) [OF assms]])

lemma self_ring_eq:
  assumes "dll h n []"
  shows "INIT_LIST_HEAD (Some n) h = h"
  using assms by (auto simp: dll_def INIT_LIST_HEAD_def set_next_def set_prev_def)

text \<open>A node or an empty head may be initialised again without effect; a fresh head joins the family.\<close>

lemma rings_init_node:
  assumes "rings h H N qs" and "n \<in> N" and "\<not> queued H qs n"
  shows "INIT_LIST_HEAD (Some n) h = h"
  by (rule self_ring_eq [OF ringsD(5) [OF assms]])

lemma rings_new_head:
  assumes "rings h H N qs" and "a \<notin> N" and "a \<in> H \<longrightarrow> qs a = []"
  shows "rings (INIT_LIST_HEAD (Some a) h) (insert a H) N (qs(a := []))"
proof (cases "a \<in> H")
  case True
  then have "INIT_LIST_HEAD (Some a) h = h" using self_ring_eq ringsD(2) [OF assms(1)] assms(3) by fastforce
  then show ?thesis using assms True by (simp add: insert_absorb fun_upd_idem)
next
  case False
  have fr: "INIT_LIST_HEAD (Some a) h n = h n" if "n \<in> H \<union> N" for n
    using that False assms(2) by (metis INIT_LIST_HEAD_other UnE)
  have "rings (INIT_LIST_HEAD (Some a) h) H N (qs(a := []))"
    by (rule rings_cong [OF assms(1) fr]) (use False in auto)
  then have i: "rings (INIT_LIST_HEAD (Some a) h) H N (qs(a := []))" .
  have "queued (insert a H) (qs(a := [])) n = queued H (qs(a := [])) n" for n by (auto simp: queued_def)
  moreover have "dll (INIT_LIST_HEAD (Some a) h) b ((qs(a := [])) b)" if "b \<in> insert a H" for b
    using that ringsD(2) [OF i, of b] dll_INIT_LIST_HEAD [of a h] by (cases "b = a") auto
  ultimately show ?thesis using ringsD(1,3-5) [OF i] assms(2) by (intro ringsI) (auto split: if_splits)
qed

text \<open>A whole family is created by initialising its heads and nodes one after the other.\<close>

lemma fold_INIT_LIST_HEAD:
  "dll (fold (\<lambda>a. INIT_LIST_HEAD (Some a)) xs h) n [] \<longleftrightarrow> n \<in> set xs \<or> dll h n []"
proof (induction xs arbitrary: h)
  case (Cons a xs)
  have "dll (INIT_LIST_HEAD (Some a) h) n [] \<longleftrightarrow> n = a \<or> dll h n []"
    using dll_INIT_LIST_HEAD [of a h] dll_cong [of n "[]" "INIT_LIST_HEAD (Some a) h" h] by (cases "n = a") auto
  then show ?case using Cons [of "INIT_LIST_HEAD (Some a) h"] by auto
qed simp

lemma rings_initial:
  assumes "\<And>n. n \<in> H \<union> N \<Longrightarrow> dll h n []" and "H \<inter> N = {}"
  shows "rings h H N (\<lambda>_. [])"
  using assms by (intro ringsI) auto

end
