(* ===== verification/Sched_Queue.thy ===== *)
theory Sched_Queue
  imports Sched Node_Rings
begin

text \<open>
  The ready queues hold what they should.  \<open>rq c p\<close> lists the threads that wait on CPU \<open>c\<close> at priority \<open>p\<close>, \<open>wq a\<close> those that wait
  on another queue \<open>a\<close> (a mutex or the sleep queue of a CPU).  The invariant \<open>rq_inv\<close> ties the linked rings, the bitmaps, the
  thread states and the counters to them; queueing and removing threads preserve it.
\<close>

section \<open>Invariant\<close>

definition ready_heads :: "sched_node set" where
  "ready_heads = {ReadyQ c p | c p. c < CONFIG_MAX_CPUS}"

definition thread_nodes :: "sched_node set" where
  "thread_nodes = RqList ` {..<MAX_THREADS} \<union> SleepNode ` {..<MAX_THREADS}"

definition wait_heads :: "sched_node set" where
  "wait_heads = range WaitQ \<union> range SleepQ"

definition nodes_of :: "(nat \<Rightarrow> u8 \<Rightarrow> nat list) \<Rightarrow> (sched_node \<Rightarrow> nat list) \<Rightarrow> sched_node \<Rightarrow> sched_node list" where
  "nodes_of rq wq a = (case a of ReadyQ c p \<Rightarrow> map RqList (rq c p) | _ \<Rightarrow> map SleepNode (wq a))"

definition rq_count :: "(u8 \<Rightarrow> nat list) \<Rightarrow> nat" where
  "rq_count q = (\<Sum>p\<in>UNIV. length (q p))"

definition bitmap_ok :: "bitmap256 \<Rightarrow> (u8 \<Rightarrow> nat list) \<Rightarrow> bool" where
  "bitmap_ok b q \<longleftrightarrow> bm_set b = unat ` {p. q p \<noteq> []}"

definition links_ok :: "sched_node heap \<Rightarrow> sched_node set \<Rightarrow> (nat \<Rightarrow> u8 \<Rightarrow> nat list) \<Rightarrow> (sched_node \<Rightarrow> nat list) \<Rightarrow> bool" where
  "links_ok h W rq wq \<longleftrightarrow> W \<subseteq> wait_heads \<and> rings h (ready_heads \<union> W) thread_nodes (nodes_of rq wq)"

definition rq_inv :: "sched \<Rightarrow> sched_node set \<Rightarrow> (nat \<Rightarrow> u8 \<Rightarrow> nat list) \<Rightarrow> (sched_node \<Rightarrow> nat list) \<Rightarrow> bool" where
  "rq_inv s W rq wq \<longleftrightarrow> links_ok (slinks s) W rq wq \<and>
     (\<forall>c<CONFIG_MAX_CPUS. bitmap_ok (bitmap (cpu_q s c)) (rq c) \<and> nr_running (cpu_q s c) = of_nat (rq_count (rq c)) \<and>
        (\<forall>p. \<forall>t\<in>set (rq c p). state (thr s t) = KTHREAD_STATE_READY \<and> prio (thr s t) = p))"

definition on_ready :: "(nat \<Rightarrow> u8 \<Rightarrow> nat list) \<Rightarrow> nat \<Rightarrow> bool" where
  "on_ready rq t \<longleftrightarrow> (\<exists>c<CONFIG_MAX_CPUS. \<exists>p. t \<in> set (rq c p))"

lemma rq_invD:
  assumes "rq_inv s W rq wq"
  shows "links_ok (slinks s) W rq wq"
    and "c < CONFIG_MAX_CPUS \<Longrightarrow> bitmap_ok (bitmap (cpu_q s c)) (rq c)"
    and "c < CONFIG_MAX_CPUS \<Longrightarrow> nr_running (cpu_q s c) = of_nat (rq_count (rq c))"
    and "c < CONFIG_MAX_CPUS \<Longrightarrow> t \<in> set (rq c p) \<Longrightarrow> state (thr s t) = KTHREAD_STATE_READY"
    and "c < CONFIG_MAX_CPUS \<Longrightarrow> t \<in> set (rq c p) \<Longrightarrow> prio (thr s t) = p"
  using assms by (auto simp: rq_inv_def)

lemma links_okD:
  assumes "links_ok h W rq wq"
  shows "rings h (ready_heads \<union> W) thread_nodes (nodes_of rq wq)" and "W \<subseteq> wait_heads"
    and "c < CONFIG_MAX_CPUS \<Longrightarrow> distinct (rq c p)"
    and "c < CONFIG_MAX_CPUS \<Longrightarrow> t \<in> set (rq c p) \<Longrightarrow> t < MAX_THREADS"
    and "c < CONFIG_MAX_CPUS \<Longrightarrow> d < CONFIG_MAX_CPUS \<Longrightarrow> t \<in> set (rq c p) \<Longrightarrow> t \<in> set (rq d q) \<Longrightarrow> c = d \<and> p = q"
    and "a \<in> W \<Longrightarrow> t \<in> set (wq a) \<Longrightarrow> t < MAX_THREADS"
    and "a \<in> W \<Longrightarrow> distinct (wq a)"
proof -
  show r: "rings h (ready_heads \<union> W) thread_nodes (nodes_of rq wq)" and w: "W \<subseteq> wait_heads"
    using assms by (auto simp: links_ok_def)
  have m: "ReadyQ c p \<in> ready_heads \<union> W" if "c < CONFIG_MAX_CPUS" for c p using that by (auto simp: ready_heads_def)
  show "distinct (rq c p)" if "c < CONFIG_MAX_CPUS"
    using ringsD(6) [OF r m [OF that], of p] by (simp add: nodes_of_def distinct_map)
  show "t < MAX_THREADS" if "c < CONFIG_MAX_CPUS" "t \<in> set (rq c p)"
    using ringsD(3) [OF r m [OF that(1)], of "RqList t" p] that by (auto simp: nodes_of_def thread_nodes_def)
  show "c = d \<and> p = q" if "c < CONFIG_MAX_CPUS" "d < CONFIG_MAX_CPUS" "t \<in> set (rq c p)" "t \<in> set (rq d q)"
    using ringsD(4) [OF r m m, of c d "RqList t" p q] that by (auto simp: nodes_of_def)
  have a: "nodes_of rq wq a = map SleepNode (wq a)" if "a \<in> W" for a
    using that w by (auto simp: nodes_of_def wait_heads_def)
  show "t < MAX_THREADS" if "a \<in> W" "t \<in> set (wq a)"
    using ringsD(3) [OF r, of a "SleepNode t"] that a by (auto simp: thread_nodes_def)
  show "distinct (wq a)" if "a \<in> W" using ringsD(6) [OF r, of a] a that by (simp add: distinct_map)
qed

section \<open>Counting and bitmaps\<close>

lemma rq_count_upd: "rq_count (q(p := xs)) + length (q p) = rq_count q + length xs"
proof -
  have "rq_count f = length (f p) + (\<Sum>x\<in>UNIV - {p}. length (f x))" for f :: "u8 \<Rightarrow> nat list"
    unfolding rq_count_def by (rule sum.remove) auto
  moreover have "(\<Sum>x\<in>UNIV - {p}. length ((q(p := xs)) x)) = (\<Sum>x\<in>UNIV - {p}. length (q x))" by (rule sum.cong) auto
  ultimately show ?thesis by (simp only: fun_upd_same)
qed

lemma rq_count_0: "rq_count q = 0 \<longleftrightarrow> (\<forall>p. q p = [])"
  by (simp add: rq_count_def)

lemma rq_count_bound:
  assumes "links_ok h W rq wq" and "c < CONFIG_MAX_CPUS"
  shows "rq_count (rq c) \<le> MAX_THREADS"
proof -
  have "rq_count (rq c) = (\<Sum>p\<in>UNIV. card (set (rq c p)))"
    unfolding rq_count_def using links_okD(3) [OF assms] by (simp add: distinct_card)
  also have "\<dots> = card (\<Union>p\<in>UNIV. set (rq c p))"
    using links_okD(5) [OF assms(1,2,2)] by (subst card_UN_disjoint) auto
  also have "\<dots> \<le> card {..<MAX_THREADS}"
    using links_okD(4) [OF assms] by (intro card_mono) auto
  finally show ?thesis by simp
qed

lemma bitmap_ok_set:
  assumes "bitmap_ok b q" and "xs \<noteq> []"
  shows "bitmap_ok (the (bitmap256_set (Some b) (ucast p))) (q(p := xs))"
proof -
  obtain b' where b: "bitmap256_set (Some b) (ucast p) = Some b'" "bm_set b' = insert (unat (ucast p :: u32)) (bm_set b)"
    using bitmap256_set_abs [of "ucast p" b] by auto
  have "{r. (q(p := xs)) r \<noteq> []} = insert p {r. q r \<noteq> []}" using assms(2) by auto
  then show ?thesis using b assms(1) by (simp add: bitmap_ok_def)
qed

lemma bitmap_ok_clear:
  assumes "bitmap_ok b q"
  shows "bitmap_ok (the (bitmap256_clear (Some b) (ucast p))) (q(p := []))"
proof -
  obtain b' where b: "bitmap256_clear (Some b) (ucast p) = Some b'" "bm_set b' = bm_set b - {unat (ucast p :: u32)}"
    using bitmap256_clear_abs [of "ucast p" b] by auto
  have "{r. (q(p := [])) r \<noteq> []} = {r. q r \<noteq> []} - {p}" by auto
  moreover have "unat ` (A - {p}) = unat ` A - {unat p}" for A :: "u8 set" by (auto simp: word_unat_eq_iff)
  ultimately show ?thesis using b assms by (simp add: bitmap_ok_def)
qed

text \<open>The highest priority with a waiting thread.\<close>

definition highest :: "(u8 \<Rightarrow> nat list) \<Rightarrow> u8 option" where
  "highest q = (if \<forall>p. q p = [] then None else Some (Max {p. q p \<noteq> []}))"

lemma highestD:
  assumes "highest q = Some p"
  shows "q p \<noteq> []" and "p < r \<Longrightarrow> q r = []"
proof -
  have ne: "{p. q p \<noteq> []} \<noteq> {}" and p: "p = Max {p. q p \<noteq> []}" using assms by (auto simp: highest_def split: if_splits)
  show "q p \<noteq> []" using Max_in [OF finite ne] p by simp
  show "q r = []" if "p < r" using Max_ge [of "{p. q p \<noteq> []}" r] p that by fastforce
qed

lemma find_highest_highest:
  assumes "bitmap_ok b q"
  shows "highest q = (if bitmap256_find_highest (Some b) < 256 then Some (ucast (bitmap256_find_highest (Some b))) else None)"
proof (cases "\<forall>p. q p = []")
  case True
  then show ?thesis using assms by (simp add: highest_def bitmap256_find_highest_lt bitmap_ok_def)
next
  case False
  let ?A = "{p. q p \<noteq> []}"
  have ne: "?A \<noteq> {}" "bm_set b \<noteq> {}" using False assms by (auto simp: bitmap_ok_def)
  have "Max (bm_set b) = unat (Max ?A)"
    using mono_Max_commute [of unat ?A] ne assms by (simp add: bitmap_ok_def mono_def word_le_nat_alt)
  then have u: "unat (bitmap256_find_highest (Some b)) = unat (Max ?A)" using unat_find_highest [OF ne(2)] by simp
  have "unat (ucast (bitmap256_find_highest (Some b)) :: u8) = unat (Max ?A)"
    using u unsigned_less [of "Max ?A", where 'a = nat] by (simp add: unsigned_ucast_eq take_bit_eq_mod)
  then have "ucast (bitmap256_find_highest (Some b)) = Max ?A" by (simp add: word_unat_eq_iff)
  then show ?thesis using False ne(2) by (simp add: highest_def bitmap256_find_highest_lt)
qed

section \<open>Queueing and removing\<close>

definition rq_upd :: "nat \<Rightarrow> u8 \<Rightarrow> nat list \<Rightarrow> (nat \<Rightarrow> u8 \<Rightarrow> nat list) \<Rightarrow> nat \<Rightarrow> u8 \<Rightarrow> nat list" where
  "rq_upd c p xs rq = rq(c := (rq c)(p := xs))"

lemma rq_upd_simps [simp]:
  "rq_upd c p xs rq c = (rq c)(p := xs)"
  "d \<noteq> c \<Longrightarrow> rq_upd c p xs rq d = rq d"
  by (auto simp: rq_upd_def)

lemma nodes_of_upd: "nodes_of (rq_upd c p xs rq) wq = (nodes_of rq wq)(ReadyQ c p := map RqList xs)"
  by (rule ext) (auto simp: nodes_of_def rq_upd_def split: sched_node.split)

lemma nodes_of_ready [simp]: "nodes_of rq wq (ReadyQ c p) = map RqList (rq c p)"
  by (simp add: nodes_of_def)

lemma ready_head [simp]: "ReadyQ c p \<in> ready_heads \<longleftrightarrow> c < CONFIG_MAX_CPUS"
  by (auto simp: ready_heads_def)

lemma thread_node [simp]: "RqList t \<in> thread_nodes \<longleftrightarrow> t < MAX_THREADS" "SleepNode t \<in> thread_nodes \<longleftrightarrow> t < MAX_THREADS"
  by (auto simp: thread_nodes_def)

lemma nodes_of_wait: "a \<in> wait_heads \<Longrightarrow> nodes_of rq wq a = map SleepNode (wq a)"
  by (auto simp: nodes_of_def wait_heads_def)

lemma queued_rq:
  assumes "W \<subseteq> wait_heads"
  shows "queued (ready_heads \<union> W) (nodes_of rq wq) (RqList t) \<longleftrightarrow> on_ready rq t"
proof -
  have "RqList t \<notin> set (nodes_of rq wq a)" if "a \<in> W" for a using that assms by (auto simp: nodes_of_wait)
  then have "queued (ready_heads \<union> W) (nodes_of rq wq) (RqList t) \<longleftrightarrow> queued ready_heads (nodes_of rq wq) (RqList t)"
    by (auto simp: queued_def)
  also have "\<dots> \<longleftrightarrow> (\<exists>c p. c < CONFIG_MAX_CPUS \<and> RqList t \<in> set (nodes_of rq wq (ReadyQ c p)))"
    unfolding queued_def ready_heads_def by blast
  finally show ?thesis by (auto simp: on_ready_def)
qed

lemma sched_fields [simp]:
  "thread_table (sched_enqueue_locked c t s) = thread_table s" "thread_table (sched_dequeue_locked c t s) = thread_table s"
  "current_thread (cpu_q (sched_enqueue_locked c t s) d) = current_thread (cpu_q s d)"
  "current_thread (cpu_q (sched_dequeue_locked c t s) d) = current_thread (cpu_q s d)"
  "idle_thread (cpu_q (sched_enqueue_locked c t s) d) = idle_thread (cpu_q s d)"
  "idle_thread (cpu_q (sched_dequeue_locked c t s) d) = idle_thread (cpu_q s d)"
  "need_resched (cpu_q (sched_enqueue_locked c t s) d) = need_resched (cpu_q s d)"
  "need_resched (cpu_q (sched_dequeue_locked c t s) d) = need_resched (cpu_q s d)"
  "s_sched_class_head (sched_enqueue_locked c t s) = s_sched_class_head s"
  "s_sched_class_head (sched_dequeue_locked c t s) = s_sched_class_head s"
  "class_next (sched_enqueue_locked c t s) = class_next s" "class_next (sched_dequeue_locked c t s) = class_next s"
  by (auto simp: sched_enqueue_locked_def sched_dequeue_locked_def upd_cpu_def upd_bitmap_def upd_slinks_def Let_def)

lemma links_ok_append:
  assumes "links_ok h W rq wq" and "c < CONFIG_MAX_CPUS" and "t < MAX_THREADS" and "\<not> on_ready rq t"
  shows "links_ok (list_add_tail (Some (RqList t)) (Some (ReadyQ c p)) h) W (rq_upd c p (rq c p @ [t]) rq) wq"
proof -
  note r = links_okD(1,2) [OF assms(1)]
  show ?thesis
    using rings_add_tail [OF r(1), of "ReadyQ c p" "RqList t"] assms(2-4) r(2) queued_rq [OF r(2), of rq wq t]
    by (simp add: links_ok_def nodes_of_upd)
qed

lemma links_ok_remove:
  assumes "links_ok h W rq wq" and "c < CONFIG_MAX_CPUS" and "t \<in> set (rq c p)"
  shows "links_ok (list_del_init (Some (RqList t)) h) W (rq_upd c p (remove1 t (rq c p)) rq) wq"
proof -
  note r = links_okD(1,2) [OF assms(1)]
  have "map RqList (remove1 t xs) = remove1 (RqList t) (map RqList xs)" for xs by (induction xs) auto
  then show ?thesis
    using rings_del [OF r(1), of "ReadyQ c p" "RqList t"] assms(2,3) r(2) by (simp add: links_ok_def nodes_of_upd)
qed

lemma enqueue_inv:
  assumes inv: "rq_inv s W rq wq" and c: "c < CONFIG_MAX_CPUS" and t: "t < MAX_THREADS" "\<not> on_ready rq t"
    and st: "state (thr s t) = KTHREAD_STATE_READY"
  shows "rq_inv (sched_enqueue_locked c t s) W (rq_upd c (prio (thr s t)) (rq c (prio (thr s t)) @ [t]) rq) wq"
proof -
  let ?p = "prio (thr s t)" let ?s = "sched_enqueue_locked c t s" let ?rq = "rq_upd c ?p (rq c ?p @ [t]) rq"
  have "links_ok (slinks ?s) W ?rq wq"
    using links_ok_append [OF rq_invD(1) [OF inv] c t]
    by (simp add: sched_enqueue_locked_def upd_cpu_def upd_bitmap_def upd_slinks_def Let_def)
  moreover have "bitmap_ok (bitmap (cpu_q ?s d)) (?rq d)" if "d < CONFIG_MAX_CPUS" for d
    using rq_invD(2) [OF inv that] bitmap_ok_set [OF rq_invD(2) [OF inv c]]
    by (auto simp: sched_enqueue_locked_def upd_cpu_def upd_bitmap_def upd_slinks_def Let_def)
  moreover have "nr_running (cpu_q ?s d) = of_nat (rq_count (?rq d))" if "d < CONFIG_MAX_CPUS" for d
    using rq_invD(3) [OF inv that] rq_count_upd [of "rq c" ?p "rq c ?p @ [t]"]
    by (auto simp: sched_enqueue_locked_def upd_cpu_def upd_bitmap_def upd_slinks_def Let_def)
  moreover have "state (thr ?s u) = KTHREAD_STATE_READY \<and> prio (thr ?s u) = q"
    if "d < CONFIG_MAX_CPUS" "u \<in> set (?rq d q)" for d q u
    using rq_invD(4,5) [OF inv that(1), of u q] that(2) st by (cases "d = c") (auto split: if_splits)
  ultimately show ?thesis unfolding rq_inv_def by blast
qed

lemma dequeue_inv:
  assumes inv: "rq_inv s W rq wq" and c: "c < CONFIG_MAX_CPUS" and t: "t \<in> set (rq c p)"
  shows "rq_inv (sched_dequeue_locked c t s) W (rq_upd c p (remove1 t (rq c p)) rq) wq"
proof -
  let ?s = "sched_dequeue_locked c t s" let ?rq = "rq_upd c p (remove1 t (rq c p)) rq"
  let ?h = "list_del_init (Some (RqList t)) (slinks s)"
  have p: "prio (thr s t) = p" by (rule rq_invD(5) [OF inv c t])
  have l: "links_ok ?h W ?rq wq" by (rule links_ok_remove [OF rq_invD(1) [OF inv] c t])
  have e: "list_empty (Some (ReadyQ c p)) ?h \<longleftrightarrow> remove1 t (rq c p) = []"
    using rings_empty [OF links_okD(1) [OF l], of "ReadyQ c p"] c by simp
  have "links_ok (slinks ?s) W ?rq wq"
    using l by (simp add: sched_dequeue_locked_def upd_cpu_def upd_bitmap_def upd_slinks_def Let_def)
  moreover have "bitmap_ok (bitmap (cpu_q ?s d)) (?rq d)" if "d < CONFIG_MAX_CPUS" for d
  proof -
    have "bitmap_ok (bitmap (cpu_q s c)) ((rq c)(p := remove1 t (rq c p)))" if "remove1 t (rq c p) \<noteq> []"
    proof -
      have "{r. ((rq c)(p := remove1 t (rq c p))) r \<noteq> []} = {r. rq c r \<noteq> []}" using that t by auto
      then show ?thesis using rq_invD(2) [OF inv c] by (simp add: bitmap_ok_def)
    qed
    then show ?thesis
      using rq_invD(2) [OF inv that] bitmap_ok_clear [OF rq_invD(2) [OF inv c], of p] e p
      by (auto simp: sched_dequeue_locked_def upd_cpu_def upd_bitmap_def upd_slinks_def Let_def)
  qed
  moreover have "nr_running (cpu_q ?s d) = of_nat (rq_count (?rq d))" if "d < CONFIG_MAX_CPUS" for d
  proof -
    have pos: "length (rq c p) > 0" using t by auto
    have "rq_count (?rq c) + length (rq c p) = rq_count (rq c) + (length (rq c p) - 1)"
      using rq_count_upd [of "rq c" p "remove1 t (rq c p)"] t by (simp add: length_remove1)
    then have n: "rq_count (rq c) = Suc (rq_count (?rq c))" using pos by linarith
    have "rq_count (rq c) < 2 ^ 32" using rq_count_bound [OF rq_invD(1) [OF inv] c] by simp
    then have "(if nr_running (cpu_q s c) > 0 then nr_running (cpu_q s c) - 1 else nr_running (cpu_q s c)) =
        of_nat (rq_count (?rq c))"
      unfolding rq_invD(3) [OF inv c] using of_nat_u32_dec [of "rq_count (rq c)"] n by (simp only: diff_Suc_1)
    then show ?thesis using rq_invD(3) [OF inv that]
      by (auto simp: sched_dequeue_locked_def upd_cpu_def upd_bitmap_def upd_slinks_def Let_def)
  qed
  moreover have "state (thr ?s u) = KTHREAD_STATE_READY \<and> prio (thr ?s u) = q"
    if "d < CONFIG_MAX_CPUS" "u \<in> set (?rq d q)" for d q u
    using rq_invD(4,5) [OF inv that(1), of u q] that(2) set_remove1_subset [of t "rq c p"]
    by (cases "d = c") (auto split: if_splits)
  ultimately show ?thesis unfolding rq_inv_def by blast
qed

text \<open>Removing a thread that is on no queue: the links stay, and nothing changes when the CPU has no waiting thread.\<close>

lemma dequeue_unqueued:
  assumes inv: "rq_inv s W rq wq" and c: "c < CONFIG_MAX_CPUS" and t: "t < MAX_THREADS" "\<not> on_ready rq t"
    and e: "\<And>p. rq c p = []"
  shows "rq_inv (sched_dequeue_locked c t s) W rq wq"
proof -
  let ?s = "sched_dequeue_locked c t s"
  note r = links_okD(1,2) [OF rq_invD(1) [OF inv]]
  have h: "list_del_init (Some (RqList t)) (slinks s) = slinks s"
    using rings_del_alone [OF r(1)] t queued_rq [OF r(2)] by simp
  have "slinks ?s = slinks s"
    by (simp add: sched_dequeue_locked_def upd_cpu_def upd_bitmap_def upd_slinks_def Let_def h)
  moreover have "bitmap_ok (bitmap (cpu_q ?s d)) (rq d)" if "d < CONFIG_MAX_CPUS" for d
  proof -
    have "(rq c)(p := []) = rq c" for p using e by auto
    then show ?thesis
      using rq_invD(2) [OF inv that] bitmap_ok_clear [OF rq_invD(2) [OF inv c], of "prio (thr s t)"]
      by (auto simp: sched_dequeue_locked_def upd_cpu_def upd_bitmap_def upd_slinks_def Let_def)
  qed
  moreover have "nr_running (cpu_q ?s d) = of_nat (rq_count (rq d))" if "d < CONFIG_MAX_CPUS" for d
    using rq_invD(3) [OF inv that] rq_invD(3) [OF inv c] rq_count_0 [of "rq c"] e
    by (auto simp: sched_dequeue_locked_def upd_cpu_def upd_bitmap_def upd_slinks_def Let_def)
  ultimately show ?thesis using rq_invD [OF inv] by (simp add: rq_inv_def)
qed

text \<open>The invariant reads links, bitmaps, counters and the state and priority of waiting threads only.\<close>

lemma rq_inv_cong:
  assumes "rq_inv s W rq wq" and "slinks s' = slinks s"
    and "\<And>c. c < CONFIG_MAX_CPUS \<Longrightarrow> bitmap (cpu_q s' c) = bitmap (cpu_q s c) \<and> nr_running (cpu_q s' c) = nr_running (cpu_q s c)"
    and "\<And>t. on_ready rq t \<Longrightarrow> state (thr s' t) = state (thr s t) \<and> prio (thr s' t) = prio (thr s t)"
  shows "rq_inv s' W rq wq"
proof -
  have "on_ready rq t" if "c < CONFIG_MAX_CPUS" "t \<in> set (rq c p)" for c p t using that unfolding on_ready_def by blast
  then show ?thesis using rq_invD [OF assms(1)] assms(2-4) unfolding rq_inv_def by metis
qed

section \<open>Choosing\<close>

lemma pick_next_locked:
  assumes inv: "rq_inv s W rq wq" and c: "c < CONFIG_MAX_CPUS"
  shows "scheduler_pick_next_locked c s =
    Some (case highest (rq c) of None \<Rightarrow> None | Some p \<Rightarrow> Some (hd (rq c p)))"
proof -
  have h: "highest (rq c) = (if bitmap256_find_highest (Some (bitmap (cpu_q s c))) < 256
      then Some (ucast (bitmap256_find_highest (Some (bitmap (cpu_q s c))))) else None)"
    by (rule find_highest_highest [OF rq_invD(2) [OF inv c]])
  have "first_ready c p s = Some (hd (rq c p))" if "highest (rq c) = Some p" for p
    using rings_first [OF links_okD(1) [OF rq_invD(1) [OF inv]], of "ReadyQ c p"] c highestD(1) [OF that]
    by (simp add: first_ready_def hd_map)
  then show ?thesis using h by (auto simp: scheduler_pick_next_locked_def Let_def split: if_splits)
qed

lemma pick_next:
  assumes "rq_inv s W rq wq" and "c < CONFIG_MAX_CPUS"
  shows "scheduler_pick_next c s =
    Some (case highest (rq c) of None \<Rightarrow> idle_thread (cpu_q s c) | Some p \<Rightarrow> Some (hd (rq c p)))"
  by (simp add: scheduler_pick_next_def pick_next_locked [OF assms] split: option.split)

end
