(* ===== verification/Sched_Run.thy ===== *)
theory Sched_Run
  imports Sched_Queue
begin

text \<open>
  What \<^verbatim>\<open>schedule\<close> and the operations that call it do in a well-formed scheduler state.  The invariant \<open>sched_inv\<close> adds to the ready queues
  that the only scheduling class is registered once, that running, idle and waiting threads are where their states say, and
  that no thread is current on two CPUs.
\<close>

section \<open>Invariant\<close>

definition class_ok :: "sched \<Rightarrow> bool" where
  "class_ok s \<longleftrightarrow> s_sched_class_head s = Some sched_rr \<and> class_next s sched_rr = None"

text \<open>
  The current thread of a CPU is running, and current on this CPU only.  On the CPU \<open>c\<close> that enters \<^verbatim>\<open>schedule\<close> it may
  have blocked, gone to sleep or ended; \<open>None\<close> is the state outside of \<^verbatim>\<open>schedule\<close>.
\<close>

definition current_ok :: "nat option \<Rightarrow> sched \<Rightarrow> bool" where
  "current_ok c s \<longleftrightarrow> (\<forall>d<CONFIG_MAX_CPUS. \<forall>t. current_thread (cpu_q s d) = Some t \<longrightarrow>
     t < MAX_THREADS \<and> state (thr s t) \<noteq> KTHREAD_STATE_READY \<and> (c \<noteq> Some d \<longrightarrow> state (thr s t) = KTHREAD_STATE_RUNNING) \<and>
     (\<forall>e<CONFIG_MAX_CPUS. current_thread (cpu_q s e) = Some t \<longrightarrow> e = d))"

definition idle_ok :: "sched \<Rightarrow> (nat \<Rightarrow> u8 \<Rightarrow> nat list) \<Rightarrow> bool" where
  "idle_ok s rq \<longleftrightarrow> (\<forall>c<CONFIG_MAX_CPUS. \<forall>i. idle_thread (cpu_q s c) = Some i \<longrightarrow>
     i < MAX_THREADS \<and> state (thr s i) \<in> {KTHREAD_STATE_READY, KTHREAD_STATE_RUNNING} \<and>
     (\<forall>d<CONFIG_MAX_CPUS. (\<exists>p. i \<in> set (rq d p)) \<or> current_thread (cpu_q s d) = Some i \<or> idle_thread (cpu_q s d) = Some i \<longrightarrow> d = c))"

definition wait_state :: "sched_node \<Rightarrow> kthread_state" where
  "wait_state a = (case a of SleepQ _ \<Rightarrow> KTHREAD_STATE_SLEEPING | _ \<Rightarrow> KTHREAD_STATE_BLOCKED)"

lemma wait_state_cases: "wait_state a = KTHREAD_STATE_SLEEPING \<or> wait_state a = KTHREAD_STATE_BLOCKED"
  by (cases a) (auto simp: wait_state_def)

definition wait_ok :: "sched \<Rightarrow> sched_node set \<Rightarrow> (sched_node \<Rightarrow> nat list) \<Rightarrow> bool" where
  "wait_ok s W wq \<longleftrightarrow> (\<forall>a\<in>W. \<forall>t\<in>set (wq a). state (thr s t) = wait_state a)"

definition sched_pre ::
  "nat option \<Rightarrow> sched \<Rightarrow> sched_node set \<Rightarrow> (nat \<Rightarrow> u8 \<Rightarrow> nat list) \<Rightarrow> (sched_node \<Rightarrow> nat list) \<Rightarrow> bool" where
  "sched_pre c s W rq wq \<longleftrightarrow> rq_inv s W rq wq \<and> class_ok s \<and> current_ok c s \<and> idle_ok s rq \<and> wait_ok s W wq"

abbreviation sched_inv :: "sched \<Rightarrow> sched_node set \<Rightarrow> (nat \<Rightarrow> u8 \<Rightarrow> nat list) \<Rightarrow> (sched_node \<Rightarrow> nat list) \<Rightarrow> bool" where
  "sched_inv \<equiv> sched_pre None"

lemma sched_preD:
  assumes "sched_pre c s W rq wq"
  shows "rq_inv s W rq wq" "class_ok s" "current_ok c s" "idle_ok s rq" "wait_ok s W wq"
  using assms by (auto simp: sched_pre_def)

lemma sched_inv_pre: "sched_inv s W rq wq \<Longrightarrow> sched_pre c s W rq wq"
  unfolding sched_pre_def current_ok_def by blast

lemma current_okD:
  assumes "current_ok c s" and "d < CONFIG_MAX_CPUS" and "current_thread (cpu_q s d) = Some t"
  shows "t < MAX_THREADS" and "c \<noteq> Some d \<Longrightarrow> state (thr s t) = KTHREAD_STATE_RUNNING"
    and "state (thr s t) \<noteq> KTHREAD_STATE_READY"
    and "e < CONFIG_MAX_CPUS \<Longrightarrow> current_thread (cpu_q s e) = Some t \<Longrightarrow> e = d"
proof -
  note * = assms(1) [unfolded current_ok_def, THEN spec, THEN mp, OF assms(2), THEN spec, THEN mp, OF assms(3)]
  show "t < MAX_THREADS" and "c \<noteq> Some d \<Longrightarrow> state (thr s t) = KTHREAD_STATE_RUNNING"
    and "state (thr s t) \<noteq> KTHREAD_STATE_READY"
    using conjunct1 [OF *] conjunct1 [OF conjunct2 [OF *]] conjunct1 [OF conjunct2 [OF conjunct2 [OF *]]] by blast+
  show "e = d" if "e < CONFIG_MAX_CPUS" "current_thread (cpu_q s e) = Some t"
    by (rule conjunct2 [OF conjunct2 [OF conjunct2 [OF *]], THEN spec, THEN mp, THEN mp, OF that])
qed

lemma current_okI:
  assumes "\<And>d t. d < CONFIG_MAX_CPUS \<Longrightarrow> current_thread (cpu_q s d) = Some t \<Longrightarrow> t < MAX_THREADS \<and>
      state (thr s t) \<noteq> KTHREAD_STATE_READY \<and> (c \<noteq> Some d \<longrightarrow> state (thr s t) = KTHREAD_STATE_RUNNING)"
    and "\<And>d e t. d < CONFIG_MAX_CPUS \<Longrightarrow> e < CONFIG_MAX_CPUS \<Longrightarrow> current_thread (cpu_q s d) = Some t \<Longrightarrow>
      current_thread (cpu_q s e) = Some t \<Longrightarrow> e = d"
  shows "current_ok c s"
  using assms unfolding current_ok_def by blast

lemma idle_okI:
  assumes "\<And>c i. c < CONFIG_MAX_CPUS \<Longrightarrow> idle_thread (cpu_q s c) = Some i \<Longrightarrow>
      i < MAX_THREADS \<and> (state (thr s i) = KTHREAD_STATE_READY \<or> state (thr s i) = KTHREAD_STATE_RUNNING)"
    and "\<And>c d i p. c < CONFIG_MAX_CPUS \<Longrightarrow> d < CONFIG_MAX_CPUS \<Longrightarrow> idle_thread (cpu_q s c) = Some i \<Longrightarrow> i \<in> set (rq d p) \<Longrightarrow> d = c"
    and "\<And>c d i p. c < CONFIG_MAX_CPUS \<Longrightarrow> d < CONFIG_MAX_CPUS \<Longrightarrow> idle_thread (cpu_q s c) = Some i \<Longrightarrow>
      current_thread (cpu_q s d) = Some i \<Longrightarrow> d = c"
    and "\<And>c d i p. c < CONFIG_MAX_CPUS \<Longrightarrow> d < CONFIG_MAX_CPUS \<Longrightarrow> idle_thread (cpu_q s c) = Some i \<Longrightarrow>
      idle_thread (cpu_q s d) = Some i \<Longrightarrow> d = c"
  shows "idle_ok s rq"
  using assms unfolding idle_ok_def by blast

lemma idle_okD:
  assumes "idle_ok s rq" and "c < CONFIG_MAX_CPUS" and "idle_thread (cpu_q s c) = Some i"
  shows "i < MAX_THREADS" and "state (thr s i) = KTHREAD_STATE_READY \<or> state (thr s i) = KTHREAD_STATE_RUNNING"
    and "d < CONFIG_MAX_CPUS \<Longrightarrow> i \<in> set (rq d p) \<Longrightarrow> d = c"
    and "d < CONFIG_MAX_CPUS \<Longrightarrow> current_thread (cpu_q s d) = Some i \<Longrightarrow> d = c"
    and "d < CONFIG_MAX_CPUS \<Longrightarrow> idle_thread (cpu_q s d) = Some i \<Longrightarrow> d = c"
  using assms unfolding idle_ok_def by blast+

lemma on_readyI: "c < CONFIG_MAX_CPUS \<Longrightarrow> t \<in> set (rq c p) \<Longrightarrow> on_ready rq t"
  unfolding on_ready_def by blast

lemma on_readyE:
  assumes "on_ready rq t"
  obtains c p where "c < CONFIG_MAX_CPUS" "t \<in> set (rq c p)"
  using assms unfolding on_ready_def by blast

lemma on_ready_state:
  assumes "rq_inv s W rq wq" and "on_ready rq t"
  shows "state (thr s t) = KTHREAD_STATE_READY" and "t < MAX_THREADS"
  using assms rq_invD(4) [OF assms(1)] links_okD(4) [OF rq_invD(1) [OF assms(1)]] by (blast elim: on_readyE)+

section \<open>The choice\<close>

definition next_thread :: "sched \<Rightarrow> (nat \<Rightarrow> u8 \<Rightarrow> nat list) \<Rightarrow> nat \<Rightarrow> nat option" where
  "next_thread s rq c = (case highest (rq c) of None \<Rightarrow> idle_thread (cpu_q s c) | Some p \<Rightarrow> Some (hd (rq c p)))"

definition rq_take :: "nat \<Rightarrow> (nat \<Rightarrow> u8 \<Rightarrow> nat list) \<Rightarrow> nat \<Rightarrow> u8 \<Rightarrow> nat list" where
  "rq_take c rq = (case highest (rq c) of None \<Rightarrow> rq | Some p \<Rightarrow> rq_upd c p (tl (rq c p)) rq)"

lemma class_pick:
  assumes "rq_inv s W rq wq" and "class_ok s" and "c < CONFIG_MAX_CPUS"
  shows "sched_class_pick_next c s = Some (case highest (rq c) of None \<Rightarrow> None | Some p \<Rightarrow> Some (hd (rq c p)))"
proof -
  note p = pick_next_locked [OF assms(1,3)]
  have "class_pick_loop c None s = Some None" by (simp add: class_pick_loop.simps)
  then have "class_pick_loop c (Some sched_rr) s = Some (case highest (rq c) of None \<Rightarrow> None | Some p \<Rightarrow> Some (hd (rq c p)))"
    using assms(2) by (subst class_pick_loop.simps) (simp add: class_ok_def p split: option.split)
  then show ?thesis using assms(2) by (simp add: sched_class_pick_next_def class_ok_def)
qed

lemma on_ready_take:
  assumes "links_ok h W rq wq" and "c < CONFIG_MAX_CPUS"
  shows "on_ready (rq_take c rq) t \<longleftrightarrow> on_ready rq t \<and> (\<forall>p. highest (rq c) = Some p \<longrightarrow> t \<noteq> hd (rq c p))"
proof (cases "highest (rq c)")
  case None
  then show ?thesis by (simp add: rq_take_def)
next
  case (Some p)
  obtain x xs where q: "rq c p = x # xs" using highestD(1) [OF Some] by (cases "rq c p") auto
  have "distinct (x # xs)" using links_okD(3) [OF assms, of p] q by simp
  have *: "t \<in> set (rq_take c rq d r) \<longleftrightarrow> t \<in> set (rq d r) \<and> t \<noteq> x" if "d < CONFIG_MAX_CPUS" for d r
    using Some q \<open>distinct (x # xs)\<close> links_okD(5) [OF assms(1) that assms(2), of t r p]
    by (cases "d = c") (auto simp: rq_take_def)
  then show ?thesis using Some q by (auto simp: on_ready_def)
qed

text \<open>The dequeued state: the chosen thread has left its queue.\<close>

lemma deq_next_inv:
  assumes inv: "rq_inv s W rq wq" and c: "c < CONFIG_MAX_CPUS" and n: "next_thread s rq c = Some t"
    and i: "highest (rq c) = None \<Longrightarrow> t < MAX_THREADS \<and> \<not> on_ready rq t"
  shows "rq_inv (if state (thr s t) = KTHREAD_STATE_READY then sched_dequeue_locked c t s else s) W (rq_take c rq) wq"
proof (cases "highest (rq c)")
  case None
  then have "rq c p = []" for p by (auto simp: highest_def split: if_splits)
  then show ?thesis using dequeue_unqueued [OF inv c] i [OF None] inv None by (simp add: rq_take_def)
next
  case (Some p)
  then have t: "t = hd (rq c p)" using n by (simp add: next_thread_def)
  have "rq c p \<noteq> []" by (rule highestD [OF Some])
  then have m: "t \<in> set (rq c p)" "remove1 t (rq c p) = tl (rq c p)" using t by (cases "rq c p"; simp)+
  show ?thesis using dequeue_inv [OF inv c m(1)] rq_invD(4) [OF inv c m(1)] Some m(2) by (simp add: rq_take_def)
qed

section \<open>The switch\<close>

definition put_back :: "sched \<Rightarrow> nat \<Rightarrow> nat \<Rightarrow> (nat \<Rightarrow> u8 \<Rightarrow> nat list) \<Rightarrow> nat \<Rightarrow> u8 \<Rightarrow> nat list" where
  "put_back s c p rq = (if state (thr s p) = KTHREAD_STATE_RUNNING
     then rq_upd c (prio (thr s p)) (rq c (prio (thr s p)) @ [p]) rq else rq)"

definition switched :: "sched \<Rightarrow> nat \<Rightarrow> nat \<Rightarrow> nat \<Rightarrow> kthread" where
  "switched s p t u =
     (if u = t then (thr s t)\<lparr>state := KTHREAD_STATE_RUNNING\<rparr>
      else if u = p \<and> state (thr s p) = KTHREAD_STATE_RUNNING then (thr s p)\<lparr>state := KTHREAD_STATE_READY\<rparr>
      else thr s u)"

lemma switch_to_fields:
  assumes "p \<noteq> t"
  shows "thr (switch_to c (Some p) t s) = switched s p t"
    and "current_thread (cpu_q (switch_to c (Some p) t s) d) = (if d = c then Some t else current_thread (cpu_q s d))"
    and "idle_thread (cpu_q (switch_to c (Some p) t s) d) = idle_thread (cpu_q s d)"
    and "s_sched_class_head (switch_to c (Some p) t s) = s_sched_class_head s"
    and "class_next (switch_to c (Some p) t s) = class_next s"
proof -
  show "thr (switch_to c (Some p) t s) = switched s p t"
    using assms by (auto simp: switch_to_def switched_def Let_def upd_thr_def upd_cpu_def fun_eq_iff)
qed (simp_all add: switch_to_def Let_def upd_thr_def upd_cpu_def)

lemma switch_to_inv:
  assumes inv: "rq_inv s W rq wq" and c: "c < CONFIG_MAX_CPUS" and p: "p < MAX_THREADS" "\<not> on_ready rq p"
    and t: "\<not> on_ready rq t" "p \<noteq> t"
  shows "rq_inv (switch_to c (Some p) t s) W (put_back s c p rq) wq"
proof -
  let ?s = "upd_thr p (\<lambda>k. k\<lparr>state := KTHREAD_STATE_READY\<rparr>) s"
  define s1 where "s1 = (if state (thr s p) = KTHREAD_STATE_RUNNING then sched_enqueue_locked c p ?s else s)"
  have "rq_inv ?s W rq wq" using p by (intro rq_inv_cong [OF inv]) (auto simp: upd_thr_def)
  then have s1: "rq_inv s1 W (put_back s c p rq) wq"
    using enqueue_inv [of ?s W rq wq c p] c p inv by (auto simp: s1_def put_back_def upd_thr_def)
  have "\<not> on_ready (put_back s c p rq) t"
    using t by (auto simp: put_back_def on_ready_def rq_upd_def split: if_splits)
  then have "rq_inv (upd_thr t (\<lambda>k. k\<lparr>state := KTHREAD_STATE_RUNNING\<rparr>)
      (upd_cpu c (\<lambda>q. q\<lparr>current_thread := Some t\<rparr>) s1)) W (put_back s c p rq) wq"
    by (intro rq_inv_cong [OF s1]) (auto simp: upd_thr_def upd_cpu_def)
  then show ?thesis by (simp add: switch_to_def s1_def)
qed

definition after_switch :: "sched \<Rightarrow> nat \<Rightarrow> nat \<Rightarrow> nat \<Rightarrow> (nat \<Rightarrow> u8 \<Rightarrow> nat list) \<Rightarrow> nat \<Rightarrow> u8 \<Rightarrow> nat list" where
  "after_switch s c p t rq = (if t = p then rq_take c rq else put_back s c p (rq_take c rq))"

lemma next_thread_facts:
  assumes "sched_pre (Some c) s W rq wq" and "c < CONFIG_MAX_CPUS" and "next_thread s rq c = Some t"
  shows "t < MAX_THREADS" and "\<not> on_ready (rq_take c rq) t" and "highest (rq c) = None \<Longrightarrow> \<not> on_ready rq t"
    and "d < CONFIG_MAX_CPUS \<Longrightarrow> current_thread (cpu_q s d) = Some t \<Longrightarrow> d = c"
    and "d < CONFIG_MAX_CPUS \<Longrightarrow> idle_thread (cpu_q s d) = Some t \<Longrightarrow> d = c"
    and "state (thr s t) = KTHREAD_STATE_READY \<or> state (thr s t) = KTHREAD_STATE_RUNNING"
proof -
  note i = sched_preD [OF assms(1)]
  note l = rq_invD(1) [OF i(1)]
  show A: "\<not> on_ready rq t" if h: "highest (rq c) = None"
  proof
    assume "on_ready rq t"
    then obtain d p where d: "d < CONFIG_MAX_CPUS" "t \<in> set (rq d p)" by (rule on_readyE)
    have "idle_thread (cpu_q s c) = Some t" using assms(3) h by (simp add: next_thread_def)
    then have "d = c" using idle_okD(3) [OF i(4) assms(2)] d by blast
    then show False using d h by (auto simp: highest_def split: if_splits)
  qed
  have q: "t \<in> set (rq c p)" if "highest (rq c) = Some p" for p
    using that assms(3) highestD(1) [OF that] by (auto simp: next_thread_def)
  have idle: "idle_thread (cpu_q s c) = Some t" if "highest (rq c) = None" using that assms(3) by (simp add: next_thread_def)
  show "t < MAX_THREADS"
    using links_okD(4) [OF l assms(2) q] idle_okD(1) [OF i(4) assms(2) idle] by (cases "highest (rq c)") auto
  show "\<not> on_ready (rq_take c rq) t"
    using A assms(3) on_ready_take [OF l assms(2), of t] by (cases "highest (rq c)") (auto simp: next_thread_def)
  have r: "state (thr s t) = KTHREAD_STATE_READY" if "highest (rq c) = Some p" for p
    by (rule rq_invD(4) [OF i(1) assms(2) q [OF that]])
  show "state (thr s t) = KTHREAD_STATE_READY \<or> state (thr s t) = KTHREAD_STATE_RUNNING"
    using r idle_okD(2) [OF i(4) assms(2) idle] by (cases "highest (rq c)") auto
  show "d = c" if "d < CONFIG_MAX_CPUS" "current_thread (cpu_q s d) = Some t"
    using idle_okD(4) [OF i(4) assms(2) idle that] r current_okD(3) [OF i(3) that] by (cases "highest (rq c)") auto
  show "d = c" if "d < CONFIG_MAX_CPUS" "idle_thread (cpu_q s d) = Some t"
    using idle_okD(5) [OF i(4) assms(2) idle that] idle_okD(3) [OF i(4) that assms(2) q] by (cases "highest (rq c)") auto
qed

section \<open>Schedule\<close>

lemma set_tlD: "x \<in> set (tl xs) \<Longrightarrow> x \<in> set xs"
  by (cases xs) auto

lemma after_switch_mem:
  assumes "links_ok h W rq wq" and "c < CONFIG_MAX_CPUS" and "d < CONFIG_MAX_CPUS" and "u \<in> set (after_switch s c p t rq d q)"
    and "next_thread s rq c = Some t"
  shows "u \<in> set (rq d q) \<and> (u = t \<longrightarrow> highest (rq c) = None) \<or>
    u = p \<and> d = c \<and> p \<noteq> t \<and> state (thr s p) = KTHREAD_STATE_RUNNING"
proof -
  have "u \<in> set (rq d q) \<and> (u = t \<longrightarrow> highest (rq c) = None)" if u: "u \<in> set (rq_take c rq d q)"
  proof -
    have "u \<in> set (rq d q)"
      using u by (cases "highest (rq c)"; cases "d = c") (auto simp: rq_take_def split: if_splits intro: set_tlD)
    moreover have "on_ready (rq_take c rq) u" using on_readyI [OF assms(3), of u "rq_take c rq" q] u by blast
    ultimately show ?thesis
      using on_ready_take [OF assms(1,2), of u] assms(5) by (cases "highest (rq c)") (auto simp: next_thread_def)
  qed
  then show ?thesis
    using assms(4) by (cases "d = c") (auto simp: after_switch_def put_back_def split: if_splits)
qed

definition scheduled :: "nat \<Rightarrow> nat \<Rightarrow> nat \<Rightarrow> sched \<Rightarrow> sched" where
  "scheduled c p t s =
     (let s1 = (if state (thr s t) = KTHREAD_STATE_READY then sched_dequeue_locked c t s else s)
      in if t = p then s1 else switch_to c (Some p) t s1)"

lemma schedule_eq:
  assumes "sched_pre (Some c) s W rq wq" and "c < CONFIG_MAX_CPUS" and "current_thread (cpu_q s c) = Some p"
    and "next_thread s rq c = Some t"
  shows "schedule g c s = (if t \<noteq> p \<and> g p
    then schedule g c (upd_thr t (\<lambda>k. k\<lparr>state := KTHREAD_STATE_DEAD\<rparr>) (scheduled c p t s)) else Some (scheduled c p t s))"
proof -
  note pick = class_pick [OF sched_preD(1,2) [OF assms(1)] assms(2)]
  have "(case (case highest (rq c) of None \<Rightarrow> None | Some p \<Rightarrow> Some (hd (rq c p))) of None \<Rightarrow> idle_thread (cpu_q s c) | Some t \<Rightarrow> Some t)
      = Some t" using assms(4) by (simp add: next_thread_def split: option.splits)
  then show ?thesis
    by (subst schedule.simps) (auto simp: pick assms(3) scheduled_def Let_def)
qed

lemma scheduled_fields:
  assumes "sched_pre (Some c) s W rq wq" and "c < CONFIG_MAX_CPUS" and "current_thread (cpu_q s c) = Some p"
    and "next_thread s rq c = Some t"
  shows "thr (scheduled c p t s) = switched s p t"
    and "current_thread (cpu_q (scheduled c p t s) d) = (if d = c then Some t else current_thread (cpu_q s d))"
    and "idle_thread (cpu_q (scheduled c p t s) d) = idle_thread (cpu_q s d)"
    and "s_sched_class_head (scheduled c p t s) = s_sched_class_head s" and "class_next (scheduled c p t s) = class_next s"
proof -
  have tp: "state (thr s t) = KTHREAD_STATE_RUNNING" if "t = p"
    using that next_thread_facts(6) [OF assms(1,2,4)] current_okD(3) [OF sched_preD(3) [OF assms(1)] assms(2,3)] by auto
  have id: "k\<lparr>state := KTHREAD_STATE_RUNNING\<rparr> = k" if "state k = KTHREAD_STATE_RUNNING" for k :: kthread
    using that by (cases k) simp
  show "thr (scheduled c p t s) = switched s p t"
  proof (cases "t = p")
    case True
    then show ?thesis using tp id by (auto simp: scheduled_def Let_def switched_def fun_eq_iff)
  next
    case False
    then show ?thesis
      using switch_to_fields(1) [of p t c] by (simp add: scheduled_def Let_def switched_def fun_eq_iff)
  qed
qed (use switch_to_fields(2-5) [of p t c] assms(3) in \<open>auto simp: scheduled_def Let_def\<close>)

text \<open>A CPU \<open>c\<close> gets a new current thread \<open>t\<close>.\<close>

lemma current_switch:
  assumes "current_ok k s" and "k = None \<or> k = Some c" and f: "\<And>d. current_thread (cpu_q s' d) = (if d = c then Some t else current_thread (cpu_q s d))"
    and t: "t < MAX_THREADS" "state (thr s' t) = KTHREAD_STATE_RUNNING" "\<And>d. d < CONFIG_MAX_CPUS \<Longrightarrow> current_thread (cpu_q s d) = Some t \<Longrightarrow> d = c"
    and o: "\<And>d u. d < CONFIG_MAX_CPUS \<Longrightarrow> d \<noteq> c \<Longrightarrow> current_thread (cpu_q s d) = Some u \<Longrightarrow> u \<noteq> t \<Longrightarrow> thr s' u = thr s u"
  shows "current_ok None s'"
proof (rule current_okI)
  fix d u assume d: "d < CONFIG_MAX_CPUS" "current_thread (cpu_q s' d) = Some u"
  show "u < MAX_THREADS \<and> state (thr s' u) \<noteq> KTHREAD_STATE_READY \<and> (None \<noteq> Some d \<longrightarrow> state (thr s' u) = KTHREAD_STATE_RUNNING)"
  proof (cases "d = c")
    case True
    then show ?thesis using d(2) f t by simp
  next
    case False
    then have u: "current_thread (cpu_q s d) = Some u" using d(2) f by simp
    then have "u \<noteq> t" using False t(3) [OF d(1)] by blast
    then show ?thesis using False assms(2) current_okD(1-3) [OF assms(1) d(1) u] o [OF d(1) False u] by auto
  qed
next
  fix d e u
  assume "d < CONFIG_MAX_CPUS" "e < CONFIG_MAX_CPUS" "current_thread (cpu_q s' d) = Some u" "current_thread (cpu_q s' e) = Some u"
  then show "e = d" using f [of d] f [of e] t(3) [of d] t(3) [of e] current_okD(4) [OF assms(1), of d u e]
    by (metis option.inject)
qed

lemma idle_switch:
  assumes "idle_ok s rq" and f: "\<And>d. current_thread (cpu_q s' d) = (if d = c then Some t else current_thread (cpu_q s d))"
      "\<And>d. idle_thread (cpu_q s' d) = idle_thread (cpu_q s d)"
    and t: "\<And>d. d < CONFIG_MAX_CPUS \<Longrightarrow> idle_thread (cpu_q s d) = Some t \<Longrightarrow> d = c"
    and st: "\<And>u. state (thr s u) = KTHREAD_STATE_READY \<or> state (thr s u) = KTHREAD_STATE_RUNNING \<Longrightarrow>
      state (thr s' u) = KTHREAD_STATE_READY \<or> state (thr s' u) = KTHREAD_STATE_RUNNING"
    and m: "\<And>d e u q. d < CONFIG_MAX_CPUS \<Longrightarrow> e < CONFIG_MAX_CPUS \<Longrightarrow> idle_thread (cpu_q s d) = Some u \<Longrightarrow> u \<in> set (rq' e q) \<Longrightarrow> e = d"
  shows "idle_ok s' rq'"
proof (rule idle_okI)
  fix d u assume d: "d < CONFIG_MAX_CPUS" "idle_thread (cpu_q s' d) = Some u"
  then show "u < MAX_THREADS \<and> (state (thr s' u) = KTHREAD_STATE_READY \<or> state (thr s' u) = KTHREAD_STATE_RUNNING)"
    using f(2) [of d] idle_okD(1,2) [OF assms(1) d(1), of u] st [of u] by auto
next
  fix d e u q assume "d < CONFIG_MAX_CPUS" "e < CONFIG_MAX_CPUS" "idle_thread (cpu_q s' d) = Some u" "u \<in> set (rq' e q)"
  then show "e = d" using m [of d e u q] f(2) [of d] by metis
next
  fix d e u assume d: "d < CONFIG_MAX_CPUS" "e < CONFIG_MAX_CPUS" "idle_thread (cpu_q s' d) = Some u" "current_thread (cpu_q s' e) = Some u"
  then show "e = d" using f(1) [of e] f(2) [of d] t [of d] idle_okD(4) [OF assms(1) d(1), of u e] by (metis option.inject)
next
  fix d e u assume d: "d < CONFIG_MAX_CPUS" "e < CONFIG_MAX_CPUS" "idle_thread (cpu_q s' d) = Some u" "idle_thread (cpu_q s' e) = Some u"
  then show "e = d" using f(2) [of d] f(2) [of e] idle_okD(5) [OF assms(1) d(1), of u e] by metis
qed

lemma scheduled_inv:
  assumes "sched_pre (Some c) s W rq wq" and "c < CONFIG_MAX_CPUS" and "current_thread (cpu_q s c) = Some p"
    and "next_thread s rq c = Some t"
  shows "sched_inv (scheduled c p t s) W (after_switch s c p t rq) wq"
proof -
  let ?s = "scheduled c p t s" let ?s1 = "if state (thr s t) = KTHREAD_STATE_READY then sched_dequeue_locked c t s else s"
  let ?rq = "after_switch s c p t rq"
  note i = sched_preD [OF assms(1)] note l = rq_invD(1) [OF i(1)]
  note f = scheduled_fields [OF assms] note n = next_thread_facts [OF assms(1,2,4)]
  note p = current_okD [OF i(3) assms(2,3)]
  have np: "\<not> on_ready rq p" using on_ready_state(1) [OF i(1)] p(3) by blast
  then have np': "\<not> on_ready (rq_take c rq) p" using on_ready_take [OF l assms(2)] by blast
  have s1: "rq_inv ?s1 W (rq_take c rq) wq" using n by (intro deq_next_inv [OF i(1) assms(2,4)]) auto
  have "put_back ?s1 c p = put_back s c p" by (auto simp: put_back_def fun_eq_iff)
  then have "rq_inv ?s W ?rq wq"
    using s1 switch_to_inv [OF s1 assms(2) p(1) np' n(2)] by (auto simp: scheduled_def after_switch_def Let_def)
  moreover have "class_ok ?s" using i(2) f(4,5) by (simp add: class_ok_def)
  moreover have "current_ok None ?s"
  proof (rule current_switch [OF i(3) _ f(2) n(1)])
    fix d u assume d: "d < CONFIG_MAX_CPUS" "d \<noteq> c" "current_thread (cpu_q s d) = Some u" "u \<noteq> t"
    then have "u \<noteq> p" using p(4) [OF d(1)] by blast
    then show "thr ?s u = thr s u" using d(4) f(1) by (simp add: switched_def)
  qed (use n(4) f(1) in \<open>auto simp: switched_def\<close>)
  moreover have "idle_ok ?s ?rq"
  proof (rule idle_switch [OF i(4) f(2,3) n(5)])
    fix d e u q assume d: "d < CONFIG_MAX_CPUS" "e < CONFIG_MAX_CPUS" "idle_thread (cpu_q s d) = Some u" "u \<in> set (?rq e q)"
    then show "e = d"
      using after_switch_mem [OF l assms(2) d(2,4) assms(4)] idle_okD(3,4) [OF i(4) d(1)] d(2,3) assms(2,3) by blast
  qed (use f(1) in \<open>auto simp: switched_def\<close>)
  moreover have "wait_ok ?s W wq"
    unfolding wait_ok_def
  proof (intro ballI)
    fix a u assume "a \<in> W" "u \<in> set (wq a)"
    then have w: "state (thr s u) = wait_state a" using i(5) by (simp add: wait_ok_def)
    then have "u \<noteq> t" using n(6) wait_state_cases [of a] by auto
    moreover have "u \<noteq> p \<or> state (thr s p) \<noteq> KTHREAD_STATE_RUNNING" using w wait_state_cases [of a] by auto
    ultimately show "state (thr ?s u) = wait_state a" using w f(1) by (auto simp: switched_def)
  qed
  ultimately show ?thesis by (simp add: sched_pre_def)
qed

end
