(* ===== verification/Sched_Ops.thy ===== *)
theory Sched_Ops
  imports Sched_Run
begin

text \<open>
  Every operation of the scheduler and of the threads preserves \<open>sched_inv\<close>; with the effect of each on the queues.
\<close>

section \<open>Frames\<close>

lemma sched_pre_cong:
  assumes "sched_pre c s W rq wq" and "slinks s' = slinks s"
    and q: "\<And>d. bitmap (cpu_q s' d) = bitmap (cpu_q s d) \<and> nr_running (cpu_q s' d) = nr_running (cpu_q s d) \<and>
      current_thread (cpu_q s' d) = current_thread (cpu_q s d) \<and> idle_thread (cpu_q s' d) = idle_thread (cpu_q s d)"
    and t: "\<And>t. state (thr s' t) = state (thr s t) \<and> prio (thr s' t) = prio (thr s t)"
    and "s_sched_class_head s' = s_sched_class_head s" and "class_next s' = class_next s"
  shows "sched_pre c s' W rq wq"
proof -
  note i = sched_preD [OF assms(1)]
  have "rq_inv s' W rq wq" by (rule rq_inv_cong [OF i(1) assms(2)]) (simp_all add: q t)
  moreover have "current_ok c s' = current_ok c s" by (simp only: current_ok_def q t)
  moreover have "idle_ok s' rq = idle_ok s rq" by (simp only: idle_ok_def q t)
  moreover have "wait_ok s' W wq = wait_ok s W wq" by (simp only: wait_ok_def t)
  ultimately show ?thesis using i(2-5) assms(5,6) by (simp add: sched_pre_def class_ok_def)
qed

text \<open>A thread that is neither waiting for a CPU nor current nor idle may change its state and priority at will, as long as its wait queues agree.\<close>

lemma sched_pre_thread:
  assumes "sched_pre c s W rq wq" and "slinks s' = slinks s"
    and q: "\<And>d. bitmap (cpu_q s' d) = bitmap (cpu_q s d) \<and> nr_running (cpu_q s' d) = nr_running (cpu_q s d) \<and>
      current_thread (cpu_q s' d) = current_thread (cpu_q s d) \<and> idle_thread (cpu_q s' d) = idle_thread (cpu_q s d)"
    and t: "\<And>u. u \<noteq> t \<Longrightarrow> state (thr s' u) = state (thr s u) \<and> prio (thr s' u) = prio (thr s u)"
    and "s_sched_class_head s' = s_sched_class_head s" and "class_next s' = class_next s"
    and "\<not> on_ready rq t" and "\<And>d. d < CONFIG_MAX_CPUS \<Longrightarrow> current_thread (cpu_q s d) \<noteq> Some t"
    and "\<And>d. d < CONFIG_MAX_CPUS \<Longrightarrow> idle_thread (cpu_q s d) \<noteq> Some t" and "\<And>a. a \<in> W \<Longrightarrow> t \<notin> set (wq a)"
  shows "sched_pre c s' W rq wq"
proof -
  note i = sched_preD [OF assms(1)]
  have "rq_inv s' W rq wq" using assms(7) t q by (intro rq_inv_cong [OF i(1) assms(2)]) metis+
  moreover have "current_ok c s'"
    using current_okD [OF i(3)] assms(8) q t by (intro current_okI) metis+
  moreover have "idle_ok s' rq"
    using idle_okD [OF i(4)] assms(9) q t by (intro idle_okI) metis+
  moreover have "wait_ok s' W wq" using i(5) assms(10) t unfolding wait_ok_def by metis
  ultimately show ?thesis using i(2) assms(5,6) by (simp add: sched_pre_def class_ok_def)
qed

section \<open>Calls of schedule\<close>

definition ready_to_run :: "(nat \<Rightarrow> bool) \<Rightarrow> nat \<Rightarrow> sched \<Rightarrow> bool" where
  "ready_to_run g c s \<longleftrightarrow> c < CONFIG_MAX_CPUS \<and> idle_thread (cpu_q s c) \<noteq> None \<and>
     (\<exists>p. current_thread (cpu_q s c) = Some p \<and> \<not> g p)"

lemma next_thread_exists:
  assumes "idle_thread (cpu_q s c) \<noteq> None"
  obtains t where "next_thread s rq c = Some t"
  using assms by (cases "highest (rq c)") (auto simp: next_thread_def)

text \<open>A thread that takes no part in scheduling.\<close>

definition loose :: "sched \<Rightarrow> (nat \<Rightarrow> u8 \<Rightarrow> nat list) \<Rightarrow> nat \<Rightarrow> bool" where
  "loose s rq t \<longleftrightarrow> t < MAX_THREADS \<and> \<not> on_ready rq t \<and>
     (\<forall>d<CONFIG_MAX_CPUS. current_thread (cpu_q s d) \<noteq> Some t \<and> idle_thread (cpu_q s d) \<noteq> Some t)"

definition keeps_loose :: "sched \<Rightarrow> (nat \<Rightarrow> u8 \<Rightarrow> nat list) \<Rightarrow> sched \<Rightarrow> (nat \<Rightarrow> u8 \<Rightarrow> nat list) \<Rightarrow> bool" where
  "keeps_loose s rq s' rq' \<longleftrightarrow> (\<forall>t. loose s rq t \<longrightarrow> loose s' rq' t \<and> thr s' t = thr s t)"

lemma keeps_loose_cong:
  assumes "keeps_loose s rq s' rq'" and "\<And>d. current_thread (cpu_q r d) = current_thread (cpu_q s d)"
    and "\<And>d. idle_thread (cpu_q r d) = idle_thread (cpu_q s d)" and "thread_table r = thread_table s"
  shows "keeps_loose r rq s' rq'"
  using assms by (simp add: keeps_loose_def loose_def)

lemma scheduled_loose:
  assumes "sched_pre (Some c) s W rq wq" and "c < CONFIG_MAX_CPUS" and "current_thread (cpu_q s c) = Some p"
    and "next_thread s rq c = Some t"
  shows "keeps_loose s rq (scheduled c p t s) (after_switch s c p t rq)"
  unfolding keeps_loose_def
proof (intro allI impI)
  fix u assume u: "loose s rq u"
  note f = scheduled_fields [OF assms] note l = rq_invD(1) [OF sched_preD(1) [OF assms(1)]]
  have "u \<noteq> p" using u assms(2,3) by (auto simp: loose_def)
  moreover have "u \<noteq> t"
  proof (cases "highest (rq c)")
    case None
    then show ?thesis using u assms(2,4) by (auto simp: loose_def next_thread_def)
  next
    case (Some q)
    then have "t \<in> set (rq c q)" using highestD(1) [OF Some] assms(4) by (auto simp: next_thread_def)
    then show ?thesis using u on_readyI [OF assms(2)] unfolding loose_def by blast
  qed
  moreover have "\<not> on_ready (after_switch s c p t rq) u"
  proof
    assume "on_ready (after_switch s c p t rq) u"
    then obtain d q where d: "d < CONFIG_MAX_CPUS" "u \<in> set (after_switch s c p t rq d q)" by (rule on_readyE)
    then have "u \<in> set (rq d q)" using after_switch_mem [OF l assms(2) d assms(4)] \<open>u \<noteq> p\<close> by blast
    then show False using u on_readyI [OF d(1)] unfolding loose_def by blast
  qed
  ultimately show "loose (scheduled c p t s) (after_switch s c p t rq) u \<and> thr (scheduled c p t s) u = thr s u"
    using u f(1-3) by (auto simp: loose_def switched_def)
qed

lemma schedule_inv:
  assumes "sched_pre (Some c) s W rq wq" and "ready_to_run g c s"
  shows "\<exists>s' rq'. schedule g c s = Some s' \<and> sched_inv s' W rq' wq \<and> keeps_loose s rq s' rq'"
proof -
  obtain p where p: "current_thread (cpu_q s c) = Some p" "\<not> g p" "c < CONFIG_MAX_CPUS" "idle_thread (cpu_q s c) \<noteq> None"
    using assms(2) by (auto simp: ready_to_run_def)
  obtain t where t: "next_thread s rq c = Some t" using next_thread_exists [OF p(4)] by blast
  show ?thesis
    using schedule_eq [OF assms(1) p(3,1) t, of g] p(2) scheduled_inv [OF assms(1) p(3,1) t] scheduled_loose [OF assms(1) p(3,1) t]
    by auto
qed

lemma clear_resched_inv:
  assumes "sched_pre c s W rq wq"
  shows "sched_pre c (upd_cpu d (\<lambda>q. q\<lparr>need_resched := n\<rparr>) s) W rq wq"
  by (rule sched_pre_cong [OF assms]) (auto simp: upd_cpu_def)

lemma ready_to_run_cong:
  assumes "\<And>d. current_thread (cpu_q s' d) = current_thread (cpu_q s d)" and "\<And>d. idle_thread (cpu_q s' d) = idle_thread (cpu_q s d)"
  shows "ready_to_run g c s' = ready_to_run g c s"
  by (simp add: ready_to_run_def assms)

lemma resched_inv:
  assumes "sched_inv s W rq wq" and "ready_to_run g c s"
  shows "\<exists>s' rq'. (let (flag, s1) = scheduler_test_and_clear_need_resched c s
      in if flag \<noteq> 0 then schedule g c s1 else Some s1) = Some s' \<and> sched_inv s' W rq' wq \<and> keeps_loose s rq s' rq'"
proof (cases "need_resched (cpu_q s c) = 0")
  case False
  let ?s = "upd_cpu c (\<lambda>q. q\<lparr>need_resched := 0\<rparr>) s"
  have "sched_pre (Some c) ?s W rq wq" by (rule clear_resched_inv [OF sched_inv_pre [OF assms(1)]])
  moreover have "ready_to_run g c ?s"
    using assms(2) ready_to_run_cong [of ?s s g c] by (auto simp: upd_cpu_def)
  ultimately obtain s' rq' where "schedule g c ?s = Some s'" "sched_inv s' W rq' wq" "keeps_loose ?s rq s' rq'"
    using schedule_inv [of c ?s] by blast
  moreover from this(3) have "keeps_loose s rq s' rq'" by (rule keeps_loose_cong) (auto simp: upd_cpu_def)
  ultimately show ?thesis
    using False by (auto simp: scheduler_test_and_clear_need_resched_def Let_def)
qed (use assms(1) in \<open>auto simp: scheduler_test_and_clear_need_resched_def Let_def keeps_loose_def\<close>)

lemma irq_exit_inv:
  assumes "sched_inv s W rq wq" and "ready_to_run g c s"
  shows "\<exists>s' rq'. scheduler_irq_exit_check g c s = Some s' \<and> sched_inv s' W rq' wq"
  using resched_inv [OF assms] assms(1) by (auto simp: scheduler_irq_exit_check_def)

text \<open>While no rescheduling is requested, \<^verbatim>\<open>preempt_enable\<close> needs no current thread.\<close>

lemma preempt_enable_inv:
  assumes "sched_inv s W rq wq" and "ready_to_run g c s \<or> need_resched (cpu_q s c) = 0"
  shows "\<exists>s' rq'. preempt_enable g c s = Some s' \<and> sched_inv s' W rq' wq \<and> keeps_loose s rq s' rq'"
proof -
  define s1 where "s1 = (if preempt_count s (percpu_ix c) > 0
    then s\<lparr>preempt_count := (preempt_count s)(percpu_ix c := preempt_count s (percpu_ix c) - 1)\<rparr> else s)"
  have f: "cpu_queues s1 = cpu_queues s" "thread_table s1 = thread_table s" by (simp_all add: s1_def)
  have i: "sched_inv s1 W rq wq" by (rule sched_pre_cong [OF assms(1)]) (auto simp: s1_def)
  have k: "keeps_loose s rq s' rq'" if "keeps_loose s1 rq s' rq'" for s' rq' using that by (rule keeps_loose_cong) (simp_all add: f)
  have e: "preempt_enable g c s = (if preempt_count s1 (percpu_ix c) = 0
      then (let (flag, s2) = scheduler_test_and_clear_need_resched c s1 in if flag \<noteq> 0 then schedule g c s2 else Some s2)
      else Some s1)" by (simp add: preempt_enable_def s1_def [symmetric] Let_def)
  have k1: "keeps_loose s1 rq s1 rq" by (simp add: keeps_loose_def)
  have r: "ready_to_run g c s1 = ready_to_run g c s" by (rule ready_to_run_cong) (simp_all add: f)
  have n: "(let (flag, s2) = scheduler_test_and_clear_need_resched c s1 in if flag \<noteq> 0 then schedule g c s2 else Some s2) = Some s1"
    if "need_resched (cpu_q s c) = 0" using that by (simp add: scheduler_test_and_clear_need_resched_def Let_def f)
  show ?thesis
  proof (cases "preempt_count s1 (percpu_ix c) = 0")
    case False
    then show ?thesis using e i k [OF k1] by auto
  next
    case True
    then show ?thesis unfolding e using n i k k1 resched_inv [OF i, of g c] r assms(2) by (simp del: Let_def) blast
  qed
qed

lemma preempt_disable_inv:
  assumes "sched_pre c s W rq wq"
  shows "sched_pre c (preempt_disable d s) W rq wq"
  by (rule sched_pre_cong [OF assms]) (auto simp: preempt_disable_def)

text \<open>The current thread stops running: it blocks, goes to sleep or ends.\<close>

lemma wait_not:
  assumes "wait_ok s W wq" and "state (thr s t) \<noteq> KTHREAD_STATE_SLEEPING" and "state (thr s t) \<noteq> KTHREAD_STATE_BLOCKED" and "a \<in> W"
  shows "t \<notin> set (wq a)"
  using assms wait_state_cases [of a] unfolding wait_ok_def by metis

lemma stop_current:
  assumes "sched_inv s W rq wq" and "c < CONFIG_MAX_CPUS" and "current_thread (cpu_q s c) = Some p"
    and "idle_thread (cpu_q s c) \<noteq> Some p" and "x \<noteq> KTHREAD_STATE_READY"
  shows "sched_pre (Some c) (upd_thr p (\<lambda>k. k\<lparr>state := x\<rparr>) s) W rq wq"
proof -
  let ?s = "upd_thr p (\<lambda>k. k\<lparr>state := x\<rparr>) s"
  note i = sched_preD [OF assms(1)] note p = current_okD [OF i(3) assms(2,3)]
  have np: "\<not> on_ready rq p" using on_ready_state(1) [OF i(1)] p(3) by blast
  have q: "cpu_q ?s d = cpu_q s d" for d by (simp add: upd_thr_def)
  have t: "thr ?s u = (if u = p then (thr s p)\<lparr>state := x\<rparr> else thr s u)" for u by (simp add: upd_thr_def)
  have "rq_inv ?s W rq wq" using np by (intro rq_inv_cong [OF i(1)]) (auto simp: upd_thr_def)
  moreover have "current_ok (Some c) ?s"
  proof (rule current_okI)
    fix d u assume d: "d < CONFIG_MAX_CPUS" "current_thread (cpu_q ?s d) = Some u"
    then have "u = p \<longrightarrow> d = c" using p(4) [of d] q by metis
    then show "u < MAX_THREADS \<and> state (thr ?s u) \<noteq> KTHREAD_STATE_READY \<and> (Some c \<noteq> Some d \<longrightarrow> state (thr ?s u) = KTHREAD_STATE_RUNNING)"
      using current_okD(1-3) [OF i(3) d(1), of u] d(2) q assms(5) by (simp add: t)
  qed (metis q current_okD(4) [OF i(3)])
  moreover have "idle_ok ?s rq"
  proof (rule idle_okI)
    fix d u assume d: "d < CONFIG_MAX_CPUS" "idle_thread (cpu_q ?s d) = Some u"
    then have u: "idle_thread (cpu_q s d) = Some u" using q by simp
    have "u \<noteq> p" using idle_okD(4) [OF i(4) d(1) u assms(2)] assms(3,4) u by metis
    then show "u < MAX_THREADS \<and> (state (thr ?s u) = KTHREAD_STATE_READY \<or> state (thr ?s u) = KTHREAD_STATE_RUNNING)"
      using idle_okD(1,2) [OF i(4) d(1) u] by (simp add: t)
  qed (metis q idle_okD(3-5) [OF i(4)])+
  moreover have "wait_ok ?s W wq"
    using i(5) wait_not [OF i(5), of p] p(2) unfolding wait_ok_def t by auto
  ultimately show ?thesis using i(2) by (simp add: sched_pre_def class_ok_def upd_thr_def)
qed

lemma kthread_exit_inv:
  assumes "sched_inv s W rq wq" and "ready_to_run g c s" and "current_thread (cpu_q s c) \<noteq> idle_thread (cpu_q s c)"
  shows "\<exists>s' rq'. kthread_exit g c s = Some s' \<and> sched_inv s' W rq' wq"
proof -
  obtain p where p: "current_thread (cpu_q s c) = Some p" "c < CONFIG_MAX_CPUS" using assms(2) by (auto simp: ready_to_run_def)
  have "ready_to_run g c (upd_thr p (\<lambda>k. k\<lparr>state := KTHREAD_STATE_DEAD\<rparr>) s)"
    using assms(2) ready_to_run_cong [of "upd_thr p (\<lambda>k. k\<lparr>state := KTHREAD_STATE_DEAD\<rparr>) s" s] by (simp add: upd_thr_def)
  moreover have "sched_pre (Some c) (upd_thr p (\<lambda>k. k\<lparr>state := KTHREAD_STATE_DEAD\<rparr>) s) W rq wq"
    by (rule stop_current [OF assms(1) p(2,1)]) (use assms(3) p in auto)
  ultimately show ?thesis using schedule_inv p(1) by (fastforce simp: kthread_exit_def)
qed

section \<open>Queueing operations\<close>

lemma idle_ok_rq:
  assumes "idle_ok s rq" and q: "\<And>d. current_thread (cpu_q s' d) = current_thread (cpu_q s d)"
      "\<And>d. idle_thread (cpu_q s' d) = idle_thread (cpu_q s d)" "thread_table s' = thread_table s"
    and m: "\<And>c d i p. c < CONFIG_MAX_CPUS \<Longrightarrow> d < CONFIG_MAX_CPUS \<Longrightarrow> idle_thread (cpu_q s c) = Some i \<Longrightarrow> i \<in> set (rq' d p) \<Longrightarrow> d = c"
  shows "idle_ok s' rq'"
  using assms(1) m unfolding idle_ok_def q by blast

text \<open>A thread of no queue that is ready joins the queue of its priority.\<close>

lemma enqueue_sched_inv:
  assumes "sched_pre c s W rq wq" and "d < CONFIG_MAX_CPUS" and "t < MAX_THREADS" and "\<not> on_ready rq t"
    and "state (thr s t) = KTHREAD_STATE_READY" and "\<And>e. e < CONFIG_MAX_CPUS \<Longrightarrow> idle_thread (cpu_q s e) = Some t \<Longrightarrow> e = d"
  shows "sched_pre c (scheduler_enqueue d (Some t) s) W (rq_upd d (prio (thr s t)) (rq d (prio (thr s t)) @ [t]) rq) wq"
proof -
  note i = sched_preD [OF assms(1)]
  have "rq_inv (sched_enqueue_locked d t s) W (rq_upd d (prio (thr s t)) (rq d (prio (thr s t)) @ [t]) rq) wq"
    by (rule enqueue_inv [OF i(1) assms(2-5)])
  moreover have "current_ok c (sched_enqueue_locked d t s) = current_ok c s" by (simp only: current_ok_def sched_fields)
  moreover have "idle_ok (sched_enqueue_locked d t s) (rq_upd d (prio (thr s t)) (rq d (prio (thr s t)) @ [t]) rq)"
  proof (rule idle_ok_rq [OF i(4)])
    fix e f i' p assume a: "e < CONFIG_MAX_CPUS" "f < CONFIG_MAX_CPUS"
      "idle_thread (cpu_q s e) = Some i'" "i' \<in> set (rq_upd d (prio (thr s t)) (rq d (prio (thr s t)) @ [t]) rq f p)"
    then have "i' \<in> set (rq f p) \<or> i' = t \<and> f = d" by (auto simp: rq_upd_def split: if_splits)
    then show "f = e" using idle_okD(3) [OF i(4) a(1,3,2), of p] a(3) assms(6) [OF a(1)] by blast
  qed simp_all
  moreover have "wait_ok (sched_enqueue_locked d t s) W wq = wait_ok s W wq" by (simp only: wait_ok_def sched_fields)
  ultimately show ?thesis using i by (simp add: sched_pre_def class_ok_def scheduler_enqueue_def)
qed

text \<open>A thread leaves its queue.\<close>

lemma dequeue_sched_inv:
  assumes "sched_pre c s W rq wq" and "d < CONFIG_MAX_CPUS" and "t \<in> set (rq d p)"
  shows "sched_pre c (scheduler_dequeue d (Some t) s) W (rq_upd d p (remove1 t (rq d p)) rq) wq"
    and "\<not> on_ready (rq_upd d p (remove1 t (rq d p)) rq) t"
proof -
  note i = sched_preD [OF assms(1)] note l = rq_invD(1) [OF i(1)]
  let ?rq = "rq_upd d p (remove1 t (rq d p)) rq"
  have sub: "u \<in> set (rq e q)" if "u \<in> set (?rq e q)" for u e q
    using that set_remove1_subset [of t "rq d p"] by (auto simp: rq_upd_def split: if_splits)
  have "rq_inv (sched_dequeue_locked d t s) W ?rq wq" by (rule dequeue_inv [OF i(1) assms(2,3)])
  moreover have "current_ok c (sched_dequeue_locked d t s) = current_ok c s" by (simp only: current_ok_def sched_fields)
  moreover have "idle_ok (sched_dequeue_locked d t s) ?rq"
  proof (rule idle_ok_rq [OF i(4)])
    fix e f i' q assume a: "e < CONFIG_MAX_CPUS" "f < CONFIG_MAX_CPUS"
      "idle_thread (cpu_q s e) = Some i'" "i' \<in> set (?rq f q)"
    then show "f = e" using idle_okD(3) [OF i(4) a(1,3,2), of q] sub by blast
  qed simp_all
  moreover have "wait_ok (sched_dequeue_locked d t s) W wq = wait_ok s W wq" by (simp only: wait_ok_def sched_fields)
  ultimately show "sched_pre c (scheduler_dequeue d (Some t) s) W ?rq wq"
    using i by (simp add: sched_pre_def class_ok_def scheduler_dequeue_def)
  have "t \<notin> set (?rq e q)" if "e < CONFIG_MAX_CPUS" for e q
  proof
    assume m: "t \<in> set (?rq e q)"
    then have "e = d \<and> q = p" using links_okD(5) [OF l that assms(2) sub assms(3)] by blast
    then show False using m links_okD(3) [OF l assms(2), of p] by simp
  qed
  then show "\<not> on_ready ?rq t" unfolding on_ready_def by blast
qed

section \<open>Threads\<close>

lemma loose_state:
  assumes "sched_inv s W rq wq" and "t < MAX_THREADS"
    and "state (thr s t) \<noteq> KTHREAD_STATE_READY" and "state (thr s t) \<noteq> KTHREAD_STATE_RUNNING"
  shows "loose s rq t"
proof -
  note i = sched_preD [OF assms(1)]
  have "\<not> on_ready rq t" using on_ready_state(1) [OF i(1)] assms(3) by blast
  moreover have "current_thread (cpu_q s d) \<noteq> Some t" if "d < CONFIG_MAX_CPUS" for d
    using current_okD(2) [OF i(3) that] assms(4) by blast
  moreover have "idle_thread (cpu_q s d) \<noteq> Some t" if "d < CONFIG_MAX_CPUS" for d
    using idle_okD(2) [OF i(4) that] assms(3,4) by blast
  ultimately show ?thesis using assms(2) unfolding loose_def by blast
qed

lemma loose_update:
  assumes "sched_pre c s W rq wq" and "loose s rq t" and "\<And>a. a \<in> W \<Longrightarrow> t \<notin> set (wq a)"
  shows "sched_pre c (upd_thr t f s) W rq wq"
proof (rule sched_pre_thread [OF assms(1), of "upd_thr t f s" t])
  show "\<not> on_ready rq t" using assms(2) unfolding loose_def by blast
qed (use assms(2,3) in \<open>auto simp: upd_thr_def loose_def\<close>)

lemma idle_first_update:
  assumes "loose s rq t"
  shows "idle_thread (cpu_q s e) = Some t \<Longrightarrow> e < CONFIG_MAX_CPUS \<Longrightarrow> e = d"
  using assms unfolding loose_def by blast

lemma kthread_suspend_inv:
  assumes "sched_inv s W rq wq" and "c < CONFIG_MAX_CPUS" and "unat i \<in> set (rq c p)"
    and "\<And>d. d < CONFIG_MAX_CPUS \<Longrightarrow> idle_thread (cpu_q s d) \<noteq> Some (unat i)"
  shows "fst (kthread_suspend c i s) = KERNEL_OK"
    and "sched_inv (snd (kthread_suspend c i s)) W (rq_upd c p (remove1 (unat i) (rq c p)) rq) wq"
proof -
  note v = sched_preD [OF assms(1)]
  let ?t = "unat i" let ?s = "scheduler_dequeue c (Some ?t) s" let ?rq = "rq_upd c p (remove1 ?t (rq c p)) rq"
  have st: "state (thr s ?t) = KTHREAD_STATE_READY" by (rule rq_invD(4) [OF v(1) assms(2,3)])
  have b: "?t < MAX_THREADS" by (rule links_okD(4) [OF rq_invD(1) [OF v(1)] assms(2,3)])
  note d = dequeue_sched_inv [OF assms(1-3)]
  have f: "thread_table ?s = thread_table s" "current_thread (cpu_q ?s e) = current_thread (cpu_q s e)"
      "idle_thread (cpu_q ?s e) = idle_thread (cpu_q s e)" for e by (simp_all add: scheduler_dequeue_def)
  have "current_thread (cpu_q s e) \<noteq> Some ?t" if "e < CONFIG_MAX_CPUS" for e using current_okD(3) [OF v(3) that] st by blast
  then have "loose ?s ?rq ?t" using d(2) b assms(4) unfolding loose_def f by blast
  moreover have "?t \<notin> set (wq a)" if "a \<in> W" for a using wait_not [OF v(5) _ _ that] st by simp
  ultimately have "sched_inv (upd_thr ?t (\<lambda>k. k\<lparr>state := KTHREAD_STATE_SUSPENDED\<rparr>) ?s) W ?rq wq"
    by (rule loose_update [OF d(1)])
  moreover have "get_thread_by_id i = Some ?t" using b by (simp add: get_thread_by_id_def word_le_nat_alt)
  ultimately show "fst (kthread_suspend c i s) = KERNEL_OK" and "sched_inv (snd (kthread_suspend c i s)) W ?rq wq"
    using st by (simp_all add: kthread_suspend_def)
qed

end
