(* ===== verification/Sched_Threads.thy ===== *)
theory Sched_Threads
  imports Sched_Ops
begin

text \<open>
  Threads, ticks and the start of the scheduler: resuming, changing priorities and creating threads preserve \<open>sched_inv\<close>, a tick
  changes the time slice and the rescheduling flag only, and initialisation establishes the invariant.
\<close>

section \<open>Resume and priority\<close>

lemma idle_loose:
  assumes "loose s rq t" and "e < CONFIG_MAX_CPUS" and "idle_thread (cpu_q s e) = Some t"
  shows "e = d"
  using assms unfolding loose_def by blast

lemma get_thread_unat: "unat i < MAX_THREADS \<Longrightarrow> get_thread_by_id i = Some (unat i)"
  by (simp add: get_thread_by_id_def word_le_nat_alt)

lemma current_get: "c < CONFIG_MAX_CPUS \<Longrightarrow> kthread_get_current c s = current_thread (cpu_q s c)"
  by (simp add: kthread_get_current_def)

lemma resume_enqueue:
  assumes "sched_inv s W rq wq" and "c < CONFIG_MAX_CPUS" and "t < MAX_THREADS" and "state (thr s t) = KTHREAD_STATE_SUSPENDED"
  shows "sched_inv (scheduler_enqueue c (Some t) (upd_thr t (\<lambda>k. k\<lparr>state := KTHREAD_STATE_READY\<rparr>) s)) W
    (rq_upd c (prio (thr s t)) (rq c (prio (thr s t)) @ [t]) rq) wq"
proof -
  let ?s = "upd_thr t (\<lambda>k. k\<lparr>state := KTHREAD_STATE_READY\<rparr>) s"
  have l: "loose s rq t" by (rule loose_state [OF assms(1,3)]) (simp_all add: assms(4))
  have "t \<notin> set (wq a)" if "a \<in> W" for a using wait_not [OF sched_preD(5) [OF assms(1)] _ _ that] assms(4) by simp
  then have "sched_inv ?s W rq wq" by (rule loose_update [OF assms(1) l])
  then show ?thesis
    using enqueue_sched_inv [of None ?s W rq wq c t] assms(2,3) l idle_loose [OF l] by (simp add: upd_thr_def loose_def)
qed

lemma kthread_resume_inv:
  assumes "sched_inv s W rq wq" and "ready_to_run g c s" and "unat i < MAX_THREADS"
    and "state (thr s (unat i)) = KTHREAD_STATE_SUSPENDED"
  shows "\<exists>s' rq'. kthread_resume g c i s = Some (KERNEL_OK, s') \<and> sched_inv s' W rq' wq"
proof -
  let ?s1 = "scheduler_enqueue c (Some (unat i)) (upd_thr (unat i) (\<lambda>k. k\<lparr>state := KTHREAD_STATE_READY\<rparr>) s)"
  have c: "c < CONFIG_MAX_CPUS" using assms(2) by (simp add: ready_to_run_def)
  note i1 = resume_enqueue [OF assms(1) c assms(3,4)]
  have "ready_to_run g c ?s1"
    using assms(2) ready_to_run_cong [of ?s1 s g c] by (simp add: scheduler_enqueue_def upd_thr_def)
  then obtain s' rq' where "schedule g c ?s1 = Some s'" "sched_inv s' W rq' wq"
    using schedule_inv [OF sched_inv_pre [OF i1]] by blast
  then show ?thesis
    using i1 assms(4) get_thread_unat [OF assms(3)] current_get [OF c]
    by (auto simp: kthread_resume_def Let_def split: option.split)
qed

lemma prio_update:
  assumes "sched_pre c s W rq wq" and "\<not> on_ready rq t"
  shows "sched_pre c (upd_thr t (\<lambda>k. k\<lparr>prio := p\<rparr>) s) W rq wq"
proof -
  let ?s = "upd_thr t (\<lambda>k. k\<lparr>prio := p\<rparr>) s"
  note i = sched_preD [OF assms(1)]
  have st: "state (thr ?s u) = state (thr s u)" and q: "cpu_queues ?s = cpu_queues s" for u by (simp_all add: upd_thr_def)
  have "rq_inv ?s W rq wq" using assms(2) by (intro rq_inv_cong [OF i(1)]) (auto simp: upd_thr_def)
  moreover have "current_ok c ?s = current_ok c s" by (simp only: current_ok_def st q)
  moreover have "idle_ok ?s rq = idle_ok s rq" by (simp only: idle_ok_def st q)
  moreover have "wait_ok ?s W wq = wait_ok s W wq" by (simp only: wait_ok_def st)
  ultimately show ?thesis using i by (simp add: sched_pre_def class_ok_def upd_thr_def)
qed

definition prio_changed :: "nat \<Rightarrow> nat \<Rightarrow> u8 \<Rightarrow> sched \<Rightarrow> sched" where
  "prio_changed c t q s = (if state (thr s t) = KTHREAD_STATE_READY
    then scheduler_enqueue c (Some t) (upd_thr t (\<lambda>k. k\<lparr>prio := q\<rparr>) (scheduler_dequeue c (Some t) s))
    else upd_thr t (\<lambda>k. k\<lparr>prio := q\<rparr>) s)"

lemma prio_changed_inv:
  assumes "sched_inv s W rq wq" and c: "c < CONFIG_MAX_CPUS" and "t < MAX_THREADS"
    and "state (thr s t) = KTHREAD_STATE_READY \<Longrightarrow> \<exists>p. t \<in> set (rq c p)"
  shows "\<exists>rq1. sched_inv (prio_changed c t q s) W rq1 wq"
proof (cases "state (thr s t) = KTHREAD_STATE_READY")
  case True
  then obtain p where p: "t \<in> set (rq c p)" using assms(4) by blast
  let ?s2 = "upd_thr t (\<lambda>k. k\<lparr>prio := q\<rparr>) (scheduler_dequeue c (Some t) s)"
  let ?rq = "rq_upd c p (remove1 t (rq c p)) rq"
  note d = dequeue_sched_inv [OF assms(1) c p]
  have "sched_inv ?s2 W ?rq wq" by (rule prio_update [OF d])
  moreover have "e = c" if "e < CONFIG_MAX_CPUS" "idle_thread (cpu_q ?s2 e) = Some t" for e
    using idle_okD(3) [OF sched_preD(4) [OF assms(1)] that(1) _ c p] that(2) by (auto simp: upd_thr_def scheduler_dequeue_def)
  moreover have "state (thr ?s2 t) = KTHREAD_STATE_READY" using True by (simp add: upd_thr_def scheduler_dequeue_def)
  ultimately show ?thesis
    using enqueue_sched_inv [of None ?s2 W ?rq wq c t] c assms(3) d(2) True by (auto simp: prio_changed_def)
next
  case False
  then have "\<not> on_ready rq t" using on_ready_state(1) [OF sched_preD(1) [OF assms(1)]] by blast
  then show ?thesis using prio_update [OF assms(1)] False by (auto simp: prio_changed_def)
qed

lemma set_priority_eq:
  assumes "unat i < MAX_THREADS" and "c < CONFIG_MAX_CPUS"
  shows "kthread_set_priority g c i q s = (let s1 = prio_changed c (unat i) q s in case current_thread (cpu_q s1 c) of None \<Rightarrow> Some (KERNEL_OK, s1)
      | Some d \<Rightarrow> if unat i \<noteq> d \<and> state (thr s1 (unat i)) = KTHREAD_STATE_READY \<and> prio (thr s1 (unat i)) > prio (thr s1 d)
          then map_option (Pair KERNEL_OK) (schedule g c s1) else Some (KERNEL_OK, s1))"
  unfolding kthread_set_priority_def get_thread_unat [OF assms(1)] option.case prio_changed_def [symmetric] current_get [OF assms(2)]
  by (rule refl)

lemma kthread_set_priority_inv:
  assumes "sched_inv s W rq wq" and "ready_to_run g c s" and "unat i < MAX_THREADS"
    and "state (thr s (unat i)) = KTHREAD_STATE_READY \<Longrightarrow> \<exists>p. unat i \<in> set (rq c p)"
  shows "\<exists>s' rq'. kthread_set_priority g c i q s = Some (KERNEL_OK, s') \<and> sched_inv s' W rq' wq"
proof -
  have c: "c < CONFIG_MAX_CPUS" using assms(2) by (simp add: ready_to_run_def)
  define s1 where "s1 = prio_changed c (unat i) q s"
  obtain rq1 where i1: "sched_inv s1 W rq1 wq" unfolding s1_def using prio_changed_inv [OF assms(1) c assms(3)] assms(4) by blast
  have "ready_to_run g c s1"
    using assms(2) ready_to_run_cong [of s1 s g c] by (simp add: s1_def prio_changed_def scheduler_enqueue_def scheduler_dequeue_def upd_thr_def)
  then obtain s' rq' where "schedule g c s1 = Some s'" "sched_inv s' W rq' wq"
    using schedule_inv [OF sched_inv_pre [OF i1]] by blast
  then show ?thesis
    unfolding set_priority_eq [OF assms(3) c] s1_def [symmetric] Let_def using i1 by (auto split: option.split)
qed

section \<open>Ticks\<close>

lemma rr_tick_inv:
  assumes "sched_inv s W rq wq"
  shows "sched_inv (sched_rr_tick c (Some t) s) W rq wq"
  by (rule sched_pre_cong [OF assms])
    (auto simp: sched_rr_tick_def upd_thr_def upd_cpu_def scheduler_set_need_resched_def Let_def)

text \<open>Whether a tick with thread \<open>t\<close> current ends its time slice, and whether a waiting thread has a higher priority.\<close>

definition slice_ends :: "kthread \<Rightarrow> bool" where
  "slice_ends k \<longleftrightarrow> policy k = KTHREAD_POLICY_RR \<and> time_slice k = 1"

definition slice_after :: "kthread \<Rightarrow> u32" where
  "slice_after k = (if policy k = KTHREAD_POLICY_RR \<and> time_slice k > 0
     then (if time_slice k = 1 then time_slice_reload k else time_slice k - 1) else time_slice k)"

lemma rr_tick_effect:
  "thr (sched_rr_tick c (Some t) s) t = (thr s t)\<lparr>time_slice := slice_after (thr s t)\<rparr>"
  "u \<noteq> t \<Longrightarrow> thr (sched_rr_tick c (Some t) s) u = thr s u"
  "cpu_q (sched_rr_tick c (Some t) s) d = (if d = c \<and> slice_ends (thr s t) then (cpu_q s c)\<lparr>need_resched := 1\<rparr> else cpu_q s d)"
  by (auto simp: sched_rr_tick_def upd_thr_def upd_cpu_def scheduler_set_need_resched_def Let_def slice_ends_def slice_after_def)

definition preempts :: "sched \<Rightarrow> (nat \<Rightarrow> u8 \<Rightarrow> nat list) \<Rightarrow> nat \<Rightarrow> nat \<Rightarrow> bool" where
  "preempts s rq c t \<longleftrightarrow> (\<exists>u. next_thread s rq c = Some u \<and> prio (thr s u) > prio (thr s t))"

lemma preempts_waiting:
  assumes "rq_inv s W rq wq" and "c < CONFIG_MAX_CPUS" and "rq c q \<noteq> []"
  shows "preempts s rq c t \<longleftrightarrow> (\<exists>p. rq c p \<noteq> [] \<and> p > prio (thr s t))"
proof -
  obtain p where h: "highest (rq c) = Some p" using assms(3) by (cases "highest (rq c)") (auto simp: highest_def split: if_splits)
  have "hd (rq c p) \<in> set (rq c p)" using highestD(1) [OF h] by simp
  then have "prio (thr s (hd (rq c p))) = p" by (rule rq_invD(5) [OF assms(1,2)])
  then have "preempts s rq c t \<longleftrightarrow> p > prio (thr s t)" using h by (simp add: preempts_def next_thread_def)
  then show ?thesis using highestD [OF h] by (metis less_trans not_less_iff_gr_or_eq)
qed

lemma balance_effect:
  assumes "\<And>d. d < CONFIG_MAX_CPUS \<Longrightarrow> lb_interval s d \<noteq> 0"
  shows "\<exists>n m. smp_tick_check_balance c s = Some (s\<lparr>s_schedule_count := n, lb_pending := m\<rparr>)"
proof (cases "c < CONFIG_MAX_CPUS")
  case True
  show ?thesis
    by (rule exI [of _ "(s_schedule_count s)(c := s_schedule_count s c + 1)"],
        rule exI [of _ "if (s_schedule_count s c + 1) mod ucast (lb_interval s c) = 0 then (lb_pending s)(c := 1) else lb_pending s"])
      (use assms [OF True] True in \<open>simp add: smp_tick_check_balance_def Let_def\<close>)
next
  case False
  then show ?thesis
    by (intro exI [of _ "s_schedule_count s"] exI [of _ "lb_pending s"]) (simp add: smp_tick_check_balance_def)
qed

lemma scheduler_tick_effect:
  assumes inv: "sched_inv s W rq wq" and c: "c < CONFIG_MAX_CPUS" and t: "current_thread (cpu_q s c) = Some t"
    and cls: "class_of t s = Some sched_rr" and lb: "\<And>d. d < CONFIG_MAX_CPUS \<Longrightarrow> lb_interval s d \<noteq> 0"
  shows "\<exists>s'. scheduler_tick c s = Some s' \<and> sched_inv s' W rq wq \<and>
    thread_table s' = (thread_table s)(t := (thr s t)\<lparr>time_slice := slice_after (thr s t)\<rparr>) \<and>
    (need_resched (cpu_q s' c) \<noteq> 0 \<longleftrightarrow> need_resched (cpu_q s c) \<noteq> 0 \<or> slice_ends (thr s t) \<or> preempts s rq c t)"
proof -
  let ?s1 = "sched_rr_tick c (Some t) s"
  note i1 = rr_tick_inv [OF inv, of c t] note e = rr_tick_effect [where c = c and t = t and s = s]
  have tt: "thread_table ?s1 = (thread_table s)(t := (thr s t)\<lparr>time_slice := slice_after (thr s t)\<rparr>)"
    using e(1,2) by auto
  have pr: "prio (thr ?s1 u) = prio (thr s u)" for u using e(1,2) by (cases "u = t") auto
  have nt: "next_thread ?s1 rq c = next_thread s rq c" by (simp add: next_thread_def e(3) split: option.split)
  have tick: "sched_class_tick c (Some t) s = Some ?s1" using cls by (simp add: sched_class_tick_def)
  have pick: "scheduler_pick_next c ?s1 = Some (next_thread s rq c)"
    using pick_next [OF sched_preD(1) [OF i1] c] nt by (simp add: next_thread_def)
  show ?thesis
  proof (cases "need_resched (cpu_q ?s1 c) = 0")
    case False
    then have "scheduler_tick c s = Some ?s1" by (simp add: scheduler_tick_def t tick)
    then show ?thesis using i1 tt False e(3) [of c] by (auto split: if_splits)
  next
    case True
    define s2 where "s2 = (case next_thread s rq c of None \<Rightarrow> ?s1
      | Some u \<Rightarrow> if u \<noteq> t \<and> prio (thr ?s1 u) > prio (thr ?s1 t) then scheduler_set_need_resched c ?s1 else ?s1)"
    have s2: "s2 = (if preempts s rq c t then scheduler_set_need_resched c ?s1 else ?s1)"
      by (auto simp: s2_def preempts_def pr split: option.split)
    then have i2: "sched_inv s2 W rq wq" "thread_table s2 = thread_table ?s1" "need_resched (cpu_q s2 c) \<noteq> 0 \<longleftrightarrow> preempts s rq c t"
      using clear_resched_inv [OF i1, of c 1] i1 True by (auto simp: scheduler_set_need_resched_def upd_cpu_def)
    have "lb_interval s2 = lb_interval s"
      by (simp add: s2 scheduler_set_need_resched_def upd_cpu_def sched_rr_tick_def upd_thr_def Let_def)
    then obtain n m where b: "smp_tick_check_balance c s2 = Some (s2\<lparr>s_schedule_count := n, lb_pending := m\<rparr>)"
      using balance_effect [of s2 c] lb by auto
    have "scheduler_tick c s = Some (s2\<lparr>s_schedule_count := n, lb_pending := m\<rparr>)"
      using True b by (simp add: scheduler_tick_def t tick pick s2_def)
    moreover have "sched_inv (s2\<lparr>s_schedule_count := n, lb_pending := m\<rparr>) W rq wq" by (rule sched_pre_cong [OF i2(1)]) auto
    moreover have "need_resched (cpu_q s c) = 0" "\<not> slice_ends (thr s t)" using True e(3) [of c] by (auto split: if_splits)
    ultimately show ?thesis using i2 tt by auto
  qed
qed

end
