(* ===== verification/Sched_Init.thy ===== *)
theory Sched_Init
  imports Sched_Threads
begin

text \<open>
  Thread creation, and the start of the scheduler: \<^verbatim>\<open>scheduler_init\<close> establishes the invariant with one idle thread per CPU, and
  \<^verbatim>\<open>scheduler_start\<close> makes the first thread current.
\<close>

section \<open>Creation\<close>

lemma alloc_inv:
  assumes inv: "sched_inv s W rq wq" and run: "ready_to_run g c s \<or> need_resched (cpu_q s c) = 0"
    and f: "find (\<lambda>t. state (thr s t) = KTHREAD_STATE_DEAD) [0..<MAX_THREADS] = Some t"
  shows "\<exists>s1 rq1. alloc_thread_id g c s = Some (of_nat t, s1) \<and> t < MAX_THREADS \<and> sched_inv s1 W rq1 wq \<and> loose s1 rq1 t \<and>
    thr s1 t = (thr s t)\<lparr>state := KTHREAD_STATE_READY\<rparr>"
proof -
  have d: "state (thr s t) = KTHREAD_STATE_DEAD" "t < MAX_THREADS" using f by (auto simp: find_Some_iff simp del: upt_rec_numeral)
  let ?p = "preempt_disable c s" let ?s = "upd_thr t (\<lambda>k. k\<lparr>state := KTHREAD_STATE_READY\<rparr>) ?p"
  have i: "sched_inv ?p W rq wq" by (rule preempt_disable_inv [OF inv])
  have pd: "thread_table ?p = thread_table s" "cpu_queues ?p = cpu_queues s" by (simp_all add: preempt_disable_def)
  have l: "loose ?p rq t" by (rule loose_state [OF i d(2)]) (simp_all add: pd d(1))
  have "t \<notin> set (wq a)" if "a \<in> W" for a using wait_not [OF sched_preD(5) [OF inv] _ _ that] d(1) by simp
  then have i1: "sched_inv ?s W rq wq" by (rule loose_update [OF i l])
  have l1: "loose ?s rq t" using l by (simp add: loose_def upd_thr_def)
  have "ready_to_run g c ?s \<or> need_resched (cpu_q ?s c) = 0"
    using run ready_to_run_cong [of ?s s g c] by (simp add: upd_thr_def pd)
  then obtain s1 rq1 where "preempt_enable g c ?s = Some s1" "sched_inv s1 W rq1 wq" "keeps_loose ?s rq s1 rq1"
    using preempt_enable_inv [OF i1] by blast
  moreover from this(3) have "loose s1 rq1 t" "thr s1 t = thr ?s t" using l1 by (auto simp: keeps_loose_def)
  ultimately show ?thesis using f d(2) by (auto simp: alloc_thread_id_def Let_def pd upd_thr_def simp del: upt_rec_numeral)
qed

lemma alloc_full:
  assumes inv: "sched_inv s W rq wq" and run: "ready_to_run g c s \<or> need_resched (cpu_q s c) = 0"
    and f: "find (\<lambda>t. state (thr s t) = KTHREAD_STATE_DEAD) [0..<MAX_THREADS] = None"
  shows "\<exists>s1 rq1. alloc_thread_id g c s = Some (THREAD_ID_INVALID, s1) \<and> sched_inv s1 W rq1 wq"
proof -
  let ?p = "preempt_disable c s"
  have i: "sched_inv ?p W rq wq" by (rule preempt_disable_inv [OF inv])
  have pd: "thread_table ?p = thread_table s" "cpu_queues ?p = cpu_queues s" by (simp_all add: preempt_disable_def)
  have "ready_to_run g c ?p \<or> need_resched (cpu_q ?p c) = 0"
    using run ready_to_run_cong [of ?p s g c] by (simp add: pd)
  then obtain s1 rq1 where "preempt_enable g c ?p = Some s1" "sched_inv s1 W rq1 wq" using preempt_enable_inv [OF i] by blast
  then show ?thesis using f by (auto simp: alloc_thread_id_def Let_def pd simp del: upt_rec_numeral)
qed

lemma stack_alloc_frame:
  "snd (stack_alloc_by_scheduler sl hs he n s) = s\<lparr>s_heap_ptr := s_heap_ptr (snd (stack_alloc_by_scheduler sl hs he n s))\<rparr>"
proof -
  have a: "snd (stack_alloc hs he n s) = s\<lparr>s_heap_ptr := s_heap_ptr (snd (stack_alloc hs he n s))\<rparr>" for s
    by (simp add: stack_alloc_def Let_def)
  then have b: "snd (stack_alloc_slab sl hs he n s) = s\<lparr>s_heap_ptr := s_heap_ptr (snd (stack_alloc_slab sl hs he n s))\<rparr>"
    by (simp add: stack_alloc_slab_def split: sum.split)
  obtain t1 s1 where s1: "stack_alloc_slab sl hs he n s = (t1, s1)" by fastforce
  then obtain h where h: "s1 = s\<lparr>s_heap_ptr := h\<rparr>" using b by fastforce
  have "snd (stack_alloc hs he n (s\<lparr>s_heap_ptr := h\<rparr>)) = s\<lparr>s_heap_ptr := s_heap_ptr (snd (stack_alloc hs he n (s\<lparr>s_heap_ptr := h\<rparr>)))\<rparr>"
    using a [of "s\<lparr>s_heap_ptr := h\<rparr>"] by simp
  then show ?thesis using h s1 by (simp add: stack_alloc_by_scheduler_def)
qed

lemma init_links_other:
  assumes "rings h H N qs" and "RqList t \<in> N" and "SleepNode t \<in> N" and "\<not> queued H qs (RqList t)" and "\<not> queued H qs (SleepNode t)"
    and "n \<noteq> EdfNode t"
  shows "init_links t h n = h n"
proof -
  have "INIT_LIST_HEAD (Some (RqList t)) h = h" by (rule rings_init_node [OF assms(1,2,4)])
  moreover have "INIT_LIST_HEAD (Some (SleepNode t)) (INIT_LIST_HEAD (Some (EdfNode t)) h) n = h n"
  proof (cases "n = SleepNode t")
    case False
    then show ?thesis using assms(6) by simp
  next
    case True
    have "h (SleepNode t) = INIT_LIST_HEAD (Some (SleepNode t)) h (SleepNode t)"
      using rings_init_node [OF assms(1,3,5)] by simp
    then show ?thesis using True by (simp add: INIT_LIST_HEAD_def set_next_def set_prev_def)
  qed
  ultimately show ?thesis by (simp add: init_links_def)
qed

lemma queued_sleep:
  assumes "W \<subseteq> wait_heads"
  shows "queued (ready_heads \<union> W) (nodes_of rq wq) (SleepNode t) \<longleftrightarrow> (\<exists>a\<in>W. t \<in> set (wq a))"
proof -
  have "SleepNode t \<notin> set (nodes_of rq wq a)" if "a \<in> ready_heads" for a using that by (auto simp: ready_heads_def)
  moreover have "SleepNode t \<in> set (nodes_of rq wq a) \<longleftrightarrow> t \<in> set (wq a)" if "a \<in> W" for a
    using that assms by (auto simp: nodes_of_wait)
  ultimately show ?thesis by (auto simp: queued_def)
qed

lemma init_links_inv:
  assumes "sched_pre c s W rq wq" and "t < MAX_THREADS" and "\<not> on_ready rq t" and "\<And>a. a \<in> W \<Longrightarrow> t \<notin> set (wq a)"
  shows "sched_pre c (upd_slinks (init_links t) s) W rq wq"
proof -
  let ?s = "upd_slinks (init_links t) s"
  note i = sched_preD [OF assms(1)] note l = links_okD(1,2) [OF rq_invD(1) [OF i(1)]]
  have "rings (init_links t (slinks s)) (ready_heads \<union> W) thread_nodes (nodes_of rq wq)"
  proof (rule rings_cong [OF l(1)])
    fix n assume "n \<in> (ready_heads \<union> W) \<union> thread_nodes"
    then have "n \<noteq> EdfNode t" using l(2) by (auto simp: ready_heads_def thread_nodes_def wait_heads_def)
    then show "init_links t (slinks s) n = slinks s n"
      using assms(2-4) l(2) by (intro init_links_other [OF l(1)]) (auto simp: queued_rq queued_sleep)
  qed simp
  then have "links_ok (slinks ?s) W rq wq" using l(2) by (simp add: links_ok_def upd_slinks_def)
  then have "rq_inv ?s W rq wq" using i(1) unfolding rq_inv_def by (simp add: upd_slinks_def)
  moreover have q: "cpu_queues ?s = cpu_queues s" "thread_table ?s = thread_table s" by (simp_all add: upd_slinks_def)
  moreover have "current_ok c ?s = current_ok c s" by (simp only: current_ok_def q)
  moreover have "idle_ok ?s rq = idle_ok s rq" by (simp only: idle_ok_def q)
  moreover have "wait_ok ?s W wq = wait_ok s W wq" by (simp only: wait_ok_def q)
  ultimately show ?thesis using i(2-5) by (simp add: sched_pre_def class_ok_def upd_slinks_def)
qed

text \<open>The control block that a creation leaves behind.\<close>

definition new_thread :: "kthread \<Rightarrow> nat \<Rightarrow> string \<Rightarrow> u64 \<Rightarrow> u64 \<Rightarrow> u8 \<Rightarrow> kthread_policy \<Rightarrow> u32 \<Rightarrow> u64 \<Rightarrow> kthread" where
  "new_thread k t nm en arg pr pol sz stk_top = k\<lparr>tid := of_nat t, pid := 0, state := KTHREAD_STATE_READY, entry := en, entry_arg := arg,
     stack_base := stk_top - ucast sz, stack_size := sz, prio := pr, policy := pol,
     time_slice := (if pol = KTHREAD_POLICY_RR then 10 else 0), time_slice_reload := (if pol = KTHREAD_POLICY_RR then 10 else 0),
     affinity_mask := 0, sched_class := None, wakeup_tick := 0, kname := copy_thread_name nm\<rparr>"

lemma unat_tid: "t < MAX_THREADS \<Longrightarrow> unat (of_nat t :: u32) = t" "t < MAX_THREADS \<Longrightarrow> (of_nat t :: u32) \<noteq> THREAD_ID_INVALID"
proof -
  show u: "unat (of_nat t :: u32) = t" if "t < MAX_THREADS" using that by (intro unat_of_nat_u32) simp
  show "(of_nat t :: u32) \<noteq> THREAD_ID_INVALID" if "t < MAX_THREADS"
  proof
    assume "(of_nat t :: u32) = THREAD_ID_INVALID"
    then have "unat (of_nat t :: u32) = 0xFFFFFFFF" by simp
    then show False using u [OF that] that by simp
  qed
qed

lemma finish_create:
  assumes inv: "sched_inv s W rq wq" and c: "c < CONFIG_MAX_CPUS" and l: "loose s rq t" and st: "state (thr s t) = KTHREAD_STATE_READY"
    and s': "s' = scheduler_enqueue c (Some t) (fill_thread (of_nat t) nm en arg pr pol sz stk_top (s\<lparr>s_heap_ptr := h\<rparr>))"
  shows "sched_inv s' W (rq_upd c pr (rq c pr @ [t]) rq) wq"
    and "thread_table s' = (thread_table s)(t := new_thread (thr s t) t nm en arg pr pol sz stk_top)"
    and "current_thread (cpu_q s' d) = current_thread (cpu_q s d)" and "idle_thread (cpu_q s' d) = idle_thread (cpu_q s d)"
    and "need_resched (cpu_q s' d) = need_resched (cpu_q s d)" and "stack_slab_ready s' = stack_slab_ready s"
    and "s_default_sched_class s' = s_default_sched_class s" and "lb_interval s' = lb_interval s"
proof -
  have t: "t < MAX_THREADS" "\<not> on_ready rq t" using l by (simp_all add: loose_def)
  have w: "t \<notin> set (wq a)" if "a \<in> W" for a using wait_not [OF sched_preD(5) [OF inv] _ _ that] st by simp
  define f where "f = (\<lambda>k :: kthread. k\<lparr>tid := of_nat t, pid := 0, entry := en, entry_arg := arg, stack_base := stk_top - ucast sz, stack_size := sz,
    prio := pr, policy := pol, time_slice := (if pol = KTHREAD_POLICY_RR then 10 else 0),
    time_slice_reload := (if pol = KTHREAD_POLICY_RR then 10 else 0), affinity_mask := 0, sched_class := None, wakeup_tick := 0,
    kname := copy_thread_name nm\<rparr>)"
  let ?h = "s\<lparr>s_heap_ptr := h\<rparr>" let ?s = "upd_slinks (init_links t) (upd_thr t f ?h)"
  have "sched_inv ?h W rq wq" by (rule sched_pre_cong [OF inv]) simp_all
  moreover have "loose ?h rq t" using l by (simp add: loose_def)
  ultimately have "sched_inv (upd_thr t f ?h) W rq wq" using w by (rule loose_update)
  then have i: "sched_inv ?s W rq wq" by (rule init_links_inv [OF _ t w])
  have k: "thr ?s t = f (thr s t)" by (simp add: upd_slinks_def upd_thr_def)
  have e: "s' = scheduler_enqueue c (Some t) ?s"
    using unat_tid(1) [OF t(1)] by (simp add: s' fill_thread_def f_def Let_def)
  have "e' = c" if "e' < CONFIG_MAX_CPUS" "idle_thread (cpu_q ?s e') = Some t" for e'
    using idle_loose [OF l that(1)] that(2) by (simp add: upd_slinks_def upd_thr_def)
  then show "sched_inv s' W (rq_upd c pr (rq c pr @ [t]) rq) wq"
    using enqueue_sched_inv [OF i c t] k st unfolding e by (simp add: f_def)
  have n: "f (thr s t) = new_thread (thr s t) t nm en arg pr pol sz stk_top"
    using st by (cases "thr s t") (simp add: f_def new_thread_def)
  then show "thread_table s' = (thread_table s)(t := new_thread (thr s t) t nm en arg pr pol sz stk_top)"
    unfolding e n [symmetric] by (simp add: scheduler_enqueue_def upd_slinks_def upd_thr_def)
  show "current_thread (cpu_q s' d) = current_thread (cpu_q s d)" "idle_thread (cpu_q s' d) = idle_thread (cpu_q s d)"
    "need_resched (cpu_q s' d) = need_resched (cpu_q s d)" "stack_slab_ready s' = stack_slab_ready s"
    "s_default_sched_class s' = s_default_sched_class s" "lb_interval s' = lb_interval s"
    unfolding e by (simp_all add: scheduler_enqueue_def upd_slinks_def upd_thr_def sched_enqueue_locked_def upd_cpu_def
      upd_bitmap_def Let_def)
qed

lemma kthread_create_inv:
  assumes inv: "sched_inv s W rq wq" and c: "c < CONFIG_MAX_CPUS" and run: "ready_to_run g c s \<or> need_resched (cpu_q s c) = 0"
  shows "\<exists>t s' rq'. kthread_create g sl hs he c nm en arg pr pol n s = Some (t, s') \<and> sched_inv s' W rq' wq"
proof (cases "nm = None \<or> en = 0")
  case True
  then show ?thesis using inv by (cases nm) (auto simp: kthread_create_def)
next
  case False
  then obtain str where str: "nm = Some str" "en \<noteq> 0" by auto
  show ?thesis
  proof (cases "find (\<lambda>t. state (thr s t) = KTHREAD_STATE_DEAD) [0..<MAX_THREADS]")
    case None
    then show ?thesis using alloc_full [OF inv run None] str by (auto simp: kthread_create_def Let_def)
  next
    case (Some t)
    obtain s1 rq1 where a: "alloc_thread_id g c s = Some (of_nat t, s1)" "t < MAX_THREADS" "sched_inv s1 W rq1 wq" "loose s1 rq1 t"
        "thr s1 t = (thr s t)\<lparr>state := KTHREAD_STATE_READY\<rparr>"
      using alloc_inv [OF inv run Some] by blast
    obtain stk_top s2 where s2: "stack_alloc_by_scheduler sl hs he (clamp_stack_size n) s1 = (stk_top, s2)" by fastforce
    then have h: "s2 = s1\<lparr>s_heap_ptr := s_heap_ptr s2\<rparr>" using stack_alloc_frame [of sl hs he "clamp_stack_size n" s1] by simp
    have "sched_inv s2 W rq1 wq" by (subst h, rule sched_pre_cong [OF a(3)]) simp_all
    moreover have "sched_inv (scheduler_enqueue c (Some t) (fill_thread (of_nat t) str en arg pr pol (clamp_stack_size n) stk_top s2)) W
        (rq_upd c pr (rq1 c pr @ [t]) rq1) wq"
      by (subst h, rule finish_create(1) [OF a(3) c a(4) _ refl]) (simp add: a(5))
    ultimately show ?thesis
      using a s2 str unat_tid [OF a(2)] by (cases "stk_top = 0") (auto simp: kthread_create_def Let_def)
  qed
qed

text \<open>Without a pending request to reschedule the creation is exact.\<close>

lemma preempt_enable_quiet:
  assumes "need_resched (cpu_q s c) = 0"
  shows "\<exists>m. preempt_enable g c s = Some (s\<lparr>preempt_count := m\<rparr>)"
  by (rule exI [of _ "if preempt_count s (percpu_ix c) > 0
      then (preempt_count s)(percpu_ix c := preempt_count s (percpu_ix c) - 1) else preempt_count s"])
    (use assms in \<open>simp add: preempt_enable_def scheduler_test_and_clear_need_resched_def Let_def\<close>)

lemma alloc_quiet:
  assumes "need_resched (cpu_q s c) = 0"
    and f: "find (\<lambda>t. state (thr s t) = KTHREAD_STATE_DEAD) [0..<MAX_THREADS] = Some t"
  shows "\<exists>m. alloc_thread_id g c s = Some (of_nat t, upd_thr t (\<lambda>k. k\<lparr>state := KTHREAD_STATE_READY\<rparr>) (s\<lparr>preempt_count := m\<rparr>))"
proof -
  let ?p = "preempt_disable c s" let ?s = "upd_thr t (\<lambda>k. k\<lparr>state := KTHREAD_STATE_READY\<rparr>) ?p"
  have pd: "?p = s\<lparr>preempt_count := preempt_count ?p\<rparr>" by (simp add: preempt_disable_def)
  have "need_resched (cpu_q ?s c) = 0" using assms(1) by (simp add: upd_thr_def preempt_disable_def)
  then obtain m where "preempt_enable g c ?s = Some (?s\<lparr>preempt_count := m\<rparr>)" using preempt_enable_quiet by blast
  moreover have "?s\<lparr>preempt_count := m\<rparr> = upd_thr t (\<lambda>k. k\<lparr>state := KTHREAD_STATE_READY\<rparr>) (s\<lparr>preempt_count := m\<rparr>)"
    by (simp add: upd_thr_def preempt_disable_def)
  ultimately show ?thesis
    using f by (auto simp: alloc_thread_id_def Let_def preempt_disable_def simp del: upt_rec_numeral)
qed

lemma create_quiet:
  assumes inv: "sched_inv s W rq wq" and c: "c < CONFIG_MAX_CPUS" and q: "need_resched (cpu_q s c) = 0"
    and f: "find (\<lambda>t. state (thr s t) = KTHREAD_STATE_DEAD) [0..<MAX_THREADS] = Some t" and en: "en \<noteq> 0"
    and sl: "stack_slab_ready s" "select_stack_cache (clamp_stack_size n) = Inr k" "sl k \<noteq> 0" "sl k + ucast (clamp_stack_size n) \<noteq> 0"
  shows "\<exists>s'. kthread_create g sl hs he c (Some nm) en arg pr pol n s = Some (of_nat t, s') \<and>
    sched_inv s' W (rq_upd c pr (rq c pr @ [t]) rq) wq \<and>
    thread_table s' = (thread_table s)(t := new_thread (thr s t) t nm en arg pr pol (clamp_stack_size n) (sl k + ucast (clamp_stack_size n))) \<and>
    (\<forall>d. current_thread (cpu_q s' d) = current_thread (cpu_q s d) \<and> idle_thread (cpu_q s' d) = idle_thread (cpu_q s d) \<and>
      need_resched (cpu_q s' d) = need_resched (cpu_q s d)) \<and> stack_slab_ready s' = stack_slab_ready s \<and>
    s_default_sched_class s' = s_default_sched_class s \<and> lb_interval s' = lb_interval s"
proof -
  have d: "state (thr s t) = KTHREAD_STATE_DEAD" "t < MAX_THREADS" using f by (auto simp: find_Some_iff simp del: upt_rec_numeral)
  obtain m where m: "alloc_thread_id g c s = Some (of_nat t, upd_thr t (\<lambda>k. k\<lparr>state := KTHREAD_STATE_READY\<rparr>) (s\<lparr>preempt_count := m\<rparr>))"
    using alloc_quiet [OF q f] by blast
  let ?p = "s\<lparr>preempt_count := m\<rparr>" let ?s = "upd_thr t (\<lambda>k. k\<lparr>state := KTHREAD_STATE_READY\<rparr>) ?p"
  let ?sz = "clamp_stack_size n" let ?top = "sl k + ucast ?sz"
  have l: "loose ?p rq t" using loose_state [OF inv d(2)] d(1) by (simp add: loose_def)
  have "sched_inv ?p W rq wq" by (rule sched_pre_cong [OF inv]) simp_all
  moreover have "t \<notin> set (wq a)" if "a \<in> W" for a using wait_not [OF sched_preD(5) [OF inv] _ _ that] d(1) by simp
  ultimately have i: "sched_inv ?s W rq wq" by (rule loose_update [OF _ l])
  have l1: "loose ?s rq t" using l by (simp add: loose_def upd_thr_def)
  have id: "?s = ?s\<lparr>s_heap_ptr := s_heap_ptr ?s\<rparr>" by simp
  have stk: "stack_alloc_by_scheduler sl hs he ?sz ?s = (?top, ?s)"
    using sl by (simp add: stack_alloc_by_scheduler_def stack_alloc_slab_def upd_thr_def)
  note fin = finish_create [OF i c l1 _ refl, where nm = nm and en = en and arg = arg and pr = pr and pol = pol and sz = ?sz
      and stk_top = ?top and h = "s_heap_ptr ?s", folded id]
  have st: "state (thr ?s t) = KTHREAD_STATE_READY" by (simp add: upd_thr_def)
  have "kthread_create g sl hs he c (Some nm) en arg pr pol n s =
      Some (of_nat t, scheduler_enqueue c (Some t) (fill_thread (of_nat t) nm en arg pr pol ?sz ?top ?s))"
    using m stk sl(4) en unat_tid [OF d(2)] by (simp add: kthread_create_def Let_def)
  moreover have "(thread_table ?s)(t := new_thread (thr ?s t) t nm en arg pr pol ?sz ?top) =
      (thread_table s)(t := new_thread (thr s t) t nm en arg pr pol ?sz ?top)" by (simp add: upd_thr_def new_thread_def)
  ultimately show ?thesis using fin [OF st] by (simp add: upd_thr_def)
qed

end
