(* ===== verification/Sched_Boot.thy ===== *)
theory Sched_Boot
  imports Sched_Init
begin

text \<open>\<^verbatim>\<open>scheduler_init\<close> and \<^verbatim>\<open>scheduler_start\<close>: from the cleared tables to the first running thread.\<close>

section \<open>Cleared tables\<close>

lemma fold_establish:
  assumes "\<And>x s. P x (f x s)" and "\<And>x y s. P x s \<Longrightarrow> P x (f y s)" and "x \<in> set xs"
  shows "P x (fold f xs s)"
proof -
  have keep: "P x s \<Longrightarrow> P x (fold f ys s)" for ys s by (induction ys arbitrary: s) (auto intro: assms(2))
  show ?thesis using assms(3) by (induction xs arbitrary: s) (auto intro: assms(1) keep)
qed

lemma fold_preserve:
  assumes "\<And>x s. P s \<Longrightarrow> P (f x s)" and "P s"
  shows "P (fold f xs s)"
  using assms(2) by (induction xs arbitrary: s) (auto intro: assms(1))

lemma init_self: "dll (INIT_LIST_HEAD (Some a) h) n [] \<longleftrightarrow> n = a \<or> dll h n []"
  using fold_INIT_LIST_HEAD [of "[a]" h n] by simp

definition cpu_clean :: "nat \<Rightarrow> sched \<Rightarrow> bool" where
  "cpu_clean c s \<longleftrightarrow> bm_set (bitmap (cpu_q s c)) = {} \<and> nr_running (cpu_q s c) = 0 \<and> current_thread (cpu_q s c) = None \<and>
     idle_thread (cpu_q s c) = None \<and> need_resched (cpu_q s c) = 0 \<and> (\<forall>p. dll (slinks s) (ReadyQ c p) [])"

lemma init_cpu_links:
  "dll (slinks (init_cpu c s)) n [] \<longleftrightarrow> (\<exists>p. n = ReadyQ c p) \<or> dll (slinks s) n []"
proof -
  have e: "slinks (init_cpu c s) = fold (\<lambda>a. INIT_LIST_HEAD (Some a)) (map (\<lambda>j. ReadyQ c (of_nat j)) [0..<256]) (slinks s)"
    by (simp add: init_cpu_def upd_cpu_def upd_bitmap_def upd_slinks_def Let_def fold_map comp_def del: upt_rec_numeral)
  have "(\<exists>p. n = ReadyQ c p) \<longleftrightarrow> n \<in> set (map (\<lambda>j. ReadyQ c (of_nat j)) [0..<256])"
  proof
    assume "\<exists>p. n = ReadyQ c p"
    then obtain p where "n = ReadyQ c p" by blast
    moreover have "unat p < 256" using unsigned_less [of p, where 'a = nat] by simp
    moreover have "p = of_nat (unat p)" by simp
    ultimately show "n \<in> set (map (\<lambda>j. ReadyQ c (of_nat j)) [0..<256])"
      by (auto simp del: upt_rec_numeral intro!: image_eqI [of _ _ "unat p"])
  qed (auto simp del: upt_rec_numeral)
  then show ?thesis unfolding e fold_INIT_LIST_HEAD by blast
qed

lemma init_cpu_clean: "cpu_clean c (init_cpu c s)" and init_cpu_keep: "cpu_clean c s \<Longrightarrow> cpu_clean c (init_cpu d s)"
proof -
  obtain b where b: "bitmap256_clear_all (Some (bitmap (cpu_q s c))) = Some b" "bm_set b = {}"
    using bitmap256_clear_all_abs by blast
  show e: "cpu_clean c (init_cpu c s)"
    unfolding cpu_clean_def init_cpu_links
    using b by (simp add: init_cpu_def upd_cpu_def upd_bitmap_def upd_slinks_def Let_def)
  show "cpu_clean c (init_cpu d s)" if "cpu_clean c s"
  proof (cases "d = c")
    case False
    then show ?thesis using that unfolding cpu_clean_def init_cpu_links
      by (simp add: init_cpu_def upd_cpu_def upd_bitmap_def upd_slinks_def Let_def)
  qed (use e in simp)
qed

definition thread_clean :: "nat \<Rightarrow> sched \<Rightarrow> bool" where
  "thread_clean t s \<longleftrightarrow> state (thr s t) = KTHREAD_STATE_DEAD \<and> tid (thr s t) = of_nat t \<and> sched_class (thr s t) = None \<and> dll (slinks s) (RqList t) [] \<and> dll (slinks s) (SleepNode t) []"

lemma init_links_self: "dll (init_links t h) n [] \<longleftrightarrow> n = RqList t \<or> n = SleepNode t \<or> n = EdfNode t \<or> dll h n []"
  by (auto simp: init_links_def init_self)

lemma init_thread_clean: "thread_clean t (init_thread t s)" and init_thread_keep: "thread_clean t s \<Longrightarrow> thread_clean t (init_thread u s)"
  by (auto simp: thread_clean_def init_thread_def upd_slinks_def upd_thr_def init_links_self)

lemma init_thread_cpu: "cpu_clean c s \<Longrightarrow> cpu_clean c (init_thread t s)"
  by (simp add: cpu_clean_def init_thread_def upd_slinks_def upd_thr_def init_links_self)

definition same_class :: "sched \<Rightarrow> sched \<Rightarrow> bool" where
  "same_class s s' \<longleftrightarrow> s_sched_class_head s' = s_sched_class_head s \<and> class_next s' = class_next s \<and>
     s_default_sched_class s' = s_default_sched_class s \<and> lb_interval s' = lb_interval s \<and> stack_slab_ready s' = stack_slab_ready s"

lemma init_same_class: "same_class r s \<Longrightarrow> same_class r (init_cpu c s)" "same_class r s \<Longrightarrow> same_class r (init_thread t s)"
  by (auto simp: same_class_def init_cpu_def init_thread_def upd_cpu_def upd_bitmap_def upd_slinks_def upd_thr_def Let_def)

lemma clean_inv:
  assumes "\<And>c. c < CONFIG_MAX_CPUS \<Longrightarrow> cpu_clean c s" and "\<And>t. t < MAX_THREADS \<Longrightarrow> thread_clean t s" and "class_ok s"
    and "W \<subseteq> wait_heads" and "\<And>a. a \<in> W \<Longrightarrow> dll (slinks s) a []"
  shows "sched_inv s W (\<lambda>_ _. []) (\<lambda>_. [])"
proof -
  have "rings (slinks s) (ready_heads \<union> W) thread_nodes (\<lambda>_. [])"
    using assms(1,2,4,5) by (intro rings_initial) (auto simp: ready_heads_def thread_nodes_def cpu_clean_def thread_clean_def wait_heads_def)
  moreover have "nodes_of (\<lambda>_ _. []) (\<lambda>_. []) = (\<lambda>_. [])" by (auto simp: nodes_of_def split: sched_node.split)
  ultimately have "rq_inv s W (\<lambda>_ _. []) (\<lambda>_. [])"
    using assms(1,4) by (simp add: rq_inv_def links_ok_def cpu_clean_def bitmap_ok_def rq_count_def)
  moreover have "current_ok None s" using assms(1) by (intro current_okI) (auto simp: cpu_clean_def)
  moreover have "idle_ok s (\<lambda>_ _. [])" using assms(1) by (intro idle_okI) (auto simp: cpu_clean_def)
  ultimately show ?thesis using assms(3) by (simp add: sched_pre_def wait_ok_def)
qed

section \<open>Idle threads\<close>

lemma set_idle_inv:
  assumes inv: "sched_pre k s W rq wq" and "t < MAX_THREADS"
    and st: "state (thr s t) = KTHREAD_STATE_READY \<or> state (thr s t) = KTHREAD_STATE_RUNNING"
    and r: "\<And>d p. d < CONFIG_MAX_CPUS \<Longrightarrow> t \<in> set (rq d p) \<Longrightarrow> d = c" and u: "\<And>d. d < CONFIG_MAX_CPUS \<Longrightarrow> current_thread (cpu_q s d) = Some t \<Longrightarrow> d = c"
    and i: "\<And>d. d < CONFIG_MAX_CPUS \<Longrightarrow> idle_thread (cpu_q s d) = Some t \<Longrightarrow> d = c"
  shows "sched_pre k (upd_cpu c (\<lambda>q. q\<lparr>idle_thread := Some t\<rparr>) s) W rq wq"
proof -
  let ?s = "upd_cpu c (\<lambda>q. q\<lparr>idle_thread := Some t\<rparr>) s"
  note v = sched_preD [OF inv]
  have f: "current_thread (cpu_q ?s d) = current_thread (cpu_q s d)" "idle_thread (cpu_q ?s d) = (if d = c then Some t else idle_thread (cpu_q s d))"
    "thread_table ?s = thread_table s" for d by (simp_all add: upd_cpu_def)
  have "rq_inv ?s W rq wq" by (rule rq_inv_cong [OF v(1)]) (auto simp: upd_cpu_def)
  moreover have "current_ok k ?s = current_ok k s" by (simp only: current_ok_def f)
  moreover have "idle_ok ?s rq"
  proof (rule idle_okI)
    fix d j assume d: "d < CONFIG_MAX_CPUS" "idle_thread (cpu_q ?s d) = Some j"
    show "j < MAX_THREADS \<and> (state (thr ?s j) = KTHREAD_STATE_READY \<or> state (thr ?s j) = KTHREAD_STATE_RUNNING)"
      using idle_okD(1,2) [OF v(4) d(1)] d(2) f(2) [of d] assms(2) st by (cases "d = c") (auto simp: f(3))
  next
    fix d e j p assume "d < CONFIG_MAX_CPUS" "e < CONFIG_MAX_CPUS" "idle_thread (cpu_q ?s d) = Some j" "j \<in> set (rq e p)"
    then show "e = d" using f(2) [of d] r [of e p] idle_okD(3) [OF v(4), of d j e p] by (metis option.inject)
  next
    fix d e j assume "d < CONFIG_MAX_CPUS" "e < CONFIG_MAX_CPUS" "idle_thread (cpu_q ?s d) = Some j" "current_thread (cpu_q ?s e) = Some j"
    then show "e = d" using f(1) [of e] f(2) [of d] u [of e] idle_okD(4) [OF v(4), of d j e] by (metis option.inject)
  next
    fix d e j assume "d < CONFIG_MAX_CPUS" "e < CONFIG_MAX_CPUS" "idle_thread (cpu_q ?s d) = Some j" "idle_thread (cpu_q ?s e) = Some j"
    then show "e = d" using f(2) [of e] f(2) [of d] i [of e] i [of d] idle_okD(5) [OF v(4), of d j e] by (metis option.inject)
  qed
  moreover have "wait_ok ?s W wq = wait_ok s W wq" by (simp only: wait_ok_def f)
  ultimately show ?thesis using v(2,3,5) by (simp add: sched_pre_def class_ok_def upd_cpu_def)
qed

text \<open>The queues after \<open>j\<close> idle threads: only that of CPU 0 waits in a queue.\<close>

definition boot_rq :: "nat \<Rightarrow> nat \<Rightarrow> u8 \<Rightarrow> nat list" where
  "boot_rq j = (if j = 0 then (\<lambda>_ _. []) else rq_upd 0 0 [0] (\<lambda>_ _. []))"

definition idles_done :: "sched_node set \<Rightarrow> nat \<Rightarrow> sched \<Rightarrow> bool" where
  "idles_done W j s \<longleftrightarrow> sched_inv s W (boot_rq j) (\<lambda>_. []) \<and> stack_slab_ready s \<and>
     (\<forall>c<CONFIG_MAX_CPUS. current_thread (cpu_q s c) = None \<and> need_resched (cpu_q s c) = 0 \<and>
        idle_thread (cpu_q s c) = (if c < j then Some c else None)) \<and>
     (\<forall>t<MAX_THREADS. state (thr s t) = (if t < j then KTHREAD_STATE_READY else KTHREAD_STATE_DEAD) \<and> (t < j \<longrightarrow> prio (thr s t) = 0) \<and>
        tid (thr s t) = of_nat t \<and> sched_class (thr s t) = None) \<and> s_default_sched_class s = Some sched_rr"

lemma idles_doneD:
  assumes "idles_done W j s"
  shows "sched_inv s W (boot_rq j) (\<lambda>_. [])" "stack_slab_ready s"
    and "c < CONFIG_MAX_CPUS \<Longrightarrow> current_thread (cpu_q s c) = None" "c < CONFIG_MAX_CPUS \<Longrightarrow> need_resched (cpu_q s c) = 0"
    and "c < CONFIG_MAX_CPUS \<Longrightarrow> idle_thread (cpu_q s c) = (if c < j then Some c else None)"
    and "t < MAX_THREADS \<Longrightarrow> state (thr s t) = (if t < j then KTHREAD_STATE_READY else KTHREAD_STATE_DEAD)"
    and "t < MAX_THREADS \<Longrightarrow> t < j \<Longrightarrow> prio (thr s t) = 0"
    and "t < MAX_THREADS \<Longrightarrow> tid (thr s t) = of_nat t \<and> sched_class (thr s t) = None" and "s_default_sched_class s = Some sched_rr"
  using assms unfolding idles_done_def by blast+

lemma first_dead:
  assumes "idles_done W j s" and "j < CONFIG_MAX_CPUS"
  shows "find (\<lambda>t. state (thr s t) = KTHREAD_STATE_DEAD) [0..<MAX_THREADS] = Some j"
proof -
  have "state (thr s j) = KTHREAD_STATE_DEAD" using idles_doneD(6) [OF assms(1), of j] assms(2) by simp
  moreover have "state (thr s i) \<noteq> KTHREAD_STATE_DEAD" if "i < j" for i using idles_doneD(6) [OF assms(1), of i] assms(2) that by simp
  ultimately show ?thesis
    using assms(2) by (auto simp: find_Some_iff simp del: upt_rec_numeral intro!: exI [of _ j])
qed

text \<open>Unlinking the idle thread of another CPU by hand is a removal, because the queue of CPU 0 does not become empty.\<close>

lemma unlink_is_dequeue:
  assumes inv: "sched_pre k s W rq wq" and t: "t \<in> set (rq 0 p)" and ne: "remove1 t (rq 0 p) \<noteq> []" and c: "c \<noteq> 0"
  shows "upd_cpu 0 (\<lambda>q. q\<lparr>nr_running := (if nr_running q > 0 then nr_running q - 1 else nr_running q)\<rparr>)
      (upd_slinks (list_del_init (Some (RqList t))) (upd_cpu c (\<lambda>q. q\<lparr>idle_thread := Some i\<rparr>) s)) =
    upd_cpu c (\<lambda>q. q\<lparr>idle_thread := Some i\<rparr>) (sched_dequeue_locked 0 t s)"
proof -
  note v = rq_invD [OF sched_preD(1) [OF inv]]
  have l: "links_ok (list_del_init (Some (RqList t)) (slinks s)) W (rq_upd 0 p (remove1 t (rq 0 p)) rq) wq"
    by (rule links_ok_remove [OF v(1) _ t]) simp
  have "\<not> list_empty (Some (ReadyQ 0 p)) (list_del_init (Some (RqList t)) (slinks s))"
    using rings_empty [OF links_okD(1) [OF l], of "ReadyQ 0 p"] ne by simp
  moreover have "prio (thr s t) = p" by (rule v(5) [OF _ t]) simp
  ultimately show ?thesis
    using c by (auto simp: sched_dequeue_locked_def upd_cpu_def upd_slinks_def Let_def fun_upd_twist [OF c])
qed

lemma idle_step:
  assumes d: "idles_done W j s" and j: "j < CONFIG_MAX_CPUS" and en: "en \<noteq> 0" and sl: "sl 1 \<noteq> 0" "sl 1 + 8192 \<noteq> 0"
  shows "\<exists>s1. kthread_create g sl hs he 0 (Some ''idle'') en 0 PRIORITY_MIN KTHREAD_POLICY_FIFO 8192 s = Some (of_nat j, s1) \<and>
    idles_done W (Suc j) (let s2 = upd_cpu j (\<lambda>q. q\<lparr>idle_thread := Some j\<rparr>) s1 in
      if j \<noteq> 0 then upd_cpu 0 (\<lambda>q. q\<lparr>nr_running := (if nr_running q > 0 then nr_running q - 1 else nr_running q)\<rparr>)
        (upd_slinks (list_del_init (Some (RqList j))) s2) else s2) \<and> lb_interval s1 = lb_interval s"
proof -
  note D = idles_doneD [OF d]
  have cl: "clamp_stack_size 8192 = 8192" by (simp add: clamp_stack_size_def)
  have jt: "j < MAX_THREADS" using j by simp
  obtain s1 where s1: "kthread_create g sl hs he 0 (Some ''idle'') en 0 PRIORITY_MIN KTHREAD_POLICY_FIFO 8192 s = Some (of_nat j, s1)"
      "sched_inv s1 W (rq_upd 0 0 (boot_rq j 0 0 @ [j]) (boot_rq j)) (\<lambda>_. [])"
      "thread_table s1 = (thread_table s)(j := new_thread (thr s j) j ''idle'' en 0 PRIORITY_MIN KTHREAD_POLICY_FIFO 8192 (sl 1 + 8192))"
      "\<And>d. current_thread (cpu_q s1 d) = current_thread (cpu_q s d)" "\<And>d. idle_thread (cpu_q s1 d) = idle_thread (cpu_q s d)"
      "\<And>d. need_resched (cpu_q s1 d) = need_resched (cpu_q s d)" "stack_slab_ready s1 = stack_slab_ready s" "s_default_sched_class s1 = s_default_sched_class s" "lb_interval s1 = lb_interval s"
    using create_quiet [OF D(1) _ D(4) first_dead [OF d j] en D(2), of 0 8192 1 sl g hs he "''idle''" 0 PRIORITY_MIN KTHREAD_POLICY_FIFO]
      sl by (auto simp: cl select_stack_cache_def)
  define s3 where "s3 = (if j = 0 then s1 else sched_dequeue_locked 0 j s1)"
  have f: "thread_table s3 = thread_table s1" "current_thread (cpu_q s3 c) = current_thread (cpu_q s1 c)"
      "idle_thread (cpu_q s3 c) = idle_thread (cpu_q s1 c)" "need_resched (cpu_q s3 c) = need_resched (cpu_q s1 c)"
      "stack_slab_ready s3 = stack_slab_ready s1" "s_default_sched_class s3 = s_default_sched_class s1" "lb_interval s3 = lb_interval s1" for c
    by (simp_all add: s3_def) (simp_all add: sched_dequeue_locked_def upd_cpu_def upd_bitmap_def upd_slinks_def Let_def)
  have i3: "sched_inv s3 W (boot_rq (Suc j)) (\<lambda>_. [])"
  proof (cases "j = 0")
    case True
    then show ?thesis using s1(2) by (simp add: s3_def boot_rq_def)
  next
    case False
    have "rq_upd 0 0 (remove1 j [0, j]) (rq_upd 0 0 [0, j] (boot_rq j)) = boot_rq (Suc j)"
      using False by (auto simp: boot_rq_def rq_upd_def fun_eq_iff)
    then show ?thesis
      using dequeue_sched_inv(1) [OF s1(2), of 0 j 0] False by (simp add: s3_def boot_rq_def scheduler_dequeue_def)
  qed
  let ?s4 = "upd_cpu j (\<lambda>q. q\<lparr>idle_thread := Some j\<rparr>) s3"
  have e: "(let s2 = upd_cpu j (\<lambda>q. q\<lparr>idle_thread := Some j\<rparr>) s1 in
      if j \<noteq> 0 then upd_cpu 0 (\<lambda>q. q\<lparr>nr_running := (if nr_running q > 0 then nr_running q - 1 else nr_running q)\<rparr>)
        (upd_slinks (list_del_init (Some (RqList j))) s2) else s2) = ?s4"
    using unlink_is_dequeue [OF s1(2), of j 0 j j] by (simp add: s3_def Let_def boot_rq_def)
  have st: "state (thr s3 t) = (if t < Suc j then KTHREAD_STATE_READY else KTHREAD_STATE_DEAD) \<and> (t < Suc j \<longrightarrow> prio (thr s3 t) = 0) \<and>
      tid (thr s3 t) = of_nat t \<and> sched_class (thr s3 t) = None"
    if "t < MAX_THREADS" for t
    using D(6) [OF that] D(7) [OF that] D(8) [OF that] by (auto simp: f(1) s1(3) new_thread_def less_Suc_eq)
  have "sched_inv ?s4 W (boot_rq (Suc j)) (\<lambda>_. [])"
  proof (rule set_idle_inv [OF i3 jt])
    show "state (thr s3 j) = KTHREAD_STATE_READY \<or> state (thr s3 j) = KTHREAD_STATE_RUNNING" using st [OF jt] by simp
    show "c = j" if "j \<in> set (boot_rq (Suc j) c p)" for c p
      using that by (auto simp: boot_rq_def rq_upd_def split: if_splits)
    show "c = j" if "c < CONFIG_MAX_CPUS" "current_thread (cpu_q s3 c) = Some j" for c using that D(3) by (simp add: f s1)
    show "c = j" if "c < CONFIG_MAX_CPUS" "idle_thread (cpu_q s3 c) = Some j" for c using that D(5) by (simp add: f s1 split: if_splits)
  qed
  moreover have "stack_slab_ready ?s4" "thread_table ?s4 = thread_table s3" "s_default_sched_class ?s4 = Some sched_rr" using D(2,9) f s1 by (simp_all add: upd_cpu_def)
  moreover have "current_thread (cpu_q ?s4 c) = None \<and> need_resched (cpu_q ?s4 c) = 0 \<and>
      idle_thread (cpu_q ?s4 c) = (if c < Suc j then Some c else None)" if "c < CONFIG_MAX_CPUS" for c
    using D(3-5) [OF that] by (auto simp: upd_cpu_def f s1 less_Suc_eq)
  ultimately have "idles_done W (Suc j) ?s4" using st by (simp add: idles_done_def)
  then show ?thesis using s1(1,9) e by auto
qed

lemma create_idles_done:
  assumes "idles_done W j s" and "j \<le> CONFIG_MAX_CPUS" and "en \<noteq> 0"
    and "\<And>c. c < CONFIG_MAX_CPUS \<Longrightarrow> sl c 1 \<noteq> 0 \<and> sl c 1 + 8192 \<noteq> 0"
  shows "\<exists>s'. create_idles g sl hs he en 0 [j..<CONFIG_MAX_CPUS] s = Some (KERNEL_OK, s') \<and> idles_done W CONFIG_MAX_CPUS s' \<and>
    lb_interval s' = lb_interval s"
  using assms(1,2)
proof (induction "CONFIG_MAX_CPUS - j" arbitrary: j s)
  case 0
  then show ?case by simp
next
  case (Suc n)
  then have j: "j < CONFIG_MAX_CPUS" by simp
  obtain s1 where s1: "kthread_create g (sl j) hs he 0 (Some ''idle'') en 0 PRIORITY_MIN KTHREAD_POLICY_FIFO 8192 s = Some (of_nat j, s1)"
      "idles_done W (Suc j) (let s2 = upd_cpu j (\<lambda>q. q\<lparr>idle_thread := Some j\<rparr>) s1 in
      if j \<noteq> 0 then upd_cpu 0 (\<lambda>q. q\<lparr>nr_running := (if nr_running q > 0 then nr_running q - 1 else nr_running q)\<rparr>)
        (upd_slinks (list_del_init (Some (RqList j))) s2) else s2)" "lb_interval s1 = lb_interval s"
    using idle_step [OF Suc.prems(1) j assms(3)] assms(4) [OF j] by blast
  have u: "unat (of_nat j :: u32) = j" "(of_nat j :: u32) \<noteq> THREAD_ID_INVALID" using unat_tid [of j] j by simp_all
  have l: "[j..<CONFIG_MAX_CPUS] = j # [Suc j..<CONFIG_MAX_CPUS]" using j by (rule upt_conv_Cons)
  define s3 where "s3 = (let s2 = upd_cpu j (\<lambda>q. q\<lparr>idle_thread := Some j\<rparr>) s1 in
      if j \<noteq> 0 then upd_cpu 0 (\<lambda>q. q\<lparr>nr_running := (if nr_running q > 0 then nr_running q - 1 else nr_running q)\<rparr>)
        (upd_slinks (list_del_init (Some (RqList j))) s2) else s2)"
  have "create_idles g sl hs he en 0 [j..<CONFIG_MAX_CPUS] s = create_idles g sl hs he en 0 [Suc j..<CONFIG_MAX_CPUS] s3"
    unfolding l by (simp add: s1(1) u s3_def Let_def del: upt_rec_numeral)
  moreover have "n = CONFIG_MAX_CPUS - Suc j" "Suc j \<le> CONFIG_MAX_CPUS" using Suc.hyps(2) j by simp_all
  moreover have "lb_interval s3 = lb_interval s" using s1(3) by (simp add: s3_def Let_def upd_cpu_def upd_slinks_def)
  ultimately show ?case using Suc.hyps(1) [of "Suc j" s3] s1(2) unfolding s3_def by simp
qed

section \<open>Initialisation and start\<close>

lemma scheduler_init_done:
  assumes "\<not> initialized s" and "s_sched_class_head s = None" and "class_next s sched_rr = None" and "en \<noteq> 0"
    and "\<And>c. c < CONFIG_MAX_CPUS \<Longrightarrow> sl c 1 \<noteq> 0 \<and> sl c 1 + 8192 \<noteq> 0" and "W \<subseteq> wait_heads" and "\<And>a. a \<in> W \<Longrightarrow> dll (slinks s) a []"
  shows "\<exists>s'. scheduler_init g sl hs he en True 0 s = Some (KERNEL_OK, s') \<and> idles_done W CONFIG_MAX_CPUS s' \<and> initialized s' \<and>
    lb_interval s' = lb_interval s"
proof -
  let ?s1 = "s\<lparr>class_next := (class_next s)(sched_rr := None), s_sched_class_head := Some sched_rr, s_default_sched_class := Some sched_rr\<rparr>"
  have "class_position p None None s = Some (None, None)" for p by (simp add: class_position.simps)
  then have r: "sched_rr_init s = Some ?s1"
    using assms(2,3) by (simp add: sched_rr_init_def sched_class_register_def sched_class_set_default_def)
  let ?s2 = "?s1\<lparr>stack_slab_ready := True\<rparr>"
  define s3 where "s3 = fold init_cpu [0..<CONFIG_MAX_CPUS] ?s2"
  define s4 where "s4 = fold init_thread [0..<MAX_THREADS] s3"
  have c: "cpu_clean d s4" if "d < CONFIG_MAX_CPUS" for d
    unfolding s4_def s3_def
    by (rule fold_preserve [where P = "cpu_clean d", OF init_thread_cpu], assumption,
        rule fold_establish [where P = cpu_clean, OF init_cpu_clean init_cpu_keep]) (use that in \<open>auto simp del: upt_rec_numeral\<close>)
  have t: "thread_clean u s4" if "u < MAX_THREADS" for u
    unfolding s4_def by (rule fold_establish [where P = thread_clean, OF init_thread_clean init_thread_keep])
      (use that in \<open>auto simp del: upt_rec_numeral\<close>)
  have k: "same_class ?s2 s4"
    unfolding s4_def s3_def
    by (intro fold_preserve [where P = "same_class ?s2"] init_same_class) (simp_all add: same_class_def)
  then have "class_ok s4" "stack_slab_ready s4" by (simp_all add: same_class_def class_ok_def)
  moreover have "dll (slinks s4) a []" if "a \<in> W" for a
    unfolding s4_def s3_def
    by (intro fold_preserve [where P = "\<lambda>s. dll (slinks s) a []"])
      (use assms(7) [OF that] in \<open>auto simp: init_cpu_links init_thread_def upd_slinks_def upd_thr_def init_links_self\<close>)
  ultimately have "idles_done W 0 s4"
    using clean_inv [OF c t, of W] c t k assms(6) by (auto simp: idles_done_def boot_rq_def cpu_clean_def thread_clean_def same_class_def)
  then obtain s5 where s5: "create_idles g sl hs he en 0 [0..<CONFIG_MAX_CPUS] s4 = Some (KERNEL_OK, s5)" "idles_done W CONFIG_MAX_CPUS s5"
      "lb_interval s5 = lb_interval s4"
    using create_idles_done [of W 0 s4 en sl g hs he] assms(4,5) by blast
  have "scheduler_init g sl hs he en True 0 s = Some (KERNEL_OK, s5\<lparr>initialized := True\<rparr>)"
    using s5(1) assms(1) by (simp add: scheduler_init_def r s3_def s4_def Let_def del: upt_rec_numeral)
  moreover have "sched_inv (s5\<lparr>initialized := True\<rparr>) W (boot_rq CONFIG_MAX_CPUS) (\<lambda>_. [])"
    by (rule sched_pre_cong [OF idles_doneD(1) [OF s5(2)]]) simp_all
  then have "idles_done W CONFIG_MAX_CPUS (s5\<lparr>initialized := True\<rparr>)" using s5(2) by (simp add: idles_done_def)
  ultimately show ?thesis using s5(3) k by (auto simp: same_class_def)
qed

text \<open>Starting a CPU that runs no thread yet.\<close>

lemma start_inv:
  assumes inv: "sched_inv s W rq wq" and c: "c < CONFIG_MAX_CPUS" and cur: "current_thread (cpu_q s c) = None"
    and n: "next_thread s rq c = Some t"
  shows "sched_inv (start_first c t s) W (rq_take c rq) wq"
    and "current_thread (cpu_q (start_first c t s) d) = (if d = c then Some t else current_thread (cpu_q s d))"
    and "idle_thread (cpu_q (start_first c t s) d) = idle_thread (cpu_q s d)"
proof -
  define s1 where "s1 = (if state (thr s t) = KTHREAD_STATE_READY then sched_dequeue_locked c t s else s)"
  have e: "start_first c t s = upd_thr t (\<lambda>k. k\<lparr>state := KTHREAD_STATE_RUNNING\<rparr>) (upd_cpu c (\<lambda>q. q\<lparr>current_thread := Some t\<rparr>) s1)"
    by (simp add: start_first_def s1_def scheduler_load_current_def scheduler_dequeue_def)
  have f1: "thread_table s1 = thread_table s" "current_thread (cpu_q s1 d) = current_thread (cpu_q s d)"
    "idle_thread (cpu_q s1 d) = idle_thread (cpu_q s d)" "s_sched_class_head s1 = s_sched_class_head s" "class_next s1 = class_next s" for d
    by (simp_all add: s1_def)
  have f: "thr (start_first c t s) u = (if u = t then (thr s t)\<lparr>state := KTHREAD_STATE_RUNNING\<rparr> else thr s u)"
    "current_thread (cpu_q (start_first c t s) d) = (if d = c then Some t else current_thread (cpu_q s d))"
    "idle_thread (cpu_q (start_first c t s) d) = idle_thread (cpu_q s d)" for u d
    unfolding e by (simp_all add: upd_thr_def upd_cpu_def f1)
  note v = sched_preD [OF inv] note m = next_thread_facts [OF sched_inv_pre [OF inv] c n] note l = rq_invD(1) [OF v(1)]
  have "rq_inv s1 W (rq_take c rq) wq" unfolding s1_def using m by (intro deq_next_inv [OF v(1) c n]) auto
  then have "rq_inv (start_first c t s) W (rq_take c rq) wq"
    unfolding e by (rule rq_inv_cong) (use m(2) in \<open>auto simp: upd_thr_def upd_cpu_def\<close>)
  moreover have "class_ok (start_first c t s)" using v(2) unfolding e by (simp add: class_ok_def upd_thr_def upd_cpu_def f1)
  moreover have "current_ok None (start_first c t s)"
    by (rule current_switch [OF v(3) _ f(2) m(1)]) (use m(4) in \<open>auto simp: f(1)\<close>)
  moreover have "idle_ok (start_first c t s) (rq_take c rq)"
  proof (rule idle_switch [OF v(4) f(2,3) m(5)])
    fix d e u q assume d: "d < CONFIG_MAX_CPUS" "e < CONFIG_MAX_CPUS" "idle_thread (cpu_q s d) = Some u" "u \<in> set (rq_take c rq e q)"
    then have "u \<in> set (rq e q)"
      by (cases "highest (rq c)"; cases "e = c") (auto simp: rq_take_def split: if_splits intro: set_tlD)
    then show "e = d" using idle_okD(3) [OF v(4) d(1), of u e q] d by metis
  qed (auto simp: f(1))
  moreover have "wait_ok (start_first c t s) W wq"
    unfolding wait_ok_def using v(5) m(6) wait_not [OF v(5), of t] by (auto simp: f(1) wait_ok_def)
  ultimately show "sched_inv (start_first c t s) W (rq_take c rq) wq" by (simp add: sched_pre_def)
  show "current_thread (cpu_q (start_first c t s) d) = (if d = c then Some t else current_thread (cpu_q s d))"
    and "idle_thread (cpu_q (start_first c t s) d) = idle_thread (cpu_q s d)" by (fact f)+
qed

end
