(* ===== verification/Sched_Wait.thy ===== *)
theory Sched_Wait
  imports Sched_Properties
begin

text \<open>
  Threads on wait queues, for the components that block: a running thread links its \<^verbatim>\<open>sleep_node\<close> into a queue and gives up the CPU; a
  waiting thread is taken out of its queue and put into a ready queue.
\<close>

section \<open>Blocking calls\<close>

text \<open>The outcome of a call up to the point where the calling thread gives up the CPU.\<close>

datatype call = Returns status | Blocks

text \<open>Milliseconds in ticks; \<^verbatim>\<open>CONFIG_TICK_RATE_HZ\<close> is 1000.\<close>

definition MS_TO_TICKS :: "u32 \<Rightarrow> u64" where
  "MS_TO_TICKS ms = ucast ms * 1000 div 1000"

lemma MS_TO_TICKS_ucast [simp]: "MS_TO_TICKS ms = ucast ms"
proof -
  have "unat ms < 2 ^ 32" by (rule unat_u32_bound)
  then have u: "unat (ucast ms :: u64) = unat ms" by (simp add: unsigned_ucast_eq take_bit_eq_mod)
  then have "unat (ucast ms * 1000 :: u64) = unat ms * 1000" using unat_u32_bound [of ms] by (simp add: unat_word_ariths)
  then have "unat (ucast ms * 1000 div 1000 :: u64) = unat (ucast ms :: u64)" using u by (simp add: unat_div)
  then show ?thesis unfolding MS_TO_TICKS_def by (rule word_unat_eq_iff [THEN iffD2])
qed

section \<open>Links\<close>

lemma queued_wait:
  assumes "W \<subseteq> wait_heads"
  shows "queued (ready_heads \<union> W) (nodes_of rq wq) (SleepNode t) \<longleftrightarrow> (\<exists>a\<in>W. t \<in> set (wq a))"
proof -
  have "SleepNode t \<in> set (nodes_of rq wq a) \<longleftrightarrow> t \<in> set (wq a)" if "a \<in> W" for a
    using that assms by (auto simp: nodes_of_wait)
  moreover have "SleepNode t \<notin> set (nodes_of rq wq a)" if "a \<in> ready_heads" for a
    using that by (auto simp: ready_heads_def)
  ultimately show ?thesis by (auto simp: queued_def)
qed

lemma nodes_of_wait_upd:
  assumes "a \<in> wait_heads"
  shows "nodes_of rq (wq(a := xs)) = (nodes_of rq wq)(a := map SleepNode xs)"
  using assms by (auto simp: fun_eq_iff nodes_of_def wait_heads_def split: sched_node.split)

lemma links_ok_wait_add:
  assumes "links_ok h W rq wq" and "a \<in> W" and "t < MAX_THREADS" and "\<And>b. b \<in> W \<Longrightarrow> t \<notin> set (wq b)"
  shows "links_ok (list_add (Some (SleepNode t)) (Some a) h) W rq (wq(a := t # wq a))"
proof -
  note w = links_okD(2) [OF assms(1)]
  have "rings (list_add (Some (SleepNode t)) (Some a) h) (ready_heads \<union> W) thread_nodes
      ((nodes_of rq wq)(a := SleepNode t # nodes_of rq wq a))"
    by (rule rings_add [OF links_okD(1) [OF assms(1)]]) (use assms(2-4) in \<open>auto simp: queued_wait [OF w]\<close>)
  then show ?thesis using w assms(2) by (auto simp: links_ok_def nodes_of_wait_upd nodes_of_wait subset_iff)
qed

lemma links_ok_wait_del:
  assumes "links_ok h W rq wq" and "a \<in> W" and "t \<in> set (wq a)"
  shows "links_ok (list_del_init (Some (SleepNode t)) h) W rq (wq(a := remove1 t (wq a)))"
proof -
  note w = links_okD(2) [OF assms(1)]
  have n: "nodes_of rq wq a = map SleepNode (wq a)" using w assms(2) by (auto simp: nodes_of_wait)
  have "rings (list_del_init (Some (SleepNode t)) h) (ready_heads \<union> W) thread_nodes
      ((nodes_of rq wq)(a := remove1 (SleepNode t) (nodes_of rq wq a)))"
    by (rule rings_del [OF links_okD(1) [OF assms(1)]]) (use assms(2,3) n in auto)
  moreover have "remove1 (SleepNode t) (map SleepNode xs) = map SleepNode (remove1 t xs)" for xs by (induction xs) auto
  ultimately show ?thesis using w assms(2) by (auto simp: links_ok_def nodes_of_wait_upd n subset_iff)
qed

lemma wait_unique:
  assumes "links_ok h W rq wq" and "a \<in> W" and "b \<in> W" and "t \<in> set (wq a)" and "t \<in> set (wq b)"
  shows "a = b"
  using ringsD(4) [OF links_okD(1) [OF assms(1)], of a b "SleepNode t"] links_okD(2) [OF assms(1)] assms(2-5)
  by (auto simp: nodes_of_wait subset_iff)

lemma wait_first:
  assumes "links_ok h W rq wq" and "a \<in> W"
  shows "lh_next (h a) = Some (if wq a = [] then a else SleepNode (hd (wq a)))"
proof -
  have "dll h a (map SleepNode (wq a))"
    using ringsD(2) [OF links_okD(1) [OF assms(1)], of a] links_okD(2) [OF assms(1)] assms(2) by (auto simp: nodes_of_wait)
  then show ?thesis using dll_next by (fastforce simp: hd_append hd_map)
qed

text \<open>A new wait queue.\<close>

lemma links_ok_new_head:
  assumes "links_ok h W rq wq" and "a \<in> wait_heads" and "a \<in> W \<longrightarrow> wq a = []"
  shows "links_ok (INIT_LIST_HEAD (Some a) h) (insert a W) rq (wq(a := []))"
proof -
  have a: "a \<notin> thread_nodes" "a \<notin> ready_heads" using assms(2) by (auto simp: wait_heads_def thread_nodes_def ready_heads_def)
  have "rings (INIT_LIST_HEAD (Some a) h) (insert a (ready_heads \<union> W)) thread_nodes ((nodes_of rq wq)(a := []))"
    by (rule rings_new_head [OF links_okD(1) [OF assms(1)] a(1)]) (use assms(2,3) a(2) in \<open>auto simp: nodes_of_wait\<close>)
  then show ?thesis using assms(2) links_okD(2) [OF assms(1)] by (simp add: links_ok_def nodes_of_wait_upd)
qed

section \<open>States\<close>

text \<open>Only the links of the wait queues change.\<close>

lemma sched_pre_links:
  assumes "sched_pre c s W rq wq" and "links_ok h W' rq wq'" and "wait_ok s W' wq'"
  shows "sched_pre c (s\<lparr>slinks := h\<rparr>) W' rq wq'"
proof -
  note i = sched_preD [OF assms(1)]
  have f: "cpu_queues (s\<lparr>slinks := h\<rparr>) = cpu_queues s" "thread_table (s\<lparr>slinks := h\<rparr>) = thread_table s" by simp_all
  have "rq_inv (s\<lparr>slinks := h\<rparr>) W' rq wq'" using i(1) assms(2) by (simp add: rq_inv_def)
  moreover have "current_ok c (s\<lparr>slinks := h\<rparr>) = current_ok c s" by (simp only: current_ok_def f)
  moreover have "idle_ok (s\<lparr>slinks := h\<rparr>) rq = idle_ok s rq" by (simp only: idle_ok_def f)
  ultimately show ?thesis using i(2-4) assms(3) by (simp add: sched_pre_def class_ok_def wait_ok_def)
qed

lemma upd_slinks_eq: "upd_slinks f s = s\<lparr>slinks := f (slinks s)\<rparr>"
  by (simp add: upd_slinks_def)

lemma upd_slinks_thr: "upd_thr t f (upd_slinks g s) = upd_slinks g (upd_thr t f s)"
  by (simp add: upd_thr_def upd_slinks_def)

lemma new_wait_queue:
  assumes "sched_pre c s W rq wq" and "a \<in> wait_heads" and "a \<in> W \<longrightarrow> wq a = []"
  shows "sched_pre c (upd_slinks (INIT_LIST_HEAD (Some a)) s) (insert a W) rq (wq(a := []))"
  unfolding upd_slinks_eq
  by (rule sched_pre_links [OF assms(1) links_ok_new_head [OF rq_invD(1) [OF sched_preD(1) [OF assms(1)]] assms(2,3)]])
    (use sched_preD(5) [OF assms(1)] in \<open>auto simp: wait_ok_def\<close>)

text \<open>The current thread joins a wait queue, in which position the link function decides.\<close>

lemma current_not_waiting:
  assumes "sched_inv s W rq wq" and "c < CONFIG_MAX_CPUS" and "current_thread (cpu_q s c) = Some p" and "a \<in> W"
  shows "p \<notin> set (wq a)" and "p < MAX_THREADS" and "state (thr s p) = KTHREAD_STATE_RUNNING"
proof -
  note i = current_okD [OF sched_preD(3) [OF assms(1)] assms(2,3)]
  show "p < MAX_THREADS" "state (thr s p) = KTHREAD_STATE_RUNNING" using i(1,2) by simp_all
  then show "p \<notin> set (wq a)" using wait_not [OF sched_preD(5) [OF assms(1)] _ _ assms(4), of p] by simp
qed

lemma block_current:
  assumes inv: "sched_inv s W rq wq" and c: "c < CONFIG_MAX_CPUS" and p: "current_thread (cpu_q s c) = Some p"
    and i: "idle_thread (cpu_q s c) \<noteq> Some p" and a: "a \<in> W" and ys: "set ys = insert p (set (wq a))"
    and l: "links_ok (f (slinks s)) W rq (wq(a := ys))"
  shows "sched_pre (Some c) (upd_thr p (\<lambda>k. k\<lparr>state := wait_state a\<rparr>) (upd_slinks f s)) W rq (wq(a := ys))"
proof -
  let ?s = "upd_thr p (\<lambda>k. k\<lparr>state := wait_state a\<rparr>) s"
  have pre: "sched_pre (Some c) ?s W rq wq"
    by (rule stop_current [OF inv c p i]) (use wait_state_cases [of a] in auto)
  have "wait_ok ?s W (wq(a := ys))"
    using sched_preD(5) [OF pre] ys by (auto simp: wait_ok_def upd_thr_def)
  moreover have "links_ok (f (slinks ?s)) W rq (wq(a := ys))" using l by (simp add: upd_thr_def)
  ultimately show ?thesis unfolding upd_slinks_thr unfolding upd_slinks_eq by (rule sched_pre_links [OF pre, rotated])
qed

text \<open>A waiting thread becomes ready on the CPU of the caller.\<close>

lemma wake_up:
  assumes inv: "sched_inv s W rq wq" and c: "c < CONFIG_MAX_CPUS" and a: "a \<in> W" and t: "t \<in> set (wq a)"
  shows "sched_inv (scheduler_enqueue c (Some t) (upd_thr t (\<lambda>k. k\<lparr>state := KTHREAD_STATE_READY\<rparr>)
      (upd_slinks (list_del_init (Some (SleepNode t))) s))) W
    (rq_upd c (prio (thr s t)) (rq c (prio (thr s t)) @ [t]) rq) (wq(a := remove1 t (wq a)))"
proof -
  note i = sched_preD [OF inv] note l = rq_invD(1) [OF i(1)]
  let ?wq = "wq(a := remove1 t (wq a))" let ?s = "upd_slinks (list_del_init (Some (SleepNode t))) s"
  have st: "state (thr s t) = KTHREAD_STATE_SLEEPING \<or> state (thr s t) = KTHREAD_STATE_BLOCKED"
    using i(5) a t wait_state_cases [of a] by (auto simp: wait_ok_def)
  have tm: "t < MAX_THREADS" by (rule links_okD(6) [OF l a t])
  have "wait_ok s W ?wq" using i(5) a by (auto simp: wait_ok_def dest: notin_set_remove1)
  then have s: "sched_inv ?s W rq ?wq"
    unfolding upd_slinks_eq using sched_pre_links [OF inv links_ok_wait_del [where t = t and a = a, OF l a t]] by blast
  have lo: "loose ?s rq t" by (rule loose_state [OF s tm]) (use st in \<open>auto simp: upd_slinks_def\<close>)
  have nw: "t \<notin> set (?wq b)" if "b \<in> W" for b
  proof (cases "b = a")
    case True
    then show ?thesis using links_okD(7) [OF l a] by simp
  next
    case False
    then show ?thesis using wait_unique [OF l that a _ t] by auto
  qed
  note s2 = loose_update [where wq = "?wq", OF s lo nw, of "\<lambda>k. k\<lparr>state := KTHREAD_STATE_READY\<rparr>"]
  show ?thesis
    using enqueue_sched_inv [OF s2 c tm] lo
    by (simp add: loose_def upd_thr_def upd_slinks_def)
qed

end
