(* ===== verification/Sched_Frame.thy ===== *)
theory Sched_Frame
  imports Sched_Wait
begin

text \<open>
  What no operation of the scheduler touches: the identifiers of the threads, and the state and wake-up time of every thread that waits
  for something other than a CPU.
\<close>

definition calm :: "sched \<Rightarrow> sched \<Rightarrow> bool" where
  "calm s s' \<longleftrightarrow> (\<forall>t. (tid (thr s t) = of_nat t \<longrightarrow> tid (thr s' t) = of_nat t) \<and>
     (state (thr s t) = KTHREAD_STATE_BLOCKED \<or> state (thr s t) = KTHREAD_STATE_SLEEPING \<longrightarrow>
        state (thr s' t) = state (thr s t) \<and> wakeup_tick (thr s' t) = wakeup_tick (thr s t)) \<and>
     (sched_class (thr s t) = None \<longrightarrow> sched_class (thr s' t) = None)) \<and>
     s_default_sched_class s' = s_default_sched_class s \<and> lb_interval s' = lb_interval s"

text \<open>What even waking a thread leaves alone.\<close>

definition steady :: "sched \<Rightarrow> sched \<Rightarrow> bool" where
  "steady s s' \<longleftrightarrow> s_default_sched_class s' = s_default_sched_class s \<and> lb_interval s' = lb_interval s \<and>
     (\<forall>t. sched_class (thr s' t) = sched_class (thr s t) \<and> wakeup_tick (thr s' t) = wakeup_tick (thr s t) \<and> tid (thr s' t) = tid (thr s t))"

lemma tuning [simp]:
  "s_default_sched_class (upd_thr t f s) = s_default_sched_class s" "lb_interval (upd_thr t f s) = lb_interval s"
  "s_default_sched_class (upd_cpu c q s) = s_default_sched_class s" "lb_interval (upd_cpu c q s) = lb_interval s"
  "s_default_sched_class (upd_slinks l s) = s_default_sched_class s" "lb_interval (upd_slinks l s) = lb_interval s"
  by (simp_all add: upd_thr_def upd_cpu_def upd_slinks_def)

lemma tuning_queues [simp]:
  "s_default_sched_class (sched_enqueue_locked c t s) = s_default_sched_class s" "lb_interval (sched_enqueue_locked c t s) = lb_interval s"
  "s_default_sched_class (sched_dequeue_locked c t s) = s_default_sched_class s" "lb_interval (sched_dequeue_locked c t s) = lb_interval s"
  "s_default_sched_class (preempt_disable c s) = s_default_sched_class s" "lb_interval (preempt_disable c s) = lb_interval s"
  "s_default_sched_class (scheduler_set_need_resched c s) = s_default_sched_class s" "lb_interval (scheduler_set_need_resched c s) = lb_interval s"
  by (simp_all add: sched_enqueue_locked_def sched_dequeue_locked_def preempt_disable_def scheduler_set_need_resched_def upd_bitmap_def Let_def)

lemma tuning_scheduled [simp]:
  "s_default_sched_class (scheduled c p t s) = s_default_sched_class s" "lb_interval (scheduled c p t s) = lb_interval s"
  by (simp_all add: scheduled_def switch_to_def Let_def)

lemma steady_refl [simp]: "steady s s"
  by (simp add: steady_def)

lemma steady_trans: "steady s s' \<Longrightarrow> steady s' s'' \<Longrightarrow> steady s s''"
  by (simp add: steady_def)

lemma steady_wake: "steady s (scheduler_enqueue c (Some t) (upd_thr t (\<lambda>k. k\<lparr>state := KTHREAD_STATE_READY\<rparr>) (upd_slinks f s)))"
  "steady s (scheduler_enqueue c (Some t) (upd_thr t (\<lambda>k. k\<lparr>state := KTHREAD_STATE_READY\<rparr>) s))"
  by (simp_all add: steady_def scheduler_enqueue_def) (simp_all add: upd_thr_def upd_slinks_def)

lemma calm_trans [trans]: "calm s s' \<Longrightarrow> calm s' s'' \<Longrightarrow> calm s s''"
  by (auto simp: calm_def)

lemma calm_table:
  "thread_table s' = thread_table s \<Longrightarrow> s_default_sched_class s' = s_default_sched_class s \<Longrightarrow> lb_interval s' = lb_interval s \<Longrightarrow> calm s s'"
  by (simp add: calm_def)

lemma calmD:
  assumes "calm s s'"
  shows "tid (thr s t) = of_nat t \<Longrightarrow> tid (thr s' t) = of_nat t"
    and "state (thr s t) = KTHREAD_STATE_BLOCKED \<Longrightarrow> state (thr s' t) = KTHREAD_STATE_BLOCKED"
    and "state (thr s t) = KTHREAD_STATE_SLEEPING \<Longrightarrow> state (thr s' t) = KTHREAD_STATE_SLEEPING \<and> wakeup_tick (thr s' t) = wakeup_tick (thr s t)"
  using assms by (auto simp: calm_def)

text \<open>\<^verbatim>\<open>schedule\<close>, also when the current thread has just blocked.\<close>

lemma scheduled_calm:
  assumes "sched_pre (Some c) s W rq wq" and "c < CONFIG_MAX_CPUS" and "current_thread (cpu_q s c) = Some p"
    and "next_thread s rq c = Some t"
  shows "calm s (scheduled c p t s)"
proof -
  have f: "thr (scheduled c p t s) = switched s p t" by (rule scheduled_fields(1) [OF assms])
  have "state (thr s t) \<noteq> KTHREAD_STATE_BLOCKED" "state (thr s t) \<noteq> KTHREAD_STATE_SLEEPING"
    using next_thread_facts(6) [OF assms(1,2,4)] by auto
  then show ?thesis by (auto simp: calm_def f switched_def)
qed

lemma schedule_calm:
  assumes "sched_pre (Some c) s W rq wq" and "ready_to_run g c s" and "schedule g c s = Some s'"
  shows "calm s s'"
proof -
  obtain p where p: "c < CONFIG_MAX_CPUS" "current_thread (cpu_q s c) = Some p" "\<not> g p" "idle_thread (cpu_q s c) \<noteq> None"
    using assms(2) by (auto simp: ready_to_run_def)
  obtain t where t: "next_thread s rq c = Some t" using next_thread_exists [OF p(4)] by auto
  show ?thesis using schedule_eq [OF assms(1) p(1,2) t, of g] p(3) assms(3) scheduled_calm [OF assms(1) p(1,2) t] by simp
qed

lemma schedule_current:
  assumes "sched_pre (Some c) s W rq wq" and "ready_to_run g c s" and "schedule g c s = Some s'"
  shows "current_thread (cpu_q s' c) \<noteq> None"
proof -
  obtain p where p: "c < CONFIG_MAX_CPUS" "current_thread (cpu_q s c) = Some p" "\<not> g p" "idle_thread (cpu_q s c) \<noteq> None"
    using assms(2) by (auto simp: ready_to_run_def)
  obtain t where t: "next_thread s rq c = Some t" using next_thread_exists [OF p(4)] by auto
  show ?thesis using schedule_eq [OF assms(1) p(1,2) t, of g] p(3) assms(3) scheduled_fields(2) [OF assms(1) p(1,2) t, of c] by auto
qed

lemma resched_calm:
  assumes "sched_inv s W rq wq" and "ready_to_run g c s \<or> need_resched (cpu_q s c) = 0"
    and "(case scheduler_test_and_clear_need_resched c s of (flag, s1) \<Rightarrow> if flag \<noteq> 0 then schedule g c s1 else Some s1) = Some s'"
  shows "calm s s'"
proof (cases "need_resched (cpu_q s c) = 0")
  case False
  let ?s = "upd_cpu c (\<lambda>q. q\<lparr>need_resched := 0\<rparr>) s"
  have "schedule g c ?s = Some s'" using assms(3) False by (simp add: scheduler_test_and_clear_need_resched_def Let_def)
  moreover have "ready_to_run g c ?s" using assms(2) False by (auto simp: ready_to_run_def upd_cpu_def)
  ultimately have "calm ?s s'" using schedule_calm [OF clear_resched_inv [OF sched_inv_pre [OF assms(1)]]] by blast
  moreover have "calm s ?s" by (rule calm_table) (simp_all add: upd_cpu_def)
  ultimately show ?thesis by (rule calm_trans [rotated])
qed (use assms(3) in \<open>auto simp: scheduler_test_and_clear_need_resched_def Let_def calm_def\<close>)


text \<open>The other operations.\<close>

lemma preempt_enable_calm:
  assumes "sched_inv s W rq wq" and "ready_to_run g c s \<or> need_resched (cpu_q s c) = 0" and "preempt_enable g c s = Some s'"
  shows "calm s s'"
proof -
  define s1 where "s1 = (if preempt_count s (percpu_ix c) > 0
    then s\<lparr>preempt_count := (preempt_count s)(percpu_ix c := preempt_count s (percpu_ix c) - 1)\<rparr> else s)"
  have i: "sched_inv s1 W rq wq" by (rule sched_pre_cong [OF assms(1)]) (auto simp: s1_def)
  have r: "ready_to_run g c s1 \<or> need_resched (cpu_q s1 c) = 0" using assms(2) by (auto simp: s1_def ready_to_run_def)
  have e: "preempt_enable g c s = (if preempt_count s1 (percpu_ix c) = 0
      then (case scheduler_test_and_clear_need_resched c s1 of (flag, s2) \<Rightarrow> if flag \<noteq> 0 then schedule g c s2 else Some s2)
      else Some s1)" by (simp add: preempt_enable_def s1_def [symmetric] Let_def)
  have "calm s1 s'"
    using assms(3) resched_calm [OF i r] by (cases "preempt_count s1 (percpu_ix c) = 0") (auto simp: e calm_def)
  moreover have "calm s s1" by (rule calm_table) (simp_all add: s1_def)
  ultimately show ?thesis by (rule calm_trans [rotated])
qed

lemma upd_thr_calm:
  assumes "state (thr s t) \<noteq> KTHREAD_STATE_BLOCKED" and "state (thr s t) \<noteq> KTHREAD_STATE_SLEEPING" and "tid (f (thr s t)) = tid (thr s t)"
    and "sched_class (f (thr s t)) = sched_class (thr s t)"
  shows "calm s (upd_thr t f s)"
  using assms by (auto simp: calm_def upd_thr_def)

lemma dead_update:
  assumes "sched_inv s W rq wq" and "state (thr s t) = KTHREAD_STATE_DEAD" and "t < MAX_THREADS"
  shows "sched_inv (upd_thr t f s) W rq wq"
  by (rule loose_update [OF assms(1) loose_state [OF assms(1,3)]])
    (use assms(2) wait_not [OF sched_preD(5) [OF assms(1)], of t] in auto)

lemma alloc_calm:
  assumes inv: "sched_inv s W rq wq" and run: "ready_to_run g c s \<or> need_resched (cpu_q s c) = 0"
    and a: "alloc_thread_id g c s = Some (i, s')"
  shows "calm s s'"
proof -
  let ?p = "preempt_disable c s" let ?f = "upd_thr (unat i) (\<lambda>k. k\<lparr>state := KTHREAD_STATE_READY\<rparr>)"
  have p: "sched_inv ?p W rq wq" "thread_table ?p = thread_table s" "cpu_queues ?p = cpu_queues s"
    using preempt_disable_inv [OF inv] by (simp_all add: preempt_disable_def)
  then have sp: "calm s ?p" by (simp add: calm_table)
  have r: "ready_to_run g c q \<or> need_resched (cpu_q q c) = 0" if "cpu_queues q = cpu_queues s" for q
    using run that by (simp add: ready_to_run_def)
  show ?thesis
  proof (cases "find (\<lambda>t. state (thr s t) = KTHREAD_STATE_DEAD) [0..<MAX_THREADS]")
    case None
    then have "preempt_enable g c ?p = Some s'" using a p(2) by (auto simp: alloc_thread_id_def Let_def simp del: upt_rec_numeral)
    then show ?thesis using calm_trans [OF sp] preempt_enable_calm [OF p(1) r] p(3) by blast
  next
    case (Some t)
    then have d: "state (thr ?p t) = KTHREAD_STATE_DEAD" "t < MAX_THREADS"
      using p(2) by (auto simp: find_Some_iff simp del: upt_rec_numeral)
    let ?s = "upd_thr t (\<lambda>k. k\<lparr>state := KTHREAD_STATE_READY\<rparr>) ?p"
    have "preempt_enable g c ?s = Some s'" using a p(2) Some by (auto simp: alloc_thread_id_def Let_def simp del: upt_rec_numeral)
    then have "calm ?s s'" using preempt_enable_calm [OF dead_update [OF p(1) d] r] p(3) by (simp add: upd_thr_def)
    moreover have "calm ?p ?s" by (rule upd_thr_calm) (use d(1) in simp_all)
    ultimately show ?thesis using sp calm_trans by blast
  qed
qed

lemma create_calm:
  assumes inv: "sched_inv s W rq wq" and run: "ready_to_run g c s \<or> need_resched (cpu_q s c) = 0"
    and k: "kthread_create g sl hs he c nm en arg pr pol n s = Some (i, s')"
  shows "calm s s'"
proof (cases "nm = None \<or> en = 0")
  case True
  then show ?thesis using k by (cases nm) (auto simp: kthread_create_def calm_def)
next
  case False
  then obtain str where str: "nm = Some str" "en \<noteq> 0" by auto
  obtain t1 s1 where a: "alloc_thread_id g c s = Some (t1, s1)"
    using k str by (cases "alloc_thread_id g c s") (auto simp: kthread_create_def Let_def)
  obtain stk_top s2 where s2: "stack_alloc_by_scheduler sl hs he (clamp_stack_size n) s1 = (stk_top, s2)" by fastforce
  have "s2 = s1\<lparr>s_heap_ptr := s_heap_ptr s2\<rparr>" using stack_alloc_frame [of sl hs he "clamp_stack_size n" s1] s2 by simp
  then obtain x where "s2 = s1\<lparr>s_heap_ptr := x\<rparr>" ..
  then have h: "thread_table s2 = thread_table s1" "s_default_sched_class s2 = s_default_sched_class s1" "lb_interval s2 = lb_interval s1" by simp_all
  note c1 = alloc_calm [OF inv run a]
  show ?thesis
  proof (cases "t1 = THREAD_ID_INVALID \<or> stk_top = 0")
    case True
    then show ?thesis using k str a s2 c1 calm_table [OF h] calm_trans by (auto simp: kthread_create_def Let_def split: if_splits)
  next
    case False
    then have s': "s' = scheduler_enqueue c (Some (unat t1)) (fill_thread t1 str en arg pr pol (clamp_stack_size n) stk_top s2)"
      using k str a s2 by (auto simp: kthread_create_def Let_def)
    obtain t where t: "find (\<lambda>t. state (thr s t) = KTHREAD_STATE_DEAD) [0..<MAX_THREADS] = Some t"
      using alloc_full [OF inv run] a False by fastforce
    have f: "t1 = of_nat t" "t < MAX_THREADS" "state (thr s1 t) = KTHREAD_STATE_READY" using alloc_inv [OF inv run t] a by auto
    have "calm s2 s'"
      using f(3) h by (auto simp: s' calm_def f(1) unat_tid [OF f(2)] scheduler_enqueue_def fill_thread_def Let_def upd_thr_def upd_slinks_def)
    then show ?thesis using c1 calm_table [OF h] calm_trans by blast
  qed
qed

lemma tick_calm:
  assumes "scheduler_tick c s = Some s'"
  shows "calm s s'"
proof -
  have b: "calm s1 s2" if "smp_tick_check_balance c s1 = Some s2" for s1 s2
    using that by (intro calm_table) (auto simp: smp_tick_check_balance_def Let_def split: if_splits)
  have r: "calm s1 (scheduler_set_need_resched c s1)" for s1
    by (rule calm_table) (simp_all add: scheduler_set_need_resched_def upd_cpu_def)
  have t: "calm s1 s2" if "sched_class_tick c (Some u) s1 = Some s2" for u s1 s2
    using that by (auto simp: sched_class_tick_def sched_rr_tick_def scheduler_set_need_resched_def upd_cpu_def upd_thr_def Let_def calm_def
        split: option.splits if_splits)
  show ?thesis
  proof (cases "current_thread (cpu_q s c)")
    case None
    then show ?thesis using assms by (simp add: scheduler_tick_def calm_table)
  next
    case (Some u)
    obtain s1 where s1: "sched_class_tick c (Some u) s = Some s1"
      using assms Some by (cases "sched_class_tick c (Some u) s") (auto simp: scheduler_tick_def)
    then have "s' = s1 \<or> smp_tick_check_balance c s1 = Some s' \<or> smp_tick_check_balance c (scheduler_set_need_resched c s1) = Some s'"
      using assms Some by (auto simp: scheduler_tick_def bind_eq_Some_conv split: option.splits if_splits)
    then have "calm s1 s'" using b r calm_trans calm_table [OF refl] by blast
    then show ?thesis by (rule calm_trans [OF t [OF s1]])
  qed
qed

lemma resume_calm:
  assumes inv: "sched_inv s W rq wq" and run: "ready_to_run g c s" and r: "kthread_resume g c i s = Some (r, s')"
  shows "calm s s'"
proof (cases "unat i < MAX_THREADS \<and> state (thr s (unat i)) = KTHREAD_STATE_SUSPENDED")
  case True
  let ?s1 = "scheduler_enqueue c (Some (unat i)) (upd_thr (unat i) (\<lambda>k. k\<lparr>state := KTHREAD_STATE_READY\<rparr>) s)"
  have c: "c < CONFIG_MAX_CPUS" using run by (simp add: ready_to_run_def)
  have i1: "\<exists>rq. sched_inv ?s1 W rq wq" using resume_enqueue [OF inv c] True by blast
  have r1: "ready_to_run g c ?s1"
    using run ready_to_run_cong [of ?s1 s g c] by (simp add: scheduler_enqueue_def upd_thr_def)
  have "calm s ?s1" using True by (auto simp: calm_def scheduler_enqueue_def upd_thr_def)
  moreover have "s' = ?s1 \<or> schedule g c ?s1 = Some s'"
    using r True get_thread_unat by (auto simp: kthread_resume_def Let_def split: option.splits if_splits)
  ultimately show ?thesis using schedule_calm [OF sched_inv_pre r1] i1 calm_trans by blast
next
  case False
  then show ?thesis using r by (auto simp: kthread_resume_def get_thread_by_id_def word_le_nat_alt calm_def split: if_splits)
qed

lemma set_priority_calm:
  assumes inv: "sched_inv s W rq wq" and run: "ready_to_run g c s"
    and q: "unat i < MAX_THREADS \<and> state (thr s (unat i)) = KTHREAD_STATE_READY \<longrightarrow> queued_on s c (unat i)"
    and r: "kthread_set_priority g c i p s = Some (r, s')"
  shows "calm s s'"
proof (cases "unat i < MAX_THREADS")
  case True
  let ?s1 = "prio_changed c (unat i) p s"
  have c: "c < CONFIG_MAX_CPUS" using run by (simp add: ready_to_run_def)
  have i1: "\<exists>rq. sched_inv ?s1 W rq wq"
    by (rule prio_changed_inv [OF inv c True]) (use queued_on_rq [OF inv c] q True in blast)
  have r1: "ready_to_run g c ?s1"
    using run ready_to_run_cong [of ?s1 s g c] by (simp add: prio_changed_def scheduler_enqueue_def scheduler_dequeue_def upd_thr_def)
  have "calm s ?s1" by (auto simp: calm_def prio_changed_def scheduler_enqueue_def scheduler_dequeue_def upd_thr_def)
  moreover have "s' = ?s1 \<or> schedule g c ?s1 = Some s'"
    using r by (auto simp: set_priority_eq [OF True c] Let_def split: option.splits if_splits)
  ultimately show ?thesis using schedule_calm [OF sched_inv_pre r1] i1 calm_trans by blast
next
  case False
  then show ?thesis using r by (auto simp: kthread_set_priority_def get_thread_by_id_def word_le_nat_alt calm_def split: if_splits)
qed

lemma exit_calm:
  assumes inv: "sched_inv s W rq wq" and run: "ready_to_run g c s" and n: "current_thread (cpu_q s c) \<noteq> idle_thread (cpu_q s c)"
    and e: "kthread_exit g c s = Some s'"
  shows "calm s s'"
proof -
  obtain p where p: "c < CONFIG_MAX_CPUS" "current_thread (cpu_q s c) = Some p" using run by (auto simp: ready_to_run_def)
  let ?s = "upd_thr p (\<lambda>k. k\<lparr>state := KTHREAD_STATE_DEAD\<rparr>) s"
  have st: "state (thr s p) = KTHREAD_STATE_RUNNING" using current_okD(2) [OF sched_preD(3) [OF inv] p] by simp
  have "sched_pre (Some c) ?s W rq wq" by (rule stop_current [OF inv p]) (use n p(2) in auto)
  moreover have "ready_to_run g c ?s" using run ready_to_run_cong [of ?s s g c] by (simp add: upd_thr_def)
  moreover have "schedule g c ?s = Some s'" using e p(2) by (simp add: kthread_exit_def)
  ultimately have "calm ?s s'" by (rule schedule_calm)
  moreover have "calm s ?s" by (rule upd_thr_calm) (simp_all add: st)
  ultimately show ?thesis using calm_trans by blast
qed

lemma start_calm:
  assumes inv: "sched_inv s W rq wq" and c: "c < CONFIG_MAX_CPUS" and "current_thread (cpu_q s c) = None"
    and "scheduler_start c s = Some s' \<or> scheduler_start_secondary c s = Some s'"
  shows "calm s s'"
proof -
  obtain t where t: "next_thread s rq c = Some t" "s' = start_first c t s"
    using assms(4) pick_next [OF sched_preD(1) [OF inv] c]
    by (auto simp: scheduler_start_def scheduler_start_secondary_def next_thread_def split: option.splits)
  have "state (thr s t) = KTHREAD_STATE_READY \<or> state (thr s t) = KTHREAD_STATE_RUNNING"
    by (rule next_thread_facts(6) [OF sched_inv_pre [OF inv] c t(1)])
  then show ?thesis
    by (auto simp: t(2) calm_def start_first_def scheduler_load_current_def scheduler_dequeue_def upd_thr_def upd_cpu_def)
qed

lemma sched_step_calm:
  assumes "sched_step s s'" and inv: "sched_inv s W rq wq"
  shows "calm s s'"
  using assms(1)
proof (cases rule: sched_step.cases)
  case (irq_exit g c)
  then show ?thesis using resched_calm [OF inv, of g c s'] by (auto simp: scheduler_irq_exit_check_def calm_def split: if_splits)
next
  case (preempt_off c)
  then show ?thesis by (simp add: calm_table preempt_disable_def)
next
  case (suspend c i r)
  then show ?thesis
    by (auto simp: kthread_suspend_def scheduler_dequeue_def upd_thr_def calm_def split: option.splits if_splits)
next
  case (tick c)
  then show ?thesis by (blast intro: tick_calm)
next
  case (yield g c)
  then show ?thesis by (blast intro: schedule_calm [OF sched_inv_pre [OF inv]])
next
  case (preempt_on g c)
  then show ?thesis by (blast intro: preempt_enable_calm [OF inv])
next
  case (exit g c)
  then show ?thesis by (blast intro: exit_calm [OF inv])
next
  case (resume g c i r)
  then show ?thesis by (blast intro: resume_calm [OF inv])
next
  case (set_priority g c i p r)
  then show ?thesis by (blast intro: set_priority_calm [OF inv])
next
  case (create g c sl hs he nm en arg pr pol n t)
  then show ?thesis by (blast intro: create_calm [OF inv])
next
  case (start c)
  then show ?thesis by (blast intro: start_calm [OF inv])
qed

end
