(* ===== verification/Mutex.thy ===== *)
theory Mutex
  imports Sched_Frame
begin

text \<open>
  The kernel mutex: \<^verbatim>\<open>kernel/sched/mutex.c\<close> and \<^verbatim>\<open>include/kernel/mutex.h\<close>, on top of the scheduler.

  A mutex pointer is a number; the wait queue inside mutex \<open>m\<close> is the list head \<open>WaitQ m\<close> of the scheduler's heap.  A call that gives up
  the CPU is followed up to the context switch (\<open>Blocks\<close>); \<^verbatim>\<open>mutex_lock\<close> then returns zero as soon as the thread runs again, which
  only \<^verbatim>\<open>mutex_unlock\<close> brings about, by handing the mutex over.
\<close>

section \<open>Data and operations\<close>

datatype mutex_state = MUTEX_STATE_UNLOCKED | MUTEX_STATE_LOCKED | MUTEX_STATE_CONTENDED

record mutex =
  owner_tid :: u32
  mstate :: mutex_state
  ceiling :: u8
  original_prio :: u8
  lock_count :: u32

record mutex_sys =
  mutexes :: "nat \<Rightarrow> mutex"
  msched :: sched

definition upd_mutex :: "nat \<Rightarrow> (mutex \<Rightarrow> mutex) \<Rightarrow> mutex_sys \<Rightarrow> mutex_sys" where
  "upd_mutex m f st = st\<lparr>mutexes := (mutexes st)(m := f (mutexes st m))\<rparr>"

definition mutex_init :: "nat option \<Rightarrow> u8 \<Rightarrow> mutex_sys \<Rightarrow> mutex_sys" where
  "mutex_init mutex ceil st =
     (case mutex of
        None \<Rightarrow> st
      | Some m \<Rightarrow> upd_mutex m (\<lambda>_. \<lparr>owner_tid = 0, mstate = MUTEX_STATE_UNLOCKED, ceiling = ceil, original_prio = PRIORITY_MIN, lock_count = 0\<rparr>)
          (st\<lparr>msched := upd_slinks (\<lambda>h. set_prev (WaitQ m) (Some (WaitQ m)) (set_next (WaitQ m) (Some (WaitQ m)) h)) (msched st)\<rparr>))"

text \<open>
  The four assignments that link a \<^verbatim>\<open>sleep_node\<close> in behind the head of a wait queue, and the four that unlink it; a null link is followed
  where the queue was never initialised.
\<close>

definition wait_push :: "sched_node \<Rightarrow> sched_node \<Rightarrow> sched_node heap \<Rightarrow> sched_node heap option" where
  "wait_push n q h =
     (let h1 = set_prev n (Some q) (set_next n (lh_next (h q)) h)
      in case lh_next (h1 q) of
           None \<Rightarrow> None
         | Some x \<Rightarrow> Some (set_next q (Some n) (set_prev x (Some n) h1)))"

definition wait_unlink :: "sched_node \<Rightarrow> sched_node heap \<Rightarrow> sched_node heap option" where
  "wait_unlink n h =
     (case (lh_prev (h n), lh_next (h n)) of
        (Some p, Some x) \<Rightarrow> Some (set_prev n (Some n) (set_next n (Some n) (set_prev x (Some p) (set_next p (Some x) h))))
      | _ \<Rightarrow> None)"

definition take_mutex :: "nat \<Rightarrow> nat \<Rightarrow> mutex_sys \<Rightarrow> mutex_sys" where
  "take_mutex m t st = upd_mutex m (\<lambda>x. x\<lparr>owner_tid := tid (thr (msched st) t), mstate := MUTEX_STATE_LOCKED, lock_count := lock_count x + 1\<rparr>) st"

definition mutex_lock :: "(nat \<Rightarrow> bool) \<Rightarrow> nat \<Rightarrow> nat option \<Rightarrow> mutex_sys \<Rightarrow> (call \<times> mutex_sys) option" where
  "mutex_lock guard_bad cpu mutex st =
     (case mutex of
        None \<Rightarrow> Some (Returns (Err EINVAL), st)
      | Some m \<Rightarrow>
         (case kthread_get_current cpu (msched st) of
            None \<Rightarrow> Some (Returns (Err ESRCH), st)
          | Some t \<Rightarrow>
              if mstate (mutexes st m) = MUTEX_STATE_UNLOCKED then Some (Returns KERNEL_OK, take_mutex m t st)
              else do {
                let st1 = upd_mutex m (\<lambda>x. x\<lparr>mstate := MUTEX_STATE_CONTENDED\<rparr>) st;
                h \<leftarrow> wait_push (SleepNode t) (WaitQ m) (slinks (msched st1));
                let s1 = upd_thr t (\<lambda>k. k\<lparr>state := KTHREAD_STATE_BLOCKED\<rparr>) ((msched st1)\<lparr>slinks := h\<rparr>);
                s2 \<leftarrow> schedule guard_bad cpu s1;
                Some (Blocks, st1\<lparr>msched := s2\<rparr>)
              }))"

text \<open>The first waiter; a link that is no \<^verbatim>\<open>sleep_node\<close> is followed as one.\<close>

definition pass_lock :: "nat \<Rightarrow> nat \<Rightarrow> mutex_sys \<Rightarrow> mutex_sys option" where
  "pass_lock cpu m st =
     (case lh_next (slinks (msched st) (WaitQ m)) of
        Some (SleepNode t) \<Rightarrow> do {
          h \<leftarrow> wait_unlink (SleepNode t) (slinks (msched st));
          let st1 = upd_mutex m (\<lambda>x. x\<lparr>owner_tid := tid (thr (msched st) t), lock_count := lock_count x + 1\<rparr>) st;
          Some (st1\<lparr>msched := scheduler_enqueue cpu (Some t)
            (upd_thr t (\<lambda>k. k\<lparr>state := KTHREAD_STATE_READY\<rparr>) ((msched st)\<lparr>slinks := h\<rparr>))\<rparr>)
        }
      | _ \<Rightarrow> None)"

definition mutex_unlock :: "(nat \<Rightarrow> bool) \<Rightarrow> nat \<Rightarrow> nat option \<Rightarrow> mutex_sys \<Rightarrow> (status \<times> mutex_sys) option" where
  "mutex_unlock guard_bad cpu mutex st =
     (case mutex of
        None \<Rightarrow> Some (Err EINVAL, st)
      | Some m \<Rightarrow>
         (case kthread_get_current cpu (msched st) of
            None \<Rightarrow> Some (Err ESRCH, st)
          | Some t \<Rightarrow>
              if owner_tid (mutexes st m) \<noteq> tid (thr (msched st) t) then Some (Err EPERM, st)
              else do {
                let st1 = upd_mutex m (\<lambda>x. x\<lparr>lock_count := lock_count x - 1\<rparr>) st;
                st2 \<leftarrow> (if original_prio (mutexes st1 m) \<noteq> PRIORITY_MIN
                  then do {
                    (r, s) \<leftarrow> kthread_set_priority guard_bad cpu (tid (thr (msched st1) t)) (original_prio (mutexes st1 m)) (msched st1);
                    Some (upd_mutex m (\<lambda>x. x\<lparr>original_prio := PRIORITY_MIN\<rparr>) (st1\<lparr>msched := s\<rparr>))
                  }
                  else Some st1);
                st3 \<leftarrow> (if lh_next (slinks (msched st2) (WaitQ m)) \<noteq> Some (WaitQ m) then pass_lock cpu m st2
                  else Some (upd_mutex m (\<lambda>x. x\<lparr>owner_tid := 0, mstate := MUTEX_STATE_UNLOCKED\<rparr>) st2));
                Some (KERNEL_OK, st3)
              }))"

definition mutex_try_lock :: "nat \<Rightarrow> nat option \<Rightarrow> mutex_sys \<Rightarrow> status \<times> mutex_sys" where
  "mutex_try_lock cpu mutex st =
     (case mutex of
        None \<Rightarrow> (Err EINVAL, st)
      | Some m \<Rightarrow>
          if mstate (mutexes st m) \<noteq> MUTEX_STATE_UNLOCKED then (Err EBUSY, st)
          else (case kthread_get_current cpu (msched st) of
                  None \<Rightarrow> (Err ESRCH, st)
                | Some t \<Rightarrow> (KERNEL_OK, take_mutex m t st)))"

text \<open>
  The waiting loop of \<^verbatim>\<open>mutex_lock_timeout\<close>.  \<open>clock i\<close> is the answer of the \<open>i\<close>-th call of \<^verbatim>\<open>timer_get_ticks\<close>, \<open>world i\<close> what the rest of
  the system does in the \<open>i\<close>-th round.
\<close>

partial_function (option) lock_wait ::
  "(nat \<Rightarrow> bool) \<Rightarrow> nat \<Rightarrow> (nat \<Rightarrow> u64) \<Rightarrow> (nat \<Rightarrow> mutex_sys \<Rightarrow> mutex_sys) \<Rightarrow> nat \<Rightarrow> u64 \<Rightarrow> nat \<Rightarrow> mutex_sys \<Rightarrow> (call \<times> mutex_sys) option" where
  "lock_wait guard_bad cpu clock world m deadline i st =
     (if mstate (mutexes st m) = MUTEX_STATE_UNLOCKED then mutex_lock guard_bad cpu (Some m) st
      else if clock i \<ge> deadline then Some (Returns (Err ETIMEDOUT), st)
      else lock_wait guard_bad cpu clock world m deadline (Suc i) (world i st))"

declare lock_wait.simps [code]

definition mutex_lock_timeout ::
  "(nat \<Rightarrow> bool) \<Rightarrow> nat \<Rightarrow> (nat \<Rightarrow> u64) \<Rightarrow> (nat \<Rightarrow> mutex_sys \<Rightarrow> mutex_sys) \<Rightarrow> nat option \<Rightarrow> u32 \<Rightarrow> mutex_sys \<Rightarrow> (call \<times> mutex_sys) option" where
  "mutex_lock_timeout guard_bad cpu clock world mutex timeout_ms st =
     (case mutex of
        None \<Rightarrow> Some (Returns (Err EINVAL), st)
      | Some m \<Rightarrow>
          if timeout_ms = 0 then (case mutex_try_lock cpu mutex st of (r, st1) \<Rightarrow> Some (Returns r, st1))
          else (case kthread_get_current cpu (msched st) of
                  None \<Rightarrow> Some (Returns (Err ESRCH), st)
                | Some t \<Rightarrow> lock_wait guard_bad cpu clock world m (clock 0 + MS_TO_TICKS timeout_ms) 1 st))"

definition mutex_is_held :: "nat option \<Rightarrow> mutex_sys \<Rightarrow> bool" where
  "mutex_is_held mutex st = (case mutex of None \<Rightarrow> False | Some m \<Rightarrow> mstate (mutexes st m) \<noteq> MUTEX_STATE_UNLOCKED)"

section \<open>Links\<close>

lemma wait_push_ring:
  assumes "dll h a xs" and "n \<notin> set (a # xs)"
  shows "wait_push n a h = Some (list_add (Some n) (Some a) h)"
proof -
  obtain x where x: "lh_next (h a) = Some x" "x \<noteq> n" using dll_next [OF assms(1)] assms(2) by (cases xs) auto
  then show ?thesis
    using assms(2) by (auto simp: wait_push_def list_add_def list_add_between_def Let_def set_next_def set_prev_def fun_eq_iff)
qed

lemma wait_unlink_ring:
  assumes "lh_prev (h n) = Some p" and "lh_next (h n) = Some x"
  shows "wait_unlink n h = Some (list_del_init (Some n) h)"
  using assms by (auto simp: wait_unlink_def list_del_init_def list_del_between_def INIT_LIST_HEAD_def set_next_def set_prev_def fun_eq_iff)

end
