(* ===== verification/Mutex_Inv.thy ===== *)
theory Mutex_Inv
  imports Mutex
begin

text \<open>
  What holds of the mutexes at all times, and the effect of each operation on the mutex and on the queues.  \<open>wq (WaitQ m)\<close> lists the
  threads that wait for \<open>m\<close>, the latest first.
\<close>

definition mutex_ok :: "mutex \<Rightarrow> nat list \<Rightarrow> bool" where
  "mutex_ok x ws \<longleftrightarrow> original_prio x = PRIORITY_MIN \<and>
     (if mstate x = MUTEX_STATE_UNLOCKED then ws = [] \<and> owner_tid x = 0 \<and> lock_count x = 0
      else lock_count x = 1 \<and> (ws \<noteq> [] \<longrightarrow> mstate x = MUTEX_STATE_CONTENDED))"

section \<open>Links\<close>

lemma wait_push_ok:
  assumes "links_ok h W rq wq" and "a \<in> W" and "t < MAX_THREADS" and "\<And>b. b \<in> W \<Longrightarrow> t \<notin> set (wq b)"
  shows "\<exists>h'. wait_push (SleepNode t) a h = Some h' \<and> links_ok h' W rq (wq(a := t # wq a))"
proof -
  note w = links_okD(2) [OF assms(1)]
  have n: "nodes_of rq wq a = map SleepNode (wq a)" using w assms(2) by (auto simp: nodes_of_wait)
  have "dll h a (map SleepNode (wq a))" using ringsD(2) [OF links_okD(1) [OF assms(1)], of a] assms(2) n by simp
  moreover have "SleepNode t \<notin> set (a # map SleepNode (wq a))" using w assms(2,4) by (auto simp: wait_heads_def)
  ultimately show ?thesis using wait_push_ring links_ok_wait_add [OF assms] by blast
qed

lemma wait_unlink_ok:
  assumes "links_ok h W rq wq" and "a \<in> W" and "t \<in> set (wq a)"
  shows "wait_unlink (SleepNode t) h = Some (list_del_init (Some (SleepNode t)) h)"
proof -
  have n: "nodes_of rq wq a = map SleepNode (wq a)" using links_okD(2) [OF assms(1)] assms(2) by (auto simp: nodes_of_wait)
  have d: "dll h a (map SleepNode (wq a))" using ringsD(2) [OF links_okD(1) [OF assms(1)], of a] assms(2) n by simp
  have "SleepNode t \<in> set (map SleepNode (wq a))" using assms(3) by simp
  then obtain us vs where "map SleepNode (wq a) = us @ SleepNode t # vs" by (meson split_list)
  then have "dseg h a us (SleepNode t)" "dseg h (SleepNode t) vs a" using d by (simp_all add: dll_def dseg_append)
  then show ?thesis using dseg_prev dseg_next wait_unlink_ring by fast
qed

section \<open>Operations\<close>

lemma mutex_init_inv:
  assumes "sched_inv (msched st) W rq wq" and "WaitQ m \<in> W \<longrightarrow> wq (WaitQ m) = []"
  shows "sched_inv (msched (mutex_init (Some m) c st)) (insert (WaitQ m) W) rq (wq(WaitQ m := []))"
    and "mutex_ok (mutexes (mutex_init (Some m) c st) m) []"
proof -
  have "INIT_LIST_HEAD (Some a) = (\<lambda>h. set_prev a (Some a) (set_next a (Some a) h))" for a :: sched_node
    by (simp add: INIT_LIST_HEAD_def fun_eq_iff)
  then show "sched_inv (msched (mutex_init (Some m) c st)) (insert (WaitQ m) W) rq (wq(WaitQ m := []))"
    using new_wait_queue [OF assms(1), of "WaitQ m"] assms(2) by (simp add: mutex_init_def upd_mutex_def wait_heads_def)
  show "mutex_ok (mutexes (mutex_init (Some m) c st) m) []" by (simp add: mutex_init_def upd_mutex_def mutex_ok_def)
qed

lemma mutex_lock_free:
  assumes "c < CONFIG_MAX_CPUS" and "current_thread (cpu_q (msched st) c) = Some t" and "mstate (mutexes st m) = MUTEX_STATE_UNLOCKED"
  shows "mutex_lock g c (Some m) st = Some (Returns KERNEL_OK, take_mutex m t st)"
  using assms by (simp add: mutex_lock_def current_get)

text \<open>A thread that finds the mutex taken waits in front of the others, and the CPU goes to another thread.\<close>

lemma mutex_lock_wait:
  assumes inv: "sched_inv (msched st) W rq wq" and run: "ready_to_run g c (msched st)" and m: "WaitQ m \<in> W"
    and t: "current_thread (cpu_q (msched st) c) = Some t" "idle_thread (cpu_q (msched st) c) \<noteq> Some t"
    and l: "mstate (mutexes st m) \<noteq> MUTEX_STATE_UNLOCKED"
  shows "\<exists>s' rq'. mutex_lock g c (Some m) st = Some (Blocks, upd_mutex m (\<lambda>x. x\<lparr>mstate := MUTEX_STATE_CONTENDED\<rparr>) (st\<lparr>msched := s'\<rparr>)) \<and>
    sched_inv s' W rq' (wq(WaitQ m := t # wq (WaitQ m))) \<and> state (thr s' t) = KTHREAD_STATE_BLOCKED \<and> calm (msched st) s'"
proof -
  let ?s = "msched st" let ?wq = "wq(WaitQ m := t # wq (WaitQ m))"
  have c: "c < CONFIG_MAX_CPUS" using run by (simp add: ready_to_run_def)
  note cw = current_not_waiting [OF inv c t(1)]
  obtain h where h: "wait_push (SleepNode t) (WaitQ m) (slinks ?s) = Some h" "links_ok h W rq ?wq"
    using wait_push_ok [OF rq_invD(1) [OF sched_preD(1) [OF inv]] m cw(2) [OF m]] cw(1) by blast
  let ?s1 = "upd_thr t (\<lambda>k. k\<lparr>state := KTHREAD_STATE_BLOCKED\<rparr>) (?s\<lparr>slinks := h\<rparr>)"
  have "sched_pre (Some c) (upd_thr t (\<lambda>k. k\<lparr>state := wait_state (WaitQ m)\<rparr>) (upd_slinks (\<lambda>_. h) ?s)) W rq ?wq"
    by (rule block_current [OF inv c t m]) (use h in simp_all)
  then have pre: "sched_pre (Some c) ?s1 W rq ?wq" by (simp add: wait_state_def upd_slinks_def)
  have r: "ready_to_run g c ?s1" using run by (simp add: ready_to_run_def upd_thr_def)
  obtain s' rq' where s': "schedule g c ?s1 = Some s'" "sched_inv s' W rq' ?wq" using schedule_inv [OF pre r] by blast
  have k: "calm ?s1 s'" by (rule schedule_calm [OF pre r s'(1)])
  moreover have "calm ?s ?s1" using cw(3) [OF m] by (auto simp: calm_def upd_thr_def)
  ultimately have "calm ?s s'" by (rule calm_trans [rotated])
  moreover have "state (thr s' t) = KTHREAD_STATE_BLOCKED" using calmD(2) [OF k, of t] by (simp add: upd_thr_def)
  moreover have "mutex_lock g c (Some m) st = Some (Blocks, upd_mutex m (\<lambda>x. x\<lparr>mstate := MUTEX_STATE_CONTENDED\<rparr>) (st\<lparr>msched := s'\<rparr>))"
    using t(1) l h(1) s'(1) by (simp add: mutex_lock_def current_get [OF c] upd_mutex_def)
  ultimately show ?thesis using s'(2) by blast
qed

text \<open>Unlocking hands the mutex over to the latest waiter, which becomes ready on the CPU of the caller.\<close>

lemma pass_lock_eq:
  assumes inv: "sched_inv (msched st) W rq wq" and c: "c < CONFIG_MAX_CPUS" and m: "WaitQ m \<in> W" and w: "wq (WaitQ m) = t # ts"
  shows "\<exists>s'. pass_lock c m st = Some (upd_mutex m (\<lambda>x. x\<lparr>owner_tid := tid (thr (msched st) t), lock_count := lock_count x + 1\<rparr>) (st\<lparr>msched := s'\<rparr>)) \<and>
    sched_inv s' W (rq_upd c (prio (thr (msched st) t)) (rq c (prio (thr (msched st) t)) @ [t]) rq) (wq(WaitQ m := ts)) \<and>
    thread_table s' = (thread_table (msched st))(t := (thr (msched st) t)\<lparr>state := KTHREAD_STATE_READY\<rparr>) \<and> steady (msched st) s'"
proof -
  let ?s = "msched st"
  let ?s' = "scheduler_enqueue c (Some t) (upd_thr t (\<lambda>k. k\<lparr>state := KTHREAD_STATE_READY\<rparr>) (upd_slinks (list_del_init (Some (SleepNode t))) ?s))"
  note l = rq_invD(1) [OF sched_preD(1) [OF inv]]
  have t: "t \<in> set (wq (WaitQ m))" using w by simp
  have "lh_next (slinks ?s (WaitQ m)) = Some (SleepNode t)" using wait_first [OF l m] w by simp
  then have "pass_lock c m st = Some (upd_mutex m (\<lambda>x. x\<lparr>owner_tid := tid (thr ?s t), lock_count := lock_count x + 1\<rparr>) (st\<lparr>msched := ?s'\<rparr>))"
    using wait_unlink_ok [OF l m t] by (simp add: pass_lock_def upd_mutex_def upd_slinks_def)
  moreover have "sched_inv ?s' W (rq_upd c (prio (thr ?s t)) (rq c (prio (thr ?s t)) @ [t]) rq) (wq(WaitQ m := ts))"
    using wake_up [where t = t, OF inv c m t] w by simp
  moreover have "thread_table ?s' = (thread_table ?s)(t := (thr ?s t)\<lparr>state := KTHREAD_STATE_READY\<rparr>)"
    by (simp add: scheduler_enqueue_def upd_thr_def upd_slinks_def)
  moreover have "steady ?s ?s'" by (rule steady_wake)
  ultimately show ?thesis by blast
qed

lemma mutex_unlock_wait:
  assumes inv: "sched_inv (msched st) W rq wq" and c: "c < CONFIG_MAX_CPUS" and m: "WaitQ m \<in> W" and w: "wq (WaitQ m) = t # ts"
    and u: "current_thread (cpu_q (msched st) c) = Some u" "owner_tid (mutexes st m) = tid (thr (msched st) u)"
    and o: "original_prio (mutexes st m) = PRIORITY_MIN"
  shows "\<exists>s'. mutex_unlock g c (Some m) st = Some (KERNEL_OK, upd_mutex m (\<lambda>x. x\<lparr>owner_tid := tid (thr (msched st) t)\<rparr>) (st\<lparr>msched := s'\<rparr>)) \<and>
    sched_inv s' W (rq_upd c (prio (thr (msched st) t)) (rq c (prio (thr (msched st) t)) @ [t]) rq) (wq(WaitQ m := ts)) \<and>
    thread_table s' = (thread_table (msched st))(t := (thr (msched st) t)\<lparr>state := KTHREAD_STATE_READY\<rparr>) \<and> steady (msched st) s'"
proof -
  let ?st = "upd_mutex m (\<lambda>x. x\<lparr>lock_count := lock_count x - 1\<rparr>) st"
  have s: "msched ?st = msched st" "original_prio (mutexes ?st m) = PRIORITY_MIN" using o by (simp_all add: upd_mutex_def)
  have "lh_next (slinks (msched st) (WaitQ m)) = Some (SleepNode t)"
    using wait_first [OF rq_invD(1) [OF sched_preD(1) [OF inv]] m] w by simp
  then have "mutex_unlock g c (Some m) st = map_option (Pair KERNEL_OK) (pass_lock c m ?st)"
    using u s by (simp add: mutex_unlock_def current_get [OF c] map_conv_bind_option comp_def)
  moreover have "sched_inv (msched ?st) W rq wq" using inv s(1) by simp
  note pass_lock_eq [OF this c m w]
  ultimately show ?thesis using s(1) by (auto simp: upd_mutex_def)
qed

lemma mutex_unlock_last:
  assumes inv: "sched_inv (msched st) W rq wq" and c: "c < CONFIG_MAX_CPUS" and m: "WaitQ m \<in> W" and w: "wq (WaitQ m) = []"
    and u: "current_thread (cpu_q (msched st) c) = Some u" "owner_tid (mutexes st m) = tid (thr (msched st) u)"
    and o: "original_prio (mutexes st m) = PRIORITY_MIN"
  shows "mutex_unlock g c (Some m) st = Some (KERNEL_OK,
    upd_mutex m (\<lambda>x. x\<lparr>lock_count := lock_count x - 1, owner_tid := 0, mstate := MUTEX_STATE_UNLOCKED\<rparr>) st)"
proof -
  have "lh_next (slinks (msched st) (WaitQ m)) = Some (WaitQ m)"
    using wait_first [OF rq_invD(1) [OF sched_preD(1) [OF inv]] m] w by simp
  then show ?thesis using u o by (simp add: mutex_unlock_def current_get [OF c] upd_mutex_def)
qed

end
