(* ===== verification/Ordered_Queue.thy ===== *)
theory Ordered_Queue
  imports Node_Rings
begin

text \<open>
  Rings ordered by a key: the insertion loop that \<^verbatim>\<open>kernel/sched/timer.c\<close> uses for sleeping threads and for software timers alike.
  \<open>key\<close> reads the key of the structure around a node, \<open>None\<close> where the node is not part of one.
\<close>

section \<open>The insertion\<close>

text \<open>The position the loop \<^verbatim>\<open>list_for_each\<close> stops at: the first node with a greater key, or the head.\<close>

partial_function (option) ordered_pos :: "('p \<Rightarrow> u64 option) \<Rightarrow> 'p heap \<Rightarrow> 'p \<Rightarrow> u64 \<Rightarrow> 'p option \<Rightarrow> 'p option" where
  "ordered_pos key h q x pos =
     (case pos of
        None \<Rightarrow> None
      | Some p \<Rightarrow>
          if p = q then Some p
          else (case key p of
                  None \<Rightarrow> None
                | Some k \<Rightarrow> if k > x then Some p else ordered_pos key h q x (lh_next (h p))))"

declare ordered_pos.simps [code]

definition insert_ordered :: "('p \<Rightarrow> u64 option) \<Rightarrow> 'p \<Rightarrow> 'p \<Rightarrow> u64 \<Rightarrow> 'p heap \<Rightarrow> 'p heap option" where
  "insert_ordered key q n x h =
     map_option (\<lambda>pos. list_add_tail (Some n) (Some pos) h) (ordered_pos key h q x (lh_next (h q)))"

section \<open>Its effect\<close>

lemma dll_insert_before:
  assumes d: "dll h a (us @ p # vs)" and n: "n \<notin> set (a # us @ p # vs)"
  shows "dll (list_add_tail (Some n) (Some p) h) a (us @ n # p # vs)"
proof -
  let ?h = "list_add_tail (Some n) (Some p) h" let ?b = "last (a # us)"
  have seg: "dseg h a us p" "dseg h p vs a" and dist: "distinct (a # us @ p # vs)" using d by (auto simp: dll_def dseg_append)
  have prev: "lh_prev (h p) = Some ?b" by (rule dseg_prev [OF seg(1)])
  have b: "?b \<noteq> p" "?b \<noteq> n" using dist n by (cases us rule: rev_cases; auto)+
  have e: "?h = set_next ?b (Some n) (set_prev n (Some ?b) (set_next n (Some p) (set_prev p (Some n) h)))"
    using prev by (simp add: list_add_tail_def list_add_between_def)
  have bv: "?b \<notin> set vs" using dist by (cases us rule: rev_cases) auto
  have "dseg ?h p vs a = dseg h p vs a" by (rule dseg_cong) (use dist n b bv in \<open>auto simp: e\<close>)
  then have "dseg ?h p vs a" using seg(2) by simp
  moreover have "dseg ?h a us n"
  proof (cases us rule: rev_cases)
    case Nil
    then show ?thesis using b n by (auto simp: e)
  next
    case (snoc ws w)
    then have "dseg h a ws w" using seg(1) by (simp add: dseg_append)
    moreover have "dseg ?h a ws w = dseg h a ws w" by (rule dseg_cong) (use dist n snoc in \<open>auto simp: e\<close>)
    ultimately have "dseg ?h a ws w" by simp
    then show ?thesis using snoc n by (auto simp: dseg_append e)
  qed
  moreover have "lh_next (?h n) = Some p" "lh_prev (?h p) = Some n" using b n by (auto simp: e)
  ultimately have "dseg ?h a (us @ n # p # vs) a" by (simp add: dseg_append)
  then show ?thesis using dist n by (auto simp: dll_def)
qed

definition insort_at :: "('p \<Rightarrow> u64) \<Rightarrow> u64 \<Rightarrow> 'p \<Rightarrow> 'p list \<Rightarrow> 'p list" where
  "insort_at k x n xs = takeWhile (\<lambda>m. k m \<le> x) xs @ n # dropWhile (\<lambda>m. k m \<le> x) xs"

lemma set_insort_at [simp]: "set (insort_at k x n xs) = insert n (set xs)"
proof -
  have "set (takeWhile P xs) \<union> set (dropWhile P xs) = set xs" for P
    using arg_cong [OF takeWhile_dropWhile_id, of set P xs] by (simp del: takeWhile_dropWhile_id)
  then show ?thesis unfolding insort_at_def by auto
qed

lemma sorted_insort_at:
  assumes "sorted (map k xs)" and "k n = x"
  shows "sorted (map k (insort_at k x n xs))"
  using assms
proof (induction xs)
  case (Cons y ys)
  show ?case
  proof (cases "k y \<le> x")
    case True
    moreover have "\<forall>z\<in>set (insort_at k x n ys). k y \<le> k z" using Cons.prems True by auto
    ultimately show ?thesis using Cons by (auto simp: insort_at_def)
  next
    case False
    then show ?thesis using Cons.prems by (auto simp: insort_at_def)
  qed
qed (simp add: insort_at_def)

lemma ordered_pos_ring:
  assumes "dseg h b xs a" and "a \<notin> set xs" and "\<And>n. n \<in> set xs \<Longrightarrow> key n = Some (k n)"
  shows "ordered_pos key h a x (lh_next (h b)) = Some (hd (dropWhile (\<lambda>m. k m \<le> x) xs @ [a]))"
  using assms
proof (induction xs arbitrary: b)
  case Nil
  then show ?case by (simp add: ordered_pos.simps)
next
  case (Cons y ys)
  then show ?case by (subst ordered_pos.simps) auto
qed

lemma dll_prev_in:
  assumes "dll h a xs" and "p \<in> set (a # xs)"
  shows "\<exists>q\<in>set (a # xs). lh_prev (h p) = Some q"
proof (cases "p = a")
  case True
  then show ?thesis using dll_prev [OF assms(1)] last_in_set [of "a # xs"] by (metis list.discI)
next
  case False
  then obtain us vs where x: "xs = us @ p # vs" using assms(2) by (auto dest: split_list)
  then have "dseg h a us p" using assms(1) by (simp add: dll_def dseg_append)
  then have "lh_prev (h p) = Some (last (a # us))" by (rule dseg_prev)
  moreover have "last (a # us) \<in> set (a # xs)" using x by (cases us rule: rev_cases) auto
  ultimately show ?thesis by blast
qed

lemma insert_ordered_ring:
  assumes d: "dll h a xs" and n: "n \<notin> set (a # xs)" and k: "\<And>m. m \<in> set xs \<Longrightarrow> key m = Some (k m)"
  shows "\<exists>h'. insert_ordered key a n x h = Some h' \<and> dll h' a (insort_at k x n xs) \<and> (\<forall>m. m \<notin> set (a # xs) \<longrightarrow> m \<noteq> n \<longrightarrow> h' m = h m)"
proof -
  let ?us = "takeWhile (\<lambda>m. k m \<le> x) xs" let ?vs = "dropWhile (\<lambda>m. k m \<le> x) xs" let ?p = "hd (?vs @ [a])"
  have xs: "xs = ?us @ ?vs" by simp
  have "ordered_pos key h a x (lh_next (h a)) = Some ?p"
    by (rule ordered_pos_ring) (use d k in \<open>auto simp: dll_def\<close>)
  then have i: "insert_ordered key a n x h = Some (list_add_tail (Some n) (Some ?p) h)" by (simp add: insert_ordered_def)
  have "dll (list_add_tail (Some n) (Some ?p) h) a (insort_at k x n xs)"
  proof (cases ?vs)
    case Nil
    have u: "?us = xs" by (metis Nil append_Nil2 takeWhile_dropWhile_id)
    show ?thesis unfolding insort_at_def Nil u using dll_list_add_tail [OF d n] by simp
  next
    case (Cons y ys)
    then have "xs = ?us @ y # ys" using xs by simp
    then show ?thesis using dll_insert_before [of h a ?us y ys n] d n Cons by (simp add: insort_at_def)
  qed
  moreover have "list_add_tail (Some n) (Some ?p) h m = h m" if m: "m \<notin> set (a # xs)" "m \<noteq> n" for m
  proof -
    have "hd (ys @ [a]) \<in> set ys \<union> {a}" for ys by (cases ys) auto
    then have p: "?p \<in> set (a # xs)" using set_dropWhileD [of _ "\<lambda>m. k m \<le> x" xs] by fastforce
    then obtain q where q: "lh_prev (h ?p) = Some q" "q \<in> set (a # xs)"
      by (metis d dll_prev_in)
    then have "m \<noteq> ?p" "m \<noteq> q" using p m(1) by metis+
    then show ?thesis using q(1) m(2) by (simp add: list_add_tail_def list_add_between_def)
  qed
  ultimately show ?thesis using i by blast
qed

lemma rings_insert_ordered:
  assumes r: "rings h H N qs" and a: "a \<in> H" and n: "n \<in> N" "\<not> queued H qs n" and k: "\<And>m. m \<in> set (qs a) \<Longrightarrow> key m = Some (k m)"
  shows "\<exists>h'. insert_ordered key a n x h = Some h' \<and> rings h' H N (qs(a := insort_at k x n (qs a)))"
proof -
  have "n \<notin> set (a # qs a)" using a n ringsD(1) [OF r] by (auto simp: queued_def)
  then obtain h' where h: "insert_ordered key a n x h = Some h'" "dll h' a (insort_at k x n (qs a))"
      "\<forall>m. m \<notin> set (a # qs a) \<longrightarrow> m \<noteq> n \<longrightarrow> h' m = h m"
    using insert_ordered_ring [where key = key and k = k and n = n and x = x, OF ringsD(2) [OF r a]] k by blast
  moreover have "rings h' H N (qs(a := insort_at k x n (qs a)))"
    by (rule rings_insert [OF r a n h(2)]) (use h(3) in auto)
  ultimately show ?thesis by blast
qed

end
