(* ===== verification/Timer.thy ===== *)
theory Timer
  imports Ordered_Queue Sched_Frame
begin

text \<open>
  Time: \<^verbatim>\<open>kernel/sched/timer.c\<close> and \<^verbatim>\<open>include/kernel/timer.h\<close>.  Sleeping threads hang on the head \<open>SleepQ c\<close> of the scheduler's heap, software
  timers on \<open>TimerQ c\<close> of a heap of their own, one of each for CPU \<open>c\<close>.  The answer of the hardware counter is the argument \<open>count\<close>;
  the registers the code writes are fields of the state.  A callback is foreign code: \<open>cb f a\<close> is what calling the function at address \<open>f\<close>
  with the argument \<open>a\<close> does.
\<close>

section \<open>Data\<close>

datatype timer_state = TIMER_STATE_IDLE | TIMER_STATE_ACTIVE | TIMER_STATE_EXPIRED | TIMER_STATE_CALLBACK

record software_timer =
  expire_tick :: u64
  interval :: u64
  callback :: u64
  callback_arg :: u64
  t_state :: timer_state

datatype timer_node = TimerQ nat | TimerNode nat

record timer_sys =
  tsched :: sched
  s_system_ticks :: u64
  s_counter_freq :: u64
  timers :: "nat \<Rightarrow> software_timer"
  tlinks :: "timer_node heap"
  t_compare :: u64
  t_control :: u64

abbreviation TIMER_IRQ_MAX_CALLBACKS :: nat where "TIMER_IRQ_MAX_CALLBACKS \<equiv> 8"
abbreviation TIMER_IRQ_MAX_WAKEUPS :: nat where "TIMER_IRQ_MAX_WAKEUPS \<equiv> 16"

definition upd_timer :: "nat \<Rightarrow> (software_timer \<Rightarrow> software_timer) \<Rightarrow> timer_sys \<Rightarrow> timer_sys" where
  "upd_timer t f st = st\<lparr>timers := (timers st)(t := f (timers st t))\<rparr>"

section \<open>Queues\<close>

definition timer_key :: "timer_sys \<Rightarrow> timer_node \<Rightarrow> u64 option" where
  "timer_key st n = (case n of TimerNode t \<Rightarrow> Some (expire_tick (timers st t)) | TimerQ _ \<Rightarrow> None)"

definition timer_queue_insert_ordered :: "nat \<Rightarrow> nat \<Rightarrow> u64 \<Rightarrow> timer_sys \<Rightarrow> timer_sys option" where
  "timer_queue_insert_ordered c t x st =
     map_option (\<lambda>h. st\<lparr>tlinks := h\<rparr>) (insert_ordered (timer_key st) (TimerQ c) (TimerNode t) x (tlinks st))"

definition sleep_key :: "sched \<Rightarrow> sched_node \<Rightarrow> u64 option" where
  "sleep_key s n = (case n of SleepNode t \<Rightarrow> Some (wakeup_tick (thr s t)) | _ \<Rightarrow> None)"

definition sleep_queue_insert_ordered :: "nat \<Rightarrow> nat \<Rightarrow> u64 \<Rightarrow> sched \<Rightarrow> sched option" where
  "sleep_queue_insert_ordered c t x s =
     map_option (\<lambda>h. s\<lparr>slinks := h\<rparr>) (insert_ordered (sleep_key s) (SleepQ c) (SleepNode t) x (slinks s))"

section \<open>The counter\<close>

definition get_ticks_per_counter_tick :: "timer_sys \<Rightarrow> u64" where
  "get_ticks_per_counter_tick st = (if s_counter_freq st = 0 then 1 else s_counter_freq st div 1000)"

definition timer_set_next_compare :: "u64 \<Rightarrow> timer_sys \<Rightarrow> timer_sys" where
  "timer_set_next_compare count st = st\<lparr>t_compare := count + get_ticks_per_counter_tick st\<rparr>"

definition timer_init :: "u64 \<Rightarrow> u64 \<Rightarrow> timer_sys \<Rightarrow> timer_sys" where
  "timer_init freq count st =
     (let st1 = st\<lparr>s_counter_freq := freq, s_system_ticks := 0\<rparr>;
          st2 = fold (\<lambda>i st. st\<lparr>tlinks := INIT_LIST_HEAD (Some (TimerQ i)) (tlinks st),
                               tsched := upd_slinks (INIT_LIST_HEAD (Some (SleepQ i))) (tsched st)\<rparr>) [0..<CONFIG_MAX_CPUS] st1
      in (timer_set_next_compare count (st2\<lparr>t_control := 0\<rparr>))\<lparr>t_control := 1\<rparr>)"

definition timer_get_ticks :: "timer_sys \<Rightarrow> u64" where
  "timer_get_ticks st = s_system_ticks st"

definition timer_get_ns :: "u64 \<Rightarrow> timer_sys \<Rightarrow> u64" where
  "timer_get_ns count st = (if s_counter_freq st = 0 then 0 else (count * 1000000000) div s_counter_freq st)"

definition timer_get_us :: "u64 \<Rightarrow> timer_sys \<Rightarrow> u64" where
  "timer_get_us count st = (if s_counter_freq st = 0 then 0 else (count * 1000000) div s_counter_freq st)"

definition timer_get_ms :: "u64 \<Rightarrow> timer_sys \<Rightarrow> u64" where
  "timer_get_ms count st = (if s_counter_freq st = 0 then 0 else (count * 1000) div s_counter_freq st)"

section \<open>The interrupt\<close>

text \<open>The first software timer of the queue has expired.\<close>

definition expire_one :: "(u64 \<Rightarrow> u64 \<Rightarrow> timer_sys \<Rightarrow> timer_sys) \<Rightarrow> nat \<Rightarrow> nat \<Rightarrow> timer_sys \<Rightarrow> timer_sys option" where
  "expire_one cb c t st =
     (let st1 = upd_timer t (\<lambda>x. x\<lparr>t_state := TIMER_STATE_CALLBACK\<rparr>) (st\<lparr>tlinks := list_del_init (Some (TimerNode t)) (tlinks st)\<rparr>);
          st2 = (if callback (timers st1 t) \<noteq> 0 then cb (callback (timers st1 t)) (callback_arg (timers st1 t)) st1 else st1)
      in if interval (timers st2 t) > 0
         then (let st3 = upd_timer t (\<lambda>x. x\<lparr>expire_tick := expire_tick x + interval x, t_state := TIMER_STATE_ACTIVE\<rparr>) st2
               in timer_queue_insert_ordered c t (expire_tick (timers st3 t)) st3)
         else Some (upd_timer t (\<lambda>x. x\<lparr>t_state := TIMER_STATE_EXPIRED\<rparr>) st2))"

text \<open>The loop over the software timers, with the number of callbacks that are still allowed.\<close>

fun expire_timers :: "(u64 \<Rightarrow> u64 \<Rightarrow> timer_sys \<Rightarrow> timer_sys) \<Rightarrow> nat \<Rightarrow> u64 \<Rightarrow> nat \<Rightarrow> timer_sys \<Rightarrow> timer_sys option" where
  "expire_timers cb c now 0 st = Some st"
| "expire_timers cb c now (Suc n) st =
     (if list_empty (Some (TimerQ c)) (tlinks st) then Some st
      else (case lh_next (tlinks st (TimerQ c)) of
              Some (TimerNode t) \<Rightarrow>
                if expire_tick (timers st t) > now then Some st
                else Option.bind (expire_one cb c t st) (expire_timers cb c now n)
            | _ \<Rightarrow> None))"

text \<open>The loop over the sleeping threads, with the number of threads that may still be woken.\<close>

fun wake_sleepers :: "nat \<Rightarrow> u64 \<Rightarrow> nat \<Rightarrow> sched \<Rightarrow> sched option" where
  "wake_sleepers c now 0 s = Some s"
| "wake_sleepers c now (Suc n) s =
     (if list_empty (Some (SleepQ c)) (slinks s) then Some s
      else (case lh_next (slinks s (SleepQ c)) of
              Some (SleepNode t) \<Rightarrow>
                if wakeup_tick (thr s t) > now then Some s
                else wake_sleepers c now n (scheduler_enqueue c (Some t)
                  (upd_thr t (\<lambda>k. k\<lparr>state := KTHREAD_STATE_READY\<rparr>) (upd_slinks (list_del_init (Some (SleepNode t))) s)))
            | _ \<Rightarrow> None))"

definition timer_interrupt_handler :: "(u64 \<Rightarrow> u64 \<Rightarrow> timer_sys \<Rightarrow> timer_sys) \<Rightarrow> u64 \<Rightarrow> nat \<Rightarrow> timer_sys \<Rightarrow> timer_sys option" where
  "timer_interrupt_handler cb count cpu st = do {
     let st1 = st\<lparr>s_system_ticks := s_system_ticks st + 1\<rparr>;
     let now = s_system_ticks st1;
     st2 \<leftarrow> expire_timers cb cpu now TIMER_IRQ_MAX_CALLBACKS (timer_set_next_compare count st1);
     s3 \<leftarrow> wake_sleepers cpu now TIMER_IRQ_MAX_WAKEUPS (tsched st2);
     s4 \<leftarrow> scheduler_tick cpu s3;
     Some (st2\<lparr>tsched := s4\<rparr>)
   }"

section \<open>Sleeping\<close>

definition kthread_sleep_ticks :: "(nat \<Rightarrow> bool) \<Rightarrow> nat \<Rightarrow> u64 \<Rightarrow> timer_sys \<Rightarrow> (call \<times> timer_sys) option" where
  "kthread_sleep_ticks guard_bad cpu ticks st =
     (if ticks = 0 then Some (Returns KERNEL_OK, st)
      else (case kthread_get_current cpu (tsched st) of
              None \<Rightarrow> Some (Returns KERNEL_OK, st)
            | Some t \<Rightarrow> do {
                let s1 = upd_thr t (\<lambda>k. k\<lparr>wakeup_tick := s_system_ticks st + ticks, state := KTHREAD_STATE_SLEEPING\<rparr>) (tsched st);
                s2 \<leftarrow> sleep_queue_insert_ordered cpu t (wakeup_tick (thr s1 t)) s1;
                s3 \<leftarrow> schedule guard_bad cpu s2;
                Some (Blocks, st\<lparr>tsched := s3\<rparr>)
              }))"

definition kthread_sleep :: "(nat \<Rightarrow> bool) \<Rightarrow> nat \<Rightarrow> u32 \<Rightarrow> timer_sys \<Rightarrow> (call \<times> timer_sys) option" where
  "kthread_sleep guard_bad cpu ms st =
     kthread_sleep_ticks guard_bad cpu (if MS_TO_TICKS ms = 0 then 1 else MS_TO_TICKS ms) st"

definition timer_wakeup_thread :: "nat \<Rightarrow> nat option \<Rightarrow> sched \<Rightarrow> sched" where
  "timer_wakeup_thread cpu thread s =
     (case thread of
        None \<Rightarrow> s
      | Some t \<Rightarrow>
          if state (thr s t) \<noteq> KTHREAD_STATE_SLEEPING then s
          else (let s1 = (if lh_next (slinks s (SleepNode t)) \<noteq> Some (SleepNode t)
                          then upd_slinks (list_del_init (Some (SleepNode t))) s else s)
                in scheduler_enqueue cpu (Some t) (upd_thr t (\<lambda>k. k\<lparr>state := KTHREAD_STATE_READY\<rparr>) s1)))"

section \<open>Software timers\<close>

definition timer_init_soft :: "nat option \<Rightarrow> u64 \<Rightarrow> u64 \<Rightarrow> timer_sys \<Rightarrow> timer_sys" where
  "timer_init_soft timer f a st =
     (case timer of
        None \<Rightarrow> st
      | Some t \<Rightarrow>
          upd_timer t (\<lambda>_. \<lparr>expire_tick = 0, interval = 0, callback = f, callback_arg = a, t_state = TIMER_STATE_IDLE\<rparr>)
            (st\<lparr>tlinks := INIT_LIST_HEAD (Some (TimerNode t)) (tlinks st)\<rparr>))"

definition unqueue_timer :: "nat \<Rightarrow> timer_sys \<Rightarrow> timer_sys" where
  "unqueue_timer t st =
     (if lh_next (tlinks st (TimerNode t)) \<noteq> Some (TimerNode t) then st\<lparr>tlinks := list_del_init (Some (TimerNode t)) (tlinks st)\<rparr> else st)"

definition start_timer :: "nat \<Rightarrow> nat \<Rightarrow> u64 \<Rightarrow> u64 \<Rightarrow> timer_sys \<Rightarrow> timer_sys option" where
  "start_timer cpu t d i st =
     (let st1 = upd_timer t (\<lambda>x. x\<lparr>expire_tick := s_system_ticks st + d, interval := i, t_state := TIMER_STATE_ACTIVE\<rparr>) st;
          st2 = unqueue_timer t st1
      in timer_queue_insert_ordered cpu t (expire_tick (timers st2 t)) st2)"

definition timer_start_oneshot :: "nat \<Rightarrow> nat option \<Rightarrow> u32 \<Rightarrow> timer_sys \<Rightarrow> timer_sys option" where
  "timer_start_oneshot cpu timer ms st =
     (case timer of None \<Rightarrow> Some st | Some t \<Rightarrow> start_timer cpu t (MS_TO_TICKS ms) 0 st)"

definition timer_start_periodic :: "nat \<Rightarrow> nat option \<Rightarrow> u32 \<Rightarrow> timer_sys \<Rightarrow> timer_sys option" where
  "timer_start_periodic cpu timer ms st =
     (case timer of None \<Rightarrow> Some st | Some t \<Rightarrow> start_timer cpu t (MS_TO_TICKS ms) (MS_TO_TICKS ms) st)"

definition timer_stop :: "nat option \<Rightarrow> timer_sys \<Rightarrow> timer_sys" where
  "timer_stop timer st =
     (case timer of None \<Rightarrow> st | Some t \<Rightarrow> upd_timer t (\<lambda>x. x\<lparr>t_state := TIMER_STATE_IDLE\<rparr>) (unqueue_timer t st))"

end
