(* ===== verification/Timer_Sleep.thy ===== *)
theory Timer_Sleep
  imports Timer
begin

text \<open>
  Sleeping threads: the queue of a CPU is ordered by the time to wake up, and the timer interrupt wakes those whose time has come, in this
  order and not more than sixteen at once.
\<close>

section \<open>Going to sleep\<close>

definition sleep_sorted :: "sched \<Rightarrow> nat list \<Rightarrow> bool" where
  "sleep_sorted s ts \<longleftrightarrow> sorted (map (\<lambda>t. wakeup_tick (thr s t)) ts)"

lemma insort_at_map: "insort_at k x (f n) (map f xs) = map f (insort_at (\<lambda>n. k (f n)) x n xs)"
  by (simp add: insort_at_def takeWhile_map dropWhile_map comp_def)

lemma insort_at_cong: "(\<And>m. m \<in> set xs \<Longrightarrow> k m = k' m) \<Longrightarrow> insort_at k x n xs = insort_at k' x n xs"
  by (auto simp: insort_at_def cong: takeWhile_cong dropWhile_cong)

lemma sleep_insert:
  assumes "links_ok (slinks s) W rq wq" and "SleepQ c \<in> W" and "t < MAX_THREADS" and "\<And>b. b \<in> W \<Longrightarrow> t \<notin> set (wq b)"
  shows "\<exists>h. sleep_queue_insert_ordered c t x s = Some (s\<lparr>slinks := h\<rparr>) \<and>
    links_ok h W rq (wq(SleepQ c := insort_at (\<lambda>t. wakeup_tick (thr s t)) x t (wq (SleepQ c))))"
proof -
  note w = links_okD(2) [OF assms(1)]
  let ?k = "\<lambda>n. case n of SleepNode t \<Rightarrow> wakeup_tick (thr s t) | _ \<Rightarrow> 0"
  have n: "nodes_of rq wq (SleepQ c) = map SleepNode (wq (SleepQ c))" using w assms(2) by (auto simp: nodes_of_wait)
  have "\<exists>h. insert_ordered (sleep_key s) (SleepQ c) (SleepNode t) x (slinks s) = Some h \<and>
      rings h (ready_heads \<union> W) thread_nodes ((nodes_of rq wq)(SleepQ c := insort_at ?k x (SleepNode t) (nodes_of rq wq (SleepQ c))))"
    by (rule rings_insert_ordered [OF links_okD(1) [OF assms(1)]])
      (use assms(2-4) n in \<open>auto simp: queued_wait [OF w] sleep_key_def\<close>)
  then show ?thesis
    using w assms(2) by (auto simp: sleep_queue_insert_ordered_def links_ok_def n insort_at_map nodes_of_wait_upd wait_heads_def subset_iff)
qed

lemma kthread_sleep_ticks_eq:
  assumes inv: "sched_inv (tsched st) W rq wq" and run: "ready_to_run g c (tsched st)" and w: "SleepQ c \<in> W"
    and t: "current_thread (cpu_q (tsched st) c) = Some t" "idle_thread (cpu_q (tsched st) c) \<noteq> Some t" and n: "n \<noteq> 0"
  shows "\<exists>s' rq'. kthread_sleep_ticks g c n st = Some (Blocks, st\<lparr>tsched := s'\<rparr>) \<and>
    sched_inv s' W rq' (wq(SleepQ c := insort_at (\<lambda>u. wakeup_tick (thr (tsched st) u)) (s_system_ticks st + n) t (wq (SleepQ c)))) \<and>
    state (thr s' t) = KTHREAD_STATE_SLEEPING \<and> wakeup_tick (thr s' t) = s_system_ticks st + n \<and> calm (tsched st) s' \<and>
    current_thread (cpu_q s' c) \<noteq> None"
proof -
  let ?s = "tsched st" let ?x = "s_system_ticks st + n"
  let ?f = "\<lambda>k. k\<lparr>wakeup_tick := ?x, state := KTHREAD_STATE_SLEEPING\<rparr>"
  let ?ys = "insort_at (\<lambda>u. wakeup_tick (thr ?s u)) ?x t (wq (SleepQ c))" let ?wq = "wq(SleepQ c := ?ys)"
  have c: "c < CONFIG_MAX_CPUS" using run by (simp add: ready_to_run_def)
  note cw = current_not_waiting [OF inv c t(1)]
  have s1: "slinks (upd_thr t ?f ?s) = slinks ?s" by (simp add: upd_thr_def)
  have "insort_at (\<lambda>u. wakeup_tick (thr (upd_thr t ?f ?s) u)) ?x t (wq (SleepQ c)) = ?ys"
    by (rule insort_at_cong) (use cw(1) [OF w] in \<open>auto simp: upd_thr_def\<close>)
  then obtain h where h: "sleep_queue_insert_ordered c t ?x (upd_thr t ?f ?s) = Some ((upd_thr t ?f ?s)\<lparr>slinks := h\<rparr>)" "links_ok h W rq ?wq"
    using sleep_insert [of "upd_thr t ?f ?s" W rq wq c t ?x] rq_invD(1) [OF sched_preD(1) [OF inv]] w cw(1,2) by (auto simp: s1)
  let ?s2 = "(upd_thr t ?f ?s)\<lparr>slinks := h\<rparr>"
  have "sched_pre (Some c) (upd_thr t (\<lambda>k. k\<lparr>state := wait_state (SleepQ c)\<rparr>) (upd_slinks (\<lambda>_. h) ?s)) W rq ?wq"
    by (rule block_current [OF inv c t w]) (use h in simp_all)
  then have pre: "sched_pre (Some c) ?s2 W rq ?wq"
    by (rule sched_pre_cong) (simp_all add: wait_state_def upd_slinks_def upd_thr_def)
  have r: "ready_to_run g c ?s2" using run by (simp add: ready_to_run_def upd_thr_def)
  obtain s' rq' where s': "schedule g c ?s2 = Some s'" "sched_inv s' W rq' ?wq" using schedule_inv [OF pre r] by blast
  have k: "calm ?s2 s'" by (rule schedule_calm [OF pre r s'(1)])
  moreover have "calm ?s ?s2" using cw(3) [OF w] by (auto simp: calm_def upd_thr_def)
  ultimately have "calm ?s s'" by (rule calm_trans [rotated])
  moreover have "state (thr s' t) = KTHREAD_STATE_SLEEPING \<and> wakeup_tick (thr s' t) = ?x" using calmD(3) [OF k, of t] by (simp add: upd_thr_def)
  moreover have "kthread_sleep_ticks g c n st = Some (Blocks, st\<lparr>tsched := s'\<rparr>)"
    using t(1) n h(1) s'(1) by (simp add: kthread_sleep_ticks_def current_get [OF c] upd_thr_def)
  ultimately show ?thesis using s'(2) schedule_current [OF pre r s'(1)] by blast
qed

section \<open>Waking up\<close>

definition woken :: "nat list \<Rightarrow> sched \<Rightarrow> nat \<Rightarrow> kthread" where
  "woken ts s t = (if t \<in> set ts then (thr s t)\<lparr>state := KTHREAD_STATE_READY\<rparr> else thr s t)"

text \<open>The ready queues after the threads \<open>ts\<close> were put behind the others of their priority, one after the other.\<close>

definition rq_wake :: "nat \<Rightarrow> nat list \<Rightarrow> sched \<Rightarrow> (nat \<Rightarrow> u8 \<Rightarrow> nat list) \<Rightarrow> nat \<Rightarrow> u8 \<Rightarrow> nat list" where
  "rq_wake c ts s rq d p = (if d = c then rq c p @ filter (\<lambda>t. prio (thr s t) = p) ts else rq d p)"

definition due :: "u64 \<Rightarrow> nat \<Rightarrow> sched \<Rightarrow> nat list \<Rightarrow> nat list" where
  "due now n s ts = take n (takeWhile (\<lambda>t. wakeup_tick (thr s t) \<le> now) ts)"

lemma due_Cons:
  "due now (Suc n) s (t # ts) = (if wakeup_tick (thr s t) \<le> now then t # due now n s ts else [])"
  by (simp add: due_def)

lemma due_set: "set (due now n s ts) \<subseteq> set ts"
  unfolding due_def by (auto dest!: in_set_takeD set_takeWhileD)

lemma due_cong: "(\<And>t. t \<in> set ts \<Longrightarrow> wakeup_tick (thr s' t) = wakeup_tick (thr s t)) \<Longrightarrow> due now n s' ts = due now n s ts"
  by (auto simp: due_def cong: takeWhile_cong)

lemma wake_sleepers_eq:
  assumes "sched_inv s W rq wq" and c: "c < CONFIG_MAX_CPUS" and w: "SleepQ c \<in> W"
  shows "\<exists>s'. wake_sleepers c now n s = Some s' \<and>
    sched_inv s' W (rq_wake c (due now n s (wq (SleepQ c))) s rq) (wq(SleepQ c := drop (length (due now n s (wq (SleepQ c)))) (wq (SleepQ c)))) \<and>
    thread_table s' = woken (due now n s (wq (SleepQ c))) s"
  using assms(1)
proof (induction n arbitrary: s rq wq)
  case 0
  have "rq_wake c [] s rq = rq" "woken [] s = thr s" by (auto simp: rq_wake_def woken_def fun_eq_iff)
  then show ?case using 0 by (simp add: due_def)
next
  case (Suc n)
  note l = rq_invD(1) [OF sched_preD(1) [OF Suc.prems]]
  have same: "rq_wake c [] s rq = rq" "woken [] s = thr s" by (auto simp: rq_wake_def woken_def fun_eq_iff)
  have nx: "lh_next (slinks s (SleepQ c)) = Some (if wq (SleepQ c) = [] then SleepQ c else SleepNode (hd (wq (SleepQ c))))"
    by (rule wait_first [OF l w])
  show ?case
  proof (cases "wq (SleepQ c)")
    case Nil
    then show ?thesis using Suc.prems nx same by (simp add: list_empty_def due_def fun_upd_idem)
  next
    case (Cons t ts)
    show ?thesis
    proof (cases "wakeup_tick (thr s t) \<le> now")
      case False
      then have "now < wakeup_tick (thr s t)" by (simp only: not_le)
      then have "due now (Suc n) s (t # ts) = []" "wake_sleepers c now (Suc n) s = Some s" using nx Cons False by (simp_all add: due_Cons list_empty_def)
      then show ?thesis unfolding Cons using Suc.prems same Cons by (simp add: fun_upd_idem)
    next
      case True
      let ?s1 = "scheduler_enqueue c (Some t) (upd_thr t (\<lambda>k. k\<lparr>state := KTHREAD_STATE_READY\<rparr>) (upd_slinks (list_del_init (Some (SleepNode t))) s))"
      let ?rq = "rq_upd c (prio (thr s t)) (rq c (prio (thr s t)) @ [t]) rq"
      have i1: "sched_inv ?s1 W ?rq (wq(SleepQ c := ts))" using wake_up [OF Suc.prems c w, of t] Cons by simp
      obtain s' where s': "wake_sleepers c now n ?s1 = Some s'"
          "sched_inv s' W (rq_wake c (due now n ?s1 ts) ?s1 ?rq) (wq(SleepQ c := drop (length (due now n ?s1 ts)) ts))"
          "thread_table s' = woken (due now n ?s1 ts) ?s1" using Suc.IH [OF i1] unfolding fun_upd_same fun_upd_upd by blast
      have tt: "thread_table ?s1 = (thread_table s)(t := (thr s t)\<lparr>state := KTHREAD_STATE_READY\<rparr>)"
        by (simp add: scheduler_enqueue_def upd_thr_def upd_slinks_def)
      then have d: "due now n ?s1 ts = due now n s ts" by (intro due_cong) auto
      have d2: "due now (Suc n) s (t # ts) = t # due now n s ts" using True by (simp add: due_Cons)
      have r: "rq_wake c (due now n s ts) ?s1 ?rq = rq_wake c (t # due now n s ts) s rq"
        using tt by (auto simp: rq_wake_def fun_eq_iff intro!: filter_cong)
      have wk: "woken (due now n s ts) ?s1 = woken (t # due now n s ts) s" using tt by (auto simp: woken_def fun_eq_iff)
      have "\<not> now < wakeup_tick (thr s t)" using True by (simp only: not_less)
      then have "wake_sleepers c now (Suc n) s = Some s'" using s'(1) nx Cons by (simp add: list_empty_def)
      then show ?thesis using s'(2,3) unfolding Cons d2 d r wk length_Cons drop_Suc_Cons by blast
    qed
  qed
qed

lemma timer_wakeup_eq:
  assumes inv: "sched_inv s W rq wq" and c: "c < CONFIG_MAX_CPUS" and w: "a \<in> W" and t: "t \<in> set (wq a)" "state (thr s t) = KTHREAD_STATE_SLEEPING"
  shows "sched_inv (timer_wakeup_thread c (Some t) s) W (rq_upd c (prio (thr s t)) (rq c (prio (thr s t)) @ [t]) rq) (wq(a := remove1 t (wq a)))"
    and "thread_table (timer_wakeup_thread c (Some t) s) = (thread_table s)(t := (thr s t)\<lparr>state := KTHREAD_STATE_READY\<rparr>)"
proof -
  note l = rq_invD(1) [OF sched_preD(1) [OF inv]]
  have d: "dll (slinks s) a (map SleepNode (wq a))"
    using ringsD(2) [OF links_okD(1) [OF l], of a] links_okD(2) [OF l] w by (auto simp: nodes_of_wait)
  obtain us vs where x: "map SleepNode (wq a) = us @ SleepNode t # vs" using t(1) by (metis image_eqI list.set_map split_list)
  have "lh_next (slinks s (SleepNode t)) = Some (hd (vs @ [a]))" using d x dseg_next by (fastforce simp: dll_def dseg_append)
  moreover have "hd (vs @ [a]) \<noteq> SleepNode t" using d x by (cases vs) (auto simp: dll_def)
  ultimately have e: "timer_wakeup_thread c (Some t) s = scheduler_enqueue c (Some t) (upd_thr t (\<lambda>k. k\<lparr>state := KTHREAD_STATE_READY\<rparr>)
      (upd_slinks (list_del_init (Some (SleepNode t))) s))"
    using t(2) by (simp add: timer_wakeup_thread_def)
  show "sched_inv (timer_wakeup_thread c (Some t) s) W (rq_upd c (prio (thr s t)) (rq c (prio (thr s t)) @ [t]) rq) (wq(a := remove1 t (wq a)))"
    unfolding e by (rule wake_up [OF inv c w t(1)])
  show "thread_table (timer_wakeup_thread c (Some t) s) = (thread_table s)(t := (thr s t)\<lparr>state := KTHREAD_STATE_READY\<rparr>)"
    unfolding e by (simp add: scheduler_enqueue_def upd_thr_def upd_slinks_def)
qed

end
