(* ===== verification/Timer_Soft.thy ===== *)
theory Timer_Soft
  imports Timer_Sleep
begin

text \<open>
  Software timers: the queue of a CPU lists its active timers by the time they expire.  \<open>tq c\<close> is the queue of CPU \<open>c\<close>, \<open>T\<close> the set of
  the timers that have been initialised.
\<close>

section \<open>Invariant\<close>

definition timer_nodes :: "(nat \<Rightarrow> nat list) \<Rightarrow> timer_node \<Rightarrow> timer_node list" where
  "timer_nodes tq n = (case n of TimerQ c \<Rightarrow> map TimerNode (tq c) | TimerNode _ \<Rightarrow> [])"

abbreviation timer_heads :: "timer_node set" where "timer_heads \<equiv> TimerQ ` {..<CONFIG_MAX_CPUS}"

definition soft_inv :: "timer_sys \<Rightarrow> nat set \<Rightarrow> (nat \<Rightarrow> nat list) \<Rightarrow> bool" where
  "soft_inv st T tq \<longleftrightarrow> rings (tlinks st) timer_heads (TimerNode ` T) (timer_nodes tq) \<and>
     (\<forall>c<CONFIG_MAX_CPUS. sorted (map (\<lambda>t. expire_tick (timers st t)) (tq c))) \<and>
     (\<forall>t\<in>T. t_state (timers st t) = TIMER_STATE_ACTIVE \<longleftrightarrow> (\<exists>c<CONFIG_MAX_CPUS. t \<in> set (tq c)))"

lemma soft_invD:
  assumes "soft_inv st T tq"
  shows "rings (tlinks st) timer_heads (TimerNode ` T) (timer_nodes tq)"
    and "c < CONFIG_MAX_CPUS \<Longrightarrow> sorted (map (\<lambda>t. expire_tick (timers st t)) (tq c))"
    and "t \<in> T \<Longrightarrow> t_state (timers st t) = TIMER_STATE_ACTIVE \<longleftrightarrow> (\<exists>c<CONFIG_MAX_CPUS. t \<in> set (tq c))"
    and "c < CONFIG_MAX_CPUS \<Longrightarrow> t \<in> set (tq c) \<Longrightarrow> t \<in> T"
    and "c < CONFIG_MAX_CPUS \<Longrightarrow> d < CONFIG_MAX_CPUS \<Longrightarrow> t \<in> set (tq c) \<Longrightarrow> t \<in> set (tq d) \<Longrightarrow> c = d"
    and "c < CONFIG_MAX_CPUS \<Longrightarrow> distinct (tq c)"
proof -
  show r: "rings (tlinks st) timer_heads (TimerNode ` T) (timer_nodes tq)"
    and "c < CONFIG_MAX_CPUS \<Longrightarrow> sorted (map (\<lambda>t. expire_tick (timers st t)) (tq c))"
    and "t \<in> T \<Longrightarrow> t_state (timers st t) = TIMER_STATE_ACTIVE \<longleftrightarrow> (\<exists>c<CONFIG_MAX_CPUS. t \<in> set (tq c))"
    using assms unfolding soft_inv_def by blast+
  show "t \<in> T" if "c < CONFIG_MAX_CPUS" "t \<in> set (tq c)"
    using ringsD(3) [OF r, of "TimerQ c" "TimerNode t"] that by (auto simp: timer_nodes_def)
  show "c = d" if "c < CONFIG_MAX_CPUS" "d < CONFIG_MAX_CPUS" "t \<in> set (tq c)" "t \<in> set (tq d)"
    using ringsD(4) [OF r, of "TimerQ c" "TimerQ d" "TimerNode t"] that by (auto simp: timer_nodes_def)
  show "distinct (tq c)" if "c < CONFIG_MAX_CPUS"
    using ringsD(6) [OF r, of "TimerQ c"] that by (auto simp: timer_nodes_def distinct_map)
qed

lemma timer_queued: "queued timer_heads (timer_nodes tq) (TimerNode t) \<longleftrightarrow> (\<exists>c<CONFIG_MAX_CPUS. t \<in> set (tq c))"
  by (auto simp: queued_def timer_nodes_def)

lemma timer_nodes_upd: "timer_nodes (tq(c := xs)) = (timer_nodes tq)(TimerQ c := map TimerNode xs)"
  by (auto simp: timer_nodes_def fun_eq_iff split: timer_node.split)

section \<open>Links\<close>

lemma timer_insert_rings:
  assumes "rings (tlinks st) timer_heads (TimerNode ` T) (timer_nodes tq)" and "c < CONFIG_MAX_CPUS" and "t \<in> T"
    and "\<And>d. d < CONFIG_MAX_CPUS \<Longrightarrow> t \<notin> set (tq d)"
  shows "\<exists>h. timer_queue_insert_ordered c t x st = Some (st\<lparr>tlinks := h\<rparr>) \<and>
    rings h timer_heads (TimerNode ` T) (timer_nodes (tq(c := insort_at (\<lambda>t. expire_tick (timers st t)) x t (tq c))))"
proof -
  let ?k = "\<lambda>n. case n of TimerNode t \<Rightarrow> expire_tick (timers st t) | _ \<Rightarrow> 0"
  have n: "timer_nodes tq (TimerQ c) = map TimerNode (tq c)" by (simp add: timer_nodes_def)
  have "\<exists>h. insert_ordered (timer_key st) (TimerQ c) (TimerNode t) x (tlinks st) = Some h \<and>
      rings h timer_heads (TimerNode ` T) ((timer_nodes tq)(TimerQ c := insort_at ?k x (TimerNode t) (timer_nodes tq (TimerQ c))))"
    by (rule rings_insert_ordered [OF assms(1)]) (use assms(2-4) n in \<open>auto simp: timer_queued timer_key_def\<close>)
  then show ?thesis by (auto simp: timer_queue_insert_ordered_def n insort_at_map timer_nodes_upd)
qed

lemma timer_remove_rings:
  assumes "rings h timer_heads (TimerNode ` T) (timer_nodes tq)" and "c < CONFIG_MAX_CPUS" and "t \<in> set (tq c)"
  shows "rings (list_del_init (Some (TimerNode t)) h) timer_heads (TimerNode ` T) (timer_nodes (tq(c := remove1 t (tq c))))"
proof -
  have "remove1 (TimerNode t) (map TimerNode xs) = map TimerNode (remove1 t xs)" for xs by (induction xs) auto
  then show ?thesis
    using rings_del [OF assms(1), of "TimerQ c" "TimerNode t"] assms(2,3) by (simp add: timer_nodes_upd) (simp add: timer_nodes_def)
qed

text \<open>Taking a timer out of whatever queue it is in.\<close>

definition without :: "nat \<Rightarrow> (nat \<Rightarrow> nat list) \<Rightarrow> nat \<Rightarrow> nat list" where
  "without t tq c = remove1 t (tq c)"

lemma unqueue_rings:
  assumes r: "rings (tlinks st) timer_heads (TimerNode ` T) (timer_nodes tq)" and t: "t \<in> T"
  shows "rings (tlinks (unqueue_timer t st)) timer_heads (TimerNode ` T) (timer_nodes (without t tq))"
    and "unqueue_timer t st = st\<lparr>tlinks := tlinks (unqueue_timer t st)\<rparr>"
proof -
  show "unqueue_timer t st = st\<lparr>tlinks := tlinks (unqueue_timer t st)\<rparr>" by (simp add: unqueue_timer_def)
  show "rings (tlinks (unqueue_timer t st)) timer_heads (TimerNode ` T) (timer_nodes (without t tq))"
  proof (cases "\<exists>c<CONFIG_MAX_CPUS. t \<in> set (tq c)")
    case True
    then obtain c where c: "c < CONFIG_MAX_CPUS" "t \<in> set (tq c)" by blast
    have d: "dll (tlinks st) (TimerQ c) (map TimerNode (tq c))" using ringsD(2) [OF r, of "TimerQ c"] c(1) by (simp add: timer_nodes_def)
    obtain us vs where x: "map TimerNode (tq c) = us @ TimerNode t # vs" using c(2) by (metis image_eqI list.set_map split_list)
    have "lh_next (tlinks st (TimerNode t)) = Some (hd (vs @ [TimerQ c]))" using d x dseg_next by (fastforce simp: dll_def dseg_append)
    moreover have "hd (vs @ [TimerQ c]) \<noteq> TimerNode t" using d x by (cases vs) (auto simp: dll_def)
    ultimately have "tlinks (unqueue_timer t st) = list_del_init (Some (TimerNode t)) (tlinks st)" by (simp add: unqueue_timer_def)
    moreover have "rings (list_del_init (Some (TimerNode t)) (tlinks st)) timer_heads (TimerNode ` T) (timer_nodes (tq(c := remove1 t (tq c))))"
      by (rule timer_remove_rings [OF r c])
    moreover have "t \<notin> set (tq d)" if "d < CONFIG_MAX_CPUS" "d \<noteq> c" for d
      using ringsD(4) [OF r, of "TimerQ c" "TimerQ d" "TimerNode t"] c that by (auto simp: timer_nodes_def)
    then have "timer_nodes (tq(c := remove1 t (tq c))) a = timer_nodes (without t tq) a" if "a \<in> timer_heads" for a
      using that by (auto simp: timer_nodes_def without_def remove1_idem)
    ultimately show ?thesis using rings_cong [where qs' = "timer_nodes (without t tq)"] by metis
  next
    case False
    then have "dll (tlinks st) (TimerNode t) []" using ringsD(5) [OF r, of "TimerNode t"] t by (auto simp: timer_queued)
    then have "lh_next (tlinks st (TimerNode t)) = Some (TimerNode t)" by (simp add: dll_def)
    moreover have "timer_nodes tq a = timer_nodes (without t tq) a" if "a \<in> timer_heads" for a
      using that False by (auto simp: timer_nodes_def without_def remove1_idem)
    ultimately show ?thesis using rings_cong [OF r, where qs' = "timer_nodes (without t tq)"] by (simp add: unqueue_timer_def)
  qed
qed

section \<open>One timer off the queues\<close>

text \<open>The state between taking timer \<open>t\<close> out and putting it back or retiring it.\<close>

definition soft_off :: "timer_sys \<Rightarrow> nat set \<Rightarrow> (nat \<Rightarrow> nat list) \<Rightarrow> nat \<Rightarrow> bool" where
  "soft_off st T tq t \<longleftrightarrow> rings (tlinks st) timer_heads (TimerNode ` T) (timer_nodes tq) \<and> t \<in> T \<and>
     (\<forall>c<CONFIG_MAX_CPUS. sorted (map (\<lambda>t. expire_tick (timers st t)) (tq c)) \<and> t \<notin> set (tq c)) \<and>
     (\<forall>u\<in>T - {t}. t_state (timers st u) = TIMER_STATE_ACTIVE \<longleftrightarrow> (\<exists>c<CONFIG_MAX_CPUS. u \<in> set (tq c)))"

lemma sorted_upd:
  assumes "sorted (map (\<lambda>t. expire_tick (F t)) xs)" and "t \<notin> set xs"
  shows "sorted (map (\<lambda>u. expire_tick ((F(t := y)) u)) xs)"
proof -
  have "map (\<lambda>u. expire_tick ((F(t := y)) u)) xs = map (\<lambda>t. expire_tick (F t)) xs" using assms(2) by auto
  then show ?thesis using assms(1) by (simp only:)
qed

lemma soft_off_upd:
  assumes "soft_off st T tq t"
  shows "soft_off (upd_timer t f st) T tq t"
  using assms sorted_upd [of "timers st" _ t "f (timers st t)"] by (auto simp: soft_off_def upd_timer_def)

lemma soft_off_detach:
  assumes inv: "soft_inv st T tq" and t: "t \<in> T"
  shows "soft_off (unqueue_timer t st) T (without t tq) t"
proof -
  note D = soft_invD [OF inv] note u = unqueue_rings [OF D(1) t]
  have f: "timers (unqueue_timer t st) = timers st" by (simp add: unqueue_timer_def)
  have "(\<exists>c<CONFIG_MAX_CPUS. v \<in> set (tq c)) \<longleftrightarrow> (\<exists>c<CONFIG_MAX_CPUS. v \<in> set (without t tq c))" if "v \<noteq> t" for v
    using that by (simp add: without_def)
  moreover have "sorted (map (\<lambda>v. expire_tick (timers st v)) (without t tq c))" "t \<notin> set (without t tq c)" if "c < CONFIG_MAX_CPUS" for c
    using D(2,6) [OF that] by (simp_all add: without_def sorted_map_remove1)
  ultimately show ?thesis using u(1) t D(3) by (simp add: soft_off_def f)
qed

lemma soft_off_head:
  assumes inv: "soft_inv st T tq" and c: "c < CONFIG_MAX_CPUS" and x: "tq c = t # ts"
  shows "soft_off (st\<lparr>tlinks := list_del_init (Some (TimerNode t)) (tlinks st)\<rparr>) T (tq(c := ts)) t"
proof -
  note D = soft_invD [OF inv]
  have t: "t \<in> set (tq c)" using x by simp
  have "rings (list_del_init (Some (TimerNode t)) (tlinks st)) timer_heads (TimerNode ` T) (timer_nodes (tq(c := ts)))"
    using timer_remove_rings [OF D(1) c t] x by simp
  moreover have "sorted (map (\<lambda>v. expire_tick (timers st v)) ((tq(c := ts)) d)) \<and> t \<notin> set ((tq(c := ts)) d)" if "d < CONFIG_MAX_CPUS" for d
    using D(2,6) [OF that] D(5) [OF that c _ t] x by (auto split: if_splits)
  moreover have "(\<exists>d<CONFIG_MAX_CPUS. v \<in> set (tq d)) \<longleftrightarrow> (\<exists>d<CONFIG_MAX_CPUS. v \<in> set ((tq(c := ts)) d))" if "v \<noteq> t" for v
    using that x c by (metis fun_upd_other fun_upd_same set_ConsD list.set_intros(2))
  ultimately show ?thesis using D(3,4) c t by (simp add: soft_off_def)
qed

lemma soft_off_insert:
  assumes p: "soft_off st T tq t" and c: "c < CONFIG_MAX_CPUS" and a: "t_state (timers st t) = TIMER_STATE_ACTIVE"
  shows "\<exists>h. timer_queue_insert_ordered c t (expire_tick (timers st t)) st = Some (st\<lparr>tlinks := h\<rparr>) \<and>
    soft_inv (st\<lparr>tlinks := h\<rparr>) T (tq(c := insort_at (\<lambda>u. expire_tick (timers st u)) (expire_tick (timers st t)) t (tq c)))"
proof -
  let ?ys = "insort_at (\<lambda>u. expire_tick (timers st u)) (expire_tick (timers st t)) t (tq c)"
  have P: "rings (tlinks st) timer_heads (TimerNode ` T) (timer_nodes tq)" "t \<in> T" "\<And>d. d < CONFIG_MAX_CPUS \<Longrightarrow> t \<notin> set (tq d)"
    and S: "\<And>d. d < CONFIG_MAX_CPUS \<Longrightarrow> sorted (map (\<lambda>t. expire_tick (timers st t)) (tq d))"
    and A: "\<And>u. u \<in> T \<Longrightarrow> u \<noteq> t \<Longrightarrow> t_state (timers st u) = TIMER_STATE_ACTIVE \<longleftrightarrow> (\<exists>c<CONFIG_MAX_CPUS. u \<in> set (tq c))"
    using p unfolding soft_off_def by blast+
  obtain h where h: "timer_queue_insert_ordered c t (expire_tick (timers st t)) st = Some (st\<lparr>tlinks := h\<rparr>)"
      "rings h timer_heads (TimerNode ` T) (timer_nodes (tq(c := ?ys)))"
    using timer_insert_rings [OF P(1) c P(2,3)] by blast
  have "u \<in> set ((tq(c := ?ys)) d) \<longleftrightarrow> u = t \<and> d = c \<or> u \<in> set (tq d)" for u d by simp
  then have m: "(\<exists>d<CONFIG_MAX_CPUS. u \<in> set ((tq(c := ?ys)) d)) \<longleftrightarrow> u = t \<or> (\<exists>d<CONFIG_MAX_CPUS. u \<in> set (tq d))" for u using c by blast
  have "t_state (timers st u) = TIMER_STATE_ACTIVE \<longleftrightarrow> (\<exists>d<CONFIG_MAX_CPUS. u \<in> set ((tq(c := ?ys)) d))" if "u \<in> T" for u
    unfolding m using A [OF that] a by blast
  moreover have "sorted (map (\<lambda>u. expire_tick (timers st u)) ((tq(c := ?ys)) d))" if "d < CONFIG_MAX_CPUS" for d
    using S [OF that] sorted_insort_at [OF S [OF c] refl] by simp
  ultimately have "soft_inv (st\<lparr>tlinks := h\<rparr>) T (tq(c := ?ys))" using h(2) unfolding soft_inv_def by simp
  then show ?thesis using h(1) by blast
qed

lemma soft_off_retire:
  assumes "soft_off st T tq t" and "t_state (timers st t) \<noteq> TIMER_STATE_ACTIVE"
  shows "soft_inv st T tq"
  using assms unfolding soft_off_def soft_inv_def by blast

section \<open>Operations\<close>

lemma timer_init_soft_inv:
  assumes inv: "soft_inv st T tq" and t: "t \<notin> T"
  shows "soft_inv (timer_init_soft (Some t) f a st) (insert t T) tq"
proof -
  note D = soft_invD [OF inv]
  have nq: "t \<notin> set (tq c)" if "c < CONFIG_MAX_CPUS" for c using D(4) [OF that] t by blast
  let ?h = "INIT_LIST_HEAD (Some (TimerNode t)) (tlinks st)"
  have "rings ?h timer_heads (TimerNode ` insert t T) (timer_nodes tq)"
  proof (rule ringsI)
    show "dll ?h q (timer_nodes tq q)" if "q \<in> timer_heads" for q
      by (rule dll_frame [OF ringsD(2) [OF D(1) that]]) (use that nq in \<open>auto simp: timer_nodes_def intro!: INIT_LIST_HEAD_other\<close>)
    show "dll ?h n []" if "n \<in> TimerNode ` insert t T" "\<not> queued timer_heads (timer_nodes tq) n" for n
    proof (cases "n = TimerNode t")
      case False
      then show ?thesis using that ringsD(5) [OF D(1), of n] dll_frame [of "tlinks st" n "[]" ?h] by auto
    qed (simp add: dll_INIT_LIST_HEAD)
  qed (use ringsD(1,3,4) [OF D(1)] in auto)
  moreover have "sorted (map (\<lambda>u. expire_tick (((timers st)(t := x)) u)) (tq c))" if "c < CONFIG_MAX_CPUS" for c x
    by (rule sorted_upd [OF D(2) [OF that] nq [OF that]])
  ultimately show ?thesis using D(3) nq unfolding soft_inv_def by (auto simp: timer_init_soft_def upd_timer_def)
qed

text \<open>Starting a timer puts it where its time belongs, whatever its state was.\<close>

lemma start_timer_inv:
  assumes inv: "soft_inv st T tq" and c: "c < CONFIG_MAX_CPUS" and t: "t \<in> T"
  shows "\<exists>h. start_timer c t d i st = Some ((upd_timer t (\<lambda>x. x\<lparr>expire_tick := s_system_ticks st + d, interval := i, t_state := TIMER_STATE_ACTIVE\<rparr>) st)\<lparr>tlinks := h\<rparr>) \<and>
    soft_inv ((upd_timer t (\<lambda>x. x\<lparr>expire_tick := s_system_ticks st + d, interval := i, t_state := TIMER_STATE_ACTIVE\<rparr>) st)\<lparr>tlinks := h\<rparr>) T
      ((without t tq)(c := insort_at (\<lambda>u. expire_tick (timers st u)) (s_system_ticks st + d) t (remove1 t (tq c))))"
proof -
  let ?f = "\<lambda>x. x\<lparr>expire_tick := s_system_ticks st + d, interval := i, t_state := TIMER_STATE_ACTIVE\<rparr>"
  let ?st2 = "upd_timer t ?f (unqueue_timer t st)"
  have e: "unqueue_timer t (upd_timer t ?f st) = ?st2" by (simp add: unqueue_timer_def upd_timer_def)
  have x: "expire_tick (timers ?st2 t) = s_system_ticks st + d" "t_state (timers ?st2 t) = TIMER_STATE_ACTIVE"
    by (simp_all add: upd_timer_def unqueue_timer_def)
  obtain h where h: "timer_queue_insert_ordered c t (s_system_ticks st + d) ?st2 = Some (?st2\<lparr>tlinks := h\<rparr>)"
      "soft_inv (?st2\<lparr>tlinks := h\<rparr>) T ((without t tq)(c := insort_at (\<lambda>u. expire_tick (timers ?st2 u)) (s_system_ticks st + d) t (without t tq c)))"
    using soft_off_insert [OF soft_off_upd [OF soft_off_detach [OF inv t]] c x(2)] unfolding x(1) by blast
  have y: "insort_at (\<lambda>u. expire_tick (timers ?st2 u)) (s_system_ticks st + d) t (without t tq c) =
      insort_at (\<lambda>u. expire_tick (timers st u)) (s_system_ticks st + d) t (remove1 t (tq c))"
    unfolding without_def by (rule insort_at_cong) (use soft_invD(6) [OF inv c] in \<open>auto simp: upd_timer_def unqueue_timer_def\<close>)
  have "?st2\<lparr>tlinks := h\<rparr> = (upd_timer t ?f st)\<lparr>tlinks := h\<rparr>" by (simp add: upd_timer_def unqueue_timer_def)
  moreover have "start_timer c t d i st = Some (?st2\<lparr>tlinks := h\<rparr>)" using h(1) by (simp add: start_timer_def Let_def e x(1))
  ultimately show ?thesis using h(2) unfolding y by (metis (no_types, lifting))
qed

lemma timer_stop_inv:
  assumes inv: "soft_inv st T tq" and t: "t \<in> T"
  shows "soft_inv (timer_stop (Some t) st) T (without t tq)"
  using soft_off_retire [OF soft_off_upd [OF soft_off_detach [OF inv t]]] by (simp add: timer_stop_def upd_timer_def)

section \<open>Expiry\<close>

text \<open>What the interrupt does with the queue of a CPU, on the list of its timers.\<close>

fun expire_spec :: "u64 \<Rightarrow> nat \<Rightarrow> (nat \<Rightarrow> software_timer) \<Rightarrow> nat list \<Rightarrow> (nat \<Rightarrow> software_timer) \<times> nat list" where
  "expire_spec now 0 F ts = (F, ts)"
| "expire_spec now (Suc n) F [] = (F, [])"
| "expire_spec now (Suc n) F (t # ts) =
     (if expire_tick (F t) > now then (F, t # ts)
      else if interval (F t) > 0
      then (let F' = F(t := (F t)\<lparr>expire_tick := expire_tick (F t) + interval (F t), t_state := TIMER_STATE_ACTIVE\<rparr>)
            in expire_spec now n F' (insort_at (\<lambda>u. expire_tick (F' u)) (expire_tick (F' t)) t ts))
      else expire_spec now n (F(t := (F t)\<lparr>t_state := TIMER_STATE_EXPIRED\<rparr>)) ts)"

text \<open>What the interrupt relies on: a callback leaves the timers, their queues, the tick count and the scheduler alone.\<close>

definition callback_quiet :: "(u64 \<Rightarrow> u64 \<Rightarrow> timer_sys \<Rightarrow> timer_sys) \<Rightarrow> bool" where
  "callback_quiet cb \<longleftrightarrow> (\<forall>f a st. timers (cb f a st) = timers st \<and> tlinks (cb f a st) = tlinks st \<and> s_system_ticks (cb f a st) = s_system_ticks st \<and>
     tsched (cb f a st) = tsched st)"

lemma timer_first:
  assumes "soft_inv st T tq" and "c < CONFIG_MAX_CPUS"
  shows "lh_next (tlinks st (TimerQ c)) = Some (if tq c = [] then TimerQ c else TimerNode (hd (tq c)))"
  using dll_next [OF ringsD(2) [OF soft_invD(1) [OF assms(1)], of "TimerQ c"]] assms(2)
  by (auto simp: timer_nodes_def hd_append hd_map)

lemma soft_off_callback:
  assumes "callback_quiet cb" and "soft_off st T tq t"
  shows "soft_off (if b then cb f a st else st) T tq t"
  using assms by (simp add: callback_quiet_def soft_off_def)

definition reloaded :: "software_timer \<Rightarrow> software_timer" where
  "reloaded x = x\<lparr>expire_tick := expire_tick x + interval x, t_state := TIMER_STATE_ACTIVE\<rparr>"

lemma expire_one_inv:
  assumes q: "callback_quiet cb" and c: "c < CONFIG_MAX_CPUS" and inv: "soft_inv st T tq" and x: "tq c = t # us"
  shows "\<exists>st'. expire_one cb c t st = Some st' \<and> s_system_ticks st' = s_system_ticks st \<and> tsched st' = tsched st \<and>
    (if interval (timers st t) > 0
     then timers st' = (timers st)(t := reloaded (timers st t)) \<and>
       soft_inv st' T (tq(c := insort_at (\<lambda>u. expire_tick (timers st' u)) (expire_tick (timers st' t)) t us))
     else timers st' = (timers st)(t := (timers st t)\<lparr>t_state := TIMER_STATE_EXPIRED\<rparr>) \<and> soft_inv st' T (tq(c := us)))"
proof -
  define st1 where "st1 = upd_timer t (\<lambda>x. x\<lparr>t_state := TIMER_STATE_CALLBACK\<rparr>) (st\<lparr>tlinks := list_del_init (Some (TimerNode t)) (tlinks st)\<rparr>)"
  define st2 where "st2 = (if callback (timers st1 t) \<noteq> 0 then cb (callback (timers st1 t)) (callback_arg (timers st1 t)) st1 else st1)"
  have "soft_off st1 T (tq(c := us)) t" unfolding st1_def by (rule soft_off_upd [OF soft_off_head [OF inv c x]])
  then have o: "soft_off st2 T (tq(c := us)) t" unfolding st2_def by (rule soft_off_callback [OF q])
  have f: "timers st2 = (timers st)(t := (timers st t)\<lparr>t_state := TIMER_STATE_CALLBACK\<rparr>)" "s_system_ticks st2 = s_system_ticks st" "tsched st2 = tsched st"
    using q by (simp_all add: st2_def st1_def upd_timer_def callback_quiet_def)
  note e = expire_one_def [of cb c t st, folded st1_def, unfolded Let_def, folded st2_def]
  show ?thesis
  proof (cases "interval (timers st t) > 0")
    case True
    let ?st3 = "upd_timer t (\<lambda>x. x\<lparr>expire_tick := expire_tick x + interval x, t_state := TIMER_STATE_ACTIVE\<rparr>) st2"
    have t3: "timers ?st3 = (timers st)(t := reloaded (timers st t))" by (simp add: upd_timer_def f reloaded_def)
    obtain h where h: "timer_queue_insert_ordered c t (expire_tick (timers ?st3 t)) ?st3 = Some (?st3\<lparr>tlinks := h\<rparr>)"
        "soft_inv (?st3\<lparr>tlinks := h\<rparr>) T ((tq(c := us))(c := insort_at (\<lambda>u. expire_tick (timers ?st3 u)) (expire_tick (timers ?st3 t)) t ((tq(c := us)) c)))"
      using soft_off_insert [OF soft_off_upd [OF o] c, of "\<lambda>x. x\<lparr>expire_tick := expire_tick x + interval x, t_state := TIMER_STATE_ACTIVE\<rparr>"]
      by (auto simp: t3 reloaded_def)
    define st4 where "st4 = ?st3\<lparr>tlinks := h\<rparr>"
    have t4: "timers st4 = timers ?st3" "s_system_ticks st4 = s_system_ticks st" "tsched st4 = tsched st" by (simp_all add: st4_def upd_timer_def f)
    have "expire_one cb c t st = Some st4" using h(1) True f by (simp add: e st4_def)
    moreover have "soft_inv st4 T (tq(c := insort_at (\<lambda>u. expire_tick (timers st4 u)) (expire_tick (timers st4 t)) t us))"
      using h(2) unfolding fun_upd_upd fun_upd_same t4 by (simp only: st4_def)
    ultimately show ?thesis using True t3 t4 by auto
  next
    case False
    let ?st3 = "upd_timer t (\<lambda>x. x\<lparr>t_state := TIMER_STATE_EXPIRED\<rparr>) st2"
    have "soft_inv ?st3 T (tq(c := us))" by (rule soft_off_retire [OF soft_off_upd [OF o]]) (simp add: upd_timer_def)
    then show ?thesis using False f by (simp add: e upd_timer_def)
  qed
qed

lemma expire_timers_refines:
  assumes q: "callback_quiet cb" and c: "c < CONFIG_MAX_CPUS" and "soft_inv st T tq" and "expire_spec now n (timers st) (tq c) = (F, ts)"
  shows "\<exists>st'. expire_timers cb c now n st = Some st' \<and> soft_inv st' T (tq(c := ts)) \<and> timers st' = F \<and>
    s_system_ticks st' = s_system_ticks st \<and> tsched st' = tsched st"
  using assms(3,4)
proof (induction n arbitrary: st tq)
  case 0
  then show ?case by (auto simp: fun_upd_idem)
next
  case (Suc n)
  note nx = timer_first [OF Suc.prems(1) c]
  show ?case
  proof (cases "tq c")
    case Nil
    then show ?thesis using Suc.prems nx by (auto simp: list_empty_def fun_upd_idem)
  next
    case (Cons t us)
    show ?thesis
    proof (cases "expire_tick (timers st t) > now")
      case True
      then have "expire_timers cb c now (Suc n) st = Some st" using nx Cons by (simp add: list_empty_def)
      moreover have "F = timers st" "ts = tq c" using Suc.prems(2) Cons True by simp_all
      ultimately show ?thesis using Suc.prems(1) by (simp add: fun_upd_idem)
    next
      case False
      obtain st1 where st1: "expire_one cb c t st = Some st1" "s_system_ticks st1 = s_system_ticks st" "tsched st1 = tsched st"
          "if interval (timers st t) > 0
           then timers st1 = (timers st)(t := reloaded (timers st t)) \<and>
             soft_inv st1 T (tq(c := insort_at (\<lambda>u. expire_tick (timers st1 u)) (expire_tick (timers st1 t)) t us))
           else timers st1 = (timers st)(t := (timers st t)\<lparr>t_state := TIMER_STATE_EXPIRED\<rparr>) \<and> soft_inv st1 T (tq(c := us))"
        using expire_one_inv [OF q c Suc.prems(1) Cons] by blast
      define vs where "vs = (if interval (timers st t) > 0
        then insort_at (\<lambda>u. expire_tick (timers st1 u)) (expire_tick (timers st1 t)) t us else us)"
      have i1: "soft_inv st1 T (tq(c := vs))" 
        using st1(4) unfolding vs_def by (auto split: if_split_asm)
      have "expire_spec now n (timers st1) vs = (F, ts)"
        using Suc.prems(2) False st1(4) by (auto simp: Cons vs_def reloaded_def Let_def split: if_splits)
      then have "\<exists>st'. expire_timers cb c now n st1 = Some st' \<and> soft_inv st' T ((tq(c := vs))(c := ts)) \<and> timers st' = F \<and>
          s_system_ticks st' = s_system_ticks st1 \<and> tsched st' = tsched st1" by (intro Suc.IH [OF i1]) simp
      moreover have "expire_timers cb c now (Suc n) st = expire_timers cb c now n st1"
        using nx Cons False st1(1) by (simp add: list_empty_def)
      ultimately show ?thesis unfolding fun_upd_upd st1(2,3) by metis
    qed
  qed
qed

end
