(* ===== verification/Timer_Irq.thy ===== *)
theory Timer_Irq
  imports Timer_Soft
begin

text \<open>The timer interrupt as a whole, and how long a thread sleeps.\<close>

section \<open>Frames\<close>

text \<open>What the interrupt finds: a running thread of the round-robin class, and no division by zero in the balancing hook.\<close>

definition ticking :: "nat \<Rightarrow> sched \<Rightarrow> bool" where
  "ticking c s \<longleftrightarrow> c < CONFIG_MAX_CPUS \<and> (\<exists>u. current_thread (cpu_q s c) = Some u \<and> class_of u s = Some sched_rr) \<and>
     (\<forall>d<CONFIG_MAX_CPUS. lb_interval s d \<noteq> 0)"

definition same_frame :: "sched \<Rightarrow> sched \<Rightarrow> bool" where
  "same_frame s s' \<longleftrightarrow> (\<forall>d. current_thread (cpu_q s' d) = current_thread (cpu_q s d)) \<and> steady s s'"

lemma same_frame_refl [simp]: "same_frame s s"
  by (simp add: same_frame_def)

lemma same_frame_trans: "same_frame s s' \<Longrightarrow> same_frame s' s'' \<Longrightarrow> same_frame s s''"
  using steady_trans by (auto simp: same_frame_def)

lemma same_frame_ticking: "same_frame s s' \<Longrightarrow> ticking c s' = ticking c s"
  by (simp add: same_frame_def steady_def ticking_def class_of_def cong: option.case_cong)

lemma wake_sleepers_frame: "wake_sleepers c now n s = Some s' \<Longrightarrow> same_frame s s'"
proof (induction c now n s rule: wake_sleepers.induct)
  case (2 c now n s)
  have w: "same_frame s (scheduler_enqueue c (Some t) (upd_thr t (\<lambda>k. k\<lparr>state := KTHREAD_STATE_READY\<rparr>) (upd_slinks f s)))" for t f
    using steady_wake(1) by (auto simp: same_frame_def scheduler_enqueue_def upd_thr_def upd_slinks_def sched_enqueue_locked_def upd_bitmap_def upd_cpu_def Let_def)
  show ?case
    using 2 by (auto intro!: same_frame_trans [OF w] split: if_splits option.splits sched_node.splits)
qed simp

lemma tick_frame:
  assumes "scheduler_tick c s = Some s'"
  shows "same_frame s s'" and "state (thr s' t) = state (thr s t)" and "wakeup_tick (thr s' t) = wakeup_tick (thr s t)"
proof -
  have b: "same_frame s1 s2 \<and> thread_table s2 = thread_table s1" if "smp_tick_check_balance c s1 = Some s2" for s1 s2
    using that by (auto simp: smp_tick_check_balance_def Let_def same_frame_def steady_def split: if_splits)
  have r: "same_frame s1 (scheduler_set_need_resched c s1) \<and> thread_table (scheduler_set_need_resched c s1) = thread_table s1" for s1
    by (auto simp: same_frame_def steady_def scheduler_set_need_resched_def upd_cpu_def)
  have t: "same_frame s s2 \<and> state (thr s2 v) = state (thr s v) \<and> wakeup_tick (thr s2 v) = wakeup_tick (thr s v)"
    if "sched_class_tick c (Some u) s = Some s2" for u s2 v
    using that by (auto simp: sched_class_tick_def sched_rr_tick_def scheduler_set_need_resched_def upd_cpu_def upd_thr_def Let_def same_frame_def steady_def
        split: option.splits if_splits)
  have "same_frame s s' \<and> state (thr s' v) = state (thr s v) \<and> wakeup_tick (thr s' v) = wakeup_tick (thr s v)" for v
  proof (cases "current_thread (cpu_q s c)")
    case None
    then show ?thesis using assms by (simp add: scheduler_tick_def same_frame_def)
  next
    case (Some u)
    obtain s1 where s1: "sched_class_tick c (Some u) s = Some s1"
      using assms Some by (cases "sched_class_tick c (Some u) s") (auto simp: scheduler_tick_def)
    then have "s' = s1 \<or> smp_tick_check_balance c s1 = Some s' \<or> smp_tick_check_balance c (scheduler_set_need_resched c s1) = Some s'"
      using assms Some by (auto simp: scheduler_tick_def bind_eq_Some_conv split: option.splits if_splits)
    then show ?thesis using t [OF s1, of v] b r [of s1] same_frame_trans by (metis (no_types, lifting))
  qed
  then show "same_frame s s'" "state (thr s' t) = state (thr s t)" "wakeup_tick (thr s' t) = wakeup_tick (thr s t)" by simp_all
qed

section \<open>The interrupt\<close>

lemma interrupt_eq:
  assumes inv: "sched_inv (tsched st) W rq wq" and w: "SleepQ c \<in> W" and soft: "soft_inv st T tq" and q: "callback_quiet cb"
    and tk: "ticking c (tsched st)" and d: "ds = due (s_system_ticks st + 1) TIMER_IRQ_MAX_WAKEUPS (tsched st) (wq (SleepQ c))"
    and e: "expire_spec (s_system_ticks st + 1) TIMER_IRQ_MAX_CALLBACKS (timers st) (tq c) = (F, ts)"
  shows "\<exists>st'. timer_interrupt_handler cb n c st = Some st' \<and> s_system_ticks st' = s_system_ticks st + 1 \<and>
    sched_inv (tsched st') W (rq_wake c ds (tsched st) rq) (wq(SleepQ c := drop (length ds) (wq (SleepQ c)))) \<and>
    soft_inv st' T (tq(c := ts)) \<and> timers st' = F \<and> ticking c (tsched st') \<and> same_frame (tsched st) (tsched st') \<and>
    (\<forall>t. state (thr (tsched st') t) = state (woken ds (tsched st) t) \<and> wakeup_tick (thr (tsched st') t) = wakeup_tick (thr (tsched st) t))"
proof -
  have c: "c < CONFIG_MAX_CPUS" using tk by (simp add: ticking_def)
  let ?st1 = "timer_set_next_compare n (st\<lparr>s_system_ticks := s_system_ticks st + 1\<rparr>)"
  have f1: "timers ?st1 = timers st" "tlinks ?st1 = tlinks st" "tsched ?st1 = tsched st" "s_system_ticks ?st1 = s_system_ticks st + 1"
    by (simp_all add: timer_set_next_compare_def)
  have "soft_inv ?st1 T tq" using soft by (simp add: soft_inv_def f1)
  then obtain st2 where st2: "expire_timers cb c (s_system_ticks st + 1) TIMER_IRQ_MAX_CALLBACKS ?st1 = Some st2" "soft_inv st2 T (tq(c := ts))"
      "timers st2 = F" "s_system_ticks st2 = s_system_ticks st + 1" "tsched st2 = tsched st"
    using expire_timers_refines [OF q c, of ?st1 T tq] e f1 by metis
  obtain s3 where s3: "wake_sleepers c (s_system_ticks st + 1) TIMER_IRQ_MAX_WAKEUPS (tsched st) = Some s3"
      "sched_inv s3 W (rq_wake c ds (tsched st) rq) (wq(SleepQ c := drop (length ds) (wq (SleepQ c))))" "thread_table s3 = woken ds (tsched st)"
    using wake_sleepers_eq [OF inv c w] unfolding d by blast
  note w3 = wake_sleepers_frame [OF s3(1)]
  have t3: "ticking c s3" using same_frame_ticking [OF w3] tk by simp
  then obtain u where u: "current_thread (cpu_q s3 c) = Some u" "class_of u s3 = Some sched_rr" "\<And>d. d < CONFIG_MAX_CPUS \<Longrightarrow> lb_interval s3 d \<noteq> 0"
    by (auto simp: ticking_def)
  obtain s4 where s4: "scheduler_tick c s3 = Some s4" "sched_inv s4 W (rq_wake c ds (tsched st) rq) (wq(SleepQ c := drop (length ds) (wq (SleepQ c))))"
    using scheduler_tick_effect [OF s3(2) c u] by blast
  note f = tick_frame [OF s4(1)]
  have h: "timer_interrupt_handler cb n c st = Some (st2\<lparr>tsched := s4\<rparr>)"
    using st2(1,5) s3(1) s4(1) by (simp add: timer_interrupt_handler_def)
  have i: "soft_inv (st2\<lparr>tsched := s4\<rparr>) T (tq(c := ts))" using st2(2) by (simp add: soft_inv_def)
  have k: "ticking c s4" using same_frame_ticking [OF f(1)] t3 by simp
  have s: "state (thr s4 t) = state (woken ds (tsched st) t) \<and> wakeup_tick (thr s4 t) = wakeup_tick (thr (tsched st) t)" for t
    using f(2,3) [of t] by (simp add: s3(3)) (simp add: woken_def)
  show ?thesis by (rule exI [of _ "st2\<lparr>tsched := s4\<rparr>"]) (use h i k s s4(2) st2(3,4) same_frame_trans [OF w3 f(1)] in simp)
qed

section \<open>A run of interrupts\<close>

fun interrupts :: "(u64 \<Rightarrow> u64 \<Rightarrow> timer_sys \<Rightarrow> timer_sys) \<Rightarrow> (nat \<Rightarrow> u64) \<Rightarrow> nat \<Rightarrow> nat \<Rightarrow> timer_sys \<Rightarrow> timer_sys option" where
  "interrupts cb count c 0 st = Some st"
| "interrupts cb count c (Suc j) st = Option.bind (timer_interrupt_handler cb (count j) c st) (interrupts cb count c j)"

definition timed :: "timer_sys \<Rightarrow> sched_node set \<Rightarrow> nat set \<Rightarrow> nat \<Rightarrow> nat list \<Rightarrow> bool" where
  "timed st W T c ts \<longleftrightarrow> (\<exists>rq wq tq. sched_inv (tsched st) W rq wq \<and> wq (SleepQ c) = ts \<and> soft_inv st T tq) \<and>
     SleepQ c \<in> W \<and> ticking c (tsched st) \<and> sleep_sorted (tsched st) ts"

lemma interrupt_timed:
  assumes "timed st W T c ts" and "callback_quiet cb" and d: "ds = due (s_system_ticks st + 1) TIMER_IRQ_MAX_WAKEUPS (tsched st) ts"
  shows "\<exists>st'. timer_interrupt_handler cb n c st = Some st' \<and> s_system_ticks st' = s_system_ticks st + 1 \<and> timed st' W T c (drop (length ds) ts) \<and>
    (\<forall>t. state (thr (tsched st') t) = state (woken ds (tsched st) t) \<and> wakeup_tick (thr (tsched st') t) = wakeup_tick (thr (tsched st) t))"
proof -
  obtain rq wq tq where a: "sched_inv (tsched st) W rq wq" "wq (SleepQ c) = ts" "soft_inv st T tq" using assms(1) by (auto simp: timed_def)
  have b: "SleepQ c \<in> W" "ticking c (tsched st)" "sleep_sorted (tsched st) ts" using assms(1) by (auto simp: timed_def)
  obtain F us where e: "expire_spec (s_system_ticks st + 1) TIMER_IRQ_MAX_CALLBACKS (timers st) (tq c) = (F, us)" by fastforce
  obtain st' where st': "timer_interrupt_handler cb n c st = Some st'" "s_system_ticks st' = s_system_ticks st + 1"
      "sched_inv (tsched st') W (rq_wake c ds (tsched st) rq) (wq(SleepQ c := drop (length ds) ts))" "soft_inv st' T (tq(c := us))"
      "ticking c (tsched st')"
      "\<forall>t. state (thr (tsched st') t) = state (woken ds (tsched st) t) \<and> wakeup_tick (thr (tsched st') t) = wakeup_tick (thr (tsched st) t)"
    using interrupt_eq [OF a(1) b(1) a(3) assms(2) b(2) _ e, of ds n] d unfolding a(2) by blast
  have "sleep_sorted (tsched st') (drop (length ds) ts)"
    using b(3) st'(6) by (simp add: sleep_sorted_def drop_map [symmetric] sorted_wrt_drop)
  moreover have "\<exists>rq wq tq. sched_inv (tsched st') W rq wq \<and> wq (SleepQ c) = drop (length ds) ts \<and> soft_inv st' T tq"
    using st'(3,4) by (metis fun_upd_same)
  ultimately have "timed st' W T c (drop (length ds) ts)" using st'(5) b(1) by (auto simp: timed_def)
  then show ?thesis using st'(1,2,6) by blast
qed

text \<open>A thread once woken stays ready.\<close>

lemma stays_ready:
  assumes "timed st W T c ts" and "callback_quiet cb" and "state (thr (tsched st) t) = KTHREAD_STATE_READY"
  shows "\<exists>st'. interrupts cb count c j st = Some st' \<and> state (thr (tsched st') t) = KTHREAD_STATE_READY"
  using assms(1,3)
proof (induction j arbitrary: st ts)
  case (Suc j)
  obtain st' where st': "timer_interrupt_handler cb (count j) c st = Some st'"
      "timed st' W T c (drop (length (due (s_system_ticks st + 1) TIMER_IRQ_MAX_WAKEUPS (tsched st) ts)) ts)"
      "state (thr (tsched st') t) = state (woken (due (s_system_ticks st + 1) TIMER_IRQ_MAX_WAKEUPS (tsched st) ts) (tsched st) t)"
    using interrupt_timed [OF Suc.prems(1) assms(2) refl] by blast
  then have "state (thr (tsched st') t) = KTHREAD_STATE_READY" using Suc.prems(2) by (simp add: woken_def)
  then show ?case using Suc.IH [OF st'(2)] st'(1) by simp
qed simp

text \<open>Position \<open>k\<close> of the queue: as soon as its time has come, sixteen threads a tick leave before it.\<close>

lemma due_length:
  assumes "sleep_sorted s ts" and "k < length ts" and "wakeup_tick (thr s (ts ! k)) \<le> now"
  shows "min n (Suc k) \<le> length (due now n s ts)"
proof -
  have "wakeup_tick (thr s (ts ! i)) \<le> now" if "i \<le> k" for i
    using assms that sorted_nth_mono [of "map (\<lambda>t. wakeup_tick (thr s t)) ts" i k] by (auto simp: sleep_sorted_def intro: order_trans)
  then have "Suc k \<le> length (takeWhile (\<lambda>t. wakeup_tick (thr s t) \<le> now) ts)"
    by (intro length_takeWhile_less_P_nth) (use assms(2) in auto)
  then show ?thesis by (simp add: due_def)
qed

lemma due_take: "due now n s ts = take (length (due now n s ts)) ts"
proof -
  have "due now n s ts = take (min n (length (takeWhile (\<lambda>t. wakeup_tick (thr s t) \<le> now) ts))) ts"
    unfolding due_def by (metis take_take takeWhile_eq_take)
  then obtain m where "due now n s ts = take m ts" by blast
  then show ?thesis by (simp add: min_def)
qed

lemma sleeper_wakes:
  assumes "timed st W T c ts" and q: "callback_quiet cb" and "k < length ts" and "ts ! k = t"
    and "unat (wakeup_tick (thr (tsched st) t)) \<le> unat (s_system_ticks st) + n" and "0 < n" and "n + k div 16 \<le> j"
    and "unat (s_system_ticks st) + j < 2 ^ 64"
  shows "\<exists>st'. interrupts cb count c j st = Some st' \<and> state (thr (tsched st') t) = KTHREAD_STATE_READY"
  using assms(1,3-)
proof (induction j arbitrary: st ts k n)
  case 0
  then show ?case by simp
next
  case (Suc j)
  define ds where "ds = due (s_system_ticks st + 1) TIMER_IRQ_MAX_WAKEUPS (tsched st) ts"
  obtain st' where st': "timer_interrupt_handler cb (count j) c st = Some st'" "s_system_ticks st' = s_system_ticks st + 1"
      "timed st' W T c (drop (length ds) ts)"
      "\<forall>t. state (thr (tsched st') t) = state (woken ds (tsched st) t) \<and> wakeup_tick (thr (tsched st') t) = wakeup_tick (thr (tsched st) t)"
    using interrupt_timed [OF Suc.prems(1) q ds_def] by blast
  have now: "unat (s_system_ticks st + 1) = unat (s_system_ticks st) + 1" using Suc.prems(7) by (simp add: unat_word_ariths)
  have so: "sleep_sorted (tsched st) ts" using Suc.prems(1) by (simp add: timed_def)
  show ?case
  proof (cases "k < length ds")
    case True
    have "ds = take (length ds) ts" unfolding ds_def by (rule due_take)
    then have "t \<in> set ds" using True Suc.prems(3) by (metis nth_mem nth_take)
    then have "state (thr (tsched st') t) = KTHREAD_STATE_READY" using st'(4) by (simp add: woken_def)
    then show ?thesis using stays_ready [OF st'(3) q] st'(1) by simp
  next
    case False
    define m where "m = (if n = 1 then 1 else n - 1)"
    have k: "k - length ds < length (drop (length ds) ts)" "drop (length ds) ts ! (k - length ds) = t"
      using False Suc.prems(2,3) by auto
    have "m + (k - length ds) div 16 \<le> j"
    proof (cases "n = 1")
      case True
      then have "wakeup_tick (thr (tsched st) (ts ! k)) \<le> s_system_ticks st + 1"
        using Suc.prems(3,4) now by (simp add: word_le_nat_alt)
      then have "16 \<le> length ds" using due_length [OF so Suc.prems(2), of _ TIMER_IRQ_MAX_WAKEUPS] False unfolding ds_def by fastforce
      then have k16: "16 \<le> k" "(k - length ds) div 16 \<le> (k - 16) div 16" using False by (simp_all add: div_le_mono)
      then have "k div 16 = Suc ((k - 16) div 16)" by (simp add: le_div_geq)
      then show ?thesis using k16(2) Suc.prems(6) True by (simp add: m_def)
    next
      case False
      have "(k - length ds) div 16 \<le> k div 16" by (simp add: div_le_mono)
      then show ?thesis using Suc.prems(5,6) False by (simp add: m_def)
    qed
    moreover have "unat (wakeup_tick (thr (tsched st') t)) \<le> unat (s_system_ticks st') + m"
      using Suc.prems(4,5) st'(2,4) now by (auto simp: m_def)
    moreover have "unat (s_system_ticks st') + j < 2 ^ 64" using Suc.prems(7) now st'(2) by simp
    ultimately have "\<exists>st''. interrupts cb count c j st' = Some st'' \<and> state (thr (tsched st'') t) = KTHREAD_STATE_READY"
      using Suc.prems(5) by (intro Suc.IH [OF st'(3) k]) (auto simp: m_def)
    then show ?thesis using st'(1) by simp
  qed
qed

end
