(* ===== verification/Generation_Ids.thy ===== *)
theory Generation_Ids
  imports Kernel_Prelude
begin

text \<open>
  Identifiers of kernel objects: a generation in the high half and a table index in the low half.  A lookup compares the generation with
  the one in the table entry, so that the identifier of a destroyed object stops working.  The contract is shared by the tables that
  use it.
\<close>

section \<open>The code\<close>

definition ident :: "u16 \<Rightarrow> nat \<Rightarrow> u32" where
  "ident g n = push_bit 16 (ucast g) OR of_nat n"

definition next_generation :: "u16 \<Rightarrow> u16" where
  "next_generation g = (if g + 1 = 0 then 1 else g + 1)"

lemma bit_low16 [simp]: "bit (0xFFFF :: int) k \<longleftrightarrow> k < 16"
proof -
  have e: "(0xFFFF :: int) = Bit_Operations.mask 16" by (simp add: mask_eq_exp_minus_1)
  show ?thesis unfolding e by (simp add: bit_mask_iff)
qed

lemma small_bits:
  assumes "n < 2 ^ 16"
  shows "bit (of_nat n :: u32) k \<Longrightarrow> k < 16"
proof -
  have "(of_nat n :: u32) = take_bit 16 (of_nat n)"
    using assms by (simp add: word_unat_eq_iff unat_of_nat_u32 unsigned_take_bit_eq take_bit_nat_eq_self)
  then show "bit (of_nat n :: u32) k \<Longrightarrow> k < 16" by (metis bit_take_bit_iff)
qed

lemma ident_index:
  assumes "n < 2 ^ 16"
  shows "ident g n AND 0xFFFF = of_nat n"
proof (rule bit_word_eqI)
  fix k assume "k < LENGTH(32)"
  show "bit (ident g n AND 0xFFFF) k = bit (of_nat n :: u32) k"
    using small_bits [OF assms, of k] by (auto simp: ident_def bit_simps)
qed

lemma ident_generation:
  assumes "n < 2 ^ 16"
  shows "ucast (drop_bit 16 (ident g n) AND 0xFFFF) = g"
proof (rule bit_word_eqI)
  fix k assume k: "k < LENGTH(16)"
  show "bit (ucast (drop_bit 16 (ident g n) AND 0xFFFF) :: u16) k = bit g k"
    using small_bits [OF assms, of "k + 16"] k by (auto simp: ident_def bit_simps add.commute simp del: bit_numeral_rec)
qed

lemma ident_eq_iff:
  assumes "m < 2 ^ 16" and "n < 2 ^ 16"
  shows "ident g m = ident h n \<longleftrightarrow> g = h \<and> m = n"
proof
  assume e: "ident g m = ident h n"
  have "(of_nat m :: u32) = of_nat n" using ident_index [OF assms(1), of g] ident_index [OF assms(2), of h] e by simp
  moreover have "m < 2 ^ 32" "n < 2 ^ 32" using assms by simp_all
  ultimately have "m = n" by (metis unat_of_nat_u32)
  moreover have "g = h" using ident_generation [OF assms(1), of g] ident_generation [OF assms(2), of h] e by simp
  ultimately show "g = h \<and> m = n" by simp
qed simp

lemma ident_nonzero:
  assumes "n < 2 ^ 16" and "g \<noteq> 0"
  shows "ident g n \<noteq> 0"
  using ident_generation [OF assms(1), of g] assms(2) by auto

lemma ident_surj: "i = ident (ucast (drop_bit 16 i AND 0xFFFF)) (unat (i AND 0xFFFF))"
proof (rule bit_word_eqI)
  fix k assume k: "k < LENGTH(32)"
  show "bit i k = bit (ident (ucast (drop_bit 16 i AND 0xFFFF)) (unat (i AND 0xFFFF))) k"
    using k by (cases "k < 16") (auto simp: ident_def bit_simps)
qed

section \<open>Generations\<close>

text \<open>A generation comes back only after all the others.\<close>

lemma next_generation_unat: "unat (next_generation g) = (if unat g = 65535 then 1 else unat g + 1)"
proof (cases "g + 1 = 0")
  case True
  then have g: "g = - 1" by (simp add: eq_neg_iff_add_eq_0)
  then have "unat g = 65535" by (simp add: unsigned_minus_1_eq_mask mask_eq_exp_minus_1)
  then show ?thesis using True by (simp add: next_generation_def)
next
  case False
  have "unat g < 2 ^ 16" using unsigned_less [of g, where 'a = nat] by simp
  moreover have "unat g \<noteq> 65535"
  proof
    assume "unat g = 65535"
    then have "unat (g + 1) = 0" by (simp add: unat_word_ariths)
    then show False using False by (simp add: unat_eq_zero)
  qed
  ultimately show ?thesis using False by (simp add: next_generation_def unat_word_ariths)
qed

lemma next_generation_nonzero: "next_generation g \<noteq> 0"
proof
  assume "next_generation g = 0"
  then show False using next_generation_unat [of g] by (simp split: if_splits)
qed

lemma next_generation_iter:
  assumes "g \<noteq> 0"
  shows "unat ((next_generation ^^ k) g) = (unat g - 1 + k) mod 65535 + 1"
proof (induction k)
  case 0
  have "unat g < 2 ^ 16" "unat g \<noteq> 0" using unsigned_less [of g, where 'a = nat] assms by (simp_all add: unat_eq_zero)
  then show ?case by simp
next
  case (Suc k)
  let ?m = "unat g - 1 + k"
  have "unat ((next_generation ^^ Suc k) g) = (if ?m mod 65535 + 1 = 65535 then 1 else ?m mod 65535 + 1 + 1)"
    using Suc by (simp add: next_generation_unat)
  also have "\<dots> = Suc ?m mod 65535 + 1" by (simp add: mod_Suc)
  finally show ?case by simp
qed

lemma next_generation_cycle:
  assumes "g \<noteq> 0" and "0 < k" and "k < 65535"
  shows "(next_generation ^^ k) g \<noteq> g"
proof
  assume e: "(next_generation ^^ k) g = g"
  define a where "a = unat g - 1"
  have "unat g < 2 ^ 16" "unat g \<noteq> 0" using unsigned_less [of g, where 'a = nat] assms(1) by (simp_all add: unat_eq_zero)
  then have a: "a < 65535" "(a + k) mod 65535 = a" using next_generation_iter [OF assms(1), of k] unfolding e a_def by linarith+
  show False
  proof (cases "a + k < 65535")
    case True
    then show False using a(2) assms(2) by simp
  next
    case False
    then have "(a + k) mod 65535 = a + k - 65535" using a(1) assms(3) by (simp add: le_mod_geq)
    then show False using a(2) assms(3) False by linarith
  qed
qed

lemma next_generation_full:
  assumes "g \<noteq> 0"
  shows "(next_generation ^^ 65535) g = g"
proof -
  obtain a where a: "unat g = Suc a" using assms by (metis unat_eq_zero not0_implies_Suc)
  have "unat g < 2 ^ 16" using unsigned_less [of g, where 'a = nat] by simp
  then have "(unat g - 1 + 65535) mod 65535 + 1 = unat g" using a by simp
  then show ?thesis by (intro word_unat_eq_iff [THEN iffD2]) (simp only: next_generation_iter [OF assms])
qed

section \<open>The contract\<close>

locale generation_table =
  fixes lookup :: "u32 \<Rightarrow> 's \<Rightarrow> nat option"
    and gen :: "'s \<Rightarrow> nat \<Rightarrow> u16"
    and limit :: nat
  assumes limit: "limit \<le> 2 ^ 16"
    and lookup_some: "lookup i s = Some n \<longleftrightarrow> i \<noteq> 0 \<and> unat (i AND 0xFFFF) = n \<and> n < limit \<and> gen s n = ucast (drop_bit 16 i AND 0xFFFF)"
begin

lemma lookup_ident:
  assumes "n < limit" and "g \<noteq> 0"
  shows "lookup (ident g n) s = (if gen s n = g then Some n else None)"
proof -
  have n: "n < 2 ^ 16" using assms(1) limit by simp
  have u: "unat (ident g n AND 0xFFFF) = n" using n by (simp add: ident_index unat_of_nat_u32)
  show ?thesis
  proof (cases "gen s n = g")
    case True
    then show ?thesis using lookup_some [of "ident g n" s n] ident_nonzero [OF n assms(2)] u assms(1) ident_generation [OF n] by simp
  next
    case False
    have "lookup (ident g n) s \<noteq> Some m" for m using lookup_some [of "ident g n" s m] u ident_generation [OF n, of g] False by auto
    then show ?thesis using False by (cases "lookup (ident g n) s") auto
  qed
qed

text \<open>An object answers to one identifier.\<close>

lemma lookup_unique: "lookup i s = Some n \<Longrightarrow> i = ident (gen s n) n"
  using lookup_some [of i s n] ident_surj [of i] by simp

text \<open>A table entry that is reused fewer than 65535 times does not answer to the old identifier.\<close>

lemma stale:
  assumes "n < limit" and "gen s n = g" and "g \<noteq> 0" and "gen s' n = (next_generation ^^ k) g" and "0 < k" and "k < 65535"
  shows "lookup (ident g n) s' = None"
  using lookup_ident [OF assms(1,3), of s'] next_generation_cycle [OF assms(3,5,6)] assms(4) by simp

end

end
