(* ===== verification/Notification.thy ===== *)
theory Notification
  imports Sched_Frame Index_Pool Generation_Ids
begin

text \<open>
  Notifications: \<^verbatim>\<open>kernel/ipc/notification.c\<close> and the notification object of \<^verbatim>\<open>include/kernel/ipc_types.h\<close>, on top of the scheduler.

  A notification pointer is an index of the static table.  An output parameter is a flag that tells whether its pointer is given, and the
  value that is written through it is part of the result.  \<open>None\<close> is a write past the end of the stack of free indices.  What a waiting
  thread does when it runs again is \<open>notification_resumed\<close>.
\<close>

section \<open>Data\<close>

datatype notify_state = IPC_NOTIFY_IDLE | IPC_NOTIFY_PENDING | IPC_NOTIFY_WAITING

record notification =
  n_id :: u32
  n_state :: notify_state
  signals :: u64
  waited_mask :: u64
  waiter_tid :: u32
  generation :: u16

record ntf_sys =
  nsched :: sched
  s_notifications :: "nat \<Rightarrow> notification"
  s_free_notify_stack :: "nat list"
  s_free_notify_count :: nat

abbreviation CONFIG_IPC_MAX_NOTIFICATIONS :: nat where "CONFIG_IPC_MAX_NOTIFICATIONS \<equiv> 128"
abbreviation KOBJ_ID_INVALID :: u32 where "KOBJ_ID_INVALID \<equiv> 0"

definition upd_ntf :: "nat \<Rightarrow> (notification \<Rightarrow> notification) \<Rightarrow> ntf_sys \<Rightarrow> ntf_sys" where
  "upd_ntf i f st = st\<lparr>s_notifications := (s_notifications st)(i := f (s_notifications st i))\<rparr>"

section \<open>Indices and identifiers\<close>

definition alloc_notify_index :: "ntf_sys \<Rightarrow> (errno + nat) \<times> ntf_sys" where
  "alloc_notify_index st =
     (if s_free_notify_count st = 0 then (Inl EINVAL, st)
      else (let n = s_free_notify_count st - 1 in (Inr (s_free_notify_stack st ! n), st\<lparr>s_free_notify_count := n\<rparr>)))"

definition free_notify_index :: "nat \<Rightarrow> ntf_sys \<Rightarrow> ntf_sys option" where
  "free_notify_index i st =
     (if s_free_notify_count st < length (s_free_notify_stack st)
      then Some (st\<lparr>s_free_notify_stack := (s_free_notify_stack st)[s_free_notify_count st := i], s_free_notify_count := s_free_notify_count st + 1\<rparr>)
      else None)"

definition get_notification :: "u32 \<Rightarrow> ntf_sys \<Rightarrow> nat option" where
  "get_notification i st =
     (if i = KOBJ_ID_INVALID then None
      else (let idx = i AND 0xFFFF
            in if idx \<ge> 128 then None
               else (let gen = (ucast (drop_bit 16 i AND 0xFFFF) :: u16)
                     in if generation (s_notifications st (unat idx)) \<noteq> gen then None else Some (unat idx))))"

definition ipc_notification_subsys_init :: "ntf_sys \<Rightarrow> ntf_sys" where
  "ipc_notification_subsys_init st =
     st\<lparr>s_free_notify_stack := map (\<lambda>i. CONFIG_IPC_MAX_NOTIFICATIONS - 1 - i) [0..<CONFIG_IPC_MAX_NOTIFICATIONS],
        s_free_notify_count := CONFIG_IPC_MAX_NOTIFICATIONS,
        s_notifications := (\<lambda>i. if i < CONFIG_IPC_MAX_NOTIFICATIONS
          then \<lparr>n_id = KOBJ_ID_INVALID, n_state = IPC_NOTIFY_IDLE, signals = 0, waited_mask = 0, waiter_tid = THREAD_ID_INVALID, generation = 0\<rparr>
          else s_notifications st i)\<rparr>"

section \<open>Objects\<close>

definition ipc_notification_create :: "u32 \<Rightarrow> bool \<Rightarrow> ntf_sys \<Rightarrow> status \<times> u32 option \<times> ntf_sys" where
  "ipc_notification_create owner out st =
     (if \<not> out then (Err EINVAL, None, st)
      else if owner \<ge> CONFIG_MAX_THREADS then (Err EINVAL, None, st)
      else (case alloc_notify_index st of
              (Inl e, st1) \<Rightarrow> (Err ENOMEM, None, st1)
            | (Inr idx, st1) \<Rightarrow>
                (let g = next_generation (generation (s_notifications st1 idx));
                     i = ident g idx
                 in (KERNEL_OK, Some i, upd_ntf idx (\<lambda>n. n\<lparr>generation := g, n_id := i, n_state := IPC_NOTIFY_IDLE, signals := 0,
                       waited_mask := 0, waiter_tid := THREAD_ID_INVALID\<rparr>) st1))))"

text \<open>The thread a notification wakes: it must be in range and blocked.\<close>

definition waiter_of :: "nat \<Rightarrow> ntf_sys \<Rightarrow> nat option" where
  "waiter_of i st =
     (let w = waiter_tid (s_notifications st i)
      in if w < CONFIG_MAX_THREADS \<and> state (thr (nsched st) (unat w)) = KTHREAD_STATE_BLOCKED then Some (unat w) else None)"

definition ready_waiter :: "nat \<Rightarrow> ntf_sys \<Rightarrow> ntf_sys" where
  "ready_waiter t st = st\<lparr>nsched := upd_thr t (\<lambda>k. k\<lparr>state := KTHREAD_STATE_READY\<rparr>) (nsched st)\<rparr>"

definition ipc_notification_destroy :: "nat \<Rightarrow> u32 \<Rightarrow> ntf_sys \<Rightarrow> (status \<times> ntf_sys) option" where
  "ipc_notification_destroy cpu i st =
     (case get_notification i st of
        None \<Rightarrow> Some (Err EINVAL, st)
      | Some n \<Rightarrow> do {
          let wake = (if n_state (s_notifications st n) = IPC_NOTIFY_WAITING \<and> waiter_tid (s_notifications st n) \<noteq> THREAD_ID_INVALID
            then waiter_of n st else None);
          let st1 = (case wake of None \<Rightarrow> st | Some t \<Rightarrow> ready_waiter t st);
          let st2 = upd_ntf n (\<lambda>x. x\<lparr>n_id := KOBJ_ID_INVALID, n_state := IPC_NOTIFY_IDLE, signals := 0, waited_mask := 0,
            waiter_tid := THREAD_ID_INVALID, generation := next_generation (generation x)\<rparr>) st1;
          let st3 = st2\<lparr>nsched := scheduler_enqueue cpu wake (nsched st2)\<rparr>;
          st4 \<leftarrow> free_notify_index (unat (i AND 0xFFFF)) st3;
          Some (KERNEL_OK, st4)
        })"

section \<open>Signals\<close>

definition ipc_notification_signal :: "nat \<Rightarrow> u32 \<Rightarrow> u64 \<Rightarrow> ntf_sys \<Rightarrow> status \<times> ntf_sys" where
  "ipc_notification_signal cpu i sig st =
     (if sig = 0 then (Err EINVAL, st)
      else (case get_notification i st of
              None \<Rightarrow> (Err EINVAL, st)
            | Some n \<Rightarrow>
                (let st1 = upd_ntf n (\<lambda>x. x\<lparr>signals := signals x OR sig\<rparr>) st;
                     x = s_notifications st1 n;
                     st2 = (if n_state x = IPC_NOTIFY_WAITING \<and> signals x AND waited_mask x \<noteq> 0
                            then (case waiter_of n st1 of
                                    None \<Rightarrow> st1
                                  | Some t \<Rightarrow> (let s = ready_waiter t st1 in s\<lparr>nsched := scheduler_enqueue cpu (Some t) (nsched s)\<rparr>))
                            else st1)
                 in (KERNEL_OK, upd_ntf n (\<lambda>x. x\<lparr>n_state := IPC_NOTIFY_PENDING\<rparr>) st2))))"

definition ipc_notification_wait :: "(nat \<Rightarrow> bool) \<Rightarrow> nat \<Rightarrow> u32 \<Rightarrow> u64 \<Rightarrow> bool \<Rightarrow> ntf_sys \<Rightarrow> (call \<times> u64 option \<times> ntf_sys) option" where
  "ipc_notification_wait guard_bad cpu i msk out st =
     (if msk = 0 \<or> \<not> out then Some (Returns (Err EINVAL), None, st)
      else (case get_notification i st of
              None \<Rightarrow> Some (Returns (Err EINVAL), None, st)
            | Some n \<Rightarrow>
               (case kthread_get_current cpu (nsched st) of
                  None \<Rightarrow> Some (Returns (Err ESRCH), None, st)
                | Some t \<Rightarrow>
                    (let active = signals (s_notifications st n) AND msk
                     in if active \<noteq> 0
                        then Some (Returns KERNEL_OK, Some active,
                          upd_ntf n (\<lambda>x. x\<lparr>signals := signals x AND NOT active, n_state := IPC_NOTIFY_IDLE\<rparr>) st)
                        else do {
                          let st1 = upd_ntf n (\<lambda>x. x\<lparr>n_state := IPC_NOTIFY_WAITING, waited_mask := msk, waiter_tid := tid (thr (nsched st) t)\<rparr>) st;
                          s \<leftarrow> schedule guard_bad cpu (upd_thr t (\<lambda>k. k\<lparr>state := KTHREAD_STATE_BLOCKED\<rparr>) (nsched st1));
                          Some (Blocks, None, st1\<lparr>nsched := s\<rparr>)
                        }))))"

text \<open>The rest of the call once the thread runs again: it still holds the pointer to the object.\<close>

definition notification_resumed :: "nat \<Rightarrow> u64 \<Rightarrow> ntf_sys \<Rightarrow> u64 \<times> ntf_sys" where
  "notification_resumed n msk st =
     (let active = signals (s_notifications st n) AND msk
      in (active, upd_ntf n (\<lambda>x. x\<lparr>signals := signals x AND NOT active, waited_mask := 0, waiter_tid := THREAD_ID_INVALID,
            n_state := IPC_NOTIFY_IDLE\<rparr>) st))"

definition ipc_notification_try_wait :: "u32 \<Rightarrow> u64 \<Rightarrow> bool \<Rightarrow> ntf_sys \<Rightarrow> status \<times> u64 option \<times> ntf_sys" where
  "ipc_notification_try_wait i msk out st =
     (if msk = 0 \<or> \<not> out then (Err EINVAL, None, st)
      else (case get_notification i st of
              None \<Rightarrow> (Err EINVAL, None, st)
            | Some n \<Rightarrow>
                (let active = signals (s_notifications st n) AND msk
                 in if active = 0 then (Err EAGAIN, None, st)
                    else (let remaining = signals (s_notifications st n) AND NOT active
                          in (KERNEL_OK, Some active, upd_ntf n (\<lambda>x. x\<lparr>signals := remaining,
                                n_state := (if remaining = 0 then IPC_NOTIFY_IDLE else n_state x)\<rparr>) st)))))"

definition ipc_notification_wait_timeout ::
  "(nat \<Rightarrow> bool) \<Rightarrow> nat \<Rightarrow> u32 \<Rightarrow> u64 \<Rightarrow> bool \<Rightarrow> u32 \<Rightarrow> ntf_sys \<Rightarrow> (call \<times> u64 option \<times> ntf_sys) option" where
  "ipc_notification_wait_timeout guard_bad cpu i msk out timeout_ms st =
     (if timeout_ms = 0 then (case ipc_notification_try_wait i msk out st of (r, v, st1) \<Rightarrow> Some (Returns r, v, st1))
      else ipc_notification_wait guard_bad cpu i msk out st)"

end
