(* ===== verification/Notification_Inv.thy ===== *)
theory Notification_Inv
  imports Notification
begin

text \<open>
  The pool of notifications, their identifiers, and what holds of the waiting threads at all times.
\<close>

section \<open>The pool\<close>

definition npool_ok :: "ntf_sys \<Rightarrow> bool" where
  "npool_ok st \<longleftrightarrow> stack_ok CONFIG_IPC_MAX_NOTIFICATIONS (s_free_notify_count st) (s_free_notify_stack st)"

definition nfree :: "ntf_sys \<Rightarrow> nat set" where
  "nfree st = set (take (s_free_notify_count st) (s_free_notify_stack st))"

definition notify_take :: "ntf_sys \<Rightarrow> (nat \<times> ntf_sys) option" where
  "notify_take st = (case alloc_notify_index st of (Inl e, _) \<Rightarrow> None | (Inr i, st') \<Rightarrow> Some (i, st'))"

definition notify_release :: "nat \<Rightarrow> ntf_sys \<Rightarrow> ntf_sys" where
  "notify_release i st = (case free_notify_index i st of None \<Rightarrow> st | Some st' \<Rightarrow> st')"

interpretation npool: index_pool npool_ok nfree notify_take notify_release CONFIG_IPC_MAX_NOTIFICATIONS
proof
  fix s s' :: ntf_sys and i
  assume "npool_ok s"
  then have ok: "stack_ok CONFIG_IPC_MAX_NOTIFICATIONS (s_free_notify_count s) (s_free_notify_stack s)" by (simp add: npool_ok_def)
  show "nfree s \<subseteq> {..<CONFIG_IPC_MAX_NOTIFICATIONS}" using ok by (simp add: stack_ok_def nfree_def)
  show "i \<in> nfree s \<and> npool_ok s' \<and> nfree s' = nfree s - {i}" if "notify_take s = Some (i, s')"
  proof -
    have n: "0 < s_free_notify_count s" and i: "i = s_free_notify_stack s ! (s_free_notify_count s - 1)"
        and s': "s' = s\<lparr>s_free_notify_count := s_free_notify_count s - 1\<rparr>"
      using that by (auto simp: notify_take_def alloc_notify_index_def Let_def split: if_splits)
    show ?thesis using stack_pop [OF ok n] by (simp add: npool_ok_def nfree_def s' i)
  qed
  show "notify_take s = None \<longleftrightarrow> nfree s = {}"
    using stack_empty [OF ok] by (simp add: notify_take_def alloc_notify_index_def Let_def nfree_def)
  show "npool_ok (notify_release i s) \<and> nfree (notify_release i s) = insert i (nfree s)"
    if i: "i < CONFIG_IPC_MAX_NOTIFICATIONS" "i \<notin> nfree s"
  proof -
    have "s_free_notify_count s < length (s_free_notify_stack s)" using stack_push(1) [OF ok i(1)] i(2) ok by (simp add: nfree_def stack_ok_def)
    then show ?thesis using stack_push(2,3) [OF ok i(1)] i(2) by (simp add: notify_release_def free_notify_index_def npool_ok_def nfree_def)
  qed
qed

lemma free_notify_index_eq:
  assumes "npool_ok st" and "i < CONFIG_IPC_MAX_NOTIFICATIONS" and "i \<notin> nfree st"
  shows "free_notify_index i st = Some (notify_release i st)"
proof -
  have "s_free_notify_count st < length (s_free_notify_stack st)"
    using stack_push(1) [OF assms(1) [unfolded npool_ok_def] assms(2)] assms(1,3) by (simp add: nfree_def npool_ok_def stack_ok_def)
  then show ?thesis by (simp add: free_notify_index_def notify_release_def)
qed

section \<open>Identifiers\<close>

interpretation ntf_ids: generation_table get_notification "\<lambda>st n. generation (s_notifications st n)" CONFIG_IPC_MAX_NOTIFICATIONS
proof
  show "CONFIG_IPC_MAX_NOTIFICATIONS \<le> 2 ^ 16" by simp
  show "get_notification i st = Some n \<longleftrightarrow> i \<noteq> 0 \<and> unat (i AND 0xFFFF) = n \<and> n < CONFIG_IPC_MAX_NOTIFICATIONS \<and>
      generation (s_notifications st n) = ucast (drop_bit 16 i AND 0xFFFF)" for i st n
    by (auto simp: get_notification_def Let_def word_le_nat_alt)
qed

section \<open>Waiting threads\<close>

text \<open>
  \<open>waits st n t\<close>: thread \<open>t\<close> waits on notification \<open>n\<close>.  A waiting thread is blocked, is in no wait queue, and waits on one
  notification only; free objects are idle.
\<close>

definition waits :: "ntf_sys \<Rightarrow> nat \<Rightarrow> nat \<Rightarrow> bool" where
  "waits st n t \<longleftrightarrow> n < CONFIG_IPC_MAX_NOTIFICATIONS \<and> n_state (s_notifications st n) = IPC_NOTIFY_WAITING \<and>
     waiter_tid (s_notifications st n) = of_nat t \<and> t < MAX_THREADS"

definition tids_ok :: "sched \<Rightarrow> bool" where
  "tids_ok s \<longleftrightarrow> (\<forall>t<MAX_THREADS. tid (thr s t) = of_nat t)"

definition waiters_ok :: "ntf_sys \<Rightarrow> sched_node set \<Rightarrow> (sched_node \<Rightarrow> nat list) \<Rightarrow> bool" where
  "waiters_ok st W wq \<longleftrightarrow>
     (\<forall>n<CONFIG_IPC_MAX_NOTIFICATIONS. n_state (s_notifications st n) = IPC_NOTIFY_WAITING \<longrightarrow> n \<notin> nfree st \<and> (\<exists>t. waits st n t)) \<and>
     (\<forall>n t. waits st n t \<longrightarrow> state (thr (nsched st) t) = KTHREAD_STATE_BLOCKED \<and> (\<forall>a\<in>W. t \<notin> set (wq a))) \<and>
     (\<forall>m n t. waits st m t \<longrightarrow> waits st n t \<longrightarrow> m = n)"

definition ntf_inv :: "ntf_sys \<Rightarrow> sched_node set \<Rightarrow> (nat \<Rightarrow> u8 \<Rightarrow> nat list) \<Rightarrow> (sched_node \<Rightarrow> nat list) \<Rightarrow> bool" where
  "ntf_inv st W rq wq \<longleftrightarrow> sched_inv (nsched st) W rq wq \<and> tids_ok (nsched st) \<and> npool_ok st \<and> waiters_ok st W wq"

lemma ntf_invD:
  assumes "ntf_inv st W rq wq"
  shows "sched_inv (nsched st) W rq wq" "tids_ok (nsched st)" "npool_ok st" "waiters_ok st W wq"
  using assms by (simp_all add: ntf_inv_def)

lemma waits_tid:
  assumes "waits st n t" and "waits st n u"
  shows "t = u"
  using assms unat_tid by (auto simp: waits_def) metis

lemma waiters_okD:
  assumes "waiters_ok st W wq" and "waits st n t"
  shows "state (thr (nsched st) t) = KTHREAD_STATE_BLOCKED" and "a \<in> W \<Longrightarrow> t \<notin> set (wq a)" and "waits st m t \<Longrightarrow> m = n"
  using assms unfolding waiters_ok_def by blast+

lemma tids_calm: "tids_ok s \<Longrightarrow> calm s s' \<Longrightarrow> tids_ok s'"
  by (simp add: tids_ok_def calm_def)

text \<open>Steps of the rest of the system that leave the notifications alone.\<close>

lemma ntf_inv_frame:
  assumes inv: "ntf_inv st W rq wq" and s: "sched_inv s' W' rq' wq'" and c: "tids_ok s'"
    and w: "\<And>t. state (thr (nsched st) t) = KTHREAD_STATE_BLOCKED \<Longrightarrow> (\<forall>a\<in>W. t \<notin> set (wq a)) \<Longrightarrow>
      state (thr s' t) = KTHREAD_STATE_BLOCKED \<and> (\<forall>a\<in>W'. t \<notin> set (wq' a))"
  shows "ntf_inv (st\<lparr>nsched := s'\<rparr>) W' rq' wq'"
proof -
  note I = ntf_invD [OF inv]
  have e: "waits (st\<lparr>nsched := s'\<rparr>) n t \<longleftrightarrow> waits st n t" "nfree (st\<lparr>nsched := s'\<rparr>) = nfree st" for n t
    by (simp_all add: waits_def nfree_def)
  have "waiters_ok (st\<lparr>nsched := s'\<rparr>) W' wq'"
    using I(4) w unfolding waiters_ok_def e by simp
  then show ?thesis using I(3) s c by (simp add: ntf_inv_def npool_ok_def)
qed

text \<open>Waking the thread that waits on \<open>n\<close>; the object then leaves the waiting state.\<close>

lemma ready_enqueue:
  assumes inv: "sched_inv s W rq wq" and c: "c < CONFIG_MAX_CPUS" and t: "t < MAX_THREADS" "state (thr s t) = KTHREAD_STATE_BLOCKED"
    and n: "\<And>a. a \<in> W \<Longrightarrow> t \<notin> set (wq a)"
  shows "sched_inv (scheduler_enqueue c (Some t) (upd_thr t (\<lambda>k. k\<lparr>state := KTHREAD_STATE_READY\<rparr>) s)) W
    (rq_upd c (prio (thr s t)) (rq c (prio (thr s t)) @ [t]) rq) wq"
proof -
  let ?s = "upd_thr t (\<lambda>k. k\<lparr>state := KTHREAD_STATE_READY\<rparr>) s"
  have l: "loose s rq t" by (rule loose_state [OF inv t(1)]) (simp_all add: t(2))
  have "sched_inv ?s W rq wq" by (rule loose_update [OF inv l n])
  then show ?thesis using enqueue_sched_inv [of None ?s W rq wq c t] c t l idle_loose [OF l] by (simp add: upd_thr_def loose_def)
qed

lemma waiter_of_eq:
  assumes inv: "ntf_inv st W rq wq" and w: "n_state (s_notifications st n) = IPC_NOTIFY_WAITING" and n: "n < CONFIG_IPC_MAX_NOTIFICATIONS"
  shows "\<exists>t. waits st n t \<and> waiter_of n st = Some t \<and> waiter_tid (s_notifications st n) \<noteq> THREAD_ID_INVALID"
proof -
  obtain t where t: "waits st n t" using ntf_invD(4) [OF inv] w n unfolding waiters_ok_def by blast
  have b: "state (thr (nsched st) t) = KTHREAD_STATE_BLOCKED" by (rule waiters_okD(1) [OF ntf_invD(4) [OF inv] t])
  have wt: "waiter_tid (s_notifications st n) = of_nat t" and tm: "t < MAX_THREADS" using t by (simp_all add: waits_def)
  have u: "unat (of_nat t :: u32) = t" by (rule unat_tid [OF tm])
  have "(of_nat t :: u32) < CONFIG_MAX_THREADS" using u tm by (simp add: word_less_nat_alt)
  moreover from this have "(of_nat t :: u32) \<noteq> THREAD_ID_INVALID" by auto
  ultimately show ?thesis using t b wt u by (simp add: waiter_of_def Let_def)
qed

end
