(* ===== verification/Notification_Ops.thy ===== *)
theory Notification_Ops
  imports Notification_Inv
begin

text \<open>Every operation on notifications keeps \<open>ntf_inv\<close>, with its effect.\<close>

section \<open>Objects that do not wait\<close>

lemma upd_ntf_fields [simp]:
  "nsched (upd_ntf n f st) = nsched st" "s_free_notify_stack (upd_ntf n f st) = s_free_notify_stack st"
  "s_free_notify_count (upd_ntf n f st) = s_free_notify_count st" "nfree (upd_ntf n f st) = nfree st" "npool_ok (upd_ntf n f st) = npool_ok st"
  "s_notifications (upd_ntf n f st) m = (if m = n then f (s_notifications st n) else s_notifications st m)"
  by (simp_all add: upd_ntf_def nfree_def npool_ok_def)

lemma waits_upd:
  assumes "n_state (f (s_notifications st n)) \<noteq> IPC_NOTIFY_WAITING"
  shows "waits (upd_ntf n f st) m t \<longleftrightarrow> m \<noteq> n \<and> waits st m t"
  using assms by (simp add: waits_def)

text \<open>A change after which fewer objects wait.\<close>

lemma waiters_fewer:
  assumes ok: "waiters_ok st W wq" and s: "nsched st' = nsched st"
    and n: "\<And>m. n_state (s_notifications st' m) = IPC_NOTIFY_WAITING \<Longrightarrow> n_state (s_notifications st m) = IPC_NOTIFY_WAITING \<and>
      waiter_tid (s_notifications st' m) = waiter_tid (s_notifications st m) \<and> (m \<in> nfree st' \<longrightarrow> m \<in> nfree st)"
  shows "waiters_ok st' W wq"
proof -
  have w: "waits st m t" if "waits st' m t" for m t using that n [of m] by (auto simp: waits_def)
  have e: "m \<notin> nfree st' \<and> (\<exists>t. waits st' m t)"
    if m: "m < CONFIG_IPC_MAX_NOTIFICATIONS" "n_state (s_notifications st' m) = IPC_NOTIFY_WAITING" for m
  proof -
    obtain t where "waits st m t" "m \<notin> nfree st" using ok m(1) n [OF m(2)] unfolding waiters_ok_def by blast
    then show ?thesis using n [OF m(2)] m(2) by (auto simp: waits_def)
  qed
  have u: "m = n" if "waits st' m t" "waits st' n t" for m n t using ok w [OF that(1)] w [OF that(2)] unfolding waiters_ok_def by blast
  have "state (thr (nsched st') t) = KTHREAD_STATE_BLOCKED \<and> (\<forall>a\<in>W. t \<notin> set (wq a))" if "waits st' m t" for m t
    using ok w [OF that] unfolding waiters_ok_def s by blast
  then show ?thesis unfolding waiters_ok_def using e u by simp
qed

lemma ntf_inv_upd:
  assumes "ntf_inv st W rq wq" and "n_state (f (s_notifications st n)) \<noteq> IPC_NOTIFY_WAITING"
  shows "ntf_inv (upd_ntf n f st) W rq wq"
proof -
  have "waiters_ok (upd_ntf n f st) W wq" by (rule waiters_fewer [OF ntf_invD(4) [OF assms(1)]]) (use assms(2) in \<open>auto split: if_splits\<close>)
  then show ?thesis using assms(1) by (simp add: ntf_inv_def)
qed

lemma get_notification_bound: "get_notification i st = Some n \<Longrightarrow> n < CONFIG_IPC_MAX_NOTIFICATIONS \<and> n = unat (i AND 0xFFFF)"
  using ntf_ids.lookup_some [of i st n] by auto

section \<open>Waking\<close>

text \<open>The thread that waits on \<open>n\<close> becomes ready, and \<open>n\<close> leaves the waiting state.\<close>

definition woken_by :: "nat \<Rightarrow> nat \<Rightarrow> (notification \<Rightarrow> notification) \<Rightarrow> nat \<Rightarrow> ntf_sys \<Rightarrow> ntf_sys" where
  "woken_by c n f t st = upd_ntf n f (st\<lparr>nsched := scheduler_enqueue c (Some t) (upd_thr t (\<lambda>k. k\<lparr>state := KTHREAD_STATE_READY\<rparr>) (nsched st))\<rparr>)"

lemma woken_by_inv:
  assumes inv: "ntf_inv st W rq wq" and c: "c < CONFIG_MAX_CPUS" and w: "waits st n t"
    and f: "n_state (f (s_notifications st n)) \<noteq> IPC_NOTIFY_WAITING"
  shows "ntf_inv (woken_by c n f t st) W (rq_upd c (prio (thr (nsched st) t)) (rq c (prio (thr (nsched st) t)) @ [t]) rq) wq"
proof -
  note I = ntf_invD [OF inv] note O = waiters_okD [OF I(4) w]
  let ?s = "scheduler_enqueue c (Some t) (upd_thr t (\<lambda>k. k\<lparr>state := KTHREAD_STATE_READY\<rparr>) (nsched st))"
  let ?st = "upd_ntf n f (st\<lparr>nsched := ?s\<rparr>)"
  have tm: "t < MAX_THREADS" using w by (simp add: waits_def)
  have s: "sched_inv ?s W (rq_upd c (prio (thr (nsched st) t)) (rq c (prio (thr (nsched st) t)) @ [t]) rq) wq"
    by (rule ready_enqueue [OF I(1) c tm O(1,2)])
  have tt: "thr ?s u = (if u = t then (thr (nsched st) t)\<lparr>state := KTHREAD_STATE_READY\<rparr> else thr (nsched st) u)" for u
    by (simp add: scheduler_enqueue_def upd_thr_def)
  have f': "n_state (f (s_notifications (st\<lparr>nsched := ?s\<rparr>) n)) \<noteq> IPC_NOTIFY_WAITING" using f by simp
  have wf: "waits ?st m u \<longleftrightarrow> m \<noteq> n \<and> waits st m u" for m u
    unfolding waits_upd [of f "st\<lparr>nsched := ?s\<rparr>" n, OF f'] by (simp add: waits_def)
  have ne: "u \<noteq> t" if "waits ?st m u" for m u using that O(3) [of m] unfolding wf by blast
  have "waiters_ok ?st W wq"
    unfolding waiters_ok_def
  proof (intro conjI allI impI)
    fix m assume m: "m < CONFIG_IPC_MAX_NOTIFICATIONS" "n_state (s_notifications ?st m) = IPC_NOTIFY_WAITING"
    then have "m \<noteq> n" "n_state (s_notifications st m) = IPC_NOTIFY_WAITING" using f by (auto split: if_splits)
    then show "m \<notin> nfree ?st" "\<exists>u. waits ?st m u" using I(4) m(1) unfolding waiters_ok_def wf by (auto simp: nfree_def)
  next
    fix m u assume u: "waits ?st m u"
    then show "state (thr (nsched ?st) u) = KTHREAD_STATE_BLOCKED" "\<forall>a\<in>W. u \<notin> set (wq a)"
      using ne [OF u] waiters_okD [OF I(4), of m u] tt unfolding wf by auto
  next
    fix k m u assume "waits ?st k u" "waits ?st m u"
    then show "k = m" using waiters_okD(3) [OF I(4)] unfolding wf by blast
  qed
  moreover have "tids_ok ?s" using I(2) by (simp add: tids_ok_def tt)
  ultimately show ?thesis using s I(3) by (simp add: ntf_inv_def woken_by_def npool_ok_def)
qed

section \<open>Signals\<close>

lemma signal_wakes:
  assumes inv: "ntf_inv st W rq wq" and n: "get_notification i st = Some n" and s: "sig \<noteq> 0" and w: "waits st n t"
    and m: "(signals (s_notifications st n) OR sig) AND waited_mask (s_notifications st n) \<noteq> 0"
  shows "ipc_notification_signal c i sig st = (KERNEL_OK,
    woken_by c n (\<lambda>x. x\<lparr>signals := signals x OR sig, n_state := IPC_NOTIFY_PENDING\<rparr>) t st)"
proof -
  let ?st = "upd_ntf n (\<lambda>x. x\<lparr>signals := signals x OR sig\<rparr>) st"
  have nb: "n < CONFIG_IPC_MAX_NOTIFICATIONS" using get_notification_bound [OF n] by simp
  have ws: "n_state (s_notifications st n) = IPC_NOTIFY_WAITING" using w by (simp add: waits_def)
  obtain u where u: "waits st n u" "waiter_of n st = Some u" using waiter_of_eq [OF inv ws nb] by blast
  have "waiter_of n ?st = Some t" using u waits_tid [OF u(1) w] by (simp add: waiter_of_def)
  then show ?thesis
    using n s ws m by (simp add: ipc_notification_signal_def Let_def woken_by_def ready_waiter_def upd_ntf_def)
qed

lemma signal_pends:
  assumes n: "get_notification i st = Some n" and s: "sig \<noteq> 0"
    and m: "n_state (s_notifications st n) \<noteq> IPC_NOTIFY_WAITING \<or> (signals (s_notifications st n) OR sig) AND waited_mask (s_notifications st n) = 0"
  shows "ipc_notification_signal c i sig st = (KERNEL_OK, upd_ntf n (\<lambda>x. x\<lparr>signals := signals x OR sig, n_state := IPC_NOTIFY_PENDING\<rparr>) st)"
  using assms by (auto simp: ipc_notification_signal_def Let_def upd_ntf_def)

lemma signal_inv:
  assumes inv: "ntf_inv st W rq wq" and c: "c < CONFIG_MAX_CPUS"
  shows "\<exists>rq'. ntf_inv (snd (ipc_notification_signal c i sig st)) W rq' wq"
proof (cases "sig = 0 \<or> get_notification i st = None")
  case True
  then show ?thesis using inv by (auto simp: ipc_notification_signal_def)
next
  case False
  then obtain n where n: "get_notification i st = Some n" "sig \<noteq> 0" by auto
  have nb: "n < CONFIG_IPC_MAX_NOTIFICATIONS" using get_notification_bound [OF n(1)] by simp
  show ?thesis
  proof (cases "n_state (s_notifications st n) = IPC_NOTIFY_WAITING \<and> (signals (s_notifications st n) OR sig) AND waited_mask (s_notifications st n) \<noteq> 0")
    case True
    then obtain t where t: "waits st n t" using waiter_of_eq [OF inv _ nb] by blast
    show ?thesis
      using signal_wakes [OF inv n t, of c] True
        woken_by_inv [OF inv c t, of "\<lambda>x. x\<lparr>signals := signals x OR sig, n_state := IPC_NOTIFY_PENDING\<rparr>"] by auto
  next
    case False
    then show ?thesis
      using signal_pends [OF n, of c] ntf_inv_upd [OF inv, of "\<lambda>x. x\<lparr>signals := signals x OR sig, n_state := IPC_NOTIFY_PENDING\<rparr>" n] by auto
  qed
qed

section \<open>Waiting\<close>

lemma wait_returns:
  assumes "get_notification i st = Some n" and "c < CONFIG_MAX_CPUS" and "current_thread (cpu_q (nsched st) c) = Some t"
    and "signals (s_notifications st n) AND msk \<noteq> 0"
  shows "ipc_notification_wait g c i msk True st = Some (Returns KERNEL_OK, Some (signals (s_notifications st n) AND msk),
    upd_ntf n (\<lambda>x. x\<lparr>signals := signals x AND NOT (signals (s_notifications st n) AND msk), n_state := IPC_NOTIFY_IDLE\<rparr>) st)"
  using assms by (auto simp: ipc_notification_wait_def Let_def current_get)

lemma wait_blocks:
  assumes inv: "ntf_inv st W rq wq" and n: "get_notification i st = Some n" "n \<notin> nfree st" and run: "ready_to_run g c (nsched st)"
    and t: "current_thread (cpu_q (nsched st) c) = Some t" "idle_thread (cpu_q (nsched st) c) \<noteq> Some t"
    and m: "msk \<noteq> 0" "signals (s_notifications st n) AND msk = 0"
  shows "\<exists>s' rq'. ipc_notification_wait g c i msk True st = Some (Blocks, None,
      upd_ntf n (\<lambda>x. x\<lparr>n_state := IPC_NOTIFY_WAITING, waited_mask := msk, waiter_tid := of_nat t\<rparr>) (st\<lparr>nsched := s'\<rparr>)) \<and>
    ntf_inv (upd_ntf n (\<lambda>x. x\<lparr>n_state := IPC_NOTIFY_WAITING, waited_mask := msk, waiter_tid := of_nat t\<rparr>) (st\<lparr>nsched := s'\<rparr>)) W rq' wq \<and>
    waits (upd_ntf n (\<lambda>x. x\<lparr>n_state := IPC_NOTIFY_WAITING, waited_mask := msk, waiter_tid := of_nat t\<rparr>) (st\<lparr>nsched := s'\<rparr>)) n t \<and>
    calm (nsched st) s'"
proof -
  note I = ntf_invD [OF inv]
  let ?f = "\<lambda>x. x\<lparr>n_state := IPC_NOTIFY_WAITING, waited_mask := msk, waiter_tid := of_nat t\<rparr>"
  let ?s1 = "upd_thr t (\<lambda>k. k\<lparr>state := KTHREAD_STATE_BLOCKED\<rparr>) (nsched st)"
  have c: "c < CONFIG_MAX_CPUS" using run by (simp add: ready_to_run_def)
  note cr = current_okD [OF sched_preD(3) [OF I(1)] c t(1)]
  have run': "state (thr (nsched st) t) = KTHREAD_STATE_RUNNING" using cr(2) by simp
  have nb: "n < CONFIG_IPC_MAX_NOTIFICATIONS" using get_notification_bound [OF n(1)] by simp
  have pre: "sched_pre (Some c) ?s1 W rq wq" by (rule stop_current [OF I(1) c t]) simp
  have r: "ready_to_run g c ?s1" using run by (simp add: ready_to_run_def upd_thr_def)
  obtain s' rq' where s': "schedule g c ?s1 = Some s'" "sched_inv s' W rq' wq" using schedule_inv [OF pre r] by blast
  have k: "calm ?s1 s'" by (rule schedule_calm [OF pre r s'(1)])
  have k0: "calm (nsched st) ?s1" by (rule upd_thr_calm) (simp_all add: run')
  have b: "state (thr s' t) = KTHREAD_STATE_BLOCKED" using calmD(2) [OF k, of t] by (simp add: upd_thr_def)
  have tw: "t \<notin> set (wq a)" if "a \<in> W" for a using wait_not [OF sched_preD(5) [OF I(1)] _ _ that] run' by simp
  let ?st = "upd_ntf n ?f (st\<lparr>nsched := s'\<rparr>)"
  have w: "waits ?st m u \<longleftrightarrow> (if m = n then of_nat u = (of_nat t :: u32) \<and> u < MAX_THREADS else waits st m u)" for m u
    using nb by (auto simp: waits_def)
  have wn: "waits ?st n u \<longleftrightarrow> u = t" for u using w [of n u] cr(1) unat_tid(1) by auto metis
  have old: "u \<noteq> t \<and> state (thr s' u) = KTHREAD_STATE_BLOCKED \<and> (\<forall>a\<in>W. u \<notin> set (wq a))" if "waits st m u" for m u
    using waiters_okD [OF I(4) that] run' calmD(2) [OF calm_trans [OF k0 k], of u] by auto
  have "waiters_ok ?st W wq"
    unfolding waiters_ok_def
  proof (intro conjI allI impI)
    fix m assume m': "m < CONFIG_IPC_MAX_NOTIFICATIONS" "n_state (s_notifications ?st m) = IPC_NOTIFY_WAITING"
    show "m \<notin> nfree ?st" using I(4) m' n(2) unfolding waiters_ok_def by (cases "m = n") (auto simp: nfree_def)
    show "\<exists>u. waits ?st m u" using I(4) m' wn w [of m] unfolding waiters_ok_def by (cases "m = n") auto
  next
    fix m u assume u: "waits ?st m u"
    have "u = t \<or> waits st m u" using u wn w [of m u] by (cases "m = n") auto
    then show "state (thr (nsched ?st) u) = KTHREAD_STATE_BLOCKED" "\<forall>a\<in>W. u \<notin> set (wq a)" using b tw old by auto
  next
    fix k m u assume "waits ?st k u" "waits ?st m u"
    then have "k = n \<and> u = t \<or> k \<noteq> n \<and> waits st k u" "m = n \<and> u = t \<or> m \<noteq> n \<and> waits st m u"
      using wn w [of k u] w [of m u] by (cases "k = n"; cases "m = n"; simp)+
    then show "k = m" using old waiters_okD(3) [OF I(4)] by blast
  qed
  moreover have "tids_ok s'" by (rule tids_calm [OF I(2) calm_trans [OF k0 k]])
  ultimately have inv': "ntf_inv ?st W rq' wq" using s'(2) I(3) by (simp add: ntf_inv_def npool_ok_def)
  have tid: "tid (thr (nsched st) t) = of_nat t" using I(2) cr(1) by (simp add: tids_ok_def)
  have "ipc_notification_wait g c i msk True st = Some (Blocks, None, ?st)"
    using n(1) t(1) m s'(1) tid by (simp add: ipc_notification_wait_def current_get [OF c] upd_ntf_def)
  then show ?thesis using inv' wn calm_trans [OF k0 k] by blast
qed

lemma try_wait_inv:
  assumes inv: "ntf_inv st W rq wq"
  shows "ntf_inv (snd (snd (ipc_notification_try_wait i msk out st))) W rq wq"
proof (cases "get_notification i st")
  case None
  then show ?thesis using inv by (simp add: ipc_notification_try_wait_def)
next
  case (Some n)
  let ?a = "signals (s_notifications st n) AND msk" let ?r = "signals (s_notifications st n) AND NOT ?a"
  let ?f = "\<lambda>x. x\<lparr>signals := ?r, n_state := (if ?r = 0 then IPC_NOTIFY_IDLE else n_state x)\<rparr>"
  have e: "snd (snd (ipc_notification_try_wait i msk out st)) = (if msk = 0 \<or> \<not> out \<or> ?a = 0 then st else upd_ntf n ?f st)"
    using Some by (simp add: ipc_notification_try_wait_def Let_def)
  have "waiters_ok (upd_ntf n ?f st) W wq" by (rule waiters_fewer [OF ntf_invD(4) [OF inv]]) (auto split: if_splits)
  then show ?thesis using inv unfolding e by (simp add: ntf_inv_def)
qed

lemma resumed_inv:
  assumes "ntf_inv st W rq wq"
  shows "ntf_inv (snd (notification_resumed n msk st)) W rq wq"
  using ntf_inv_upd [OF assms] by (simp add: notification_resumed_def Let_def)

section \<open>Creation and destruction\<close>

lemma notification_new:
  "x\<lparr>generation := g, n_id := i, n_state := q, signals := s, waited_mask := m, waiter_tid := w\<rparr> =
     \<lparr>n_id = i, n_state = q, signals = s, waited_mask = m, waiter_tid = w, generation = g\<rparr>"
  "x\<lparr>n_id := i, n_state := q, signals := s, waited_mask := m, waiter_tid := w, generation := g\<rparr> =
     \<lparr>n_id = i, n_state = q, signals = s, waited_mask = m, waiter_tid = w, generation = g\<rparr>"
  by (cases x; simp)+

lemma ntf_sys_order: "st\<lparr>s_notifications := a, nsched := b\<rparr> = st\<lparr>nsched := b, s_notifications := a\<rparr>"
  "upd_ntf n f st\<lparr>nsched := nsched st\<rparr> = upd_ntf n f st"
  by (cases st; simp add: upd_ntf_def)+

lemma create_eq:
  assumes ok: "npool_ok st" and o: "owner < CONFIG_MAX_THREADS" and f: "nfree st \<noteq> {}"
  shows "\<exists>n st'. ipc_notification_create owner True st = (KERNEL_OK, Some (ident (next_generation (generation (s_notifications st n))) n), st') \<and>
    n \<in> nfree st \<and> npool_ok st' \<and> nfree st' = nfree st - {n} \<and> nsched st' = nsched st \<and>
    s_notifications st' = (s_notifications st)(n := \<lparr>n_id = ident (next_generation (generation (s_notifications st n))) n, n_state = IPC_NOTIFY_IDLE,
      signals = 0, waited_mask = 0, waiter_tid = THREAD_ID_INVALID, generation = next_generation (generation (s_notifications st n))\<rparr>)"
proof -
  obtain n st1 where t: "notify_take st = Some (n, st1)" using npool.alloc_fails [OF ok] f by (cases "notify_take st") auto
  note a = npool.alloc_ok [OF ok t]
  have al: "alloc_notify_index st = (Inr n, st1)" "nsched st1 = nsched st" "s_notifications st1 = s_notifications st"
    using t by (auto simp: notify_take_def alloc_notify_index_def Let_def split: if_splits)
  show ?thesis
    using a al o by (intro exI [of _ n]) (simp add: ipc_notification_create_def Let_def not_le upd_ntf_def npool_ok_def nfree_def notification_new)
qed

lemma create_inv:
  assumes inv: "ntf_inv st W rq wq"
  shows "ntf_inv (snd (snd (ipc_notification_create owner out st))) W rq wq"
proof (cases "out \<and> owner < CONFIG_MAX_THREADS \<and> nfree st \<noteq> {}")
  case True
  note I = ntf_invD [OF inv]
  obtain n st' where c: "snd (snd (ipc_notification_create owner out st)) = st'" "n \<in> nfree st" "npool_ok st'" "nfree st' = nfree st - {n}"
      "nsched st' = nsched st" "s_notifications st' = (s_notifications st)(n := s_notifications st' n)" "n_state (s_notifications st' n) = IPC_NOTIFY_IDLE"
    using create_eq [OF I(3), of owner] True by fastforce
  have n: "m \<noteq> n \<and> s_notifications st' m = s_notifications st m" if "n_state (s_notifications st' m) = IPC_NOTIFY_WAITING" for m
    using c(6) c(7) that by (cases "m = n") (auto dest: fun_cong [of _ _ m])
  have "waiters_ok st' W wq" by (rule waiters_fewer [OF I(4) c(5)]) (use n in \<open>simp add: c(4)\<close>)
  then show ?thesis using I c(1,3,5) by (simp add: ntf_inv_def)
next
  case False
  have "snd (alloc_notify_index st) = st \<and> (\<exists>e. fst (alloc_notify_index st) = Inl e)" if "nfree st = {}"
    using npool.alloc_fails [OF ntf_invD(3) [OF inv]] that by (auto simp: notify_take_def alloc_notify_index_def Let_def split: if_splits)
  then show ?thesis using False inv by (auto simp: ipc_notification_create_def not_le split: sum.splits prod.splits)
qed

lemma release_inv:
  assumes inv: "ntf_inv st W rq wq" and n: "n < CONFIG_IPC_MAX_NOTIFICATIONS" "n \<notin> nfree st" "n_state (s_notifications st n) \<noteq> IPC_NOTIFY_WAITING"
  shows "\<exists>st'. free_notify_index n st = Some st' \<and> ntf_inv st' W rq wq \<and> nfree st' = insert n (nfree st) \<and> s_notifications st' = s_notifications st \<and>
    nsched st' = nsched st"
proof -
  note I = ntf_invD [OF inv] note r = npool.release_ok [OF I(3) n(1,2)]
  have f: "free_notify_index n st = Some (notify_release n st)" by (rule free_notify_index_eq [OF I(3) n(1,2)])
  have s: "s_notifications (notify_release n st) = s_notifications st" "nsched (notify_release n st) = nsched st"
    by (simp_all add: notify_release_def free_notify_index_def)
  have "waiters_ok (notify_release n st) W wq" by (rule waiters_fewer [OF I(4) s(2)]) (use n(3) r s(1) in auto)
  then show ?thesis using f I r s by (simp add: ntf_inv_def)
qed

lemma destroy_eq:
  assumes inv: "ntf_inv st W rq wq" and c: "c < CONFIG_MAX_CPUS" and g: "get_notification i st = Some n" "n \<notin> nfree st"
  shows "\<exists>st' rq'. ipc_notification_destroy c i st = Some (KERNEL_OK, st') \<and> ntf_inv st' W rq' wq \<and> nfree st' = insert n (nfree st) \<and>
    s_notifications st' = (s_notifications st)(n := \<lparr>n_id = KOBJ_ID_INVALID, n_state = IPC_NOTIFY_IDLE, signals = 0, waited_mask = 0,
      waiter_tid = THREAD_ID_INVALID, generation = next_generation (generation (s_notifications st n))\<rparr>) \<and>
    (\<forall>t. waits st n t \<longrightarrow> state (thr (nsched st') t) = KTHREAD_STATE_READY)"
proof -
  let ?f = "\<lambda>x. x\<lparr>n_id := KOBJ_ID_INVALID, n_state := IPC_NOTIFY_IDLE, signals := 0, waited_mask := 0,
      waiter_tid := THREAD_ID_INVALID, generation := next_generation (generation x)\<rparr>"
  have n: "n < CONFIG_IPC_MAX_NOTIFICATIONS" "unat (i AND 0xFFFF) = n" using get_notification_bound [OF g(1)] by simp_all
  have fe: "?f x = \<lparr>n_id = KOBJ_ID_INVALID, n_state = IPC_NOTIFY_IDLE, signals = 0, waited_mask = 0,
      waiter_tid = THREAD_ID_INVALID, generation = next_generation (generation x)\<rparr>" for x by (rule notification_new(2))
  have "\<exists>st3 rq'. ipc_notification_destroy c i st = map_option (Pair KERNEL_OK) (free_notify_index n st3) \<and> ntf_inv st3 W rq' wq \<and>
      nfree st3 = nfree st \<and> s_notifications st3 = (s_notifications st)(n := ?f (s_notifications st n)) \<and>
      (\<forall>t. waits st n t \<longrightarrow> state (thr (nsched st3) t) = KTHREAD_STATE_READY)"
  proof (cases "n_state (s_notifications st n) = IPC_NOTIFY_WAITING")
    case True
    obtain t where t: "waits st n t" "waiter_of n st = Some t" "waiter_tid (s_notifications st n) \<noteq> THREAD_ID_INVALID"
      using waiter_of_eq [OF inv True n(1)] by blast
    have "ipc_notification_destroy c i st = map_option (Pair KERNEL_OK) (free_notify_index n (woken_by c n ?f t st))"
      using g(1) t True n(2) by (simp add: ipc_notification_destroy_def Let_def woken_by_def ready_waiter_def upd_ntf_def map_conv_bind_option comp_def ntf_sys_order(1))
    moreover have "state (thr (nsched (woken_by c n ?f t st)) u) = KTHREAD_STATE_READY" if "waits st n u" for u
      using waits_tid [OF that t(1)] by (simp add: woken_by_def scheduler_enqueue_def upd_thr_def)
    moreover have "nfree (woken_by c n ?f t st) = nfree st" "s_notifications (woken_by c n ?f t st) = (s_notifications st)(n := ?f (s_notifications st n))"
      by (simp_all add: woken_by_def) (simp_all add: nfree_def upd_ntf_def)
    ultimately show ?thesis using woken_by_inv [OF inv c t(1), of ?f] by auto
  next
    case False
    have "ipc_notification_destroy c i st = map_option (Pair KERNEL_OK) (free_notify_index n (upd_ntf n ?f st))"
      using g(1) False n(2) by (simp add: ipc_notification_destroy_def Let_def scheduler_enqueue_def map_conv_bind_option comp_def ntf_sys_order(2))
    moreover have "\<not> waits st n t" for t using False by (simp add: waits_def)
    moreover have "s_notifications (upd_ntf n ?f st) = (s_notifications st)(n := ?f (s_notifications st n))" by (simp add: upd_ntf_def)
    ultimately show ?thesis using ntf_inv_upd [OF inv, of ?f n] by auto
  qed
  then obtain st3 rq' where s3: "ipc_notification_destroy c i st = map_option (Pair KERNEL_OK) (free_notify_index n st3)" "ntf_inv st3 W rq' wq"
      "nfree st3 = nfree st" "s_notifications st3 = (s_notifications st)(n := ?f (s_notifications st n))"
      "\<forall>t. waits st n t \<longrightarrow> state (thr (nsched st3) t) = KTHREAD_STATE_READY" by blast
  obtain st' where "free_notify_index n st3 = Some st'" "ntf_inv st' W rq' wq" "nfree st' = insert n (nfree st)"
      "s_notifications st' = s_notifications st3" "nsched st' = nsched st3"
    using release_inv [OF s3(2) n(1)] g(2) s3(3,4) by auto
  then show ?thesis using s3 unfolding fe by auto
qed

section \<open>Frames\<close>

lemma ready_waiter_steady: "steady (nsched st) (scheduler_enqueue c (Some t) (nsched (ready_waiter t st)))"
  using steady_wake(2) by (simp add: ready_waiter_def)

lemma signal_steady: "steady (nsched st) (nsched (snd (ipc_notification_signal c i sig st)))"
  using ready_waiter_steady by (auto simp: ipc_notification_signal_def Let_def ready_waiter_def split: option.splits)

lemma destroy_steady:
  assumes "ipc_notification_destroy c i st = Some (r, st')"
  shows "steady (nsched st) (nsched st')"
proof -
  have f: "nsched st2 = nsched st1" if "free_notify_index n st1 = Some st2" for n st1 st2
    using that by (auto simp: free_notify_index_def split: if_splits)
  have n: "scheduler_enqueue c None s = s" for s by (simp add: scheduler_enqueue_def)
  have w: "nsched (ready_waiter t st) = upd_thr t (\<lambda>k. k\<lparr>state := KTHREAD_STATE_READY\<rparr>) (nsched st)" for t by (simp add: ready_waiter_def)
  show ?thesis
    using assms by (auto simp: ipc_notification_destroy_def Let_def n w bind_eq_Some_conv steady_wake(2) dest!: f split: option.splits if_splits)
qed

end
