(* ===== verification/Kernel_Calls.thy ===== *)
theory Kernel_Calls
  imports Mutex_Inv Timer_Irq Notification_Ops
begin

text \<open>
  The parts of the kernel that share the scheduler, put together: threads, mutexes, time and notifications.  A call is a value, \<open>exec\<close>
  runs it, and \<open>allowed\<close> says when it may be made.
\<close>

section \<open>State\<close>

record kernel =
  k_time :: timer_sys
  k_mutexes :: "nat \<Rightarrow> mutex"
  k_notifications :: "nat \<Rightarrow> notification"
  k_free_notify :: "nat list"
  k_free_notify_count :: nat

abbreviation k_sched :: "kernel \<Rightarrow> sched" where "k_sched k \<equiv> tsched (k_time k)"

definition put_sched :: "sched \<Rightarrow> kernel \<Rightarrow> kernel" where
  "put_sched s k = k\<lparr>k_time := (k_time k)\<lparr>tsched := s\<rparr>\<rparr>"

definition mutex_view :: "kernel \<Rightarrow> mutex_sys" where
  "mutex_view k = \<lparr>mutexes = k_mutexes k, msched = k_sched k\<rparr>"

definition put_mutex :: "mutex_sys \<Rightarrow> kernel \<Rightarrow> kernel" where
  "put_mutex st k = put_sched (msched st) (k\<lparr>k_mutexes := mutexes st\<rparr>)"

definition ntf_view :: "kernel \<Rightarrow> ntf_sys" where
  "ntf_view k = \<lparr>nsched = k_sched k, s_notifications = k_notifications k, s_free_notify_stack = k_free_notify k,
     s_free_notify_count = k_free_notify_count k\<rparr>"

definition put_ntf :: "ntf_sys \<Rightarrow> kernel \<Rightarrow> kernel" where
  "put_ntf st k = put_sched (nsched st) (k\<lparr>k_notifications := s_notifications st, k_free_notify := s_free_notify_stack st,
     k_free_notify_count := s_free_notify_count st\<rparr>)"

lemma views [simp]:
  "k_sched (put_sched s k) = s" "k_time (put_sched s k) = (k_time k)\<lparr>tsched := s\<rparr>" "k_mutexes (put_sched s k) = k_mutexes k"
  "ntf_view (put_sched s k) = (ntf_view k)\<lparr>nsched := s\<rparr>" "nsched (ntf_view k) = k_sched k" "msched (mutex_view k) = k_sched k"
  "mutexes (mutex_view k) = k_mutexes k" "mutex_view (put_sched s k) = (mutex_view k)\<lparr>msched := s\<rparr>"
  "ntf_view (put_ntf st k) = st" "k_time (put_ntf st k) = (k_time k)\<lparr>tsched := nsched st\<rparr>" "k_mutexes (put_ntf st k) = k_mutexes k"
  "k_time (put_mutex ms k) = (k_time k)\<lparr>tsched := msched ms\<rparr>" "k_mutexes (put_mutex ms k) = mutexes ms"
  "ntf_view (put_mutex ms k) = (ntf_view k)\<lparr>nsched := msched ms\<rparr>"
  by (simp_all add: put_sched_def put_mutex_def put_ntf_def ntf_view_def mutex_view_def)

section \<open>Start of the system\<close>

text \<open>The order of \<^verbatim>\<open>kernel_main\<close>: time, scheduler, notifications.\<close>

definition kernel_boot ::
  "(nat \<Rightarrow> bool) \<Rightarrow> (nat \<Rightarrow> nat \<Rightarrow> u64) \<Rightarrow> u64 \<Rightarrow> u64 \<Rightarrow> u64 \<Rightarrow> u64 \<Rightarrow> u64 \<Rightarrow> kernel \<Rightarrow> kernel option" where
  "kernel_boot g sl hs he en freq count k = do {
     let k1 = k\<lparr>k_time := timer_init freq count (k_time k)\<rparr>;
     (r, s) \<leftarrow> scheduler_init g sl hs he en True 0 (k_sched k1);
     if r = KERNEL_OK then (let k2 = put_sched s k1 in Some (put_ntf (ipc_notification_subsys_init (ntf_view k2)) k2)) else None
   }"

section \<open>Calls\<close>

datatype kernel_call =
    Irq nat u64
  | Irq_exit nat
  | Yield nat
  | Preempt_disable nat
  | Preempt_enable nat
  | Exit nat
  | Suspend nat u32
  | Resume nat u32
  | Set_priority nat u32 u8
  | Create nat "string option" u64 u64 u8 kthread_policy u32
  | Start nat
  | Start_secondary nat
  | Mutex_init nat u8
  | Lock nat nat
  | Unlock nat nat
  | Try_lock nat nat
  | Sleep_ticks nat u64
  | Sleep nat u32
  | Wakeup nat nat
  | Timer_init_soft nat u64 u64
  | Timer_oneshot nat nat u32
  | Timer_periodic nat nat u32
  | Timer_stop nat
  | Notify_create u32
  | Notify_destroy nat u32
  | Notify_signal nat u32 u64
  | Notify_wait nat u32 u64
  | Notify_resumed nat u64
  | Notify_try_wait u32 u64

text \<open>
  What is not part of the sources that are modelled: which stacks have overflowed, the answers of the stack caches and of the early
  heap, and the callbacks of the software timers.
\<close>

record kernel_env =
  guard_bad :: "nat \<Rightarrow> bool"
  slab_new :: "nat \<Rightarrow> u64"
  heap_start :: u64
  heap_end :: u64
  callbacks :: "u64 \<Rightarrow> u64 \<Rightarrow> timer_sys \<Rightarrow> timer_sys"

definition on_sched :: "(sched \<Rightarrow> sched option) \<Rightarrow> kernel \<Rightarrow> kernel option" where
  "on_sched f k = map_option (\<lambda>s. put_sched s k) (f (k_sched k))"

definition on_time :: "(timer_sys \<Rightarrow> timer_sys option) \<Rightarrow> kernel \<Rightarrow> kernel option" where
  "on_time f k = map_option (\<lambda>st. k\<lparr>k_time := st\<rparr>) (f (k_time k))"

definition on_mutex :: "(mutex_sys \<Rightarrow> mutex_sys option) \<Rightarrow> kernel \<Rightarrow> kernel option" where
  "on_mutex f k = map_option (\<lambda>st. put_mutex st k) (f (mutex_view k))"

definition on_ntf :: "(ntf_sys \<Rightarrow> ntf_sys option) \<Rightarrow> kernel \<Rightarrow> kernel option" where
  "on_ntf f k = map_option (\<lambda>st. put_ntf st k) (f (ntf_view k))"

fun sched_call :: "kernel_env \<Rightarrow> kernel_call \<Rightarrow> (sched \<Rightarrow> sched option) option" where
  "sched_call E (Irq_exit c) = Some (scheduler_irq_exit_check (guard_bad E) c)"
| "sched_call E (Yield c) = Some (schedule (guard_bad E) c)"
| "sched_call E (Preempt_disable c) = Some (\<lambda>s. Some (preempt_disable c s))"
| "sched_call E (Preempt_enable c) = Some (preempt_enable (guard_bad E) c)"
| "sched_call E (Exit c) = Some (kthread_exit (guard_bad E) c)"
| "sched_call E (Suspend c i) = Some (\<lambda>s. Some (snd (kthread_suspend c i s)))"
| "sched_call E (Resume c i) = Some (\<lambda>s. map_option snd (kthread_resume (guard_bad E) c i s))"
| "sched_call E (Set_priority c i p) = Some (\<lambda>s. map_option snd (kthread_set_priority (guard_bad E) c i p s))"
| "sched_call E (Create c nm en arg pr pol n) =
     Some (\<lambda>s. map_option snd (kthread_create (guard_bad E) (slab_new E) (heap_start E) (heap_end E) c nm en arg pr pol n s))"
| "sched_call E (Start c) = Some (scheduler_start c)"
| "sched_call E (Start_secondary c) = Some (scheduler_start_secondary c)"
| "sched_call E _ = None"

fun exec :: "kernel_env \<Rightarrow> kernel_call \<Rightarrow> kernel \<Rightarrow> kernel option" where
  "exec E (Irq c count) = on_time (timer_interrupt_handler (callbacks E) count c)"
| "exec E (Mutex_init m ceil) = on_mutex (\<lambda>st. Some (mutex_init (Some m) ceil st))"
| "exec E (Lock c m) = on_mutex (\<lambda>st. map_option snd (mutex_lock (guard_bad E) c (Some m) st))"
| "exec E (Unlock c m) = on_mutex (\<lambda>st. map_option snd (mutex_unlock (guard_bad E) c (Some m) st))"
| "exec E (Try_lock c m) = on_mutex (\<lambda>st. Some (snd (mutex_try_lock c (Some m) st)))"
| "exec E (Sleep_ticks c n) = on_time (\<lambda>st. map_option snd (kthread_sleep_ticks (guard_bad E) c n st))"
| "exec E (Sleep c ms) = on_time (\<lambda>st. map_option snd (kthread_sleep (guard_bad E) c ms st))"
| "exec E (Wakeup c t) = on_sched (\<lambda>s. Some (timer_wakeup_thread c (Some t) s))"
| "exec E (Timer_init_soft t f a) = on_time (\<lambda>st. Some (timer_init_soft (Some t) f a st))"
| "exec E (Timer_oneshot c t ms) = on_time (timer_start_oneshot c (Some t) ms)"
| "exec E (Timer_periodic c t ms) = on_time (timer_start_periodic c (Some t) ms)"
| "exec E (Timer_stop t) = on_time (\<lambda>st. Some (timer_stop (Some t) st))"
| "exec E (Notify_create owner) = on_ntf (\<lambda>st. Some (snd (snd (ipc_notification_create owner True st))))"
| "exec E (Notify_destroy c i) = on_ntf (\<lambda>st. map_option snd (ipc_notification_destroy c i st))"
| "exec E (Notify_signal c i sig) = on_ntf (\<lambda>st. Some (snd (ipc_notification_signal c i sig st)))"
| "exec E (Notify_wait c i msk) = on_ntf (\<lambda>st. map_option (snd \<circ> snd) (ipc_notification_wait (guard_bad E) c i msk True st))"
| "exec E (Notify_resumed n msk) = on_ntf (\<lambda>st. Some (snd (notification_resumed n msk st)))"
| "exec E (Notify_try_wait i msk) = on_ntf (\<lambda>st. Some (snd (snd (ipc_notification_try_wait i msk True st))))"
| "exec E call = on_sched (the (sched_call E call))"

text \<open>The mutexes and the software timers that have been initialised.\<close>

fun new_mutexes :: "kernel_call \<Rightarrow> nat set" where
  "new_mutexes (Mutex_init m _) = {m}"
| "new_mutexes _ = {}"

fun new_timers :: "kernel_call \<Rightarrow> nat set" where
  "new_timers (Timer_init_soft t _ _) = {t}"
| "new_timers _ = {}"

definition busy :: "nat \<Rightarrow> kernel \<Rightarrow> bool" where
  "busy c k \<longleftrightarrow> current_thread (cpu_q (k_sched k) c) \<noteq> idle_thread (cpu_q (k_sched k) c)"

definition live :: "u32 \<Rightarrow> kernel \<Rightarrow> bool" where
  "live i k \<longleftrightarrow> (\<forall>n. get_notification i (ntf_view k) = Some n \<longrightarrow> n \<notin> nfree (ntf_view k))"

definition asleep_on :: "sched \<Rightarrow> nat \<Rightarrow> bool" where
  "asleep_on s t \<longleftrightarrow> (\<exists>c<CONFIG_MAX_CPUS. \<exists>xs. dll (slinks s) (SleepQ c) xs \<and> SleepNode t \<in> set xs)"

text \<open>
  When a call may be made.  A call that may switch threads needs an idle thread and a current thread with an intact stack; the idle
  thread does not wait; an idle thread is not suspended; a ready thread is moved by the CPU on which it waits; mutexes and
  timers are initialised once, before they are used; a notification is destroyed or waited for while it exists; and thread 0, whose
  identifier the mutexes use for \<^emph>\<open>no owner\<close>, does not unlock.
\<close>

fun allowed :: "kernel_env \<Rightarrow> nat set \<Rightarrow> nat set \<Rightarrow> kernel_call \<Rightarrow> kernel \<Rightarrow> bool" where
  "allowed E M T (Irq c _) k = (c < CONFIG_MAX_CPUS \<and> current_thread (cpu_q (k_sched k) c) \<noteq> None)"
| "allowed E M T (Preempt_disable c) k = True"
| "allowed E M T (Exit c) k = (ready_to_run (guard_bad E) c (k_sched k) \<and> busy c k)"
| "allowed E M T (Suspend c i) k = (c < CONFIG_MAX_CPUS \<and> queued_on (k_sched k) c (unat i) \<and> \<not> is_idle (k_sched k) (unat i))"
| "allowed E M T (Set_priority c i p) k = (ready_to_run (guard_bad E) c (k_sched k) \<and>
     (unat i < MAX_THREADS \<and> state (thr (k_sched k) (unat i)) = KTHREAD_STATE_READY \<longrightarrow> queued_on (k_sched k) c (unat i)))"
| "allowed E M T (Start c) k =
     (c < CONFIG_MAX_CPUS \<and> current_thread (cpu_q (k_sched k) c) = None \<and> idle_thread (cpu_q (k_sched k) c) \<noteq> None)"
| "allowed E M T (Start_secondary c) k =
     (c < CONFIG_MAX_CPUS \<and> current_thread (cpu_q (k_sched k) c) = None \<and> idle_thread (cpu_q (k_sched k) c) \<noteq> None)"
| "allowed E M T (Mutex_init m _) k = (m \<notin> M)"
| "allowed E M T (Lock c m) k = (ready_to_run (guard_bad E) c (k_sched k) \<and> busy c k \<and> m \<in> M)"
| "allowed E M T (Unlock c m) k =
     (c < CONFIG_MAX_CPUS \<and> (\<exists>t. current_thread (cpu_q (k_sched k) c) = Some t \<and> t \<noteq> 0) \<and> m \<in> M)"
| "allowed E M T (Try_lock c m) k = (c < CONFIG_MAX_CPUS \<and> m \<in> M)"
| "allowed E M T (Sleep_ticks c _) k = (ready_to_run (guard_bad E) c (k_sched k) \<and> busy c k)"
| "allowed E M T (Sleep c _) k = (ready_to_run (guard_bad E) c (k_sched k) \<and> busy c k)"
| "allowed E M T (Wakeup c t) k =
     (c < CONFIG_MAX_CPUS \<and> (state (thr (k_sched k) t) = KTHREAD_STATE_SLEEPING \<longrightarrow> asleep_on (k_sched k) t))"
| "allowed E M T (Timer_init_soft t _ _) k = (t \<notin> T)"
| "allowed E M T (Timer_oneshot c t _) k = (c < CONFIG_MAX_CPUS \<and> t \<in> T)"
| "allowed E M T (Timer_periodic c t _) k = (c < CONFIG_MAX_CPUS \<and> t \<in> T)"
| "allowed E M T (Timer_stop t) k = (t \<in> T)"
| "allowed E M T (Notify_create _) k = True"
| "allowed E M T (Notify_destroy c i) k = (c < CONFIG_MAX_CPUS \<and> live i k)"
| "allowed E M T (Notify_signal c _ _) k = (c < CONFIG_MAX_CPUS)"
| "allowed E M T (Notify_wait c i _) k = (ready_to_run (guard_bad E) c (k_sched k) \<and> busy c k \<and> live i k)"
| "allowed E M T (Notify_resumed n _) k = True"
| "allowed E M T (Notify_try_wait _ _) k = True"
| "allowed E M T (Irq_exit c) k = ready_to_run (guard_bad E) c (k_sched k)"
| "allowed E M T (Yield c) k = ready_to_run (guard_bad E) c (k_sched k)"
| "allowed E M T (Preempt_enable c) k = ready_to_run (guard_bad E) c (k_sched k)"
| "allowed E M T (Resume c _) k = ready_to_run (guard_bad E) c (k_sched k)"
| "allowed E M T (Create c _ _ _ _ _ _) k = ready_to_run (guard_bad E) c (k_sched k)"

end
