(* ===== verification/Kernel_Inv.thy ===== *)
theory Kernel_Inv
  imports Kernel_Calls
begin

text \<open>
  What holds of the kernel at all times: every allowed call returns and keeps it.
\<close>

section \<open>The invariant\<close>

definition wait_queues :: "nat set \<Rightarrow> sched_node set" where
  "wait_queues M = WaitQ ` M \<union> SleepQ ` {..<CONFIG_MAX_CPUS}"

definition tuned :: "sched \<Rightarrow> bool" where
  "tuned s \<longleftrightarrow> s_default_sched_class s = Some sched_rr \<and> (\<forall>t<MAX_THREADS. sched_class (thr s t) = None) \<and>
     (\<forall>d<CONFIG_MAX_CPUS. lb_interval s d \<noteq> 0)"

definition kernel_ok ::
  "kernel \<Rightarrow> nat set \<Rightarrow> nat set \<Rightarrow> (nat \<Rightarrow> u8 \<Rightarrow> nat list) \<Rightarrow> (sched_node \<Rightarrow> nat list) \<Rightarrow> (nat \<Rightarrow> nat list) \<Rightarrow> bool" where
  "kernel_ok k M T rq wq tq \<longleftrightarrow> ntf_inv (ntf_view k) (wait_queues M) rq wq \<and> tuned (k_sched k) \<and> soft_inv (k_time k) T tq \<and>
     (\<forall>m\<in>M. mutex_ok (k_mutexes k m) (wq (WaitQ m))) \<and> (\<forall>c<CONFIG_MAX_CPUS. sleep_sorted (k_sched k) (wq (SleepQ c)))"

definition kernel_inv :: "kernel \<Rightarrow> nat set \<Rightarrow> nat set \<Rightarrow> bool" where
  "kernel_inv k M T \<longleftrightarrow> (\<exists>rq wq tq. kernel_ok k M T rq wq tq)"

lemma kernel_okD:
  assumes "kernel_ok k M T rq wq tq"
  shows "ntf_inv (ntf_view k) (wait_queues M) rq wq" "tuned (k_sched k)" "soft_inv (k_time k) T tq"
    and "m \<in> M \<Longrightarrow> mutex_ok (k_mutexes k m) (wq (WaitQ m))" and "c < CONFIG_MAX_CPUS \<Longrightarrow> sleep_sorted (k_sched k) (wq (SleepQ c))"
    and "sched_inv (k_sched k) (wait_queues M) rq wq" and "tids_ok (k_sched k)"
  using assms by (auto simp: kernel_ok_def ntf_inv_def)

lemma wait_queues_in [simp]: "WaitQ m \<in> wait_queues M \<longleftrightarrow> m \<in> M" "SleepQ c \<in> wait_queues M \<longleftrightarrow> c < CONFIG_MAX_CPUS"
  by (auto simp: wait_queues_def)

lemma soft_inv_sched [simp]: "soft_inv (st\<lparr>tsched := s\<rparr>) T tq = soft_inv st T tq"
  by (simp add: soft_inv_def)

lemma tuned_calm: "tuned s \<Longrightarrow> calm s s' \<Longrightarrow> tuned s'"
  by (simp add: tuned_def calm_def)

lemma sleep_sorted_cong: "(\<And>t. t \<in> set ts \<Longrightarrow> wakeup_tick (thr s' t) = wakeup_tick (thr s t)) \<Longrightarrow> sleep_sorted s' ts = sleep_sorted s ts"
  unfolding sleep_sorted_def by (metis (mono_tags, lifting) map_eq_conv)

lemma sleeping:
  assumes "sched_inv s W rq wq" and "SleepQ c \<in> W" and "t \<in> set (wq (SleepQ c))"
  shows "state (thr s t) = KTHREAD_STATE_SLEEPING"
  using sched_preD(5) [OF assms(1)] assms(2,3) by (auto simp: wait_ok_def wait_state_def)

lemma sleep_calm:
  assumes "sched_inv s W rq wq" and "SleepQ c \<in> W" and "calm s s'"
  shows "sleep_sorted s' (wq (SleepQ c)) = sleep_sorted s (wq (SleepQ c))"
  by (rule sleep_sorted_cong) (use sleeping [OF assms(1,2)] calmD(3) [OF assms(3)] in auto)

section \<open>Calls of the scheduler\<close>

lemma kernel_calm:
  assumes ok: "kernel_ok k M T rq wq tq" and s: "sched_inv s' (wait_queues M) rq' wq" and c: "calm (k_sched k) s'"
  shows "kernel_ok (put_sched s' k) M T rq' wq tq"
proof -
  note K = kernel_okD [OF ok]
  have "ntf_inv (ntf_view (put_sched s' k)) (wait_queues M) rq' wq"
    unfolding views by (rule ntf_inv_frame [OF K(1) s tids_calm [OF K(7) c]]) (use calmD(2) [OF c] in auto)
  then show ?thesis
    using K(2-5) tuned_calm [OF K(2) c] sleep_calm [OF K(6) _ c] by (simp add: kernel_ok_def)
qed

lemma sched_step_ok:
  assumes ok: "kernel_ok k M T rq wq tq" and st: "sched_step (k_sched k) s'"
  shows "\<exists>rq'. kernel_ok (put_sched s' k) M T rq' wq tq"
  using sched_step_inv [OF st kernel_okD(6) [OF ok]] kernel_calm [OF ok _ sched_step_calm [OF st kernel_okD(6) [OF ok]]] by blast

lemma start_returns:
  assumes "sched_inv s W rq wq" and "c < CONFIG_MAX_CPUS" and "idle_thread (cpu_q s c) \<noteq> None"
  shows "\<exists>s'. scheduler_start c s = Some s'" and "\<exists>s'. scheduler_start_secondary c s = Some s'"
  using pick_next [OF sched_preD(1) [OF assms(1)] assms(2)] assms(3)
  by (auto simp: scheduler_start_def scheduler_start_secondary_def split: option.splits)

lemma resume_returns:
  assumes inv: "sched_inv s W rq wq" and run: "ready_to_run g c s"
  shows "\<exists>r s'. kthread_resume g c i s = Some (r, s')"
proof (cases "unat i < MAX_THREADS \<and> state (thr s (unat i)) = KTHREAD_STATE_SUSPENDED")
  case True
  then show ?thesis using kthread_resume_inv [OF inv run] by fastforce
qed (auto simp: kthread_resume_def get_thread_by_id_def word_le_nat_alt)

lemma set_priority_returns:
  assumes inv: "sched_inv s W rq wq" and run: "ready_to_run g c s"
    and q: "unat i < MAX_THREADS \<and> state (thr s (unat i)) = KTHREAD_STATE_READY \<longrightarrow> queued_on s c (unat i)"
  shows "\<exists>r s'. kthread_set_priority g c i p s = Some (r, s')"
proof (cases "unat i < MAX_THREADS")
  case True
  have "\<exists>p. unat i \<in> set (rq c p)" if "state (thr s (unat i)) = KTHREAD_STATE_READY"
    using queued_on_rq [OF inv] run q True that by (auto simp: ready_to_run_def)
  then show ?thesis using kthread_set_priority_inv [OF inv run True] by blast
qed (auto simp: kthread_set_priority_def get_thread_by_id_def word_le_nat_alt)

lemma sched_call_returns:
  assumes inv: "sched_inv (k_sched k) W rq wq" and f: "sched_call E call = Some f" and a: "allowed E M T call k"
  shows "\<exists>s'. f (k_sched k) = Some s' \<and> sched_step (k_sched k) s'"
proof (cases call)
  case (Irq_exit c)
  then show ?thesis using f a irq_exit_inv [OF inv, of "guard_bad E" c] by (auto intro: sched_step.irq_exit)
next
  case (Yield c)
  then show ?thesis using f a schedule_inv [OF sched_inv_pre [OF inv], of "guard_bad E" c] by (auto intro: sched_step.yield)
next
  case (Preempt_disable c)
  then show ?thesis using f by (auto intro: sched_step.preempt_off)
next
  case (Preempt_enable c)
  then show ?thesis using f a preempt_enable_inv [OF inv, of "guard_bad E" c] by (auto intro: sched_step.preempt_on)
next
  case (Exit c)
  then show ?thesis using f a kthread_exit_inv [OF inv, of "guard_bad E" c] by (auto simp: busy_def intro: sched_step.exit)
next
  case (Suspend c i)
  obtain r s' where "kthread_suspend c i (k_sched k) = (r, s')" by fastforce
  then show ?thesis using f a Suspend by (auto intro: sched_step.suspend)
next
  case (Resume c i)
  have "\<exists>r s'. kthread_resume (guard_bad E) c i (k_sched k) = Some (r, s')"
    using resume_returns [OF inv] a Resume by simp
  then show ?thesis using f a Resume by (auto intro: sched_step.resume)
next
  case (Set_priority c i p)
  have "\<exists>r s'. kthread_set_priority (guard_bad E) c i p (k_sched k) = Some (r, s')"
    using set_priority_returns [OF inv] a Set_priority by simp
  then show ?thesis using f a Set_priority by (auto intro: sched_step.set_priority)
next
  case (Create c nm en arg pr pol n)
  have "\<exists>t s'. kthread_create (guard_bad E) (slab_new E) (heap_start E) (heap_end E) c nm en arg pr pol n (k_sched k) = Some (t, s')"
    using kthread_create_inv [OF inv, of c "guard_bad E" "slab_new E" "heap_start E" "heap_end E" nm en arg pr pol n] a Create
    by (auto simp: ready_to_run_def)
  then show ?thesis using f a Create by (auto intro: sched_step.create)
next
  case (Start c)
  then show ?thesis using f a start_returns(1) [OF inv, of c] by (auto intro: sched_step.start)
next
  case (Start_secondary c)
  then show ?thesis using f a start_returns(2) [OF inv, of c] by (auto intro: sched_step.start)
qed (use f in simp_all)

lemma sched_call_ok:
  assumes "kernel_ok k M T rq wq tq" and "sched_call E call = Some f" and "allowed E M T call k"
  shows "\<exists>k'. on_sched f k = Some k' \<and> kernel_inv k' M T"
proof -
  obtain s' where s': "f (k_sched k) = Some s'" "sched_step (k_sched k) s'"
    using sched_call_returns [OF kernel_okD(6) [OF assms(1)] assms(2,3)] by blast
  then show ?thesis using sched_step_ok [OF assms(1) s'(2)] unfolding kernel_inv_def on_sched_def by auto
qed

section \<open>Calls that change the wait queues\<close>

lemma kernel_frame:
  assumes ok: "kernel_ok k M T rq wq tq" and v: "ntf_view k' = (ntf_view k)\<lparr>nsched := k_sched k'\<rparr>"
    and s: "sched_inv (k_sched k') (wait_queues M') rq' wq'" and fx: "tuned (k_sched k')" "tids_ok (k_sched k')"
    and w: "\<And>t. state (thr (k_sched k) t) = KTHREAD_STATE_BLOCKED \<Longrightarrow> (\<forall>a\<in>wait_queues M. t \<notin> set (wq a)) \<Longrightarrow>
      state (thr (k_sched k') t) = KTHREAD_STATE_BLOCKED \<and> (\<forall>a\<in>wait_queues M'. t \<notin> set (wq' a))"
    and m: "\<And>m. m \<in> M' \<Longrightarrow> mutex_ok (k_mutexes k' m) (wq' (WaitQ m))" and t: "soft_inv (k_time k') T' tq'"
    and z: "\<And>c. c < CONFIG_MAX_CPUS \<Longrightarrow> sleep_sorted (k_sched k') (wq' (SleepQ c))"
  shows "kernel_inv k' M' T'"
proof -
  have "ntf_inv (ntf_view k') (wait_queues M') rq' wq'"
    unfolding v by (rule ntf_inv_frame [OF kernel_okD(1) [OF ok] s fx(2)]) (use w in auto)
  then have "kernel_ok k' M' T' rq' wq' tq'" using fx(1) t m z by (simp add: kernel_ok_def)
  then show ?thesis unfolding kernel_inv_def by blast
qed

lemma kernel_okI: "kernel_ok k M T rq wq tq \<Longrightarrow> kernel_inv k M T"
  unfolding kernel_inv_def by blast

lemma steady_fixed:
  assumes "steady s s'"
  shows "tuned s \<Longrightarrow> tuned s'" "tids_ok s \<Longrightarrow> tids_ok s'" "sleep_sorted s' ts = sleep_sorted s ts"
  using assms by (auto simp: steady_def tuned_def tids_ok_def sleep_sorted_def)

lemma put_mutex_same: "put_mutex (mutex_view k) k = k"
  by (simp add: put_mutex_def put_sched_def mutex_view_def)

subsection \<open>Mutexes\<close>

lemma mutex_only:
  assumes ok: "kernel_ok k M T rq wq tq" and x: "mutex_ok x (wq (WaitQ m))"
  shows "kernel_inv (put_mutex ((mutex_view k)\<lparr>mutexes := (k_mutexes k)(m := x)\<rparr>) k) M T"
proof -
  note K = kernel_okD [OF ok]
  have "kernel_ok (put_mutex ((mutex_view k)\<lparr>mutexes := (k_mutexes k)(m := x)\<rparr>) k) M T rq wq tq"
    using K x by (simp add: kernel_ok_def) (simp add: ntf_view_def)
  then show ?thesis by (rule kernel_okI)
qed

lemma mutex_init_ok:
  assumes ok: "kernel_ok k M T rq wq tq" and m: "m \<notin> M"
  shows "kernel_inv (put_mutex (mutex_init (Some m) ceil (mutex_view k)) k) (insert m M) T"
proof -
  let ?st = "mutex_init (Some m) ceil (mutex_view k)"
  note K = kernel_okD [OF ok]
  have q: "wait_queues (insert m M) = insert (WaitQ m) (wait_queues M)" by (auto simp: wait_queues_def)
  have s: "sched_inv (msched ?st) (wait_queues (insert m M)) rq (wq(WaitQ m := []))" "mutex_ok (mutexes ?st m) []"
    unfolding q using mutex_init_inv [of "mutex_view k" "wait_queues M" rq wq m ceil] K(6) m by simp_all
  have st: "steady (k_sched k) (msched ?st)" "thread_table (msched ?st) = thread_table (k_sched k)"
    by (simp_all add: mutex_init_def upd_mutex_def steady_def) (simp_all add: upd_slinks_def)
  have "mutexes ?st n = k_mutexes k n" if "n \<noteq> m" for n using that by (simp add: mutex_init_def upd_mutex_def)
  then show ?thesis
    using s st K steady_fixed [OF st(1)]
    by (intro kernel_frame [OF ok, where rq' = rq and wq' = "wq(WaitQ m := [])" and tq' = tq]) (auto simp: q)
qed

lemma lock_ok:
  assumes ok: "kernel_ok k M T rq wq tq" and run: "ready_to_run g c (k_sched k)" and b: "busy c k" and m: "m \<in> M"
  shows "\<exists>r st. mutex_lock g c (Some m) (mutex_view k) = Some (r, st) \<and> kernel_inv (put_mutex st k) M T"
proof -
  note K = kernel_okD [OF ok]
  have c: "c < CONFIG_MAX_CPUS" using run by (simp add: ready_to_run_def)
  obtain t where t: "current_thread (cpu_q (k_sched k) c) = Some t" using run by (auto simp: ready_to_run_def)
  show ?thesis
  proof (cases "mstate (k_mutexes k m) = MUTEX_STATE_UNLOCKED")
    case True
    have "mutex_lock g c (Some m) (mutex_view k) = Some (Returns KERNEL_OK, take_mutex m t (mutex_view k))"
      using mutex_lock_free [OF c, of "mutex_view k" t m g] t True by simp
    moreover have "kernel_inv (put_mutex (take_mutex m t (mutex_view k)) k) M T"
      unfolding take_mutex_def upd_mutex_def views by (rule mutex_only [OF ok]) (use K(4) [OF m] True in \<open>simp add: mutex_ok_def\<close>)
    ultimately show ?thesis by blast
  next
    case False
    have i: "idle_thread (cpu_q (k_sched k) c) \<noteq> Some t" using b t by (simp add: busy_def)
    note cw = current_not_waiting [OF K(6) c t]
    obtain s' rq' where l: "mutex_lock g c (Some m) (mutex_view k) =
          Some (Blocks, upd_mutex m (\<lambda>x. x\<lparr>mstate := MUTEX_STATE_CONTENDED\<rparr>) ((mutex_view k)\<lparr>msched := s'\<rparr>))"
        "sched_inv s' (wait_queues M) rq' (wq(WaitQ m := t # wq (WaitQ m)))" "calm (k_sched k) s'"
      using mutex_lock_wait [of "mutex_view k" "wait_queues M" rq wq g c m t] K(6) run m t i False by auto
    have "kernel_inv (put_mutex (upd_mutex m (\<lambda>x. x\<lparr>mstate := MUTEX_STATE_CONTENDED\<rparr>) ((mutex_view k)\<lparr>msched := s'\<rparr>)) k) M T"
    proof (rule kernel_frame [OF ok, where rq' = rq' and wq' = "wq(WaitQ m := t # wq (WaitQ m))" and tq' = tq])
      fix u assume u: "state (thr (k_sched k) u) = KTHREAD_STATE_BLOCKED" "\<forall>a\<in>wait_queues M. u \<notin> set (wq a)"
      then have "u \<noteq> t" using cw(3) [of "WaitQ m"] m by auto
      then show "state (thr (k_sched (put_mutex (upd_mutex m (\<lambda>x. x\<lparr>mstate := MUTEX_STATE_CONTENDED\<rparr>) ((mutex_view k)\<lparr>msched := s'\<rparr>)) k)) u) =
          KTHREAD_STATE_BLOCKED \<and> (\<forall>a\<in>wait_queues M. u \<notin> set ((wq(WaitQ m := t # wq (WaitQ m))) a))"
        using u calmD(2) [OF l(3)] m by (auto simp: upd_mutex_def)
    qed (use K l False m tuned_calm [OF K(2) l(3)] tids_calm [OF K(7) l(3)] sleep_calm [OF K(6) _ l(3)] in
        \<open>auto simp: upd_mutex_def mutex_ok_def\<close>)
    then show ?thesis using l(1) by blast
  qed
qed

lemma unlock_ok:
  assumes ok: "kernel_ok k M T rq wq tq" and c: "c < CONFIG_MAX_CPUS" and m: "m \<in> M"
    and u: "current_thread (cpu_q (k_sched k) c) = Some u" "u \<noteq> 0"
  shows "\<exists>r st. mutex_unlock g c (Some m) (mutex_view k) = Some (r, st) \<and> kernel_inv (put_mutex st k) M T"
proof (cases "owner_tid (k_mutexes k m) = tid (thr (k_sched k) u)")
  case False
  then have "mutex_unlock g c (Some m) (mutex_view k) = Some (Err EPERM, mutex_view k)" using u by (simp add: mutex_unlock_def current_get [OF c])
  then show ?thesis using kernel_okI [OF ok] by (auto simp: put_mutex_same)
next
  case True
  note K = kernel_okD [OF ok]
  have um: "u < MAX_THREADS" using current_okD(1) [OF sched_preD(3) [OF K(6)] c u(1)] by simp
  have "unat (tid (thr (k_sched k) u)) = u" using K(7) um unat_tid(1) [OF um] by (simp add: tids_ok_def)
  then have "owner_tid (k_mutexes k m) \<noteq> 0" using True u(2) by auto
  then have l: "mstate (k_mutexes k m) \<noteq> MUTEX_STATE_UNLOCKED" "original_prio (k_mutexes k m) = PRIORITY_MIN" "lock_count (k_mutexes k m) = 1"
    using K(4) [OF m] by (auto simp: mutex_ok_def split: if_splits)
  show ?thesis
  proof (cases "wq (WaitQ m)")
    case Nil
    have "mutex_unlock g c (Some m) (mutex_view k) = Some (KERNEL_OK,
        upd_mutex m (\<lambda>x. x\<lparr>lock_count := lock_count x - 1, owner_tid := 0, mstate := MUTEX_STATE_UNLOCKED\<rparr>) (mutex_view k))"
      using mutex_unlock_last [of "mutex_view k" "wait_queues M" rq wq c m u g] K(6) c m Nil u True l by simp
    moreover have "kernel_inv (put_mutex (upd_mutex m (\<lambda>x. x\<lparr>lock_count := lock_count x - 1, owner_tid := 0, mstate := MUTEX_STATE_UNLOCKED\<rparr>)
        (mutex_view k)) k) M T"
      unfolding upd_mutex_def views by (rule mutex_only [OF ok]) (use Nil l in \<open>simp add: mutex_ok_def\<close>)
    ultimately show ?thesis by blast
  next
    case (Cons t ts)
    obtain s' rq' where h: "mutex_unlock g c (Some m) (mutex_view k) =
          Some (KERNEL_OK, upd_mutex m (\<lambda>x. x\<lparr>owner_tid := tid (thr (k_sched k) t)\<rparr>) ((mutex_view k)\<lparr>msched := s'\<rparr>))"
        "sched_inv s' (wait_queues M) rq' (wq(WaitQ m := ts))"
        "thread_table s' = (thread_table (k_sched k))(t := (thr (k_sched k) t)\<lparr>state := KTHREAD_STATE_READY\<rparr>)" "steady (k_sched k) s'"
      using mutex_unlock_wait [of "mutex_view k" "wait_queues M" rq wq c m t ts u g] K(6) c m Cons u True l by auto
    have "kernel_inv (put_mutex (upd_mutex m (\<lambda>x. x\<lparr>owner_tid := tid (thr (k_sched k) t)\<rparr>) ((mutex_view k)\<lparr>msched := s'\<rparr>)) k) M T"
    proof (rule kernel_frame [OF ok, where rq' = rq' and wq' = "wq(WaitQ m := ts)" and tq' = tq])
      fix v assume v: "state (thr (k_sched k) v) = KTHREAD_STATE_BLOCKED" "\<forall>a\<in>wait_queues M. v \<notin> set (wq a)"
      then have "v \<notin> set (wq (WaitQ m))" using m by simp
      then have "v \<noteq> t" "v \<notin> set ts" using Cons by auto
      then show "state (thr (k_sched (put_mutex (upd_mutex m (\<lambda>x. x\<lparr>owner_tid := tid (thr (k_sched k) t)\<rparr>) ((mutex_view k)\<lparr>msched := s'\<rparr>)) k)) v) =
          KTHREAD_STATE_BLOCKED \<and> (\<forall>a\<in>wait_queues M. v \<notin> set ((wq(WaitQ m := ts)) a))"
        using v h(3) by (auto simp: upd_mutex_def)
    qed (use K(3-5) h l m Cons steady_fixed [OF h(4)] K(2,7) K(4) [OF m] in \<open>auto simp: upd_mutex_def mutex_ok_def\<close>)
    then show ?thesis using h(1) by blast
  qed
qed

lemma try_lock_ok:
  assumes ok: "kernel_ok k M T rq wq tq" and c: "c < CONFIG_MAX_CPUS" and m: "m \<in> M"
  shows "kernel_inv (put_mutex (snd (mutex_try_lock c (Some m) (mutex_view k))) k) M T"
proof (cases "mstate (k_mutexes k m) = MUTEX_STATE_UNLOCKED \<and> current_thread (cpu_q (k_sched k) c) \<noteq> None")
  case True
  then obtain t where t: "current_thread (cpu_q (k_sched k) c) = Some t" by auto
  have "kernel_inv (put_mutex (take_mutex m t (mutex_view k)) k) M T"
    unfolding take_mutex_def upd_mutex_def views
    by (rule mutex_only [OF ok]) (use kernel_okD(4) [OF ok m] True in \<open>simp add: mutex_ok_def\<close>)
  then show ?thesis using t True by (simp add: mutex_try_lock_def current_get [OF c])
next
  case False
  then show ?thesis
    using kernel_okI [OF ok] by (auto simp: mutex_try_lock_def put_mutex_same kthread_get_current_def split: option.splits)
qed

end
