(* ===== verification/Kernel_Steps.thy ===== *)
theory Kernel_Steps
  imports Kernel_Inv
begin

text \<open>Time and notifications keep the invariant of the kernel; with the other calls, every allowed call returns and keeps it.\<close>

section \<open>Time\<close>

lemma with_time [simp]: "ntf_view (k\<lparr>k_time := ts\<rparr>) = (ntf_view k)\<lparr>nsched := tsched ts\<rparr>"
  by (simp add: ntf_view_def)

lemma irq_ok:
  assumes ok: "kernel_ok k M T rq wq tq" and c: "c < CONFIG_MAX_CPUS" and cur: "current_thread (cpu_q (k_sched k) c) = Some u"
    and q: "callback_quiet cb"
  shows "\<exists>st. timer_interrupt_handler cb n c (k_time k) = Some st \<and> kernel_inv (k\<lparr>k_time := st\<rparr>) M T"
proof -
  note K = kernel_okD [OF ok]
  have "u < MAX_THREADS" using current_okD(1) [OF sched_preD(3) [OF K(6)] c cur] by simp
  then have tk: "ticking c (k_sched k)" using K(2) c cur by (simp add: ticking_def tuned_def class_of_def)
  define ds where "ds = due (s_system_ticks (k_time k) + 1) TIMER_IRQ_MAX_WAKEUPS (k_sched k) (wq (SleepQ c))"
  have dsub: "set ds \<subseteq> set (wq (SleepQ c))" unfolding ds_def by (rule due_set)
  obtain F us where e: "expire_spec (s_system_ticks (k_time k) + 1) TIMER_IRQ_MAX_CALLBACKS (timers (k_time k)) (tq c) = (F, us)" by fastforce
  obtain st where st: "timer_interrupt_handler cb n c (k_time k) = Some st"
      "sched_inv (tsched st) (wait_queues M) (rq_wake c ds (k_sched k) rq) (wq(SleepQ c := drop (length ds) (wq (SleepQ c))))"
      "soft_inv st T (tq(c := us))" "same_frame (k_sched k) (tsched st)" "\<forall>t. state (thr (tsched st) t) = state (woken ds (k_sched k) t)"
    using interrupt_eq [OF K(6) _ K(3) q tk ds_def e, of n] c by auto
  have fx: "tuned (tsched st)" "tids_ok (tsched st)" "sleep_sorted (tsched st) ts = sleep_sorted (k_sched k) ts" for ts
    using st(4) K(2,7) steady_fixed [of "k_sched k" "tsched st"] by (auto simp: same_frame_def)
  have dr: "sleep_sorted s ts \<Longrightarrow> sleep_sorted s (drop j ts)" for s ts j by (simp add: sleep_sorted_def drop_map [symmetric] sorted_wrt_drop)
  have "kernel_inv (k\<lparr>k_time := st\<rparr>) M T"
  proof (rule kernel_frame [OF ok, where rq' = "rq_wake c ds (k_sched k) rq" and tq' = "tq(c := us)" and
        wq' = "wq(SleepQ c := drop (length ds) (wq (SleepQ c)))"])
    fix v assume v: "state (thr (k_sched k) v) = KTHREAD_STATE_BLOCKED" "\<forall>a\<in>wait_queues M. v \<notin> set (wq a)"
    then have "v \<notin> set (wq (SleepQ c))" using c by simp
    then show "state (thr (k_sched (k\<lparr>k_time := st\<rparr>)) v) = KTHREAD_STATE_BLOCKED \<and>
        (\<forall>a\<in>wait_queues M. v \<notin> set ((wq(SleepQ c := drop (length ds) (wq (SleepQ c)))) a))"
      using v st(5) dsub by (auto simp: woken_def dest: in_set_dropD)
  qed (use K fx st dr in auto)
  then show ?thesis using st(1) by blast
qed

lemma sleep_ok:
  assumes ok: "kernel_ok k M T rq wq tq" and run: "ready_to_run g c (k_sched k)" and b: "busy c k"
  shows "\<exists>r st. kthread_sleep_ticks g c n (k_time k) = Some (r, st) \<and> kernel_inv (k\<lparr>k_time := st\<rparr>) M T"
proof (cases "n = 0")
  case True
  then show ?thesis using kernel_okI [OF ok] by (simp add: kthread_sleep_ticks_def)
next
  case False
  note K = kernel_okD [OF ok]
  let ?x = "s_system_ticks (k_time k) + n"
  have c: "c < CONFIG_MAX_CPUS" using run by (simp add: ready_to_run_def)
  obtain t where t: "current_thread (cpu_q (k_sched k) c) = Some t" using run by (auto simp: ready_to_run_def)
  have i: "idle_thread (cpu_q (k_sched k) c) \<noteq> Some t" using b t by (simp add: busy_def)
  note cw = current_not_waiting [OF K(6) c t]
  define ys where "ys = insort_at (\<lambda>u. wakeup_tick (thr (k_sched k) u)) ?x t (wq (SleepQ c))"
  obtain s' rq' where s': "kthread_sleep_ticks g c n (k_time k) = Some (Blocks, (k_time k)\<lparr>tsched := s'\<rparr>)"
      "sched_inv s' (wait_queues M) rq' (wq(SleepQ c := ys))" "wakeup_tick (thr s' t) = ?x" "calm (k_sched k) s'"
    using kthread_sleep_ticks_eq [OF K(6) run _ t i False] c unfolding ys_def by auto
  have ys: "set ys = insert t (set (wq (SleepQ c)))" unfolding ys_def by (rule set_insort_at)
  have old: "wakeup_tick (thr s' u) = wakeup_tick (thr (k_sched k) u)" if "u \<in> set (wq (SleepQ d))" "d < CONFIG_MAX_CPUS" for u d
    using calmD(3) [OF s'(4)] sleeping [OF K(6) _ that(1)] that(2) by simp
  have "ys = insort_at (\<lambda>u. wakeup_tick (thr s' u)) ?x t (wq (SleepQ c))"
    unfolding ys_def by (rule insort_at_cong) (use old c in simp)
  moreover have "sorted (map (\<lambda>u. wakeup_tick (thr s' u)) (wq (SleepQ c)))"
    using K(5) [OF c] sleep_calm [OF K(6) _ s'(4), of c] c by (simp add: sleep_sorted_def)
  ultimately have so: "sleep_sorted s' ys" unfolding sleep_sorted_def using sorted_insort_at s'(3) by metis
  have "kernel_inv (k\<lparr>k_time := (k_time k)\<lparr>tsched := s'\<rparr>\<rparr>) M T"
  proof (rule kernel_frame [OF ok, where rq' = rq' and tq' = tq and wq' = "wq(SleepQ c := ys)"])
    fix v assume v: "state (thr (k_sched k) v) = KTHREAD_STATE_BLOCKED" "\<forall>a\<in>wait_queues M. v \<notin> set (wq a)"
    then have "v \<noteq> t" "v \<notin> set (wq (SleepQ c))" using cw(3) [of "SleepQ c"] c by auto
    then show "state (thr (k_sched (k\<lparr>k_time := (k_time k)\<lparr>tsched := s'\<rparr>\<rparr>)) v) = KTHREAD_STATE_BLOCKED \<and>
        (\<forall>a\<in>wait_queues M. v \<notin> set ((wq(SleepQ c := ys)) a))"
      using v ys calmD(2) [OF s'(4)] by auto
  qed (use K s' so tuned_calm [OF K(2) s'(4)] tids_calm [OF K(7) s'(4)] sleep_calm [OF K(6) _ s'(4)] in auto)
  then show ?thesis using s'(1) by blast
qed

lemma asleep_on_queue:
  assumes "sched_inv s (wait_queues M) rq wq" and "asleep_on s t"
  shows "\<exists>c<CONFIG_MAX_CPUS. t \<in> set (wq (SleepQ c))"
proof -
  obtain c xs where x: "c < CONFIG_MAX_CPUS" "dll (slinks s) (SleepQ c) xs" "SleepNode t \<in> set xs" using assms(2) by (auto simp: asleep_on_def)
  note l = rq_invD(1) [OF sched_preD(1) [OF assms(1)]]
  have "dll (slinks s) (SleepQ c) (map SleepNode (wq (SleepQ c)))"
    using ringsD(2) [OF links_okD(1) [OF l], of "SleepQ c"] links_okD(2) [OF l] x(1) by (simp add: nodes_of_def)
  then have "xs = map SleepNode (wq (SleepQ c))" by (rule dll_unique [OF x(2)])
  then show ?thesis using x(1,3) by auto
qed

lemma wakeup_ok:
  assumes ok: "kernel_ok k M T rq wq tq" and c: "c < CONFIG_MAX_CPUS"
    and t: "state (thr (k_sched k) t) = KTHREAD_STATE_SLEEPING \<longrightarrow> asleep_on (k_sched k) t"
  shows "kernel_inv (put_sched (timer_wakeup_thread c (Some t) (k_sched k)) k) M T"
proof (cases "state (thr (k_sched k) t) = KTHREAD_STATE_SLEEPING")
  case False
  then have "put_sched (timer_wakeup_thread c (Some t) (k_sched k)) k = k" by (simp add: timer_wakeup_thread_def put_sched_def)
  then show ?thesis using kernel_okI [OF ok] by simp
next
  case True
  note K = kernel_okD [OF ok]
  obtain d where d: "d < CONFIG_MAX_CPUS" "t \<in> set (wq (SleepQ d))" using asleep_on_queue [OF K(6)] t True by blast
  let ?s = "timer_wakeup_thread c (Some t) (k_sched k)"
  define rq' where "rq' = rq_upd c (prio (thr (k_sched k) t)) (rq c (prio (thr (k_sched k) t)) @ [t]) rq"
  have w: "sched_inv ?s (wait_queues M) rq' (wq(SleepQ d := remove1 t (wq (SleepQ d))))"
      "thread_table ?s = (thread_table (k_sched k))(t := (thr (k_sched k) t)\<lparr>state := KTHREAD_STATE_READY\<rparr>)"
    using timer_wakeup_eq [OF K(6) c _ d(2) True] d(1) unfolding rq'_def by auto
  have st: "steady (k_sched k) ?s" using True steady_wake by (simp add: timer_wakeup_thread_def Let_def)
  have rm: "sleep_sorted s ts \<Longrightarrow> sleep_sorted s (remove1 u ts)" for s ts u by (simp add: sleep_sorted_def sorted_map_remove1)
  show ?thesis
  proof (rule kernel_frame [OF ok, where rq' = rq' and tq' = tq and wq' = "wq(SleepQ d := remove1 t (wq (SleepQ d)))"])
    fix v assume v: "state (thr (k_sched k) v) = KTHREAD_STATE_BLOCKED" "\<forall>a\<in>wait_queues M. v \<notin> set (wq a)"
    then have "v \<noteq> t" using True by auto
    then show "state (thr (k_sched (put_sched ?s k)) v) = KTHREAD_STATE_BLOCKED \<and>
        (\<forall>a\<in>wait_queues M. v \<notin> set ((wq(SleepQ d := remove1 t (wq (SleepQ d)))) a))"
      using v w(2) by (auto dest: notin_set_remove1)
  qed (use K w steady_fixed [OF st] rm in auto)
qed

lemma soft_ok:
  assumes ok: "kernel_ok k M T rq wq tq" and "soft_inv st T' tq'" and "tsched st = k_sched k"
  shows "kernel_inv (k\<lparr>k_time := st\<rparr>) M T'"
proof -
  have "ntf_view (k\<lparr>k_time := st\<rparr>) = ntf_view k" using assms(3) by (simp add: ntf_view_def)
  then have "kernel_ok (k\<lparr>k_time := st\<rparr>) M T' rq wq tq'" using ok assms(2,3) unfolding kernel_ok_def by (simp del: with_time)
  then show ?thesis by (rule kernel_okI)
qed

lemma start_timer_ok:
  assumes ok: "kernel_ok k M T rq wq tq" and "c < CONFIG_MAX_CPUS" and "t \<in> T"
  shows "\<exists>st. start_timer c t d i (k_time k) = Some st \<and> kernel_inv (k\<lparr>k_time := st\<rparr>) M T"
proof -
  obtain st tq' where st: "start_timer c t d i (k_time k) = Some st" "soft_inv st T tq'" "tsched st = k_sched k"
    using start_timer_inv [OF kernel_okD(3) [OF ok] assms(2,3), of d i] by (fastforce simp: upd_timer_def)
  then show ?thesis using soft_ok [OF ok st(2,3)] by blast
qed

section \<open>Notifications\<close>

lemma ntf_ok:
  assumes ok: "kernel_ok k M T rq wq tq" and n: "ntf_inv st (wait_queues M) rq' wq" and s: "steady (k_sched k) (nsched st)"
  shows "kernel_inv (put_ntf st k) M T"
proof -
  have "kernel_ok (put_ntf st k) M T rq' wq tq"
    using kernel_okD [OF ok] n steady_fixed [OF s] by (simp add: kernel_ok_def)
  then show ?thesis by (rule kernel_okI)
qed

lemma put_ntf_same: "put_ntf (ntf_view k) k = k"
  by (simp add: put_ntf_def put_sched_def ntf_view_def)

lemma create_steady: "nsched (snd (snd (ipc_notification_create owner out st))) = nsched st"
  by (auto simp: ipc_notification_create_def alloc_notify_index_def Let_def upd_ntf_def split: prod.splits sum.splits)

lemma wait_ok_call:
  assumes ok: "kernel_ok k M T rq wq tq" and run: "ready_to_run g c (k_sched k)" and b: "busy c k" and l: "live i k"
  shows "\<exists>r v st. ipc_notification_wait g c i msk True (ntf_view k) = Some (r, v, st) \<and> kernel_inv (put_ntf st k) M T"
proof (cases "msk = 0 \<or> get_notification i (ntf_view k) = None")
  case True
  then have "ipc_notification_wait g c i msk True (ntf_view k) = Some (Returns (Err EINVAL), None, ntf_view k)"
    by (auto simp: ipc_notification_wait_def)
  then show ?thesis using kernel_okI [OF ok] by (auto simp: put_ntf_same)
next
  case False
  then obtain n where n: "get_notification i (ntf_view k) = Some n" "msk \<noteq> 0" by auto
  note K = kernel_okD [OF ok]
  have c: "c < CONFIG_MAX_CPUS" using run by (simp add: ready_to_run_def)
  obtain t where t: "current_thread (cpu_q (k_sched k) c) = Some t" using run by (auto simp: ready_to_run_def)
  have i: "idle_thread (cpu_q (k_sched k) c) \<noteq> Some t" using b t by (simp add: busy_def)
  have nf: "n \<notin> nfree (ntf_view k)" using l n(1) by (simp add: live_def)
  show ?thesis
  proof (cases "signals (s_notifications (ntf_view k) n) AND msk = 0")
    case True
    obtain s' rq' st where w: "ipc_notification_wait g c i msk True (ntf_view k) = Some (Blocks, None, st)" "ntf_inv st (wait_queues M) rq' wq"
        "nsched st = s'" "calm (k_sched k) s'"
      using wait_blocks [OF K(1) n(1) nf, of g c t msk] run t i n(2) True by auto
    have "kernel_ok (put_ntf st k) M T rq' wq tq"
      using K w tuned_calm [OF K(2) w(4)] sleep_calm [OF K(6) _ w(4)] by (simp add: kernel_ok_def)
    then show ?thesis using w(1) kernel_okI by blast
  next
    case False
    let ?st = "upd_ntf n (\<lambda>x. x\<lparr>signals := signals x AND NOT (signals (s_notifications (ntf_view k) n) AND msk), n_state := IPC_NOTIFY_IDLE\<rparr>) (ntf_view k)"
    have "kernel_inv (put_ntf ?st k) M T" by (rule ntf_ok [OF ok ntf_inv_upd [OF K(1)]]) simp_all
    then show ?thesis using wait_returns [OF n(1) c, of t msk g] t False by auto
  qed
qed

lemma destroy_ok:
  assumes ok: "kernel_ok k M T rq wq tq" and c: "c < CONFIG_MAX_CPUS" and l: "live i k"
  shows "\<exists>r st. ipc_notification_destroy c i (ntf_view k) = Some (r, st) \<and> kernel_inv (put_ntf st k) M T"
proof (cases "get_notification i (ntf_view k)")
  case None
  then show ?thesis using kernel_okI [OF ok] by (auto simp: ipc_notification_destroy_def put_ntf_same)
next
  case (Some n)
  have "n \<notin> nfree (ntf_view k)" using l Some by (simp add: live_def)
  then obtain st rq' where st: "ipc_notification_destroy c i (ntf_view k) = Some (KERNEL_OK, st)" "ntf_inv st (wait_queues M) rq' wq"
    using destroy_eq [OF kernel_okD(1) [OF ok] c Some] by blast
  then show ?thesis using ntf_ok [OF ok st(2)] destroy_steady [OF st(1)] by auto
qed

section \<open>Every call\<close>

lemma exec_ok:
  assumes inv: "kernel_inv k M T" and a: "allowed E M T call k" and q: "callback_quiet (callbacks E)"
  shows "\<exists>k'. exec E call k = Some k' \<and> kernel_inv k' (M \<union> new_mutexes call) (T \<union> new_timers call)"
proof -
  obtain rq wq tq where ok: "kernel_ok k M T rq wq tq" using inv by (auto simp: kernel_inv_def)
  note K = kernel_okD [OF ok]
  show ?thesis
  proof (cases "sched_call E call")
    case (Some f)
    then have "exec E call = on_sched f" "new_mutexes call = {}" "new_timers call = {}" by (cases call; simp)+
    then show ?thesis using sched_call_ok [OF ok Some a] by simp
  next
    case None
    then show ?thesis
    proof (cases call)
      case (Irq c n)
      then show ?thesis using a irq_ok [OF ok _ _ q, of c _ n] by (auto simp: on_time_def)
    next
      case (Mutex_init m ceil)
      then show ?thesis using a mutex_init_ok [OF ok, of m ceil] by (simp add: on_mutex_def)
    next
      case (Lock c m)
      then show ?thesis using a lock_ok [OF ok, of "guard_bad E" c m] by (auto simp: on_mutex_def)
    next
      case (Unlock c m)
      then show ?thesis using a unlock_ok [OF ok, of c m _ "guard_bad E"] by (fastforce simp: on_mutex_def)
    next
      case (Try_lock c m)
      then show ?thesis using a try_lock_ok [OF ok, of c m] by (simp add: on_mutex_def)
    next
      case (Sleep_ticks c n)
      then show ?thesis using a sleep_ok [OF ok, of "guard_bad E" c n] by (auto simp: on_time_def)
    next
      case (Sleep c ms)
      then show ?thesis using a sleep_ok [OF ok, of "guard_bad E" c] by (fastforce simp: on_time_def kthread_sleep_def)
    next
      case (Wakeup c t)
      then show ?thesis using a wakeup_ok [OF ok, of c t] by (simp add: on_sched_def)
    next
      case (Timer_init_soft t f x)
      then show ?thesis
        using a soft_ok [OF ok timer_init_soft_inv [OF K(3)], of t f x] by (simp add: on_time_def timer_init_soft_def upd_timer_def)
    next
      case (Timer_oneshot c t ms)
      then show ?thesis using a start_timer_ok [OF ok, of c t] by (fastforce simp: on_time_def timer_start_oneshot_def)
    next
      case (Timer_periodic c t ms)
      then show ?thesis using a start_timer_ok [OF ok, of c t] by (fastforce simp: on_time_def timer_start_periodic_def)
    next
      case (Timer_stop t)
      then show ?thesis
        using a soft_ok [OF ok timer_stop_inv [OF K(3)], of t] by (simp add: on_time_def timer_stop_def unqueue_timer_def upd_timer_def)
    next
      case (Notify_create own)
      then show ?thesis using ntf_ok [OF ok create_inv [OF K(1)], of own True] create_steady by (simp add: on_ntf_def)
    next
      case (Notify_destroy c i)
      then show ?thesis using a destroy_ok [OF ok, of c i] by (auto simp: on_ntf_def)
    next
      case (Notify_signal c i sig)
      then obtain rq' where "ntf_inv (snd (ipc_notification_signal c i sig (ntf_view k))) (wait_queues M) rq' wq"
        using a signal_inv [OF K(1), of c i sig] by auto
      then show ?thesis using ntf_ok [OF ok] signal_steady [of "ntf_view k" c i sig] Notify_signal by (simp add: on_ntf_def)
    next
      case (Notify_wait c i msk)
      then show ?thesis using a wait_ok_call [OF ok, of "guard_bad E" c i msk] by (auto simp: on_ntf_def)
    next
      case (Notify_resumed n msk)
      then show ?thesis
        using ntf_ok [OF ok resumed_inv [OF K(1)], of n msk] by (simp add: on_ntf_def notification_resumed_def Let_def)
    next
      case (Notify_try_wait i msk)
      have "nsched (snd (snd (ipc_notification_try_wait i msk True (ntf_view k)))) = k_sched k"
        by (simp add: ipc_notification_try_wait_def Let_def split: option.split)
      then show ?thesis using ntf_ok [OF ok try_wait_inv [OF K(1)], of i msk True] Notify_try_wait by (simp add: on_ntf_def)
    qed (use None in simp_all)
  qed
qed

end
