(* ===== verification/Kernel_Boot.thy ===== *)
theory Kernel_Boot
  imports Kernel_Steps
begin

text \<open>The start of the system establishes the invariant, so every state the kernel reaches has it.\<close>

section \<open>Time\<close>

definition init_queues :: "nat \<Rightarrow> timer_sys \<Rightarrow> timer_sys" where
  "init_queues i st = st\<lparr>tlinks := INIT_LIST_HEAD (Some (TimerQ i)) (tlinks st), tsched := upd_slinks (INIT_LIST_HEAD (Some (SleepQ i))) (tsched st)\<rparr>"

lemma init_queues_self:
  "dll (tlinks (fold init_queues cs st)) n [] \<longleftrightarrow> n \<in> TimerQ ` set cs \<or> dll (tlinks st) n []"
  "dll (slinks (tsched (fold init_queues cs st))) a [] \<longleftrightarrow> a \<in> SleepQ ` set cs \<or> dll (slinks (tsched st)) a []"
  by (induction cs arbitrary: st) (auto simp: init_queues_def upd_slinks_def init_self)

lemma init_queues_frame:
  "\<exists>h. tsched (fold init_queues cs st) = (tsched st)\<lparr>slinks := h\<rparr>"
proof (induction cs arbitrary: st)
  case Nil
  show ?case by (rule exI [of _ "slinks (tsched st)"]) simp
next
  case (Cons c cs)
  obtain h where "tsched (fold init_queues cs (init_queues c st)) = (tsched (init_queues c st))\<lparr>slinks := h\<rparr>" using Cons by blast
  moreover have "(tsched (init_queues c st))\<lparr>slinks := h\<rparr> = (tsched st)\<lparr>slinks := h\<rparr>" by (simp add: init_queues_def upd_slinks_def)
  ultimately have "tsched (fold init_queues (c # cs) st) = (tsched st)\<lparr>slinks := h\<rparr>" by simp
  then show ?case by blast
qed

lemma timer_init_links:
  shows "c < CONFIG_MAX_CPUS \<Longrightarrow> dll (tlinks (timer_init freq n st)) (TimerQ c) []"
    and "c < CONFIG_MAX_CPUS \<Longrightarrow> dll (slinks (tsched (timer_init freq n st))) (SleepQ c) []"
    and "\<exists>h. tsched (timer_init freq n st) = (tsched st)\<lparr>slinks := h\<rparr>"
proof -
  let ?st = "fold init_queues [0..<CONFIG_MAX_CPUS] (st\<lparr>s_counter_freq := freq, s_system_ticks := 0\<rparr>)"
  have e: "tlinks (timer_init freq n st) = tlinks ?st" "tsched (timer_init freq n st) = tsched ?st"
    by (simp_all add: timer_init_def timer_set_next_compare_def init_queues_def [abs_def] Let_def del: upt_rec_numeral)
  show "c < CONFIG_MAX_CPUS \<Longrightarrow> dll (tlinks (timer_init freq n st)) (TimerQ c) []"
    "c < CONFIG_MAX_CPUS \<Longrightarrow> dll (slinks (tsched (timer_init freq n st))) (SleepQ c) []"
    unfolding e init_queues_self by (simp_all del: upt_rec_numeral)
  show "\<exists>h. tsched (timer_init freq n st) = (tsched st)\<lparr>slinks := h\<rparr>"
    unfolding e using init_queues_frame [of "[0..<CONFIG_MAX_CPUS]" "st\<lparr>s_counter_freq := freq, s_system_ticks := 0\<rparr>"] by simp
qed

lemma timer_init_soft_inv_empty: "soft_inv (timer_init freq n st) {} (\<lambda>_. [])"
proof -
  have "timer_nodes (\<lambda>_. []) = (\<lambda>_. [])" by (auto simp: timer_nodes_def fun_eq_iff split: timer_node.split)
  then show ?thesis using timer_init_links(1) by (auto simp: soft_inv_def intro!: rings_initial)
qed

section \<open>Notifications\<close>

lemma notify_init_inv:
  assumes "sched_inv (nsched st) W rq wq" and "tids_ok (nsched st)"
  shows "ntf_inv (ipc_notification_subsys_init st) W rq wq"
proof -
  let ?st = "ipc_notification_subsys_init st"
  have f: "nsched ?st = nsched st" "n < CONFIG_IPC_MAX_NOTIFICATIONS \<Longrightarrow> n_state (s_notifications ?st n) = IPC_NOTIFY_IDLE" for n
    by (simp_all add: ipc_notification_subsys_init_def)
  have "stack_ok CONFIG_IPC_MAX_NOTIFICATIONS CONFIG_IPC_MAX_NOTIFICATIONS
      (map (\<lambda>i. CONFIG_IPC_MAX_NOTIFICATIONS - 1 - i) [0..<CONFIG_IPC_MAX_NOTIFICATIONS])"
    by (auto simp: stack_ok_def distinct_map inj_on_def simp del: upt_rec_numeral)
  then have "npool_ok ?st" by (simp add: npool_ok_def ipc_notification_subsys_init_def del: upt_rec_numeral)
  moreover have "\<not> waits ?st n t" for n t using f(2) [of n] by (auto simp: waits_def)
  then have "waiters_ok ?st W wq" using f(2) by (simp add: waiters_ok_def)
  ultimately show ?thesis using assms f(1) by (simp add: ntf_inv_def)
qed

section \<open>The kernel\<close>

definition raw_kernel :: "kernel \<Rightarrow> bool" where
  "raw_kernel k \<longleftrightarrow> \<not> initialized (k_sched k) \<and> s_sched_class_head (k_sched k) = None \<and> class_next (k_sched k) sched_rr = None \<and>
     (\<forall>d<CONFIG_MAX_CPUS. lb_interval (k_sched k) d \<noteq> 0)"

lemma kernel_boot_ok:
  assumes raw: "raw_kernel k" and en: "en \<noteq> 0" and sl: "\<And>c. c < CONFIG_MAX_CPUS \<Longrightarrow> sl c 1 \<noteq> 0 \<and> sl c 1 + 8192 \<noteq> 0"
  shows "\<exists>k'. kernel_boot g sl hs he en freq n k = Some k' \<and> kernel_inv k' {} {} \<and> idles_done (wait_queues {}) CONFIG_MAX_CPUS (k_sched k')"
proof -
  define ts where "ts = timer_init freq n (k_time k)"
  obtain h where h: "tsched ts = (k_sched k)\<lparr>slinks := h\<rparr>" using timer_init_links(3) unfolding ts_def by blast
  have W: "wait_queues {} \<subseteq> wait_heads" by (auto simp: wait_queues_def wait_heads_def)
  have l: "dll (slinks (tsched ts)) a []" if "a \<in> wait_queues {}" for a
    using that timer_init_links(2) unfolding ts_def by (auto simp: wait_queues_def)
  have r: "\<not> initialized (tsched ts)" "s_sched_class_head (tsched ts) = None" "class_next (tsched ts) sched_rr = None"
    "lb_interval (tsched ts) = lb_interval (k_sched k)" using raw by (simp_all add: h raw_kernel_def)
  obtain s where s: "scheduler_init g sl hs he en True 0 (tsched ts) = Some (KERNEL_OK, s)" "idles_done (wait_queues {}) CONFIG_MAX_CPUS s"
      "lb_interval s = lb_interval (k_sched k)"
    using scheduler_init_done [where W = "wait_queues {}" and sl = sl, OF r(1-3) en _ W l, of g hs he] sl r(4) by auto
  note D = idles_doneD [OF s(2)]
  let ?k1 = "put_sched s (k\<lparr>k_time := ts\<rparr>)"
  let ?k = "put_ntf (ipc_notification_subsys_init (ntf_view ?k1)) ?k1"
  have ns: "nsched (ipc_notification_subsys_init st) = nsched st" for st by (simp add: ipc_notification_subsys_init_def)
  have b: "kernel_boot g sl hs he en freq n k = Some ?k" using s(1) by (simp add: kernel_boot_def ts_def [symmetric] Let_def)
  have "tids_ok s" "tuned s" using D(8,9) raw s(3) by (simp_all add: tids_ok_def tuned_def raw_kernel_def)
  moreover have "ntf_inv (ipc_notification_subsys_init (ntf_view ?k1)) (wait_queues {}) (boot_rq CONFIG_MAX_CPUS) (\<lambda>_. [])"
    by (rule notify_init_inv) (use D(1) calculation(1) in simp_all)
  ultimately have "kernel_ok ?k {} {} (boot_rq CONFIG_MAX_CPUS) (\<lambda>_. []) (\<lambda>_. [])"
    using timer_init_soft_inv_empty [of freq n "k_time k"]
    by (simp add: kernel_ok_def ns sleep_sorted_def) (simp add: ntf_view_def ts_def)
  moreover have "k_sched ?k = s" by (simp add: ns)
  ultimately show ?thesis using b s(2) kernel_okI by auto
qed

text \<open>The states that a system with environment \<open>E\<close> reaches, with the mutexes and the software timers initialised so far.\<close>

inductive kernel_reach :: "kernel_env \<Rightarrow> nat set \<Rightarrow> nat set \<Rightarrow> kernel \<Rightarrow> bool" for E where
  boot: "\<lbrakk>raw_kernel k; en \<noteq> 0; \<And>c. c < CONFIG_MAX_CPUS \<Longrightarrow> sl c 1 \<noteq> 0 \<and> sl c 1 + 8192 \<noteq> 0;
      kernel_boot (guard_bad E) sl hs he en freq n k = Some k'\<rbrakk> \<Longrightarrow> kernel_reach E {} {} k'"
| call: "kernel_reach E M T k \<Longrightarrow> allowed E M T call k \<Longrightarrow> exec E call k = Some k' \<Longrightarrow>
    kernel_reach E (M \<union> new_mutexes call) (T \<union> new_timers call) k'"

lemma kernel_reach_inv:
  assumes "kernel_reach E M T k" and q: "callback_quiet (callbacks E)"
  shows "kernel_inv k M T"
  using assms(1)
proof (induction rule: kernel_reach.induct)
  case (boot k en sl hs he freq n k')
  then show ?case using kernel_boot_ok [of k en sl "guard_bad E" hs he freq n] by auto
next
  case (call M T k c k')
  then show ?case using exec_ok [OF call.IH call.hyps(2) q] by auto
qed

end
