(* ===== verification/Sched_Scenario.thy ===== *)
theory Sched_Scenario
  imports Sched_Properties
begin

text \<open>
  Concrete reachable states of the scheduler: after initialisation, after the start of CPU 0, and with two more threads.
\<close>

section \<open>A concrete history\<close>

definition demo_raw_sched :: sched where
  "demo_raw_sched = \<lparr>
     cpu_queues = (\<lambda>_. \<lparr>bitmap = \<lparr>bits = (\<lambda>_. 0)\<rparr>, nr_running = 0, current_thread = None, idle_thread = None, need_resched = 0\<rparr>),
     thread_table = (\<lambda>_. \<lparr>tid = 0, pid = 0, state = KTHREAD_STATE_DEAD, entry = 0, entry_arg = 0, stack_base = 0, stack_size = 0,
       prio = 0, policy = KTHREAD_POLICY_FIFO, time_slice = 0, time_slice_reload = 0, affinity_mask = 0, sched_class = None,
       wakeup_tick = 0, kname = []\<rparr>),
     slinks = (\<lambda>_. \<lparr>lh_next = None, lh_prev = None\<rparr>), preempt_count = (\<lambda>_. 0), initialized = False,
     class_priority = (\<lambda>_. 100), class_next = (\<lambda>_. None), s_sched_class_head = None, s_default_sched_class = None,
     s_heap_ptr = 0, stack_slab_ready = False, s_schedule_count = (\<lambda>_. 0), lb_interval = (\<lambda>_. 100), lb_pending = (\<lambda>_. 0)\<rparr>"

text \<open>The stack caches answer with the addresses \<open>0x100000\<close>, \<open>0x110000\<close>, ...\<close>

definition demo_slab :: "nat \<Rightarrow> nat \<Rightarrow> u64" where
  "demo_slab c k = 0x100000 + of_nat c * 0x10000"

definition demo_init :: sched where
  "demo_init = snd (the (scheduler_init (\<lambda>_. False) demo_slab 0 0 0x8000 True 0 demo_raw_sched))"

definition demo_start :: sched where
  "demo_start = the (scheduler_start 0 demo_init)"

lemma demo_slab_ok: "c < CONFIG_MAX_CPUS \<Longrightarrow> demo_slab c 1 \<noteq> 0 \<and> demo_slab c 1 + 8192 \<noteq> 0"
proof -
  assume c: "c < CONFIG_MAX_CPUS"
  have "unat (of_nat c * 0x10000 :: u64) = c * 0x10000"
    using c by (simp add: unat_word_ariths unat_of_nat take_bit_eq_mod)
  then have "unat (demo_slab c 1) = 0x100000 + c * 0x10000" "unat (demo_slab c 1 + 8192) = 0x100000 + c * 0x10000 + 8192"
    using c by (simp_all add: demo_slab_def unat_word_ariths)
  then show ?thesis by (metis add_eq_0_iff_both_eq_0 unat_0 zero_neq_numeral)
qed

lemma demo_raw_facts: "\<not> initialized demo_raw_sched" "s_sched_class_head demo_raw_sched = None" "class_next demo_raw_sched sched_rr = None"
  by (simp_all add: demo_raw_sched_def)

lemma demo_init_run:
  "scheduler_init (\<lambda>_. False) demo_slab 0 0 0x8000 True 0 demo_raw_sched = Some (KERNEL_OK, demo_init)" "idles_done {} CONFIG_MAX_CPUS demo_init"
  using scheduler_init_done [OF demo_raw_facts, of "0x8000" demo_slab "{}" "\<lambda>_. False" 0 0] demo_slab_ok by (auto simp: demo_init_def)

lemma demo_init_reach: "sched_reach demo_init"
  by (rule sched_reach.init [OF demo_raw_facts _ demo_slab_ok demo_init_run(1)]) simp_all

lemma boot_rq_next: "highest (boot_rq CONFIG_MAX_CPUS 0) = Some 0"
  by (auto simp: boot_rq_def highest_def)

lemma demo_start_run: "scheduler_start 0 demo_init = Some demo_start" "demo_start = start_first 0 0 demo_init"
proof -
  have "scheduler_start 0 demo_init = Some (start_first 0 0 demo_init)"
    using pick_next [OF sched_preD(1) [OF idles_doneD(1) [OF demo_init_run(2)]], of 0] boot_rq_next
    by (simp add: scheduler_start_def boot_rq_def)
  then show "scheduler_start 0 demo_init = Some demo_start" "demo_start = start_first 0 0 demo_init" by (simp_all add: demo_start_def)
qed

lemma demo_start_facts:
  "sched_reach demo_start" "sched_inv demo_start {} (\<lambda>_ _. []) (\<lambda>_. [])" "current_thread (cpu_q demo_start 0) = Some 0"
  "idle_thread (cpu_q demo_start 0) = Some 0" "ready_to_run (\<lambda>_. False) 0 demo_start"
proof -
  note D = idles_doneD [OF demo_init_run(2)]
  have n: "next_thread demo_init (boot_rq CONFIG_MAX_CPUS) 0 = Some 0" using boot_rq_next by (simp add: next_thread_def boot_rq_def)
  note st = start_inv [OF D(1) _ D(3) n, folded demo_start_run(2)]
  have "rq_take 0 (boot_rq CONFIG_MAX_CPUS) = (\<lambda>_ _. [])"
    using boot_rq_next by (auto simp: rq_take_def boot_rq_def rq_upd_def fun_eq_iff)
  then show "sched_inv demo_start {} (\<lambda>_ _. []) (\<lambda>_. [])" using st(1) by simp
  show c: "current_thread (cpu_q demo_start 0) = Some 0" using st(2) [of 0] by simp
  show i: "idle_thread (cpu_q demo_start 0) = Some 0" using st(3) [of 0] D(5) [of 0] by simp
  show "ready_to_run (\<lambda>_. False) 0 demo_start" using c i by (simp add: ready_to_run_def)
  show "sched_reach demo_start"
    by (rule sched_reach.step [OF demo_init_reach], rule sched_step.start [of 0]) (use D(3) demo_start_run in auto)
qed

text \<open>Two threads of priority 5 under the round-robin policy join the idle thread.\<close>

definition demo_thread :: "sched \<Rightarrow> sched" where
  "demo_thread s = snd (the (kthread_create (\<lambda>_. False) (demo_slab 9) 0 0 0 (Some ''worker'') 0x9000 0 5 KTHREAD_POLICY_RR 4096 s))"

definition demo_one :: sched where "demo_one = demo_thread demo_start"
definition demo_pair :: sched where "demo_pair = demo_thread demo_one"

lemma find_dead:
  assumes "\<And>u. u < t \<Longrightarrow> state (thr s u) \<noteq> KTHREAD_STATE_DEAD" and "state (thr s t) = KTHREAD_STATE_DEAD" and "t < MAX_THREADS"
  shows "find (\<lambda>t. state (thr s t) = KTHREAD_STATE_DEAD) [0..<MAX_THREADS] = Some t"
  using assms by (auto simp: find_Some_iff simp del: upt_rec_numeral intro!: exI [of _ t])

lemma demo_thread_step:
  assumes inv: "sched_inv s {} rq (\<lambda>_. [])" and reach: "sched_reach s" and run: "ready_to_run (\<lambda>_. False) 0 s"
    and q: "need_resched (cpu_q s 0) = 0" "stack_slab_ready s"
    and st: "\<And>u. u < MAX_THREADS \<Longrightarrow> state (thr s u) = KTHREAD_STATE_DEAD \<longleftrightarrow> t \<le> u" and t: "t < MAX_THREADS"
  shows "sched_reach (demo_thread s)" "sched_inv (demo_thread s) {} (rq_upd 0 5 (rq 0 5 @ [t]) rq) (\<lambda>_. [])"
    "thread_table (demo_thread s) = (thread_table s)(t := new_thread (thr s t) t ''worker'' 0x9000 0 5 KTHREAD_POLICY_RR 4096 (demo_slab 9 0 + 4096))"
    "current_thread (cpu_q (demo_thread s) d) = current_thread (cpu_q s d)" "idle_thread (cpu_q (demo_thread s) d) = idle_thread (cpu_q s d)"
    "need_resched (cpu_q (demo_thread s) d) = need_resched (cpu_q s d)" "stack_slab_ready (demo_thread s)"
proof -
  have c: "clamp_stack_size 4096 = 4096" "select_stack_cache 4096 = Inr 0" "(0 :: nat) < CONFIG_MAX_CPUS"
    by (simp_all add: clamp_stack_size_def select_stack_cache_def)
  have sl: "demo_slab 9 0 \<noteq> 0" "demo_slab 9 0 + ucast (4096 :: u32) \<noteq> 0" by (simp_all add: demo_slab_def)
  have f: "find (\<lambda>t. state (thr s t) = KTHREAD_STATE_DEAD) [0..<MAX_THREADS] = Some t" using st t by (intro find_dead) auto
  note cr = create_quiet [OF inv c(3) q(1) f _ q(2), where n = 4096 and sl = "demo_slab 9" and k = 0 and en = "0x9000" and g = "\<lambda>_. False"
      and hs = 0 and he = 0 and nm = "''worker''" and arg = 0 and pr = 5 and pol = KTHREAD_POLICY_RR, unfolded c(1), OF _ c(2) sl]
  then obtain s' where s': "kthread_create (\<lambda>_. False) (demo_slab 9) 0 0 0 (Some ''worker'') 0x9000 0 5 KTHREAD_POLICY_RR 4096 s = Some (of_nat t, s')"
      "sched_inv s' {} (rq_upd 0 5 (rq 0 5 @ [t]) rq) (\<lambda>_. [])"
      "thread_table s' = (thread_table s)(t := new_thread (thr s t) t ''worker'' 0x9000 0 5 KTHREAD_POLICY_RR 4096 (demo_slab 9 0 + 4096))"
      "\<forall>d. current_thread (cpu_q s' d) = current_thread (cpu_q s d) \<and> idle_thread (cpu_q s' d) = idle_thread (cpu_q s d) \<and>
        need_resched (cpu_q s' d) = need_resched (cpu_q s d)" "stack_slab_ready s' = stack_slab_ready s"
    by auto
  have e: "demo_thread s = s'" using s'(1) by (simp add: demo_thread_def)
  show "sched_reach (demo_thread s)"
    by (rule sched_reach.step [OF reach], rule sched_step.create [OF run]) (use s'(1) e in auto)
  show "sched_inv (demo_thread s) {} (rq_upd 0 5 (rq 0 5 @ [t]) rq) (\<lambda>_. [])"
    "thread_table (demo_thread s) = (thread_table s)(t := new_thread (thr s t) t ''worker'' 0x9000 0 5 KTHREAD_POLICY_RR 4096 (demo_slab 9 0 + 4096))"
    "current_thread (cpu_q (demo_thread s) d) = current_thread (cpu_q s d)" "idle_thread (cpu_q (demo_thread s) d) = idle_thread (cpu_q s d)"
    "need_resched (cpu_q (demo_thread s) d) = need_resched (cpu_q s d)" "stack_slab_ready (demo_thread s)"
    using s' q(2) by (simp_all add: e)
qed

lemma demo_start_table:
  "u < MAX_THREADS \<Longrightarrow> state (thr demo_start u) = KTHREAD_STATE_DEAD \<longleftrightarrow> 8 \<le> u" "need_resched (cpu_q demo_start 0) = 0" "stack_slab_ready demo_start"
  "state (thr demo_start 0) = KTHREAD_STATE_RUNNING" "prio (thr demo_start 0) = 0"
proof -
  note D = idles_doneD [OF demo_init_run(2)]
  have "thr demo_start u = (if u = 0 then (thr demo_init 0)\<lparr>state := KTHREAD_STATE_RUNNING\<rparr> else thr demo_init u)" for u
    unfolding demo_start_run(2) by (simp add: start_first_def scheduler_load_current_def scheduler_dequeue_def upd_thr_def upd_cpu_def)
  then show "u < MAX_THREADS \<Longrightarrow> state (thr demo_start u) = KTHREAD_STATE_DEAD \<longleftrightarrow> 8 \<le> u" "state (thr demo_start 0) = KTHREAD_STATE_RUNNING"
    "prio (thr demo_start 0) = 0" using D(6) [of u] D(7) [of 0] by auto
  show "need_resched (cpu_q demo_start 0) = 0" "stack_slab_ready demo_start"
    unfolding demo_start_run(2) using D(2) D(4) [of 0]
    by (simp_all add: start_first_def scheduler_load_current_def scheduler_dequeue_def upd_thr_def upd_cpu_def sched_dequeue_locked_def
        upd_bitmap_def upd_slinks_def Let_def)
qed

lemmas demo_one_step = demo_thread_step [OF demo_start_facts(2,1,5) demo_start_table(2,3), of 8, folded demo_one_def]

lemma demo_one_facts:
  "sched_reach demo_one" "sched_inv demo_one {} (rq_upd 0 5 [8] (\<lambda>_ _. [])) (\<lambda>_. [])" "current_thread (cpu_q demo_one 0) = Some 0"
  "idle_thread (cpu_q demo_one 0) = Some 0" "ready_to_run (\<lambda>_. False) 0 demo_one" "need_resched (cpu_q demo_one 0) = 0"
  "stack_slab_ready demo_one" "u < MAX_THREADS \<Longrightarrow> state (thr demo_one u) = KTHREAD_STATE_DEAD \<longleftrightarrow> 9 \<le> u"
  "state (thr demo_one 0) = KTHREAD_STATE_RUNNING" "prio (thr demo_one 0) = 0" "prio (thr demo_one 8) = 5"
proof -
  note s = demo_one_step [OF demo_start_table(1)]
  show "sched_reach demo_one" "sched_inv demo_one {} (rq_upd 0 5 [8] (\<lambda>_ _. [])) (\<lambda>_. [])" using s(1,2) by simp_all
  show c: "current_thread (cpu_q demo_one 0) = Some 0" "idle_thread (cpu_q demo_one 0) = Some 0" "need_resched (cpu_q demo_one 0) = 0"
    "stack_slab_ready demo_one" using s(4-7) demo_start_facts(3,4) demo_start_table(2) by simp_all
  show "ready_to_run (\<lambda>_. False) 0 demo_one" using c by (simp add: ready_to_run_def)
  show "u < MAX_THREADS \<Longrightarrow> state (thr demo_one u) = KTHREAD_STATE_DEAD \<longleftrightarrow> 9 \<le> u"
    "state (thr demo_one 0) = KTHREAD_STATE_RUNNING" "prio (thr demo_one 0) = 0" "prio (thr demo_one 8) = 5"
    using s(3) demo_start_table(1) [of u] demo_start_table(4,5) by (auto simp: new_thread_def)
qed

lemmas demo_pair_step = demo_thread_step [OF demo_one_facts(2,1,5-7), of 9, folded demo_pair_def]

lemma demo_pair_facts:
  "sched_reach demo_pair" "sched_inv demo_pair {} (rq_upd 0 5 [8, 9] (\<lambda>_ _. [])) (\<lambda>_. [])" "current_thread (cpu_q demo_pair 0) = Some 0"
  "idle_thread (cpu_q demo_pair 0) = Some 0" "ready_to_run (\<lambda>_. False) 0 demo_pair"
  "state (thr demo_pair 0) = KTHREAD_STATE_RUNNING" "prio (thr demo_pair 0) = 0" "prio (thr demo_pair 8) = 5" "prio (thr demo_pair 9) = 5"
proof -
  note s = demo_pair_step [OF demo_one_facts(8)]
  have "rq_upd 0 5 [8, 9] (rq_upd 0 5 [8] (\<lambda>_ _. [])) = rq_upd 0 5 [8, 9] (\<lambda>_ _. [])" by (simp add: rq_upd_def)
  then show "sched_reach demo_pair" "sched_inv demo_pair {} (rq_upd 0 5 [8, 9] (\<lambda>_ _. [])) (\<lambda>_. [])" using s(1,2) by simp_all
  show c: "current_thread (cpu_q demo_pair 0) = Some 0" "idle_thread (cpu_q demo_pair 0) = Some 0" using s(4,5) demo_one_facts(3,4) by simp_all
  show "ready_to_run (\<lambda>_. False) 0 demo_pair" using c by (simp add: ready_to_run_def)
  show "state (thr demo_pair 0) = KTHREAD_STATE_RUNNING" "prio (thr demo_pair 0) = 0" "prio (thr demo_pair 8) = 5" "prio (thr demo_pair 9) = 5"
    using s(3) demo_one_facts(9-11) by (simp_all add: new_thread_def)
qed

end
