(* ===== verification/Sched_Claims.thy ===== *)
theory Sched_Claims
  imports Sched_Scenario
begin

text \<open>
  The properties of the scheduler, each with an instance on the histories of \<^verbatim>\<open>Sched_Scenario\<close>.
\<close>



text \<open>
  \<^verbatim>\<open>scheduler_init\<close> on the zeroed tables succeeds when the stack caches answer, and leaves a well-formed state with one idle thread
  per CPU, thread \<open>c\<close> for CPU \<open>c\<close>, of which only that of CPU 0 waits in a queue.
\<close>

theorem scheduler_init_exact:
  assumes "\<not> initialized s" and "s_sched_class_head s = None" and "class_next s sched_rr = None" and "en \<noteq> 0"
    and "\<And>c. c < CONFIG_MAX_CPUS \<Longrightarrow> sl c 1 \<noteq> 0 \<and> sl c 1 + 8192 \<noteq> 0"
  shows "\<exists>s'. scheduler_init g sl hs he en True 0 s = Some (KERNEL_OK, s') \<and> initialized s' \<and>
    sched_inv s' {} (\<lambda>c p. if c = 0 \<and> p = 0 then [0] else []) (\<lambda>_. []) \<and>
    (\<forall>c<CONFIG_MAX_CPUS. idle_thread (cpu_q s' c) = Some c \<and> current_thread (cpu_q s' c) = None)"
proof -
  obtain s' where s': "scheduler_init g sl hs he en True 0 s = Some (KERNEL_OK, s')" "idles_done {} CONFIG_MAX_CPUS s'" "initialized s'"
    using scheduler_init_done [OF assms(1-4), of sl "{}" g hs he] assms(5) by blast
  have "boot_rq CONFIG_MAX_CPUS = (\<lambda>c p. if c = 0 \<and> p = 0 then [0] else [])" by (auto simp: boot_rq_def rq_upd_def fun_eq_iff)
  then show ?thesis using s' idles_doneD [OF s'(2)] by auto
qed

theorem scheduler_init_exact_witness:
  "\<exists>s'. scheduler_init (\<lambda>_. False) demo_slab 0 0 0x8000 True 0 demo_raw_sched = Some (KERNEL_OK, s') \<and> initialized s' \<and>
    sched_inv s' {} (\<lambda>c p. if c = 0 \<and> p = 0 then [0] else []) (\<lambda>_. []) \<and>
    (\<forall>c<CONFIG_MAX_CPUS. idle_thread (cpu_q s' c) = Some c \<and> current_thread (cpu_q s' c) = None)"
  using scheduler_init_exact [OF demo_raw_facts, of "0x8000" demo_slab "\<lambda>_. False" 0 0] demo_slab_ok by simp

text \<open>
  (C14) \<^verbatim>\<open>schedule\<close> returns and makes the right thread current: the one that waits longest at the highest priority at which a thread
  waits on this CPU, or the idle thread when none waits.  A thread that was running goes to the end of the queue of its
  priority; other threads keep their control blocks, and the state stays well formed.
\<close>

theorem schedule_exact:
  assumes "sched_inv s W rq wq" and "ready_to_run g c s" and "current_thread (cpu_q s c) = Some p"
  shows "\<exists>s' t. schedule g c s = Some s' \<and> current_thread (cpu_q s' c) = Some t \<and>
    (if \<forall>q. rq c q = [] then idle_thread (cpu_q s c) = Some t
     else \<exists>q. rq c q \<noteq> [] \<and> t = hd (rq c q) \<and> (\<forall>r>q. rq c r = [])) \<and>
    sched_inv s' W (after_switch s c p t rq) wq \<and> thread_table s' = switched s p t \<and>
    (\<forall>d. d \<noteq> c \<longrightarrow> current_thread (cpu_q s' d) = current_thread (cpu_q s d))"
proof -
  have c: "c < CONFIG_MAX_CPUS" "idle_thread (cpu_q s c) \<noteq> None" "\<not> g p" using assms(2,3) by (auto simp: ready_to_run_def)
  obtain t where t: "next_thread s rq c = Some t" using next_thread_exists [OF c(2)] by blast
  note pre = sched_inv_pre [OF assms(1), of "Some c"]
  note f = scheduled_fields [OF pre c(1) assms(3) t] note e = schedule_eq [OF pre c(1) assms(3) t, of g]
  have "if \<forall>q. rq c q = [] then idle_thread (cpu_q s c) = Some t else \<exists>q. rq c q \<noteq> [] \<and> t = hd (rq c q) \<and> (\<forall>r>q. rq c r = [])"
  proof (cases "highest (rq c)")
    case None
    then show ?thesis using t by (auto simp: next_thread_def highest_def split: if_splits)
  next
    case (Some q)
    then show ?thesis using t highestD [OF Some] by (auto simp: next_thread_def)
  qed
  then show ?thesis using e c(3) f(1,2) scheduled_inv [OF pre c(1) assms(3) t] by auto
qed

theorem schedule_exact_witness:
  "\<exists>s'. schedule (\<lambda>_. False) 0 demo_pair = Some s' \<and> current_thread (cpu_q s' 0) = Some 8"
proof -
  let ?rq = "rq_upd 0 5 [8, 9] (\<lambda>_ _. []) :: nat \<Rightarrow> u8 \<Rightarrow> nat list"
  have h: "q = 5" if "?rq 0 q \<noteq> []" for q using that by (auto split: if_splits)
  have n: "(\<forall>q. ?rq 0 q = []) = False" by (auto intro!: exI [of _ 5])
  obtain s' t where s': "schedule (\<lambda>_. False) 0 demo_pair = Some s'" "current_thread (cpu_q s' 0) = Some t"
      "\<exists>q. ?rq 0 q \<noteq> [] \<and> t = hd (?rq 0 q) \<and> (\<forall>r>q. ?rq 0 r = [])"
    using schedule_exact [OF demo_pair_facts(2,5,3)] unfolding n if_False by blast
  then obtain q where q: "?rq 0 q \<noteq> []" "t = hd (?rq 0 q)" by blast
  have "t = 8" using q(2) h [OF q(1)] by simp
  then show ?thesis using s'(1,2) by simp
qed

section \<open>Turns\<close>

fun schedule_times :: "(nat \<Rightarrow> bool) \<Rightarrow> nat \<Rightarrow> nat \<Rightarrow> sched \<Rightarrow> sched option" where
  "schedule_times g c 0 s = Some s"
| "schedule_times g c (Suc n) s = Option.bind (schedule_times g c n s) (schedule g c)"

lemma highest_at:
  assumes "q p \<noteq> []" and "\<And>r. p < r \<Longrightarrow> q r = []"
  shows "highest q = Some p"
proof -
  have "Max {p. q p \<noteq> []} = p" using assms by (intro Max_eqI) (auto simp: not_less [symmetric])
  then show ?thesis using assms(1) by (auto simp: highest_def)
qed

lemma turn:
  assumes inv: "sched_inv s W (rq_upd c q (x # ys) rq) wq" and run: "ready_to_run (\<lambda>_. False) c s"
    and cur: "current_thread (cpu_q s c) = Some p" "prio (thr s p) = q" and hi: "\<And>r. q < r \<Longrightarrow> rq c r = []"
  shows "\<exists>s'. schedule (\<lambda>_. False) c s = Some s' \<and> sched_inv s' W (rq_upd c q (ys @ [p]) rq) wq \<and>
    current_thread (cpu_q s' c) = Some x \<and> (\<forall>t. prio (thr s' t) = prio (thr s t)) \<and> ready_to_run (\<lambda>_. False) c s'"
proof -
  let ?rq = "rq_upd c q (x # ys) rq"
  have c: "c < CONFIG_MAX_CPUS" "idle_thread (cpu_q s c) \<noteq> None" using run by (auto simp: ready_to_run_def)
  have h: "highest (?rq c) = Some q" by (rule highest_at) (use hi in auto)
  then have t: "next_thread s ?rq c = Some x" by (simp add: next_thread_def)
  note pre = sched_inv_pre [OF inv, of "Some c"]
  note f = scheduled_fields [OF pre c(1) cur(1) t] note e = schedule_eq [OF pre c(1) cur(1) t]
  have r: "state (thr s p) = KTHREAD_STATE_RUNNING" using current_okD(2) [OF sched_preD(3) [OF inv] c(1) cur(1)] by simp
  have "x \<noteq> p" using rq_invD(4) [OF sched_preD(1) [OF inv] c(1), of x q] r by auto
  then have a: "after_switch s c p x ?rq = rq_upd c q (ys @ [p]) rq"
    using h r cur(2) by (simp add: after_switch_def put_back_def rq_take_def rq_upd_def)
  have "schedule (\<lambda>_. False) c s = Some (scheduled c p x s)" using e by simp
  then show ?thesis
    using scheduled_inv [OF pre c(1) cur(1) t] a f c by (auto simp: switched_def ready_to_run_def)
qed

lemma turns:
  assumes "sched_inv s W (rq_upd c q xs rq) wq" and "ready_to_run (\<lambda>_. False) c s" and "current_thread (cpu_q s c) = Some p"
    and "prio (thr s p) = q" and hi: "\<And>r. q < r \<Longrightarrow> rq c r = []" and "xs \<noteq> []" and "c < CONFIG_MAX_CPUS"
  shows "\<exists>s'. schedule_times (\<lambda>_. False) c n s = Some s' \<and> sched_inv s' W (rq_upd c q (tl (rotate n (p # xs))) rq) wq \<and>
    current_thread (cpu_q s' c) = Some (hd (rotate n (p # xs))) \<and> (\<forall>t. prio (thr s' t) = prio (thr s t)) \<and>
    ready_to_run (\<lambda>_. False) c s'"
proof (induction n)
  case 0
  then show ?case using assms(1-3) by simp
next
  case (Suc n)
  let ?z = "rotate n (p # xs)"
  obtain s1 where s1: "schedule_times (\<lambda>_. False) c n s = Some s1" "sched_inv s1 W (rq_upd c q (tl ?z) rq) wq"
      "current_thread (cpu_q s1 c) = Some (hd ?z)" "\<forall>t. prio (thr s1 t) = prio (thr s t)" "ready_to_run (\<lambda>_. False) c s1"
    using Suc.IH by blast
  have "length ?z = Suc (length xs)" by simp
  then obtain y x ys where z: "?z = y # x # ys" using assms(6) by (cases ?z; cases "tl ?z") auto
  have "set ?z = insert p (set xs)" by simp
  moreover have "prio (thr s t) = q" if "t \<in> set xs" for t
    using rq_invD(5) [OF sched_preD(1) [OF assms(1)] assms(7), of t q] that by simp
  ultimately have "prio (thr s1 y) = q" using s1(4) assms(4) z by (metis insertE list.set_intros(1))
  then obtain s2 where "schedule (\<lambda>_. False) c s1 = Some s2" "sched_inv s2 W (rq_upd c q (ys @ [y]) rq) wq"
      "current_thread (cpu_q s2 c) = Some x" "\<forall>t. prio (thr s2 t) = prio (thr s1 t)" "ready_to_run (\<lambda>_. False) c s2"
    using turn [of s1 W c q x ys rq wq y] s1 z hi by auto
  moreover have "rotate (Suc n) (p # xs) = x # ys @ [y]" using z by simp
  ultimately show ?case using s1 by simp
qed

text \<open>
  (C15) Threads of one priority take turns.  While nothing waits at a higher priority, the \<open>n\<close>-th call of \<^verbatim>\<open>schedule\<close> makes
  the \<open>n\<close>-th thread of the circle of the current thread and the waiting ones current; after a full round every thread
  has run and the queues are as before.
\<close>

theorem schedule_round_robin:
  assumes "sched_inv s W rq wq" and "ready_to_run (\<lambda>_. False) c s" and "current_thread (cpu_q s c) = Some p"
    and "\<And>r. prio (thr s p) < r \<Longrightarrow> rq c r = []" and "rq c (prio (thr s p)) \<noteq> []"
  shows "(\<forall>i < length (rq c (prio (thr s p))). \<exists>s'. schedule_times (\<lambda>_. False) c (Suc i) s = Some s' \<and>
      current_thread (cpu_q s' c) = Some (rq c (prio (thr s p)) ! i)) \<and>
    (\<exists>s'. schedule_times (\<lambda>_. False) c (Suc (length (rq c (prio (thr s p))))) s = Some s' \<and>
      current_thread (cpu_q s' c) = Some p \<and> sched_inv s' W rq wq)"
proof -
  let ?q = "prio (thr s p)" let ?xs = "rq c ?q"
  have c: "c < CONFIG_MAX_CPUS" using assms(2) by (simp add: ready_to_run_def)
  have "rq_upd c ?q ?xs rq = rq" by (simp add: rq_upd_def)
  then have inv: "sched_inv s W (rq_upd c ?q ?xs rq) wq" using assms(1) by simp
  have t: "\<exists>s'. schedule_times (\<lambda>_. False) c n s = Some s' \<and> sched_inv s' W (rq_upd c ?q (tl (rotate n (p # ?xs))) rq) wq \<and>
      current_thread (cpu_q s' c) = Some (hd (rotate n (p # ?xs)))" for n
    using turns [OF inv assms(2,3) refl assms(4,5) c, of n] by blast
  have h: "hd (rotate (Suc i) (p # ?xs)) = ?xs ! i" if "i < length ?xs" for i
    using that hd_rotate_conv_nth [of "p # ?xs" "Suc i"] by simp
  have full: "rotate (Suc (length ?xs)) (p # ?xs) = p # ?xs" by (rule rotate_id) simp
  show ?thesis
  proof (intro conjI allI impI)
    fix i assume i: "i < length ?xs"
    show "\<exists>s'. schedule_times (\<lambda>_. False) c (Suc i) s = Some s' \<and> current_thread (cpu_q s' c) = Some (?xs ! i)"
      using t [of "Suc i"] h [OF i] by auto
  next
    show "\<exists>s'. schedule_times (\<lambda>_. False) c (Suc (length ?xs)) s = Some s' \<and> current_thread (cpu_q s' c) = Some p \<and> sched_inv s' W rq wq"
      using t [of "Suc (length ?xs)"] full \<open>rq_upd c ?q ?xs rq = rq\<close> by auto
  qed
qed

text \<open>The running worker of the instance, and its colleague.\<close>

definition demo_run :: sched where
  "demo_run = the (schedule (\<lambda>_. False) 0 demo_pair)"

lemma demo_run_facts:
  "schedule (\<lambda>_. False) 0 demo_pair = Some demo_run" "sched_inv demo_run {} (rq_upd 0 0 [0] (rq_upd 0 5 [9] (\<lambda>_ _. []))) (\<lambda>_. [])"
  "current_thread (cpu_q demo_run 0) = Some 8" "ready_to_run (\<lambda>_. False) 0 demo_run" "thread_table demo_run = switched demo_pair 0 8"
  "sched_reach demo_run" "idle_thread (cpu_q demo_run 0) = Some 0"
proof -
  let ?rq = "rq_upd 0 5 [8, 9] (\<lambda>_ _. []) :: nat \<Rightarrow> u8 \<Rightarrow> nat list"
  have h: "highest (?rq 0) = Some 5" by (rule highest_at) auto
  then have t: "next_thread demo_pair ?rq 0 = Some 8" by (simp add: next_thread_def)
  note pre = sched_inv_pre [OF demo_pair_facts(2), of "Some 0"]
  note f = scheduled_fields [OF pre _ demo_pair_facts(3) t] note i = scheduled_inv [OF pre _ demo_pair_facts(3) t]
  have e: "schedule (\<lambda>_. False) 0 demo_pair = Some (scheduled 0 0 8 demo_pair)"
    using schedule_eq [OF pre _ demo_pair_facts(3) t, of "\<lambda>_. False"] by simp
  then have r: "demo_run = scheduled 0 0 8 demo_pair" by (simp add: demo_run_def)
  have "after_switch demo_pair 0 0 8 ?rq = rq_upd 0 0 [0] (rq_upd 0 5 [9] (\<lambda>_ _. []))"
    using h demo_pair_facts(6,7) by (simp add: after_switch_def put_back_def rq_take_def rq_upd_def fun_eq_iff)
  then show "sched_inv demo_run {} (rq_upd 0 0 [0] (rq_upd 0 5 [9] (\<lambda>_ _. []))) (\<lambda>_. [])" using i r by simp
  show s: "schedule (\<lambda>_. False) 0 demo_pair = Some demo_run" using e r by simp
  show "current_thread (cpu_q demo_run 0) = Some 8" "thread_table demo_run = switched demo_pair 0 8" using f r by simp_all
  then show "ready_to_run (\<lambda>_. False) 0 demo_run" "idle_thread (cpu_q demo_run 0) = Some 0"
    using f(3) [of 0] r demo_pair_facts(4) by (simp_all add: ready_to_run_def)
  show "sched_reach demo_run" by (rule sched_reach.step [OF demo_pair_facts(1)], rule sched_step.yield [OF demo_pair_facts(5) s])
qed

theorem schedule_round_robin_witness:
  "\<exists>s'. schedule_times (\<lambda>_. False) 0 2 demo_run = Some s' \<and> current_thread (cpu_q s' 0) = Some 8"
proof -
  let ?rq = "rq_upd 0 0 [0] (rq_upd 0 5 [9] (\<lambda>_ _. [])) :: nat \<Rightarrow> u8 \<Rightarrow> nat list"
  have p: "prio (thr demo_run 8) = 5" using demo_run_facts(5) demo_pair_facts(8) by (simp add: switched_def)
  have q: "?rq 0 5 = [9]" by simp
  have e: "?rq 0 r = []" if "prio (thr demo_run 8) < r" for r using that p by (auto simp: word_less_nat_alt)
  show ?thesis
    using schedule_round_robin [OF demo_run_facts(2,4,3) e] unfolding p q by (auto simp: numeral_2_eq_2)
qed

end
