(* ===== verification/Sched_Limits.thy ===== *)
theory Sched_Limits
  imports Sched_Claims
begin

text \<open>
  Ticks and creation in detail, and the limits of the scheduler: situations that the code reaches in which it does not do what its
  comments promise.
\<close>

section \<open>Ticks and creation\<close>

text \<open>
  (C16) A tick decrements the time slice of a running round-robin thread, reloads it when it ends, and requests rescheduling exactly
  when a request was pending, the slice ended, or the thread that would be chosen has a higher priority.  No other thread
  and no queue changes.
\<close>

theorem scheduler_tick_exact:
  assumes "sched_inv s W rq wq" and "c < CONFIG_MAX_CPUS" and "current_thread (cpu_q s c) = Some t"
    and "class_of t s = Some sched_rr" and "\<And>d. d < CONFIG_MAX_CPUS \<Longrightarrow> lb_interval s d \<noteq> 0"
  shows "\<exists>s'. scheduler_tick c s = Some s' \<and> sched_inv s' W rq wq \<and>
    thread_table s' = (thread_table s)(t := (thr s t)\<lparr>time_slice :=
      (if policy (thr s t) = KTHREAD_POLICY_RR \<and> time_slice (thr s t) > 0
       then (if time_slice (thr s t) = 1 then time_slice_reload (thr s t) else time_slice (thr s t) - 1)
       else time_slice (thr s t))\<rparr>) \<and>
    (need_resched (cpu_q s' c) \<noteq> 0 \<longleftrightarrow> need_resched (cpu_q s c) \<noteq> 0 \<or>
      policy (thr s t) = KTHREAD_POLICY_RR \<and> time_slice (thr s t) = 1 \<or>
      (\<exists>u. next_thread s rq c = Some u \<and> prio (thr s t) < prio (thr s u)))"
  using scheduler_tick_effect [OF assms] unfolding slice_after_def slice_ends_def preempts_def .

definition demo_tick :: sched where
  "demo_tick = demo_run\<lparr>s_default_sched_class := Some sched_rr, lb_interval := (\<lambda>_. 100)\<rparr>"

lemma demo_worker: "thr demo_run 8 = (new_thread (thr demo_start 8) 8 ''worker'' 0x9000 0 5 KTHREAD_POLICY_RR 4096 (demo_slab 9 0 + 4096))
    \<lparr>state := KTHREAD_STATE_RUNNING\<rparr>"
  using demo_run_facts(5) demo_pair_step(3) [OF demo_one_facts(8)] demo_one_step(3) [OF demo_start_table(1)]
  by (simp add: switched_def)

theorem scheduler_tick_exact_witness:
  "\<exists>s'. scheduler_tick 0 demo_tick = Some s' \<and> time_slice (thr s' 8) = 9 \<and> time_slice (thr demo_tick 8) = 10"
proof -
  have inv: "sched_inv demo_tick {} (rq_upd 0 0 [0] (rq_upd 0 5 [9] (\<lambda>_ _. []))) (\<lambda>_. [])"
    by (rule sched_pre_cong [OF demo_run_facts(2)]) (simp_all add: demo_tick_def)
  have w: "thr demo_tick 8 = thr demo_run 8" "current_thread (cpu_q demo_tick 0) = Some 8" "class_of 8 demo_tick = Some sched_rr"
    using demo_run_facts(3) by (simp_all add: demo_tick_def class_of_def demo_worker new_thread_def)
  obtain s' where "scheduler_tick 0 demo_tick = Some s'"
      "thread_table s' = (thread_table demo_tick)(8 := (thr demo_tick 8)\<lparr>time_slice :=
      (if policy (thr demo_tick 8) = KTHREAD_POLICY_RR \<and> time_slice (thr demo_tick 8) > 0
       then (if time_slice (thr demo_tick 8) = 1 then time_slice_reload (thr demo_tick 8) else time_slice (thr demo_tick 8) - 1)
       else time_slice (thr demo_tick 8))\<rparr>)"
    using scheduler_tick_exact [OF inv _ w(2,3)] by (auto simp: demo_tick_def)
  then show ?thesis by (auto simp: w(1) demo_worker new_thread_def)
qed

text \<open>
  (C17) Creating a thread while no rescheduling is pending takes the first dead slot, fills its control block and queues it behind
  the threads of its priority on the creating CPU.
\<close>

theorem kthread_create_exact:
  assumes "sched_inv s W rq wq" and "c < CONFIG_MAX_CPUS" and "need_resched (cpu_q s c) = 0"
    and "state (thr s t) = KTHREAD_STATE_DEAD" and "t < MAX_THREADS" and "\<And>u. u < t \<Longrightarrow> state (thr s u) \<noteq> KTHREAD_STATE_DEAD"
    and "en \<noteq> 0" and "stack_slab_ready s" and "select_stack_cache (clamp_stack_size n) = Inr k"
    and "sl k \<noteq> 0" and "sl k + ucast (clamp_stack_size n) \<noteq> 0"
  shows "\<exists>s'. kthread_create g sl hs he c (Some nm) en arg pr pol n s = Some (of_nat t, s') \<and>
    sched_inv s' W (rq_upd c pr (rq c pr @ [t]) rq) wq \<and>
    thread_table s' = (thread_table s)(t := new_thread (thr s t) t nm en arg pr pol (clamp_stack_size n) (sl k + ucast (clamp_stack_size n)))"
proof -
  have "find (\<lambda>t. state (thr s t) = KTHREAD_STATE_DEAD) [0..<MAX_THREADS] = Some t" using assms(4-6) by (intro find_dead) auto
  then show ?thesis
    using create_quiet [OF assms(1-3), where sl = sl and k = k and t = t and g = g and hs = hs and he = he and nm = nm and arg = arg
        and pr = pr and pol = pol and en = en and n = n] assms(7-11) by blast
qed

theorem kthread_create_exact_witness:
  "\<exists>s'. kthread_create (\<lambda>_. False) (demo_slab 9) 0 0 0 (Some ''worker'') 0x9000 0 5 KTHREAD_POLICY_RR 100 demo_start = Some (8, s') \<and>
    sched_inv s' {} (rq_upd 0 5 [8] (\<lambda>_ _. [])) (\<lambda>_. []) \<and> stack_size (thr s' 8) = 4096"
proof -
  have c: "clamp_stack_size 100 = 4096" "select_stack_cache 4096 = Inr 0" by (simp_all add: clamp_stack_size_def select_stack_cache_def)
  have d: "state (thr demo_start 8) = KTHREAD_STATE_DEAD" "\<And>u. u < 8 \<Longrightarrow> state (thr demo_start u) \<noteq> KTHREAD_STATE_DEAD"
    using demo_start_table(1) by auto
  have sl: "demo_slab 9 0 \<noteq> 0" "demo_slab 9 0 + ucast (4096 :: u32) \<noteq> 0" by (simp_all add: demo_slab_def)
  show ?thesis
    using kthread_create_exact [OF demo_start_facts(2) _ demo_start_table(2) d(1) _ d(2), of "0x9000" 100 0 "demo_slab 9" "\<lambda>_. False" 0 0
        "''worker''" 0 5 KTHREAD_POLICY_RR] sl demo_start_table(3) by (auto simp: c new_thread_def)
qed

section \<open>Priorities\<close>

text \<open>
  \<^verbatim>\<open>schedule\<close> never keeps the running thread while another waits: if every waiting thread has a lower priority than the running one,
  the CPU goes to one of lower priority all the same, for example when a time slice ends.
\<close>

theorem schedule_yields_to_lower:
  assumes "sched_inv s W rq wq" and "ready_to_run g c s" and "current_thread (cpu_q s c) = Some p"
    and "rq c q \<noteq> []" and "\<And>r. rq c r \<noteq> [] \<Longrightarrow> r < prio (thr s p)"
  shows "\<exists>s' t. schedule g c s = Some s' \<and> current_thread (cpu_q s' c) = Some t \<and> prio (thr s t) < prio (thr s p)"
proof -
  have c: "c < CONFIG_MAX_CPUS" "idle_thread (cpu_q s c) \<noteq> None" "\<not> g p" using assms(2,3) by (auto simp: ready_to_run_def)
  obtain r where h: "highest (rq c) = Some r" using assms(4) by (cases "highest (rq c)") (auto simp: highest_def split: if_splits)
  have r: "rq c r \<noteq> []" by (rule highestD [OF h])
  have t: "next_thread s rq c = Some (hd (rq c r))" using h by (simp add: next_thread_def)
  have "prio (thr s (hd (rq c r))) = r" using rq_invD(5) [OF sched_preD(1) [OF assms(1)] c(1)] r by simp
  then show ?thesis
    using schedule_eq [OF sched_inv_pre [OF assms(1)] c(1) assms(3) t, of g] c(3)
      scheduled_fields(2) [OF sched_inv_pre [OF assms(1)] c(1) assms(3) t, of c] assms(5) [OF r] by auto
qed

definition demo_single :: sched where
  "demo_single = the (schedule (\<lambda>_. False) 0 demo_one)"

lemma demo_single_facts:
  "sched_inv demo_single {} (rq_upd 0 0 [0] (\<lambda>_ _. [])) (\<lambda>_. [])" "current_thread (cpu_q demo_single 0) = Some 8"
  "ready_to_run (\<lambda>_. False) 0 demo_single" "thread_table demo_single = switched demo_one 0 8"
proof -
  let ?rq = "rq_upd 0 5 [8] (\<lambda>_ _. []) :: nat \<Rightarrow> u8 \<Rightarrow> nat list"
  have h: "highest (?rq 0) = Some 5" by (rule highest_at) auto
  then have t: "next_thread demo_one ?rq 0 = Some 8" by (simp add: next_thread_def)
  note pre = sched_inv_pre [OF demo_one_facts(2), of "Some 0"]
  note f = scheduled_fields [OF pre _ demo_one_facts(3) t] note i = scheduled_inv [OF pre _ demo_one_facts(3) t]
  have r: "demo_single = scheduled 0 0 8 demo_one"
    using schedule_eq [OF pre _ demo_one_facts(3) t, of "\<lambda>_. False"] by (simp add: demo_single_def)
  have "after_switch demo_one 0 0 8 ?rq = rq_upd 0 0 [0] (\<lambda>_ _. [])"
    using h demo_one_facts(9,10) by (simp add: after_switch_def put_back_def rq_take_def rq_upd_def fun_eq_iff)
  then show "sched_inv demo_single {} (rq_upd 0 0 [0] (\<lambda>_ _. [])) (\<lambda>_. [])" using i r by simp
  show "current_thread (cpu_q demo_single 0) = Some 8" "thread_table demo_single = switched demo_one 0 8" using f r by simp_all
  then show "ready_to_run (\<lambda>_. False) 0 demo_single" using f(3) [of 0] r demo_one_facts(4) by (simp add: ready_to_run_def)
qed

theorem schedule_yields_to_lower_witness:
  "\<exists>s' t. schedule (\<lambda>_. False) 0 demo_single = Some s' \<and> current_thread (cpu_q s' 0) = Some t \<and>
    prio (thr demo_single t) < prio (thr demo_single 8)"
proof -
  have p: "prio (thr demo_single 8) = 5" using demo_single_facts(4) demo_one_facts(11) by (simp add: switched_def)
  show ?thesis
    by (rule schedule_yields_to_lower [OF demo_single_facts(1,3,2), of 0]) (auto simp: p rq_upd_def split: if_splits)
qed

text \<open>
  (C18) When the stack canary of the thread that is switched out is found overwritten, \<^verbatim>\<open>schedule\<close> ends the wrong thread: the one it
  has just made current.  The thread with the overflowed stack stays in the ready queue.
\<close>

theorem stack_guard_ends_next:
  assumes "sched_inv s W rq wq" and "c < CONFIG_MAX_CPUS" and "current_thread (cpu_q s c) = Some p" and "g p"
    and "next_thread s rq c = Some t" and "\<not> g t" and "idle_thread (cpu_q s c) = Some i" and "t \<noteq> i" and "t \<noteq> p"
  shows "\<exists>s'. schedule g c s = Some s' \<and> state (thr s' t) = KTHREAD_STATE_DEAD \<and> state (thr s' p) \<noteq> KTHREAD_STATE_DEAD"
proof -
  note pre = sched_inv_pre [OF assms(1), of "Some c"]
  let ?s = "scheduled c p t s" let ?rq = "after_switch s c p t rq"
  note f = scheduled_fields [OF pre assms(2,3,5)] note i = scheduled_inv [OF pre assms(2,3,5)]
  let ?d = "upd_thr t (\<lambda>k. k\<lparr>state := KTHREAD_STATE_DEAD\<rparr>) ?s"
  have run: "state (thr s p) = KTHREAD_STATE_RUNNING" using current_okD(2) [OF sched_preD(3) [OF assms(1)] assms(2,3)] by simp
  have cur: "current_thread (cpu_q ?d c) = Some t" "idle_thread (cpu_q ?d c) = Some i" using f(2,3) assms(7) by (simp_all add: upd_thr_def)
  have pre2: "sched_pre (Some c) ?d W ?rq wq"
    by (rule stop_current [OF i assms(2)]) (use f(2,3) assms(7,8) in auto)
  obtain u where u: "next_thread ?d ?rq c = Some u" using next_thread_exists [of ?d c ?rq] cur(2) by auto
  have "?rq c (prio (thr s p)) \<noteq> []" using run assms(9) by (simp add: after_switch_def put_back_def)
  then obtain q where h: "highest (?rq c) = Some q" by (cases "highest (?rq c)") (auto simp: highest_def split: if_splits)
  have "u \<in> set (?rq c q)" using u h highestD(1) [OF h] by (auto simp: next_thread_def)
  then have ur: "state (thr ?d u) = KTHREAD_STATE_READY" by (rule rq_invD(4) [OF sched_preD(1) [OF pre2] assms(2)])
  then have ut: "u \<noteq> t" by (auto simp: upd_thr_def)
  have "schedule g c s = schedule g c ?d" using schedule_eq [OF pre assms(2,3,5), of g] assms(4,9) by simp
  also have "\<dots> = Some (scheduled c t u ?d)" using schedule_eq [OF pre2 assms(2) cur(1) u, of g] assms(6) by simp
  finally have e: "schedule g c s = Some (scheduled c t u ?d)" .
  have "thr (scheduled c t u ?d) = switched ?d t u" by (rule scheduled_fields(1) [OF pre2 assms(2) cur(1) u])
  then have "state (thr (scheduled c t u ?d) t) = KTHREAD_STATE_DEAD" "state (thr (scheduled c t u ?d) p) \<noteq> KTHREAD_STATE_DEAD"
    using ut assms(9) run f(1) by (auto simp: switched_def upd_thr_def)
  then show ?thesis using e by blast
qed

theorem stack_guard_ends_next_witness:
  "\<exists>s'. schedule (\<lambda>t. t = 0) 0 demo_pair = Some s' \<and> state (thr s' 8) = KTHREAD_STATE_DEAD \<and> state (thr s' 0) \<noteq> KTHREAD_STATE_DEAD"
proof -
  have "highest (rq_upd 0 5 [8, 9] (\<lambda>_ _. []) 0) = Some 5" by (rule highest_at) auto
  then have "next_thread demo_pair (rq_upd 0 5 [8, 9] (\<lambda>_ _. [])) 0 = Some 8" by (simp add: next_thread_def)
  then show ?thesis
    using stack_guard_ends_next [OF demo_pair_facts(2) _ demo_pair_facts(3), of "\<lambda>t. t = 0" 8 0] demo_pair_facts(4) by simp
qed

section \<open>Threads of another CPU\<close>

text \<open>
  (C19) Suspending a thread that waits on another CPU updates the bitmap of the calling CPU.  When it was the only thread of the highest
  priority there, the other CPU's next choice follows a link of an empty queue, which is no thread.
\<close>

theorem remote_suspend_corrupts:
  assumes "sched_inv s W rq wq" and "c < CONFIG_MAX_CPUS" and "d < CONFIG_MAX_CPUS" and "c \<noteq> d"
    and "highest (rq d) = Some p" and "rq d p = [unat i]"
  shows "\<exists>s'. kthread_suspend c i s = (KERNEL_OK, s') \<and> scheduler_pick_next_locked d s' = None"
proof -
  note v = sched_preD(1) [OF assms(1)] note l = rq_invD(1) [OF v]
  let ?t = "unat i" let ?s = "sched_dequeue_locked c ?t s" let ?h = "list_del_init (Some (RqList ?t)) (slinks s)"
  have m: "?t \<in> set (rq d p)" using assms(6) by simp
  have st: "state (thr s ?t) = KTHREAD_STATE_READY" "?t < MAX_THREADS"
    using rq_invD(4) [OF v assms(3) m] links_okD(4) [OF l assms(3) m] by simp_all
  have "links_ok ?h W (rq_upd d p [] rq) wq" using links_ok_remove [OF l assms(3) m] assms(6) by simp
  then have "dll ?h (ReadyQ d p) []" using ringsD(2) [OF links_okD(1), of ?h W _ wq "ReadyQ d p"] assms(3) by fastforce
  then have "lh_next (?h (ReadyQ d p)) = Some (ReadyQ d p)" by (simp add: dll_def)
  moreover have "slinks ?s = ?h" by (simp add: sched_dequeue_locked_def upd_cpu_def upd_bitmap_def upd_slinks_def Let_def)
  ultimately have e: "first_ready d p ?s = None" by (simp add: first_ready_def)
  have b: "bitmap (cpu_q ?s d) = bitmap (cpu_q s d)"
    using assms(4) by (simp add: sched_dequeue_locked_def upd_cpu_def upd_bitmap_def upd_slinks_def Let_def)
  let ?s' = "upd_thr ?t (\<lambda>k. k\<lparr>state := KTHREAD_STATE_SUSPENDED\<rparr>) ?s"
  have "kthread_suspend c i s = (KERNEL_OK, ?s')"
    using st get_thread_unat [OF st(2)] by (simp add: kthread_suspend_def scheduler_dequeue_def)
  moreover have "first_ready d p ?s' = None" using e by (simp add: first_ready_def upd_thr_def)
  ultimately show ?thesis
    using find_highest_highest [OF rq_invD(2) [OF v assms(3)]] assms(5) b
    by (auto simp: scheduler_pick_next_locked_def upd_thr_def split: if_splits)
qed

theorem remote_suspend_corrupts_witness:
  "\<exists>s'. kthread_suspend 1 8 demo_one = (KERNEL_OK, s') \<and> scheduler_pick_next_locked 0 s' = None"
proof -
  have "highest (rq_upd 0 5 [8] (\<lambda>_ _. []) 0) = Some 5" by (rule highest_at) auto
  then show ?thesis by (intro remote_suspend_corrupts [OF demo_one_facts(2), of 1 0 5 8]) simp_all
qed

section \<open>Registration\<close>

lemma class_cycle:
  assumes "class_pick_loop c cur s = Some r"
  shows "cur = Some sched_rr \<longrightarrow> class_next s sched_rr = Some sched_rr \<longrightarrow> scheduler_pick_next_locked c s \<noteq> Some None"
proof (rule class_pick_loop.raw_induct [OF _ assms,
    where P = "\<lambda>c cur s r. cur = Some sched_rr \<longrightarrow> class_next s sched_rr = Some sched_rr \<longrightarrow> scheduler_pick_next_locked c s \<noteq> Some None"])
  fix f :: "nat \<Rightarrow> nat option \<Rightarrow> sched \<Rightarrow> nat option option" and c cur s r
  assume IH: "\<And>c cur s r. f c cur s = Some r \<Longrightarrow>
      cur = Some sched_rr \<longrightarrow> class_next s sched_rr = Some sched_rr \<longrightarrow> scheduler_pick_next_locked c s \<noteq> Some None"
    and e: "(case cur of None \<Rightarrow> Some None | Some c' \<Rightarrow> if c' = sched_rr
      then Option.bind (scheduler_pick_next_locked c s) (\<lambda>next. if next \<noteq> None then Some next else f c (class_next s c') s)
      else None) = Some r"
  show "cur = Some sched_rr \<longrightarrow> class_next s sched_rr = Some sched_rr \<longrightarrow> scheduler_pick_next_locked c s \<noteq> Some None"
    using e IH [of c "Some sched_rr" s r] by auto
qed

text \<open>
  (C20) Initialisation is not repeatable.  When it fails for lack of stack memory and is tried again, the round-robin class is linked behind
  itself, and from then on \<^verbatim>\<open>schedule\<close> does not return on a CPU without waiting threads.
\<close>

theorem scheduler_init_retry_diverges:
  assumes "\<not> initialized s" and "s_sched_class_head s = None" and "class_next s sched_rr = None"
    and "scheduler_init g sl hs he en False 0 s = Some (r, s1)" and "sched_rr_init s1 = Some s2"
    and "class_next s' = class_next s2" and "s_sched_class_head s' = s_sched_class_head s2"
    and "scheduler_pick_next_locked c s' = Some None"
  shows "r = Err ENOMEM \<and> class_next s2 sched_rr = Some sched_rr \<and> schedule h c s' = None"
proof -
  let ?s1 = "s\<lparr>class_next := (class_next s)(sched_rr := None), s_sched_class_head := Some sched_rr, s_default_sched_class := Some sched_rr\<rparr>"
  have "class_position p None None s = Some (None, None)" for p by (simp add: class_position.simps)
  then have "sched_rr_init s = Some ?s1"
    using assms(2,3) by (simp add: sched_rr_init_def sched_class_register_def sched_class_set_default_def)
  then have s1: "s1 = ?s1" "r = Err ENOMEM" using assms(1,4) by (simp_all add: scheduler_init_def)
  have "class_position p prev None ?s1 = Some (prev, None)" for p prev by (simp add: class_position.simps)
  then have "class_position (class_priority ?s1 sched_rr) None (Some sched_rr) ?s1 = Some (Some sched_rr, None)"
    by (subst class_position.simps) simp
  then have n: "class_next s2 sched_rr = Some sched_rr" "s_sched_class_head s2 = Some sched_rr"
    using assms(5) by (auto simp: s1(1) sched_rr_init_def sched_class_register_def sched_class_set_default_def)
  have "sched_class_pick_next c s' = None"
    using class_cycle [of c "Some sched_rr" s'] n assms(6-8) by (cases "class_pick_loop c (Some sched_rr) s'") (auto simp: sched_class_pick_next_def)
  then have "schedule h c s' = None" by (subst schedule.simps) simp
  then show ?thesis using n s1(2) by simp
qed

definition demo_retry :: sched where
  "demo_retry = demo_raw_sched\<lparr>class_next := (\<lambda>_. None)(sched_rr := Some sched_rr), s_sched_class_head := Some sched_rr,
     s_default_sched_class := Some sched_rr\<rparr>"

theorem scheduler_init_retry_diverges_witness:
  "class_next demo_retry sched_rr = Some sched_rr \<and> schedule (\<lambda>_. False) 0 demo_retry = None"
proof -
  let ?s1 = "demo_raw_sched\<lparr>s_sched_class_head := Some sched_rr, s_default_sched_class := Some sched_rr\<rparr>"
  have "class_position 100 None None demo_raw_sched = Some (None, None)" "class_position 100 (Some 0) None ?s1 = Some (Some 0, None)"
    by (simp_all add: class_position.simps)
  then have r: "sched_rr_init demo_raw_sched = Some ?s1" "sched_rr_init ?s1 = Some demo_retry"
    by (simp_all add: sched_rr_init_def sched_class_register_def sched_class_set_default_def demo_raw_sched_def demo_retry_def
        class_position.simps [of _ None "Some _"])
  have "scheduler_init (\<lambda>_. False) demo_slab 0 0 0 False 0 demo_raw_sched = Some (Err ENOMEM, ?s1)"
    using r(1) demo_raw_facts(1) by (simp add: scheduler_init_def)
  then show ?thesis
    using scheduler_init_retry_diverges [OF demo_raw_facts _ r(2), of "\<lambda>_. False" demo_slab 0 0 0 "Err ENOMEM" demo_retry 0 "\<lambda>_. False"]
    by (simp add: scheduler_pick_next_locked_def demo_retry_def demo_raw_sched_def bitmap256_find_highest_def eval_nat_numeral)
qed

end
