(* ===== verification/Kernel_Scenario.thy ===== *)
theory Kernel_Scenario
  imports Kernel_Boot Sched_Limits
begin

text \<open>A concrete state of the kernel: thread 8 runs on CPU 0, thread 9 of the same priority and the idle thread wait.\<close>

section \<open>What holds along every history of the scheduler\<close>

lemma sched_reach_fixed:
  assumes "sched_reach s"
  shows "tids_ok s \<and> s_default_sched_class s = Some sched_rr \<and> (\<forall>t<MAX_THREADS. sched_class (thr s t) = None)"
  using assms
proof (induction rule: sched_reach.induct)
  case (init s en sl g hs he s')
  then have "idles_done {} CONFIG_MAX_CPUS s'" using scheduler_init_done [of s en sl "{}" g hs he] by auto
  then show ?case using idles_doneD(8,9) by (auto simp: tids_ok_def)
next
  case (step s s')
  obtain rq where inv: "sched_inv s {} rq (\<lambda>_. [])" using sched_reach_inv [OF step(1)] by blast
  have c: "calm s s'" by (rule sched_step_calm [OF step(2) inv])
  show ?case using step.IH tids_calm [OF _ c] c by (auto simp: calm_def)
qed

section \<open>The state\<close>

definition demo_rq :: "nat \<Rightarrow> u8 \<Rightarrow> nat list" where
  "demo_rq = rq_upd 0 0 [0] (rq_upd 0 5 [9] (\<lambda>_ _. []))"

definition demo_time :: timer_sys where
  "demo_time = timer_init 62500000 0 \<lparr>tsched = demo_tick, s_system_ticks = 0, s_counter_freq = 0,
     timers = (\<lambda>_. \<lparr>expire_tick = 0, interval = 0, callback = 0, callback_arg = 0, t_state = TIMER_STATE_IDLE\<rparr>),
     tlinks = (\<lambda>_. \<lparr>lh_next = None, lh_prev = None\<rparr>), t_compare = 0, t_control = 0\<rparr>"

definition demo_kernel :: kernel where
  "demo_kernel = (let k = \<lparr>k_time = demo_time,
     k_mutexes = (\<lambda>_. \<lparr>owner_tid = 0, mstate = MUTEX_STATE_UNLOCKED, ceiling = 0, original_prio = 0, lock_count = 0\<rparr>),
     k_notifications = (\<lambda>_. \<lparr>n_id = 0, n_state = IPC_NOTIFY_IDLE, signals = 0, waited_mask = 0, waiter_tid = 0, generation = 0\<rparr>),
     k_free_notify = [], k_free_notify_count = 0\<rparr>
   in put_ntf (ipc_notification_subsys_init (ntf_view k)) k)"

definition demo_env :: kernel_env where
  "demo_env = \<lparr>guard_bad = (\<lambda>_. False), slab_new = demo_slab 9, heap_start = 0, heap_end = 0, callbacks = (\<lambda>_ _ st. st)\<rparr>"

lemma init_queues_inv:
  assumes "sched_inv (tsched st) W rq wq" and "\<And>c. c \<in> set cs \<Longrightarrow> wq (SleepQ c) = []"
  shows "sched_inv (tsched (fold init_queues cs st)) (SleepQ ` set cs \<union> W) rq wq"
  using assms
proof (induction cs arbitrary: st W)
  case (Cons c cs)
  have "sched_inv (tsched (init_queues c st)) (insert (SleepQ c) W) rq (wq(SleepQ c := []))"
    unfolding init_queues_def using new_wait_queue [OF Cons.prems(1), of "SleepQ c"] Cons.prems(2) by (simp add: wait_heads_def)
  moreover have "wq(SleepQ c := []) = wq" using Cons.prems(2) [of c] by (simp add: fun_upd_idem)
  ultimately show ?case using Cons.IH [of "init_queues c st" "insert (SleepQ c) W"] Cons.prems(2) by simp
qed simp

lemma demo_tick_facts:
  "sched_inv demo_tick {} demo_rq (\<lambda>_. [])" "tids_ok demo_tick" "tuned demo_tick" "cpu_queues demo_tick = cpu_queues demo_run"
  "thread_table demo_tick = thread_table demo_run"
proof -
  show "sched_inv demo_tick {} demo_rq (\<lambda>_. [])"
    unfolding demo_rq_def by (rule sched_pre_cong [OF demo_run_facts(2)]) (simp_all add: demo_tick_def)
  show "tids_ok demo_tick" "tuned demo_tick" using sched_reach_fixed [OF demo_run_facts(6)] by (simp_all add: demo_tick_def tids_ok_def tuned_def)
qed (simp_all add: demo_tick_def)

lemma demo_time_facts:
  "sched_inv (tsched demo_time) (wait_queues {}) demo_rq (\<lambda>_. [])" "\<exists>h. tsched demo_time = demo_tick\<lparr>slinks := h\<rparr>"
  "s_system_ticks demo_time = 0" "s_counter_freq demo_time = 62500000" "soft_inv demo_time {} (\<lambda>_. [])"
proof -
  let ?st = "\<lparr>tsched = demo_tick, s_system_ticks = 0, s_counter_freq = 62500000,
     timers = (\<lambda>_. \<lparr>expire_tick = 0, interval = 0, callback = 0, callback_arg = 0, t_state = TIMER_STATE_IDLE\<rparr>),
     tlinks = (\<lambda>_. \<lparr>lh_next = None, lh_prev = None\<rparr>), t_compare = 0, t_control = 0\<rparr> :: timer_sys"
  have f: "s_system_ticks (fold init_queues cs st) = s_system_ticks st" "s_counter_freq (fold init_queues cs st) = s_counter_freq st" for cs st
    by (induction cs arbitrary: st) (simp_all add: init_queues_def)
  have e: "timer_init freq n st = (timer_set_next_compare n ((fold init_queues [0..<CONFIG_MAX_CPUS]
      (st\<lparr>s_counter_freq := freq, s_system_ticks := 0\<rparr>))\<lparr>t_control := 0\<rparr>))\<lparr>t_control := 1\<rparr>" for freq n st
    by (simp add: timer_init_def init_queues_def [abs_def] Let_def del: upt_rec_numeral)
  show "s_system_ticks demo_time = 0" "s_counter_freq demo_time = 62500000"
    unfolding demo_time_def e by (simp_all add: timer_set_next_compare_def f del: upt_rec_numeral)
  have "sched_inv (tsched (fold init_queues [0..<CONFIG_MAX_CPUS] ?st)) (SleepQ ` set [0..<CONFIG_MAX_CPUS] \<union> {}) demo_rq (\<lambda>_. [])"
    by (rule init_queues_inv) (use demo_tick_facts(1) in simp_all)
  moreover have "wait_queues {} = SleepQ ` set [0..<CONFIG_MAX_CPUS] \<union> {}" by (auto simp: wait_queues_def simp del: upt_rec_numeral)
  moreover have "tsched demo_time = tsched (fold init_queues [0..<CONFIG_MAX_CPUS] ?st)"
    unfolding demo_time_def e by (simp add: timer_set_next_compare_def del: upt_rec_numeral)
  ultimately show "sched_inv (tsched demo_time) (wait_queues {}) demo_rq (\<lambda>_. [])" by (simp only:)
  show "\<exists>h. tsched demo_time = demo_tick\<lparr>slinks := h\<rparr>" unfolding demo_time_def using timer_init_links(3) [of _ _ ?st] timer_init_links(3)
    by (metis timer_sys.select_convs(1))
  show "soft_inv demo_time {} (\<lambda>_. [])" unfolding demo_time_def by (rule timer_init_soft_inv_empty)
qed

lemma demo_kernel_facts:
  "kernel_ok demo_kernel {} {} demo_rq (\<lambda>_. []) (\<lambda>_. [])" "k_time demo_kernel = demo_time" "thread_table (k_sched demo_kernel) = thread_table demo_run"
  "current_thread (cpu_q (k_sched demo_kernel) 0) = Some 8" "idle_thread (cpu_q (k_sched demo_kernel) 0) = Some 0"
  "ready_to_run (\<lambda>_. False) 0 (k_sched demo_kernel)" "busy 0 demo_kernel"
proof -
  obtain h where h: "tsched demo_time = demo_tick\<lparr>slinks := h\<rparr>" using demo_time_facts(2) by blast
  show t: "k_time demo_kernel = demo_time" by (simp add: demo_kernel_def Let_def ntf_view_def ipc_notification_subsys_init_def)
  have i: "idle_thread (cpu_q demo_run 0) = Some 0"
    using demo_run_facts(7) by simp
  show c: "current_thread (cpu_q (k_sched demo_kernel) 0) = Some 8" "idle_thread (cpu_q (k_sched demo_kernel) 0) = Some 0"
      "thread_table (k_sched demo_kernel) = thread_table demo_run"
    using t h i demo_run_facts(3) demo_tick_facts(4,5) by simp_all
  show "ready_to_run (\<lambda>_. False) 0 (k_sched demo_kernel)" "busy 0 demo_kernel" using c by (simp_all add: ready_to_run_def busy_def)
  have x: "tids_ok (tsched demo_time)" "tuned (tsched demo_time)" using demo_tick_facts(2,3) h by (simp_all add: tids_ok_def tuned_def)
  have "ntf_inv (ntf_view demo_kernel) (wait_queues {}) demo_rq (\<lambda>_. [])"
    unfolding demo_kernel_def Let_def views by (rule notify_init_inv) (use demo_time_facts(1) x in \<open>simp_all add: ntf_view_def\<close>)
  then show "kernel_ok demo_kernel {} {} demo_rq (\<lambda>_. []) (\<lambda>_. [])"
    using demo_time_facts(5) x t by (simp add: kernel_ok_def sleep_sorted_def)
qed

end
