(* ===== verification/Mutex_Claims.thy ===== *)
theory Mutex_Claims
  imports Kernel_Scenario
begin

text \<open>What the mutexes do, and where they fall short of their description.\<close>

section \<open>Lock and unlock\<close>

text \<open>
  (C25) Locking takes a free mutex for the current thread.  On a taken mutex the current thread blocks, joins the wait queue in front of
  the earlier waiters whatever the priorities are, and the CPU goes to another thread.
\<close>

theorem mutex_lock_exact:
  assumes "sched_inv (msched st) W rq wq" and "ready_to_run g c (msched st)" and "WaitQ m \<in> W"
    and "current_thread (cpu_q (msched st) c) = Some t" and "idle_thread (cpu_q (msched st) c) \<noteq> Some t"
  shows "if mstate (mutexes st m) = MUTEX_STATE_UNLOCKED
    then mutex_lock g c (Some m) st = Some (Returns KERNEL_OK, upd_mutex m (\<lambda>x. x\<lparr>owner_tid := tid (thr (msched st) t),
      mstate := MUTEX_STATE_LOCKED, lock_count := lock_count x + 1\<rparr>) st)
    else \<exists>s' rq'. mutex_lock g c (Some m) st = Some (Blocks, upd_mutex m (\<lambda>x. x\<lparr>mstate := MUTEX_STATE_CONTENDED\<rparr>) (st\<lparr>msched := s'\<rparr>)) \<and>
      sched_inv s' W rq' (wq(WaitQ m := t # wq (WaitQ m))) \<and> state (thr s' t) = KTHREAD_STATE_BLOCKED"
proof (cases "mstate (mutexes st m) = MUTEX_STATE_UNLOCKED")
  case True
  have "c < CONFIG_MAX_CPUS" using assms(2) by (simp add: ready_to_run_def)
  then show ?thesis using mutex_lock_free [OF _ assms(4) True, of g] True by (simp add: take_mutex_def)
next
  case False
  then show ?thesis using mutex_lock_wait [OF assms False] by auto
qed

definition demo_mutexes :: mutex_sys where
  "demo_mutexes = mutex_init (Some 0) 0 (mutex_view demo_kernel)"

lemma demo_mutexes_facts:
  "sched_inv (msched demo_mutexes) (wait_queues {0}) demo_rq (\<lambda>_. [])" "cpu_queues (msched demo_mutexes) = cpu_queues (k_sched demo_kernel)"
  "thread_table (msched demo_mutexes) = thread_table demo_run" "mutex_ok (mutexes demo_mutexes 0) []"
  "mstate (mutexes demo_mutexes 0) = MUTEX_STATE_UNLOCKED" "ready_to_run (\<lambda>_. False) 0 (msched demo_mutexes)" "tid (thr (msched demo_mutexes) 8) = 8"
proof -
  note K = kernel_okD [OF demo_kernel_facts(1)]
  have q: "wait_queues {0} = insert (WaitQ 0) (wait_queues {})" "(\<lambda>_. [])(WaitQ 0 := []) = (\<lambda>_. [] :: nat list)" by (auto simp: wait_queues_def)
  show "sched_inv (msched demo_mutexes) (wait_queues {0}) demo_rq (\<lambda>_. [])" "mutex_ok (mutexes demo_mutexes 0) []"
    unfolding q(1) demo_mutexes_def using mutex_init_inv [of "mutex_view demo_kernel" "wait_queues {}" demo_rq "\<lambda>_. []" 0 0] K(6) q(2) by simp_all
  show c: "cpu_queues (msched demo_mutexes) = cpu_queues (k_sched demo_kernel)" and t: "thread_table (msched demo_mutexes) = thread_table demo_run"
    and "mstate (mutexes demo_mutexes 0) = MUTEX_STATE_UNLOCKED"
    using demo_kernel_facts(3) by (simp_all add: demo_mutexes_def mutex_init_def upd_mutex_def upd_slinks_def)
  show "ready_to_run (\<lambda>_. False) 0 (msched demo_mutexes)" using demo_kernel_facts(6) c by (simp add: ready_to_run_def)
  show "tid (thr (msched demo_mutexes) 8) = 8" using K(7) demo_kernel_facts(3) t by (simp add: tids_ok_def)
qed

theorem mutex_lock_exact_witness:
  "\<exists>s' rq'. mutex_lock (\<lambda>_. False) 0 (Some 0) (upd_mutex 0 (\<lambda>x. x\<lparr>owner_tid := 9, mstate := MUTEX_STATE_LOCKED, lock_count := 1\<rparr>) demo_mutexes) =
      Some (Blocks, upd_mutex 0 (\<lambda>x. x\<lparr>mstate := MUTEX_STATE_CONTENDED\<rparr>)
        ((upd_mutex 0 (\<lambda>x. x\<lparr>owner_tid := 9, mstate := MUTEX_STATE_LOCKED, lock_count := 1\<rparr>) demo_mutexes)\<lparr>msched := s'\<rparr>)) \<and>
    sched_inv s' (wait_queues {0}) rq' ((\<lambda>_. [])(WaitQ 0 := [8])) \<and> state (thr s' 8) = KTHREAD_STATE_BLOCKED"
proof -
  let ?st = "upd_mutex 0 (\<lambda>x. x\<lparr>owner_tid := 9, mstate := MUTEX_STATE_LOCKED, lock_count := 1\<rparr>) demo_mutexes"
  have s: "msched ?st = msched demo_mutexes" "mstate (mutexes ?st 0) \<noteq> MUTEX_STATE_UNLOCKED" by (simp_all add: upd_mutex_def)
  note F = demo_mutexes_facts(1,6) [folded s(1)]
  have c: "current_thread (cpu_q (msched ?st) 0) = Some 8" "idle_thread (cpu_q (msched ?st) 0) \<noteq> Some 8"
    using demo_kernel_facts(4,5) demo_mutexes_facts(2) by (simp_all add: s(1))
  show ?thesis using mutex_lock_exact [OF F _ c, of 0] s(2) by simp
qed

text \<open>
  (C26) Unlocking is refused to a thread that does not own the mutex.  Without waiters it frees the mutex; with waiters it hands the mutex
  to the thread that began to wait last, which becomes ready behind the threads of its priority, while the others wait on.
\<close>

theorem mutex_unlock_exact:
  assumes "sched_inv (msched st) W rq wq" and "c < CONFIG_MAX_CPUS" and "WaitQ m \<in> W" and "original_prio (mutexes st m) = PRIORITY_MIN"
    and "current_thread (cpu_q (msched st) c) = Some u"
  shows "if owner_tid (mutexes st m) \<noteq> tid (thr (msched st) u) then mutex_unlock g c (Some m) st = Some (Err EPERM, st)
    else case wq (WaitQ m) of
      [] \<Rightarrow> mutex_unlock g c (Some m) st = Some (KERNEL_OK,
        upd_mutex m (\<lambda>x. x\<lparr>lock_count := lock_count x - 1, owner_tid := 0, mstate := MUTEX_STATE_UNLOCKED\<rparr>) st)
    | t # ts \<Rightarrow> \<exists>s'. mutex_unlock g c (Some m) st = Some (KERNEL_OK,
          upd_mutex m (\<lambda>x. x\<lparr>owner_tid := tid (thr (msched st) t)\<rparr>) (st\<lparr>msched := s'\<rparr>)) \<and>
        sched_inv s' W (rq_upd c (prio (thr (msched st) t)) (rq c (prio (thr (msched st) t)) @ [t]) rq) (wq(WaitQ m := ts)) \<and>
        thread_table s' = (thread_table (msched st))(t := (thr (msched st) t)\<lparr>state := KTHREAD_STATE_READY\<rparr>)"
proof (cases "owner_tid (mutexes st m) = tid (thr (msched st) u)")
  case False
  then show ?thesis using assms(5) by (simp add: mutex_unlock_def current_get [OF assms(2)])
next
  case True
  show ?thesis
  proof (cases "wq (WaitQ m)")
    case Nil
    then show ?thesis using mutex_unlock_last [OF assms(1-3) Nil assms(5) True assms(4)] True by simp
  next
    case (Cons t ts)
    then show ?thesis using mutex_unlock_wait [OF assms(1-3) Cons assms(5) True assms(4), of g] True by auto
  qed
qed

theorem mutex_unlock_exact_witness:
  "mutex_unlock (\<lambda>_. False) 0 (Some 0) (take_mutex 0 8 demo_mutexes) = Some (KERNEL_OK,
    upd_mutex 0 (\<lambda>x. x\<lparr>lock_count := lock_count x - 1, owner_tid := 0, mstate := MUTEX_STATE_UNLOCKED\<rparr>) (take_mutex 0 8 demo_mutexes))"
proof -
  let ?st = "take_mutex 0 8 demo_mutexes"
  have s: "msched ?st = msched demo_mutexes" "owner_tid (mutexes ?st 0) = tid (thr (msched demo_mutexes) 8)" "original_prio (mutexes ?st 0) = PRIORITY_MIN"
    using demo_mutexes_facts(4) by (simp_all add: take_mutex_def upd_mutex_def mutex_ok_def)
  note F = demo_mutexes_facts(1) [folded s(1)]
  have c: "current_thread (cpu_q (msched ?st) 0) = Some 8" using demo_kernel_facts(4) demo_mutexes_facts(2) by (simp add: s(1))
  show ?thesis using mutex_unlock_exact [OF F _ _ s(3) c, of "\<lambda>_. False"] s(1,2) by simp
qed

section \<open>Limits\<close>

text \<open>
  (C27) The identifier 0 stands for no owner and is also that of a thread: when thread 0 unlocks a mutex that nobody holds, the call
  succeeds and the lock count wraps around to the largest value.
\<close>

theorem mutex_unlock_by_thread_0:
  assumes "c < CONFIG_MAX_CPUS" and "current_thread (cpu_q (msched st) c) = Some t" and "tid (thr (msched st) t) = 0"
    and "mutexes st m = \<lparr>owner_tid = 0, mstate = MUTEX_STATE_UNLOCKED, ceiling = ceil, original_prio = PRIORITY_MIN, lock_count = 0\<rparr>"
    and "lh_next (slinks (msched st) (WaitQ m)) = Some (WaitQ m)"
  shows "\<exists>st'. mutex_unlock g c (Some m) st = Some (KERNEL_OK, st') \<and> lock_count (mutexes st' m) = 0xFFFFFFFF"
  using assms by (simp add: mutex_unlock_def current_get upd_mutex_def)

theorem mutex_unlock_by_thread_0_witness:
  "\<exists>st'. mutex_unlock (\<lambda>_. False) 0 (Some 0) (mutex_init (Some 0) 0 \<lparr>mutexes = \<lambda>_. \<lparr>owner_tid = 7, mstate = MUTEX_STATE_LOCKED, ceiling = 0,
      original_prio = 0, lock_count = 1\<rparr>, msched = demo_pair\<rparr>) = Some (KERNEL_OK, st') \<and> lock_count (mutexes st' 0) = 0xFFFFFFFF"
  by (rule mutex_unlock_by_thread_0 [where t = 0 and ceil = 0])
    (use demo_pair_facts(3) sched_reach_fixed [OF demo_pair_facts(1)] in
      \<open>simp_all add: mutex_init_def upd_mutex_def upd_slinks_def tids_ok_def set_next_def set_prev_def\<close>)

section \<open>Waiting with a time limit\<close>




end
