(* ===== verification/Timer_Claims.thy ===== *)
theory Timer_Claims
  imports Kernel_Scenario
begin

text \<open>The timer interrupt, sleeping threads and the clocks.\<close>

section \<open>The interrupt\<close>




section \<open>Sleeping\<close>








section \<open>Clocks\<close>

lemma unat_u64_mult: "unat (a * b :: u64) = unat a * unat b mod 2 ^ 64"
  by (simp add: unat_word_ariths)

text \<open>
  (C24) While the counter is below \<^verbatim>\<open>2^64 / 10^9\<close> the clocks convert it exactly, rounding down.  Beyond, the multiplication wraps: at the count
  18446744074, five minutes after the start at the 62.5 MHz of the counter, the nanosecond clock falls back to almost zero.
\<close>

theorem timer_clocks_exact:
  assumes "s_counter_freq st \<noteq> 0"
  shows "(unat count * 1000000000 < 2 ^ 64 \<longrightarrow>
      unat (timer_get_ns count st) = unat count * 1000000000 div unat (s_counter_freq st) \<and>
      unat (timer_get_us count st) = unat count * 1000000 div unat (s_counter_freq st) \<and>
      unat (timer_get_ms count st) = unat count * 1000 div unat (s_counter_freq st)) \<and>
    timer_get_ns 18446744074 st = 290448384 div s_counter_freq st"
proof -
  have "(18446744074 * 1000000000 :: u64) = 290448384" by (rule word_unat_eq_iff [THEN iffD2]) (simp add: unat_u64_mult unsigned_numeral take_bit_eq_mod)
  then have "timer_get_ns 18446744074 st = 290448384 div s_counter_freq st" using assms by (simp only: timer_get_ns_def) simp
  then show ?thesis using assms by (simp add: timer_get_ns_def timer_get_us_def timer_get_ms_def unat_div unat_u64_mult)
qed

theorem timer_clocks_exact_witness:
  "unat (timer_get_ns 62500 demo_time) = 1000000 \<and> unat (timer_get_ms 62500 demo_time) = 1 \<and> timer_get_ns 18446744074 demo_time = 4"
  using timer_clocks_exact [of demo_time 62500] demo_time_facts(4) by simp

end
