(* ===== verification/Notification_Claims.thy ===== *)
theory Notification_Claims
  imports Kernel_Scenario
begin

text \<open>What notifications promise, and two ways in which they fail.\<close>

section \<open>Identifiers\<close>

text \<open>
  (C29) Creating a notification while objects are free yields an identifier that looks up a new, idle object, and no other object becomes
  reachable or unreachable.
\<close>

theorem notification_create_lookup:
  assumes "npool_ok st" and "nfree st \<noteq> {}" and "owner < CONFIG_MAX_THREADS"
  shows "\<exists>i n st'. ipc_notification_create owner True st = (KERNEL_OK, Some i, st') \<and> n \<in> nfree st \<and> nfree st' = nfree st - {n} \<and>
    get_notification i st' = Some n \<and> n_state (s_notifications st' n) = IPC_NOTIFY_IDLE \<and> signals (s_notifications st' n) = 0 \<and>
    (\<forall>j m. m \<noteq> n \<longrightarrow> (get_notification j st' = Some m \<longleftrightarrow> get_notification j st = Some m))"
proof -
  obtain n st' where c: "ipc_notification_create owner True st = (KERNEL_OK, Some (ident (next_generation (generation (s_notifications st n))) n), st')"
      "n \<in> nfree st" "nfree st' = nfree st - {n}"
      "s_notifications st' = (s_notifications st)(n := \<lparr>n_id = ident (next_generation (generation (s_notifications st n))) n,
        n_state = IPC_NOTIFY_IDLE, signals = 0, waited_mask = 0, waiter_tid = THREAD_ID_INVALID,
        generation = next_generation (generation (s_notifications st n))\<rparr>)"
    using create_eq [OF assms(1,3,2)] by blast
  have n: "n < CONFIG_IPC_MAX_NOTIFICATIONS" using npool.bound [OF assms(1)] c(2) by auto
  have "get_notification (ident (next_generation (generation (s_notifications st n))) n) st' = Some n"
    using ntf_ids.lookup_ident [OF n next_generation_nonzero, of _ st'] by (simp add: c(4))
  moreover have "get_notification j st' = Some m \<longleftrightarrow> get_notification j st = Some m" if "m \<noteq> n" for j m
    using that by (simp add: ntf_ids.lookup_some c(4))
  ultimately show ?thesis using c by (intro exI [of _ "ident (next_generation (generation (s_notifications st n))) n"] exI [of _ n] exI [of _ st']) simp
qed

lemma demo_ntf_facts:
  "ntf_inv (ntf_view demo_kernel) (wait_queues {}) demo_rq (\<lambda>_. [])" "nfree (ntf_view demo_kernel) = {..<128}"
  "generation (s_notifications (ntf_view demo_kernel) n) = 0" "n_state (s_notifications (ntf_view demo_kernel) n) = IPC_NOTIFY_IDLE"
  "signals (s_notifications (ntf_view demo_kernel) n) = 0"
proof -
  show "ntf_inv (ntf_view demo_kernel) (wait_queues {}) demo_rq (\<lambda>_. [])" by (rule kernel_okD(1) [OF demo_kernel_facts(1)])
  have "set (map (\<lambda>i. 127 - i) [0..<128]) = {..<128 :: nat}"
  proof (rule set_eqI)
    fix x :: nat
    have "x = 127 - (127 - x)" if "x < 128" using that by simp
    then show "x \<in> set (map (\<lambda>i. 127 - i) [0..<128]) \<longleftrightarrow> x \<in> {..<128}" by (auto simp del: upt_rec_numeral intro!: image_eqI [of _ _ "127 - x"])
  qed
  then show "nfree (ntf_view demo_kernel) = {..<128}"
    by (simp add: nfree_def demo_kernel_def Let_def ipc_notification_subsys_init_def del: upt_rec_numeral set_map)
  show "generation (s_notifications (ntf_view demo_kernel) n) = 0" "n_state (s_notifications (ntf_view demo_kernel) n) = IPC_NOTIFY_IDLE"
    "signals (s_notifications (ntf_view demo_kernel) n) = 0"
    unfolding demo_kernel_def Let_def views by (simp_all add: ipc_notification_subsys_init_def) (simp_all add: ntf_view_def)
qed

theorem notification_create_lookup_witness:
  "\<exists>i n st'. ipc_notification_create 8 True (ntf_view demo_kernel) = (KERNEL_OK, Some i, st') \<and> get_notification i st' = Some n"
  using notification_create_lookup [of "ntf_view demo_kernel" 8] demo_ntf_facts(2) ntf_invD(3) [OF demo_ntf_facts(1)] by (auto simp: lessThan_empty_iff)

text \<open>
  (C30) After an object is destroyed its identifier is not valid any more.  While the entry is created and destroyed again it stays invalid,
  until the generation has been advanced 65534 more times: then the old identifier names the new object.
\<close>

theorem notification_stale_identifier:
  assumes "ntf_inv st W rq wq" and "c < CONFIG_MAX_CPUS" and "get_notification i st = Some n" and "n \<notin> nfree st"
    and "generation (s_notifications st n) \<noteq> 0"
  shows "\<exists>st'. ipc_notification_destroy c i st = Some (KERNEL_OK, st') \<and> n \<in> nfree st' \<and> get_notification i st' = None \<and>
    (\<forall>st'' k. generation (s_notifications st'' n) = (next_generation ^^ k) (generation (s_notifications st' n)) \<longrightarrow>
      (k < 65534 \<longrightarrow> get_notification i st'' = None) \<and> (k = 65534 \<longrightarrow> get_notification i st'' = Some n))"
proof -
  let ?g = "generation (s_notifications st n)"
  obtain st' where d: "ipc_notification_destroy c i st = Some (KERNEL_OK, st')" "nfree st' = insert n (nfree st)"
      "generation (s_notifications st' n) = next_generation ?g"
    using destroy_eq [OF assms(1-4)] by auto
  have n: "n < CONFIG_IPC_MAX_NOTIFICATIONS" using get_notification_bound [OF assms(3)] by simp
  have i: "i = ident ?g n" by (rule ntf_ids.lookup_unique [OF assms(3)])
  have st: "get_notification i st'' = None" if "generation (s_notifications st'' n) = (next_generation ^^ k) (next_generation ?g)" "k < 65534" for st'' k
    unfolding i by (rule ntf_ids.stale [OF n refl assms(5), where k = "Suc k"]) (use that in \<open>simp_all add: funpow_swap1\<close>)
  have "(next_generation ^^ 65535) ?g = ?g" by (rule next_generation_full [OF assms(5)])
  moreover have "(next_generation ^^ 65534) (next_generation ?g) = (next_generation ^^ Suc 65534) ?g" unfolding funpow_Suc_right by simp
  ultimately have c: "(next_generation ^^ 65534) (next_generation ?g) = ?g" by simp
  have "get_notification i st'' = Some n" if "generation (s_notifications st'' n) = (next_generation ^^ 65534) (next_generation ?g)" for st''
    unfolding i using ntf_ids.lookup_ident [OF n assms(5), of st''] that c by simp
  moreover have "get_notification i st' = None" using st [of st' 0] d(3) by simp
  ultimately show ?thesis using d st by auto
qed

definition demo_ntf :: ntf_sys where
  "demo_ntf = snd (snd (ipc_notification_create 8 True (ntf_view demo_kernel)))"

lemma demo_ntf_new:
  "ntf_inv demo_ntf (wait_queues {}) demo_rq (\<lambda>_. [])" "get_notification 0x10000 demo_ntf = Some 0" "0 \<notin> nfree demo_ntf" "nsched demo_ntf = k_sched demo_kernel"
  "s_notifications demo_ntf 0 = \<lparr>n_id = 0x10000, n_state = IPC_NOTIFY_IDLE, signals = 0, waited_mask = 0, waiter_tid = THREAD_ID_INVALID, generation = 1\<rparr>"
proof -
  show "ntf_inv demo_ntf (wait_queues {}) demo_rq (\<lambda>_. [])" unfolding demo_ntf_def by (rule create_inv [OF demo_ntf_facts(1)])
  have a: "alloc_notify_index (ntf_view demo_kernel) = (Inr 0, (ntf_view demo_kernel)\<lparr>s_free_notify_count := 127\<rparr>)"
    by (simp add: alloc_notify_index_def demo_kernel_def Let_def ipc_notification_subsys_init_def del: upt_rec_numeral)
  have g: "next_generation 0 = 1" "ident 1 0 = 0x10000" by (simp_all add: next_generation_def ident_def)
  then have e: "demo_ntf = upd_ntf 0 (\<lambda>n. n\<lparr>generation := 1, n_id := 0x10000, n_state := IPC_NOTIFY_IDLE, signals := 0, waited_mask := 0,
      waiter_tid := THREAD_ID_INVALID\<rparr>) ((ntf_view demo_kernel)\<lparr>s_free_notify_count := 127\<rparr>)"
    using demo_ntf_facts(3) [of 0] by (simp add: demo_ntf_def ipc_notification_create_def a Let_def)
  show f: "s_notifications demo_ntf 0 = \<lparr>n_id = 0x10000, n_state = IPC_NOTIFY_IDLE, signals = 0, waited_mask = 0, waiter_tid = THREAD_ID_INVALID, generation = 1\<rparr>"
    and "nsched demo_ntf = k_sched demo_kernel" by (simp_all add: e notification_new)
  then show "get_notification 0x10000 demo_ntf = Some 0" by (simp add: get_notification_def)
  show "0 \<notin> nfree demo_ntf"
    unfolding e by (simp add: nfree_def demo_kernel_def Let_def ipc_notification_subsys_init_def take_map del: upt_rec_numeral) auto
qed

theorem notification_stale_identifier_witness:
  "\<exists>st'. ipc_notification_destroy 0 0x10000 demo_ntf = Some (KERNEL_OK, st') \<and> get_notification 0x10000 st' = None"
  using notification_stale_identifier [OF demo_ntf_new(1) _ demo_ntf_new(2,3), of 0] demo_ntf_new(5) by auto

section \<open>Signals\<close>


text \<open>Thread 8 of the instance waits for bit 0.\<close>

lemma demo_waits:
  "\<exists>st rq. ntf_inv st (wait_queues {}) rq (\<lambda>_. []) \<and> get_notification 0x10000 st = Some 0 \<and> waits st 0 8 \<and>
    signals (s_notifications st 0) = 0 \<and> waited_mask (s_notifications st 0) = 1"
proof -
  have r: "ready_to_run (\<lambda>_. False) 0 (nsched demo_ntf)" "current_thread (cpu_q (nsched demo_ntf) 0) = Some 8"
    "idle_thread (cpu_q (nsched demo_ntf) 0) \<noteq> Some 8" using demo_kernel_facts(4-6) demo_ntf_new(4) by simp_all
  obtain s' rq' where s': "ntf_inv (upd_ntf 0 (\<lambda>x. x\<lparr>n_state := IPC_NOTIFY_WAITING, waited_mask := 1, waiter_tid := of_nat 8\<rparr>) (demo_ntf\<lparr>nsched := s'\<rparr>))
        (wait_queues {}) rq' (\<lambda>_. [])" "waits (upd_ntf 0 (\<lambda>x. x\<lparr>n_state := IPC_NOTIFY_WAITING, waited_mask := 1, waiter_tid := of_nat 8\<rparr>) (demo_ntf\<lparr>nsched := s'\<rparr>)) 0 8"
    using wait_blocks [OF demo_ntf_new(1-3) r, of 1] demo_ntf_new(5) by auto
  moreover have "get_notification 0x10000 (upd_ntf 0 (\<lambda>x. x\<lparr>n_state := IPC_NOTIFY_WAITING, waited_mask := 1, waiter_tid := of_nat 8\<rparr>) (demo_ntf\<lparr>nsched := s'\<rparr>)) = Some 0"
    by (simp add: get_notification_def demo_ntf_new(5))
  ultimately show ?thesis using demo_ntf_new(5) by fastforce
qed


section \<open>Limits\<close>

text \<open>
  (C32) A signal with none of the awaited bits loses the waiting thread: the object leaves the waiting state, the thread stays blocked, and
  afterwards not even a signal with the awaited bits wakes it.
\<close>

theorem notification_lost_wakeup:
  assumes "ntf_inv st W rq wq" and "c < CONFIG_MAX_CPUS" and "get_notification i st = Some n" and "waits st n t" and "sig \<noteq> 0"
    and "(signals (s_notifications st n) OR sig) AND waited_mask (s_notifications st n) = 0"
  shows "\<exists>st1. ipc_notification_signal c i sig st = (KERNEL_OK, st1) \<and> state (thr (nsched st1) t) = KTHREAD_STATE_BLOCKED \<and>
    (\<forall>m. \<not> waits st1 m t) \<and> (\<forall>sig2. state (thr (nsched (snd (ipc_notification_signal c i sig2 st1))) t) = KTHREAD_STATE_BLOCKED)"
proof -
  let ?f = "\<lambda>x. x\<lparr>signals := signals x OR sig, n_state := IPC_NOTIFY_PENDING\<rparr>" let ?st = "upd_ntf n ?f st"
  have e: "ipc_notification_signal c i sig st = (KERNEL_OK, ?st)" by (rule signal_pends [OF assms(3,5)]) (use assms(6) in blast)
  note O = waiters_okD [OF ntf_invD(4) [OF assms(1)] assms(4)]
  have w: "\<not> waits ?st m t" for m using O(3) [of m] waits_upd [of ?f st n m t] by auto
  have "state (thr (nsched (snd (ipc_notification_signal c i sig2 ?st))) t) = KTHREAD_STATE_BLOCKED" for sig2
  proof (cases "sig2 = 0")
    case True
    then show ?thesis using O(1) by (simp add: ipc_notification_signal_def)
  next
    case False
    have "get_notification i ?st = Some n" using assms(3) by (simp add: ntf_ids.lookup_some)
    then have "ipc_notification_signal c i sig2 ?st = (KERNEL_OK, upd_ntf n (\<lambda>x. x\<lparr>signals := signals x OR sig2, n_state := IPC_NOTIFY_PENDING\<rparr>) ?st)"
      by (rule signal_pends [OF _ False]) simp
    then show ?thesis using O(1) by simp
  qed
  then show ?thesis using e w O(1) by auto
qed

theorem notification_lost_wakeup_witness:
  "\<exists>st st1. waits st 0 8 \<and> ipc_notification_signal 0 0x10000 2 st = (KERNEL_OK, st1) \<and>
    state (thr (nsched (snd (ipc_notification_signal 0 0x10000 1 st1))) 8) = KTHREAD_STATE_BLOCKED"
proof -
  obtain st rq where st: "ntf_inv st (wait_queues {}) rq (\<lambda>_. [])" "get_notification 0x10000 st = Some 0" "waits st 0 8"
      "signals (s_notifications st 0) = 0" "waited_mask (s_notifications st 0) = 1" using demo_waits by blast
  then show ?thesis using notification_lost_wakeup [OF st(1) _ st(2,3), of 0 2] by fastforce
qed

text \<open>
  (C33) The generation is all that is checked: a free object still answers to the identifier made of its index and its current generation.
  Destroying it frees its index a second time, so that two later creations share one object; with a full stack of free indices the
  write goes past its end.
\<close>

theorem notification_double_free:
  assumes "npool_ok st" and "n \<in> nfree st" and "n < CONFIG_IPC_MAX_NOTIFICATIONS" and "n_state (s_notifications st n) \<noteq> IPC_NOTIFY_WAITING"
    and "i = ident (generation (s_notifications st n)) n" and "i \<noteq> 0"
  shows "if s_free_notify_count st < CONFIG_IPC_MAX_NOTIFICATIONS
    then \<exists>st'. ipc_notification_destroy c i st = Some (KERNEL_OK, st') \<and>
      take (s_free_notify_count st') (s_free_notify_stack st') = take (s_free_notify_count st) (s_free_notify_stack st) @ [n]
    else ipc_notification_destroy c i st = None"
proof -
  have n16: "n < 2 ^ 16" using assms(3) by simp
  have u: "unat (i AND 0xFFFF) = n" using n16 by (simp add: assms(5) ident_index unat_of_nat_u32)
  have g: "get_notification i st = Some n"
    using ntf_ids.lookup_some [of i st n] assms(3,6) u ident_generation [OF n16] by (simp add: assms(5))
  have l: "length (s_free_notify_stack st) = CONFIG_IPC_MAX_NOTIFICATIONS" "s_free_notify_count st \<le> CONFIG_IPC_MAX_NOTIFICATIONS"
    using assms(1) by (auto simp: npool_ok_def stack_ok_def)
  let ?f = "\<lambda>x. x\<lparr>n_id := KOBJ_ID_INVALID, n_state := IPC_NOTIFY_IDLE, signals := 0, waited_mask := 0,
      waiter_tid := THREAD_ID_INVALID, generation := next_generation (generation x)\<rparr>"
  have "ipc_notification_destroy c i st = map_option (Pair KERNEL_OK) (free_notify_index n (upd_ntf n ?f st))"
    using g assms(4) u by (simp add: ipc_notification_destroy_def Let_def scheduler_enqueue_def map_conv_bind_option comp_def ntf_sys_order(2))
  then show ?thesis using l by (simp add: free_notify_index_def take_Suc_conv_app_nth)
qed

theorem notification_double_free_witness:
  "ipc_notification_destroy 0 5 (ntf_view demo_kernel) = None"
proof -
  have i: "ident (generation (s_notifications (ntf_view demo_kernel) 5)) 5 = 5" by (simp add: demo_ntf_facts(3) ident_def)
  have c: "s_free_notify_count (ntf_view demo_kernel) = 128" by (simp add: demo_kernel_def Let_def ipc_notification_subsys_init_def)
  show ?thesis
    using notification_double_free [OF ntf_invD(3) [OF demo_ntf_facts(1)], of 5 5 0] demo_ntf_facts(2,4) i c by simp
qed

end
