(* ===== verification/Phys_Mem.thy ===== *)
theory Phys_Mem
  imports Node_Rings
begin

text \<open>
  The page frame allocator of \<^verbatim>\<open>kernel/mm/phys_mem.c\<close>, a buddy allocator over the static array \<^verbatim>\<open>s_page_frames\<close>.  The
  fields \<^verbatim>\<open>buddy_list\<close> of the frames and the heads \<^verbatim>\<open>s_buddy.free_lists\<close> form one heap of list nodes.  An access to
  \<^verbatim>\<open>s_page_frames\<close> outside the array makes the call undefined (\<open>None\<close>), as does a list node that is no frame where a frame
  is expected.  Orders inside the loops never exceed \<^verbatim>\<open>MAX_ORDER\<close> and the page counts of the initialisation never
  exceed \<^verbatim>\<open>MAX_PHYS_PAGES\<close>; they are natural numbers, while addresses, indices computed from addresses and the
  counters keep their width.
\<close>

datatype page_state = PAGE_FREE | PAGE_ALLOCATED | PAGE_RESERVED | PAGE_KERNEL | PAGE_DEVICE

record page_frame =
  phys_addr :: u64
  f_state :: page_state
  f_ref_count :: u32
  f_order :: u8

datatype buddy_node = Free_List nat | Frame_Node nat

record phys_mem_stats =
  st_total_pages :: u32
  st_free_pages :: u32
  st_kernel_pages :: u32
  st_reserved_pages :: u32
  st_device_pages :: u32
  st_alloc_count :: u32
  st_free_count :: u32

record phys_mem =
  s_page_frames :: "nat \<Rightarrow> page_frame"
  s_links :: "buddy_node heap"
  b_free_counts :: "nat \<Rightarrow> u32"
  b_base_addr :: u64
  b_total_pages :: u32
  b_free_pages :: u32
  pm_stats :: phys_mem_stats
  s_frame_count :: u32
  s_mem_base :: u64

abbreviation MAX_ORDER :: nat where
  "MAX_ORDER \<equiv> 11"

abbreviation MAX_PHYS_PAGES :: nat where
  "MAX_PHYS_PAGES \<equiv> 8192"

abbreviation CONFIG_PAGE_SIZE :: u64 where
  "CONFIG_PAGE_SIZE \<equiv> 4096"

section \<open>Addresses and indices\<close>

definition phys_to_index :: "u64 \<Rightarrow> u64 \<Rightarrow> u32" where
  "phys_to_index mem_base paddr = ucast ((paddr - mem_base) div CONFIG_PAGE_SIZE)"

definition index_to_phys :: "u64 \<Rightarrow> nat \<Rightarrow> u64" where
  "index_to_phys mem_base index = mem_base + of_nat index * CONFIG_PAGE_SIZE"

definition is_buddy_aligned :: "u64 \<Rightarrow> u64 \<Rightarrow> nat \<Rightarrow> bool" where
  "is_buddy_aligned mem_base paddr order = ((paddr - mem_base) mod push_bit order CONFIG_PAGE_SIZE = 0)"

definition buddy_address :: "u64 \<Rightarrow> nat \<Rightarrow> u64" where
  "buddy_address paddr order = paddr XOR push_bit order CONFIG_PAGE_SIZE"

section \<open>State changes\<close>

definition upd_frame :: "nat \<Rightarrow> (page_frame \<Rightarrow> page_frame) \<Rightarrow> phys_mem \<Rightarrow> phys_mem" where
  "upd_frame i f s = s\<lparr>s_page_frames := (s_page_frames s)(i := f (s_page_frames s i))\<rparr>"

definition upd_links :: "(buddy_node heap \<Rightarrow> buddy_node heap) \<Rightarrow> phys_mem \<Rightarrow> phys_mem" where
  "upd_links f s = s\<lparr>s_links := f (s_links s)\<rparr>"

text \<open>\<^verbatim>\<open>list_del(node); INIT_LIST_HEAD(node); free_counts[order]--\<close>\<close>

definition take_free :: "nat \<Rightarrow> nat \<Rightarrow> phys_mem \<Rightarrow> phys_mem" where
  "take_free i order s =
     (upd_links (\<lambda>h. INIT_LIST_HEAD (Some (Frame_Node i)) (list_del (Some (Frame_Node i)) h)) s)
       \<lparr>b_free_counts := (b_free_counts s)(order := b_free_counts s order - 1)\<rparr>"

text \<open>\<^verbatim>\<open>INIT_LIST_HEAD(node); list_add(node, &free_lists[order]); free_counts[order]++\<close>\<close>

definition put_free :: "nat \<Rightarrow> nat \<Rightarrow> phys_mem \<Rightarrow> phys_mem" where
  "put_free i order s =
     (upd_links (\<lambda>h. list_add (Some (Frame_Node i)) (Some (Free_List order))
                  (INIT_LIST_HEAD (Some (Frame_Node i)) h)) s)
       \<lparr>b_free_counts := (b_free_counts s)(order := b_free_counts s order + 1)\<rparr>"

definition add_free_pages :: "u32 \<Rightarrow> phys_mem \<Rightarrow> phys_mem" where
  "add_free_pages n s = s\<lparr>b_free_pages := b_free_pages s + n,
     pm_stats := (pm_stats s)\<lparr>st_free_pages := st_free_pages (pm_stats s) + n\<rparr>\<rparr>"

definition sub_free_pages :: "u32 \<Rightarrow> phys_mem \<Rightarrow> phys_mem" where
  "sub_free_pages n s = s\<lparr>b_free_pages := b_free_pages s - n,
     pm_stats := (pm_stats s)\<lparr>st_free_pages := st_free_pages (pm_stats s) - n\<rparr>\<rparr>"

definition count_reserved :: "phys_mem \<Rightarrow> phys_mem" where
  "count_reserved s =
     s\<lparr>pm_stats := (pm_stats s)\<lparr>st_reserved_pages := st_reserved_pages (pm_stats s) + 1\<rparr>\<rparr>"

section \<open>Initialisation\<close>

definition null_link :: "buddy_node list_head" where
  "null_link = \<lparr>lh_next = None, lh_prev = None\<rparr>"

definition zero_frame :: page_frame where
  "zero_frame = \<lparr>phys_addr = 0, f_state = PAGE_FREE, f_ref_count = 0, f_order = 0\<rparr>"

definition zero_stats :: phys_mem_stats where
  "zero_stats = \<lparr>st_total_pages = 0, st_free_pages = 0, st_kernel_pages = 0, st_reserved_pages = 0,
     st_device_pages = 0, st_alloc_count = 0, st_free_count = 0\<rparr>"

text \<open>The two \<^verbatim>\<open>memset\<close> calls: every frame and its list node is zero.\<close>

definition clear_frames :: "phys_mem \<Rightarrow> phys_mem" where
  "clear_frames s = s\<lparr>s_page_frames := \<lambda>_. zero_frame,
     s_links := \<lambda>a. (case a of Frame_Node i \<Rightarrow> null_link | Free_List k \<Rightarrow> s_links s a),
     pm_stats := zero_stats\<rparr>"

fun init_free_lists :: "nat list \<Rightarrow> phys_mem \<Rightarrow> phys_mem" where
  "init_free_lists [] s = s"
| "init_free_lists (k # ks) s =
     init_free_lists ks ((upd_links (INIT_LIST_HEAD (Some (Free_List k))) s)
       \<lparr>b_free_counts := (b_free_counts s)(k := 0)\<rparr>)"

fun init_frames :: "nat list \<Rightarrow> phys_mem \<Rightarrow> phys_mem" where
  "init_frames [] s = s"
| "init_frames (i # is) s =
     init_frames is (upd_links (INIT_LIST_HEAD (Some (Frame_Node i)))
       (upd_frame i (\<lambda>f. f\<lparr>phys_addr := index_to_phys (s_mem_base s) i, f_state := PAGE_FREE,
          f_ref_count := 0, f_order := 0\<rparr>) s))"

text \<open>Everything before the free lists are filled.\<close>

definition reset_memory :: "u64 \<Rightarrow> u32 \<Rightarrow> phys_mem \<Rightarrow> phys_mem" where
  "reset_memory mem_base total_pages s =
     (let s1 = clear_frames (s\<lparr>s_mem_base := mem_base, s_frame_count := total_pages\<rparr>);
          s2 = s1\<lparr>pm_stats := (pm_stats s1)\<lparr>st_total_pages := total_pages\<rparr>,
                  b_base_addr := mem_base, b_total_pages := total_pages, b_free_pages := 0\<rparr>
      in init_frames [0..<unat total_pages] (init_free_lists [0..<Suc MAX_ORDER] s2))"

text \<open>\<^verbatim>\<open>while (pages_remaining >= block_pages)\<close> at one order; the result is the next page index and the
  pages that remain.\<close>

definition seed_block :: "nat \<Rightarrow> nat \<Rightarrow> phys_mem \<Rightarrow> phys_mem" where
  "seed_block order page_index s =
     (let s1 = upd_frame page_index (\<lambda>f. f\<lparr>f_order := of_nat order, f_state := PAGE_FREE\<rparr>) s;
          s2 = upd_links (list_add_tail (Some (Frame_Node page_index)) (Some (Free_List order))) s1
      in s2\<lparr>b_free_counts := (b_free_counts s2)(order := b_free_counts s2 order + 1),
            b_free_pages := b_free_pages s2 + of_nat (2 ^ order)\<rparr>)"

function seed_order :: "nat \<Rightarrow> nat \<Rightarrow> nat \<Rightarrow> phys_mem \<Rightarrow> nat \<times> nat \<times> phys_mem" where
  "seed_order order page_index pages_remaining s =
     (if 2 ^ order \<le> pages_remaining
      then seed_order order (page_index + 2 ^ order) (pages_remaining - 2 ^ order)
             (seed_block order page_index s)
      else (page_index, pages_remaining, s))"
  by pat_completeness auto

termination seed_order
proof (relation "measure (\<lambda>(order, page_index, pages_remaining, s). pages_remaining)")
  show "((order, page_index + 2 ^ order, pages_remaining - 2 ^ order, seed_block order page_index s),
      order, page_index, pages_remaining, s)
    \<in> measure (\<lambda>(order, page_index, pages_remaining, s). pages_remaining)"
    if "2 ^ order \<le> pages_remaining" for order page_index pages_remaining :: nat and s
    using that zero_less_power [of "2::nat" order] by (simp, linarith)
qed simp

declare seed_order.simps [simp del]

fun seed_orders :: "nat \<Rightarrow> nat \<Rightarrow> nat \<Rightarrow> phys_mem \<Rightarrow> phys_mem" where
  "seed_orders order page_index pages_remaining s =
     (case seed_order order page_index pages_remaining s of
        (page_index', pages_remaining', s') \<Rightarrow>
          (if pages_remaining' = 0 then s'
           else case order of 0 \<Rightarrow> s' | Suc k \<Rightarrow> seed_orders k page_index' pages_remaining' s'))"

declare seed_orders.simps [simp del]

definition phys_mem_init :: "u64 \<Rightarrow> u64 \<Rightarrow> phys_mem \<Rightarrow> status \<times> phys_mem" where
  "phys_mem_init mem_base mem_size s =
     (if mem_base = 0 then (Err EINVAL, s)
      else if mem_base mod CONFIG_PAGE_SIZE \<noteq> 0 then (Err EINVAL, s)
      else if mem_size = 0 \<or> mem_size mod CONFIG_PAGE_SIZE \<noteq> 0 then (Err EINVAL, s)
      else let total_pages = (ucast (mem_size div CONFIG_PAGE_SIZE) :: u32) in
        if total_pages > of_nat MAX_PHYS_PAGES then (Err EINVAL, s)
        else let s1 = seed_orders MAX_ORDER 0 (unat total_pages) (reset_memory mem_base total_pages s)
             in (KERNEL_OK, s1\<lparr>pm_stats := (pm_stats s1)\<lparr>st_free_pages := b_free_pages s1\<rparr>\<rparr>))"

section \<open>Allocation\<close>

function find_order :: "buddy_node heap \<Rightarrow> nat \<Rightarrow> nat option" where
  "find_order h current_order =
     (if current_order \<le> MAX_ORDER
      then if \<not> list_empty (Some (Free_List current_order)) h then Some current_order
           else find_order h (Suc current_order)
      else None)"
  by pat_completeness auto

termination find_order
  by (relation "measure (\<lambda>(h, current_order). Suc MAX_ORDER - current_order)") auto

declare find_order.simps [simp del]

text \<open>The split loop, \<^verbatim>\<open>while (current_order > order)\<close>: the right half of the block of frame \<open>i\<close> goes to the free
  list below.\<close>

definition split_right :: "nat \<Rightarrow> nat \<Rightarrow> phys_mem \<Rightarrow> phys_mem option" where
  "split_right i current_order s =
     (let right_addr = phys_addr (s_page_frames s i) + push_bit current_order CONFIG_PAGE_SIZE;
          right_index = unat (phys_to_index (s_mem_base s) right_addr)
      in if right_index < MAX_PHYS_PAGES
         then Some (put_free right_index current_order
                (upd_frame right_index
                  (\<lambda>f. f\<lparr>f_state := PAGE_FREE, f_order := of_nat current_order, f_ref_count := 0\<rparr>) s))
         else None)"

fun split_block :: "nat \<Rightarrow> nat \<Rightarrow> nat \<Rightarrow> phys_mem \<Rightarrow> phys_mem option" where
  "split_block order i 0 s = Some s"
| "split_block order i (Suc current_order) s =
     (if Suc current_order > order
      then case split_right i current_order s of
             None \<Rightarrow> None
           | Some s' \<Rightarrow> split_block order i current_order s'
      else Some s)"

definition phys_mem_alloc_pages :: "u32 \<Rightarrow> phys_mem \<Rightarrow> (u64 \<times> phys_mem) option" where
  "phys_mem_alloc_pages order s =
     (if order > of_nat MAX_ORDER then Some (0, s)
      else case find_order (s_links s) (unat order) of
             None \<Rightarrow> Some (0, s)
           | Some current_order \<Rightarrow>
              (case lh_next (s_links s (Free_List current_order)) of
                 Some (Frame_Node i) \<Rightarrow>
                   (case split_block (unat order) i current_order (take_free i current_order s) of
                      None \<Rightarrow> None
                    | Some s2 \<Rightarrow>
                       (let s3 = upd_frame i (\<lambda>f. f\<lparr>f_state := PAGE_ALLOCATED, f_order := ucast order,
                                   f_ref_count := 1\<rparr>) s2;
                            s4 = sub_free_pages (push_bit (unat order) 1) s3
                        in Some (phys_addr (s_page_frames s4 i),
                             s4\<lparr>pm_stats := (pm_stats s4)
                                 \<lparr>st_alloc_count := st_alloc_count (pm_stats s4) + 1\<rparr>\<rparr>)))
               | _ \<Rightarrow> None))"

definition phys_mem_alloc_page :: "phys_mem \<Rightarrow> (u64 \<times> phys_mem) option" where
  "phys_mem_alloc_page s = phys_mem_alloc_pages 0 s"

section \<open>Release\<close>

text \<open>The frame that heads the merged block of frame \<open>i\<close> and its buddy, by the alignment test of the loop.\<close>

definition merged_head :: "nat \<Rightarrow> nat \<Rightarrow> nat \<Rightarrow> phys_mem \<Rightarrow> nat" where
  "merged_head i buddy_index order s =
     (let paddr = phys_addr (s_page_frames s i) in
      if \<not> is_buddy_aligned (s_mem_base s) paddr (order + 1)
      then if buddy_address paddr order < paddr then buddy_index else i
      else i)"

text \<open>The loop \<^verbatim>\<open>while (order < MAX_ORDER)\<close>: every \<^verbatim>\<open>break\<close> ends it with the current frame and order.\<close>

function merge_buddies :: "nat \<Rightarrow> nat \<Rightarrow> phys_mem \<Rightarrow> nat \<times> nat \<times> phys_mem" where
  "merge_buddies i order s =
     (if order < MAX_ORDER
      then let buddy_addr = buddy_address (phys_addr (s_page_frames s i)) order;
               buddy_index = phys_to_index (s_mem_base s) buddy_addr;
               buddy_frame = s_page_frames s (unat buddy_index)
           in if buddy_addr < s_mem_base s then (i, order, s)
              else if buddy_index \<ge> s_frame_count s then (i, order, s)
              else if f_state buddy_frame \<noteq> PAGE_FREE then (i, order, s)
              else if f_order buddy_frame \<noteq> of_nat order then (i, order, s)
              else let i' = merged_head i (unat buddy_index) order s;
                       s1 = take_free (unat buddy_index) order s
                   in merge_buddies i' (Suc order) (upd_frame i' (\<lambda>f. f\<lparr>f_order := of_nat (Suc order)\<rparr>) s1)
      else (i, order, s))"
  by pat_completeness auto

termination merge_buddies
  by (relation "measure (\<lambda>(i, order, s). MAX_ORDER - order)") auto

declare merge_buddies.simps [simp del]

definition free_block :: "nat \<Rightarrow> nat \<Rightarrow> phys_mem \<Rightarrow> phys_mem" where
  "free_block index order s =
     (case merge_buddies index order s of
        (i, order', s1) \<Rightarrow>
          (let s2 = put_free i order' (upd_frame i (\<lambda>f. f\<lparr>f_state := PAGE_FREE, f_ref_count := 0\<rparr>) s1);
               s3 = add_free_pages (push_bit order' 1) s2
           in s3\<lparr>pm_stats := (pm_stats s3)\<lparr>st_free_count := st_free_count (pm_stats s3) + 1\<rparr>\<rparr>))"

definition phys_mem_free_pages :: "u64 \<Rightarrow> u32 \<Rightarrow> phys_mem \<Rightarrow> phys_mem" where
  "phys_mem_free_pages paddr order s =
     (if paddr = 0 then s
      else if order > of_nat MAX_ORDER then s
      else let index = phys_to_index (s_mem_base s) paddr in
        if index \<ge> s_frame_count s then s
        else let i = unat index; frame = s_page_frames s i in
          if f_state frame \<noteq> PAGE_ALLOCATED then s
          else let s1 = (if f_ref_count frame > 0
                         then upd_frame i (\<lambda>f. f\<lparr>f_ref_count := f_ref_count f - 1\<rparr>) s else s)
               in if f_ref_count (s_page_frames s1 i) > 0 then s1 else free_block i (unat order) s1)"

definition phys_mem_free_page :: "u64 \<Rightarrow> phys_mem \<Rightarrow> phys_mem" where
  "phys_mem_free_page paddr s = phys_mem_free_pages paddr 0 s"

section \<open>Queries and reservation\<close>

definition phys_mem_get_frame :: "u64 \<Rightarrow> phys_mem \<Rightarrow> nat option" where
  "phys_mem_get_frame paddr s =
     (if paddr < s_mem_base s then None
      else if paddr \<ge> s_mem_base s + ucast (s_frame_count s) * CONFIG_PAGE_SIZE then None
      else if paddr mod CONFIG_PAGE_SIZE \<noteq> 0 then None
      else let index = phys_to_index (s_mem_base s) paddr in
        if index \<ge> s_frame_count s then None else Some (unat index))"

definition phys_mem_get_stats :: "bool \<Rightarrow> phys_mem \<Rightarrow> phys_mem_stats option" where
  "phys_mem_get_stats stats s = (if stats then Some (pm_stats s) else None)"

definition reserve_frame :: "nat \<Rightarrow> phys_mem \<Rightarrow> phys_mem" where
  "reserve_frame index s =
     (let frame = s_page_frames s index in
      if f_state frame = PAGE_FREE
      then let s1 = (if lh_next (s_links s (Frame_Node index)) \<noteq> None
                     then let frame_order = unat (f_order frame);
                              s' = upd_links (\<lambda>h. INIT_LIST_HEAD (Some (Frame_Node index))
                                     (list_del (Some (Frame_Node index)) h)) s
                          in if frame_order \<le> MAX_ORDER
                             then s'\<lparr>b_free_counts := (b_free_counts s')
                                   (frame_order := b_free_counts s' frame_order - 1)\<rparr>
                             else s'
                     else s);
               s2 = upd_frame index (\<lambda>f. f\<lparr>f_state := PAGE_RESERVED, f_ref_count := 0, f_order := 0\<rparr>) s1
           in count_reserved (sub_free_pages 1 s2)
      else if f_state frame = PAGE_KERNEL then count_reserved s
      else s)"

fun reserve_range :: "nat \<Rightarrow> nat \<Rightarrow> phys_mem \<Rightarrow> phys_mem option" where
  "reserve_range index 0 s = Some s"
| "reserve_range index (Suc n) s =
     (if index < MAX_PHYS_PAGES then reserve_range (Suc index) n (reserve_frame index s) else None)"

definition phys_mem_reserve :: "u64 \<Rightarrow> u64 \<Rightarrow> phys_mem \<Rightarrow> (status \<times> phys_mem) option" where
  "phys_mem_reserve base sz s =
     (if sz = 0 then Some (Err EINVAL, s)
      else if base mod CONFIG_PAGE_SIZE \<noteq> 0 then Some (Err EINVAL, s)
      else let end_addr = push_bit 12 (drop_bit 12 (base + sz)) in
        if base < s_mem_base s then Some (Err EINVAL, s)
        else if end_addr > s_mem_base s + ucast (s_frame_count s) * CONFIG_PAGE_SIZE
        then Some (Err EINVAL, s)
        else let start_index = unat (phys_to_index (s_mem_base s) base);
                 end_index = unat (phys_to_index (s_mem_base s) end_addr)
             in (case reserve_range start_index (end_index - start_index) s of
                   None \<Rightarrow> None
                 | Some s' \<Rightarrow> Some (KERNEL_OK, s')))"

end
