(* ===== verification/Buddy_Blocks.thy ===== *)
theory Buddy_Blocks
  imports Main
begin

text \<open>
  Blocks of a buddy system: a block \<open>(i, k)\<close> is the run of \<open>2 ^ k\<close> pages from page \<open>i\<close>, which is a multiple of \<open>2 ^ k\<close>.  A
  tiling is a set of blocks that covers the pages below \<open>T\<close> without overlap.  Splitting a block and joining two
  buddies keep a tiling, and in a tiling the buddy of a block is the head of a block that is not larger.  The
  functions \<open>carve\<close> and \<open>coalesce\<close> are the buddy algorithm on free lists, without frames, links or counters.
\<close>

type_synonym block = "nat \<times> nat"

definition pages_of :: "block \<Rightarrow> nat set" where
  "pages_of b = {fst b ..< fst b + 2 ^ snd b}"

definition aligned :: "block \<Rightarrow> bool" where
  "aligned b \<longleftrightarrow> 2 ^ snd b dvd fst b"

definition tiling :: "nat \<Rightarrow> nat \<Rightarrow> block set \<Rightarrow> bool" where
  "tiling M T B \<longleftrightarrow>
     (\<forall>b\<in>B. aligned b \<and> snd b \<le> M \<and> fst b + 2 ^ snd b \<le> T) \<and>
     (\<forall>b\<in>B. \<forall>c\<in>B. b \<noteq> c \<longrightarrow> pages_of b \<inter> pages_of c = {}) \<and>
     (\<forall>n<T. \<exists>b\<in>B. n \<in> pages_of b)"

definition buddy :: "nat \<Rightarrow> nat \<Rightarrow> nat" where
  "buddy i k = (if 2 ^ Suc k dvd i then i + 2 ^ k else i - 2 ^ k)"

section \<open>Aligned blocks\<close>

lemma pages_of_div:
  assumes "aligned b"
  shows "n \<in> pages_of b \<longleftrightarrow> n div 2 ^ snd b = fst b div 2 ^ snd b"
proof -
  obtain q where q: "fst b = 2 ^ snd b * q" using assms by (auto simp: aligned_def)
  have "n div 2 ^ snd b = q \<longleftrightarrow> 2 ^ snd b * q \<le> n \<and> n < 2 ^ snd b * q + 2 ^ snd b"
    using dividend_less_times_div [of "2 ^ snd b" n] times_div_less_eq_dividend [of "2 ^ snd b" n]
    by (auto intro: div_nat_eqI simp: algebra_simps)
  then show ?thesis by (simp add: pages_of_def q)
qed

lemma head_in_pages [simp]: "fst b \<in> pages_of b" "(i, k) = b \<Longrightarrow> i \<in> pages_of b"
  by (auto simp: pages_of_def)

lemma aligned_nested:
  assumes b: "aligned b" and c: "aligned c" and le: "snd c \<le> snd b" and n: "n \<in> pages_of b" "n \<in> pages_of c"
  shows "pages_of c \<subseteq> pages_of b"
proof
  fix m assume m: "m \<in> pages_of c"
  obtain d where d: "snd b = snd c + d" using le le_Suc_ex by blast
  have up: "x div 2 ^ snd b = x div 2 ^ snd c div 2 ^ d" for x :: nat
    by (simp add: d power_add div_mult2_eq)
  have "m div 2 ^ snd c = n div 2 ^ snd c" using m n(2) by (simp add: pages_of_div [OF c])
  then have "m div 2 ^ snd b = n div 2 ^ snd b" by (simp add: up)
  then show "m \<in> pages_of b" using n(1) by (simp add: pages_of_div [OF b])
qed

lemma aligned_head_same:
  assumes "aligned (j, p)" and "2 ^ p dvd i" and "i \<in> pages_of (j, p)"
  shows "j = i"
proof -
  have "i div 2 ^ p = j div 2 ^ p" using pages_of_div [OF assms(1)] assms(3) by simp
  then have "2 ^ p * (i div 2 ^ p) = 2 ^ p * (j div 2 ^ p)" by simp
  moreover have "2 ^ p dvd j" using assms(1) by (simp add: aligned_def)
  ultimately show ?thesis using assms(2) by simp
qed

section \<open>Buddies\<close>

lemma not_dvd_half:
  assumes "2 ^ k dvd i" and "\<not> 2 ^ Suc k dvd (i::nat)"
  shows "2 ^ k \<le> i" and "2 ^ Suc k dvd i - 2 ^ k"
proof -
  obtain q where q: "i = 2 ^ k * q" using assms(1) by blast
  with assms(2) have "odd q" by (auto simp: dvd_def)
  then obtain r where "q = 2 * r + 1" by (blast elim: oddE)
  with q have "i = 2 ^ Suc k * r + 2 ^ k" by (simp add: algebra_simps)
  then show "2 ^ k \<le> i" and "2 ^ Suc k dvd i - 2 ^ k" by auto
qed

lemma dvd_Suc_lower: "2 ^ Suc k dvd (i::nat) \<Longrightarrow> 2 ^ k dvd i"
  by (metis dvd_trans le_imp_power_dvd lessI less_imp_le_nat)

lemma buddy_aligned:
  assumes "2 ^ k dvd i"
  shows "2 ^ k dvd buddy i k"
  using assms not_dvd_half(1) [OF assms] by (auto simp: buddy_def)

lemma buddy_min:
  assumes "2 ^ k dvd i"
  shows "min i (buddy i k) = (if 2 ^ Suc k dvd i then i else i - 2 ^ k)"
    and "2 ^ Suc k dvd min i (buddy i k)"
    and "pages_of (min i (buddy i k), Suc k) = pages_of (i, k) \<union> pages_of (buddy i k, k)"
    and "buddy i k \<noteq> i"
  using not_dvd_half [OF assms] by (auto simp: buddy_def pages_of_def)

lemma buddy_buddy:
  assumes "2 ^ k dvd i"
  shows "buddy (buddy i k) k = i"
proof (cases "2 ^ Suc k dvd i")
  case True
  then have "\<not> 2 ^ Suc k dvd i + 2 ^ k"
    using dvd_add_right_iff [OF True, of "2 ^ k"] by (simp add: dvd_power_iff del: power_Suc)
  then show ?thesis using True by (simp add: buddy_def)
next
  case False
  then show ?thesis using not_dvd_half [OF assms False] by (simp add: buddy_def)
qed

lemma buddy_in_double:
  assumes "2 ^ k dvd i" and "k < p" and "aligned (j, p)" and "buddy i k \<in> pages_of (j, p)"
  shows "i \<in> pages_of (j, p)"
proof -
  have "aligned (min i (buddy i k), Suc k)" using buddy_min(2) [OF assms(1)] by (simp add: aligned_def)
  then have "pages_of (min i (buddy i k), Suc k) \<subseteq> pages_of (j, p)"
    using aligned_nested [OF assms(3) _ _ assms(4), of "(min i (buddy i k), Suc k)"] assms(2)
      buddy_min(3) [OF assms(1)] by auto
  then show ?thesis using buddy_min(3) [OF assms(1)] by auto
qed

section \<open>Tilings\<close>

lemma tilingD:
  assumes "tiling M T B" and "b \<in> B"
  shows "aligned b" and "snd b \<le> M" and "fst b + 2 ^ snd b \<le> T"
    and "c \<in> B \<Longrightarrow> b \<noteq> c \<Longrightarrow> pages_of b \<inter> pages_of c = {}"
  using assms unfolding tiling_def by blast+

lemma tiling_cover:
  assumes "tiling M T B" and "n < T"
  obtains b where "b \<in> B" and "n \<in> pages_of b"
  using assms unfolding tiling_def by blast

lemma tiling_head_unique:
  assumes "tiling M T B" and "(i, k) \<in> B" and "(i, p) \<in> B"
  shows "k = p"
  using tilingD(4) [OF assms] by (auto simp: pages_of_def)

lemma tiling_buddy:
  assumes t: "tiling M T B" and i: "(i, k) \<in> B" and b: "buddy i k < T"
  obtains p where "(buddy i k, p) \<in> B" and "p \<le> k"
proof -
  obtain j p where jp: "(j, p) \<in> B" "buddy i k \<in> pages_of (j, p)" using tiling_cover [OF t b] by (metis surj_pair)
  have al: "2 ^ k dvd i" "aligned (j, p)" using tilingD(1) [OF t] i jp(1) by (auto simp: aligned_def)
  have "\<not> k < p"
  proof
    assume "k < p"
    then have "i \<in> pages_of (j, p)" using buddy_in_double [OF al(1) _ al(2) jp(2)] by blast
    moreover have "i \<in> pages_of (i, k)" by (simp add: pages_of_def)
    ultimately show False using tilingD(4) [OF t i jp(1)] \<open>k < p\<close> by blast
  qed
  then have "2 ^ p dvd buddy i k" using buddy_aligned [OF al(1)] by (meson dvd_trans le_imp_power_dvd not_less)
  then have "j = buddy i k" using aligned_head_same [OF al(2) _ jp(2)] by blast
  with jp(1) \<open>\<not> k < p\<close> that show ?thesis by simp
qed

text \<open>Replacing blocks by others that are aligned and cover the same pages keeps a tiling.\<close>

lemma tiling_replace:
  assumes t: "tiling M T B" and D: "D \<subseteq> B" and E: "\<And>e. e \<in> E \<Longrightarrow> aligned e \<and> snd e \<le> M"
    and cover: "(\<Union>e\<in>E. pages_of e) = (\<Union>d\<in>D. pages_of d)"
    and disj: "\<And>e f. e \<in> E \<Longrightarrow> f \<in> E \<Longrightarrow> e \<noteq> f \<Longrightarrow> pages_of e \<inter> pages_of f = {}"
  shows "tiling M T (B - D \<union> E)"
proof -
  have out: "pages_of c \<inter> (\<Union>e\<in>E. pages_of e) = {}" if "c \<in> B - D" for c
    using that D tilingD(4) [OF t, of c] unfolding cover by blast
  have bound: "fst e + 2 ^ snd e \<le> T" if "e \<in> E" for e
  proof -
    have "fst e + 2 ^ snd e - 1 \<in> pages_of e"
      using zero_less_power [of "2::nat" "snd e"] unfolding pages_of_def atLeastLessThan_iff by linarith
    then have "fst e + 2 ^ snd e - 1 \<in> (\<Union>d\<in>D. pages_of d)" unfolding cover [symmetric] using that by blast
    then obtain d where "d \<in> B" "fst e + 2 ^ snd e - 1 \<in> pages_of d" using D by blast
    then have "fst e + 2 ^ snd e - 1 < fst d + 2 ^ snd d" "fst d + 2 ^ snd d \<le> T"
      using tilingD(3) [OF t] by (auto simp: pages_of_def)
    then show ?thesis by linarith
  qed
  have "\<exists>b\<in>B - D \<union> E. n \<in> pages_of b" if nT: "n < T" for n
  proof -
    obtain b where "b \<in> B" "n \<in> pages_of b" using tiling_cover [OF t nT] .
    moreover have "n \<in> (\<Union>e\<in>E. pages_of e)" if "b \<in> D" unfolding cover using that \<open>n \<in> pages_of b\<close> by blast
    ultimately show ?thesis by blast
  qed
  moreover have "pages_of b \<inter> pages_of c = {}" if bc: "b \<in> B - D \<union> E" "c \<in> B - D \<union> E" "b \<noteq> c" for b c
  proof (cases "b \<in> B - D"; cases "c \<in> B - D")
    assume "b \<in> B - D" "c \<in> B - D"
    then show ?thesis using tilingD(4) [OF t, of b c] bc(3) by simp
  next
    assume "b \<in> B - D" "c \<notin> B - D"
    then show ?thesis using out [of b] bc(2) by fast
  next
    assume "b \<notin> B - D" "c \<in> B - D"
    then show ?thesis using out [of c] bc(1) by fast
  next
    assume "b \<notin> B - D" "c \<notin> B - D"
    then have "b \<in> E" "c \<in> E" using bc(1,2) by auto
    then show ?thesis using disj bc(3) by blast
  qed
  moreover have "aligned b \<and> snd b \<le> M \<and> fst b + 2 ^ snd b \<le> T" if "b \<in> B - D \<union> E" for b
    using that tilingD(1-3) [OF t, of b] E [of b] bound [of b] by auto
  ultimately show ?thesis unfolding tiling_def by simp
qed

lemma tiling_split:
  assumes t: "tiling M T B" and i: "(i, Suc k) \<in> B"
  shows "tiling M T (B - {(i, Suc k)} \<union> {(i, k), (i + 2 ^ k, k)})"
proof (rule tiling_replace [OF t])
  have "2 ^ Suc k dvd i" "Suc k \<le> M" using tilingD(1,2) [OF t i] by (auto simp: aligned_def)
  moreover from this(1) have "2 ^ k dvd i" by (rule dvd_Suc_lower)
  ultimately show "aligned e \<and> snd e \<le> M" if "e \<in> {(i, k), (i + 2 ^ k, k)}" for e
    using that by (auto simp: aligned_def)
qed (use i in \<open>auto simp: pages_of_def\<close>)

lemma tiling_join:
  assumes t: "tiling M T B" and i: "(i, k) \<in> B" and b: "(buddy i k, k) \<in> B" and k: "k < M"
  shows "tiling M T (B - {(i, k), (buddy i k, k)} \<union> {(min i (buddy i k), Suc k)})"
proof (rule tiling_replace [OF t])
  have a: "2 ^ k dvd i" using tilingD(1) [OF t i] by (simp add: aligned_def)
  show "aligned e \<and> snd e \<le> M" if "e \<in> {(min i (buddy i k), Suc k)}" for e
    using that buddy_min(2) [OF a] k by (simp add: aligned_def)
  show "(\<Union>e\<in>{(min i (buddy i k), Suc k)}. pages_of e) = (\<Union>d\<in>{(i, k), (buddy i k, k)}. pages_of d)"
    using buddy_min(3) [OF a] by simp
qed (use i b in auto)

section \<open>Free lists\<close>

type_synonym free_lists = "nat \<Rightarrow> nat list"

definition free_blocks :: "nat \<Rightarrow> free_lists \<Rightarrow> block set" where
  "free_blocks M fl = {(i, k). k \<le> M \<and> i \<in> set (fl k)}"

text \<open>No block and its buddy are both free.\<close>

definition coalesced :: "nat \<Rightarrow> free_lists \<Rightarrow> bool" where
  "coalesced M fl \<longleftrightarrow> (\<forall>k<M. \<forall>i\<in>set (fl k). buddy i k \<notin> set (fl k))"

definition first_fit :: "nat \<Rightarrow> nat \<Rightarrow> free_lists \<Rightarrow> nat option" where
  "first_fit M k fl = find (\<lambda>j. fl j \<noteq> []) [k..<Suc M]"

text \<open>The right halves that remain free when the block at \<open>i\<close> of order \<open>k\<close> is cut down to order \<open>j\<close>.\<close>

fun carve :: "nat \<Rightarrow> nat \<Rightarrow> nat \<Rightarrow> free_lists \<Rightarrow> free_lists" where
  "carve j i 0 fl = fl"
| "carve j i (Suc k) fl = (if j < Suc k then carve j i k (fl(k := (i + 2 ^ k) # fl k)) else fl)"

text \<open>The block at \<open>i\<close> of order \<open>k\<close> joined with its buddy as long as the buddy is free.\<close>

function coalesce :: "nat \<Rightarrow> nat \<Rightarrow> nat \<Rightarrow> free_lists \<Rightarrow> nat \<times> nat \<times> free_lists" where
  "coalesce M i k fl =
     (if k < M \<and> buddy i k \<in> set (fl k)
      then coalesce M (min i (buddy i k)) (Suc k) (fl(k := remove1 (buddy i k) (fl k)))
      else (i, k, fl))"
  by pat_completeness auto

termination coalesce
  by (relation "measure (\<lambda>(M, i, k, fl). M - k)") auto

declare coalesce.simps [simp del]

text \<open>Allocation of a block of order \<open>j\<close> from the head of the list of order \<open>k\<close>, and release of a block.\<close>

definition take_out :: "nat \<Rightarrow> nat \<Rightarrow> free_lists \<Rightarrow> free_lists" where
  "take_out j k fl = carve j (hd (fl k)) k (fl(k := tl (fl k)))"

definition put_back :: "nat \<Rightarrow> nat \<Rightarrow> nat \<Rightarrow> free_lists \<Rightarrow> free_lists" where
  "put_back M i k fl = (case coalesce M i k fl of (i', k', fl') \<Rightarrow> fl'(k' := i' # fl' k'))"

section \<open>The state of the allocator\<close>

text \<open>\<open>A\<close> is the set of blocks that are handed out.\<close>

definition blocks_ok :: "nat \<Rightarrow> nat \<Rightarrow> free_lists \<Rightarrow> block set \<Rightarrow> bool" where
  "blocks_ok M T fl A \<longleftrightarrow> tiling M T (free_blocks M fl \<union> A) \<and> free_blocks M fl \<inter> A = {} \<and> coalesced M fl \<and>
     (\<forall>k\<le>M. distinct (fl k))"

lemma blocks_okD:
  assumes "blocks_ok M T fl A"
  shows "tiling M T (free_blocks M fl \<union> A)" and "free_blocks M fl \<inter> A = {}" and "coalesced M fl"
    and "k \<le> M \<Longrightarrow> distinct (fl k)"
  using assms unfolding blocks_ok_def by blast+

lemma free_block_in: "i \<in> set (fl k) \<Longrightarrow> k \<le> M \<Longrightarrow> (i, k) \<in> free_blocks M fl"
  by (simp add: free_blocks_def)

lemma blocks_ok_take:
  assumes ok: "blocks_ok M T fl A" and k: "k \<le> M" and fl: "fl k = i # xs"
  shows "blocks_ok M T (fl(k := xs)) (insert (i, k) A)" and "(i, k) \<notin> A"
proof -
  have d: "i \<notin> set xs" using blocks_okD(4) [OF ok k] fl by simp
  have i: "(i, k) \<in> free_blocks M fl" using k fl by (simp add: free_blocks_def)
  show n: "(i, k) \<notin> A" using blocks_okD(2) [OF ok] i by blast
  have fb: "free_blocks M (fl(k := xs)) = free_blocks M fl - {(i, k)}"
    using d fl k by (auto simp: free_blocks_def split: if_splits)
  have "free_blocks M (fl(k := xs)) \<union> insert (i, k) A = free_blocks M fl \<union> A" using fb i by blast
  moreover have "coalesced M (fl(k := xs))" using blocks_okD(3) [OF ok] fl by (auto simp: coalesced_def)
  ultimately show "blocks_ok M T (fl(k := xs)) (insert (i, k) A)"
    using ok fb fl by (auto simp: blocks_ok_def)
qed

lemma blocks_ok_put:
  assumes ok: "blocks_ok M T fl (insert (i, k) A)" and n: "(i, k) \<notin> A"
    and b: "k < M \<Longrightarrow> buddy i k \<notin> set (fl k)"
  shows "blocks_ok M T (fl(k := i # fl k)) A"
proof -
  note t = blocks_okD(1) [OF ok]
  have k: "k \<le> M" using tilingD(2) [OF t, of "(i, k)"] by simp
  have i: "i \<notin> set (fl k)" using blocks_okD(2) [OF ok] k by (auto simp: free_blocks_def)
  have fb: "free_blocks M (fl(k := i # fl k)) = insert (i, k) (free_blocks M fl)"
    using k by (auto simp: free_blocks_def split: if_splits)
  have al: "2 ^ k dvd j" if "j \<in> insert i (set (fl k))" for j
    using tilingD(1) [OF t, of "(j, k)"] that k by (auto simp: aligned_def free_blocks_def)
  have "coalesced M (fl(k := i # fl k))"
    unfolding coalesced_def
  proof (intro allI impI ballI)
    fix m j assume m: "m < M" and j: "j \<in> set ((fl(k := i # fl k)) m)"
    show "buddy j m \<notin> set ((fl(k := i # fl k)) m)"
    proof (cases "m = k")
      case True
      then have "2 ^ k dvd j" using j al by simp
      then have "buddy (buddy j k) k = j" "buddy j k \<noteq> j" using buddy_buddy buddy_min(4) by blast+
      then show ?thesis using True j m b blocks_okD(3) [OF ok] by (auto simp: coalesced_def)
    qed (use m j blocks_okD(3) [OF ok] in \<open>auto simp: coalesced_def\<close>)
  qed
  then show ?thesis using ok n i fb blocks_okD(4) [OF ok] by (auto simp: blocks_ok_def)
qed

lemma blocks_ok_held:
  assumes ok: "blocks_ok M T fl (insert (i, k) A)" and n: "(i, k) \<notin> A"
  shows "i < T" and "k \<le> M" and "2 ^ k dvd i" and "m \<le> M \<Longrightarrow> i \<notin> set (fl m)" and "(i, m) \<notin> A"
proof -
  note t = blocks_okD(1) [OF ok]
  have B: "(i, k) \<in> free_blocks M fl \<union> insert (i, k) A" by simp
  show "i < T" "k \<le> M" "2 ^ k dvd i"
    using tilingD(1-3) [OF t B] less_le_trans [of i "i + 2 ^ k" T] by (auto simp: aligned_def)
  show "i \<notin> set (fl m)" if "m \<le> M"
    using tiling_head_unique [OF t B, of m] that blocks_okD(2) [OF ok] by (auto simp: free_blocks_def)
  show "(i, m) \<notin> A" using tiling_head_unique [OF t B, of m] n by auto
qed

lemma blocks_ok_free:
  assumes "blocks_ok M T fl A" and "k \<le> M" and "i \<in> set (fl k)"
  shows "i < T" and "2 ^ k dvd i" and "m \<le> M \<Longrightarrow> i \<in> set (fl m) \<Longrightarrow> m = k" and "(i, m) \<notin> A"
proof -
  note t = blocks_okD(1) [OF assms(1)]
  have F: "(i, k) \<in> free_blocks M fl" using assms by (simp add: free_blocks_def)
  then have B: "(i, k) \<in> free_blocks M fl \<union> A" by simp
  show "i < T" "2 ^ k dvd i"
    using tilingD(1,3) [OF t B] less_le_trans [of i "i + 2 ^ k" T] by (auto simp: aligned_def)
  show "m = k" if "m \<le> M" "i \<in> set (fl m)"
    using tiling_head_unique [OF t B, of m] that by (simp add: free_blocks_def)
  show "(i, m) \<notin> A"
  proof
    assume a: "(i, m) \<in> A"
    then have "m = k" using tiling_head_unique [OF t B, of m] by simp
    then show False using a F blocks_okD(2) [OF assms(1)] by blast
  qed
qed

text \<open>The step of the split loop and the step of the merge loop; the block in hand is \<open>(i, k)\<close>.\<close>

lemma blocks_ok_halve:
  assumes ok: "blocks_ok M T fl (insert (i, Suc k) A)" and n: "(i, Suc k) \<notin> A"
  shows "blocks_ok M T (fl(k := (i + 2 ^ k) # fl k)) (insert (i, k) A)" and "(i, k) \<notin> A"
    and "i + 2 ^ k < T" and "m \<le> M \<Longrightarrow> i + 2 ^ k \<notin> set (fl m)" and "(i + 2 ^ k, m) \<notin> A"
proof -
  let ?B = "free_blocks M fl \<union> insert (i, Suc k) A"
  note t = blocks_okD(1) [OF ok]
  have in_B: "(i, Suc k) \<in> ?B" by simp
  have k: "Suc k \<le> M" and al: "2 ^ Suc k dvd i" and T: "i + 2 ^ Suc k \<le> T"
    using tilingD(1-3) [OF t in_B] by (auto simp: aligned_def)
  then show "i + 2 ^ k < T" by (simp, metis add_less_cancel_left less_add_same_cancel1 less_le_trans zero_less_numeral zero_less_power mult_2)
  have new: "(j, m) \<notin> free_blocks M fl \<union> A" if "j = i \<or> j = i + 2 ^ k" for j m
  proof
    assume a: "(j, m) \<in> free_blocks M fl \<union> A"
    moreover have "(j, m) \<noteq> (i, Suc k)" using a n blocks_okD(2) [OF ok] by blast
    ultimately have "pages_of (j, m) \<inter> pages_of (i, Suc k) = {}" using tilingD(4) [OF t _ in_B, of "(j, m)"] by blast
    moreover have "j \<in> pages_of (j, m)" "j \<in> pages_of (i, Suc k)" using that by (auto simp: pages_of_def)
    ultimately show False by blast
  qed
  show "(i, k) \<notin> A" and "m \<le> M \<Longrightarrow> i + 2 ^ k \<notin> set (fl m)" and "(i + 2 ^ k, m) \<notin> A"
    using new [of i k] new [of "i + 2 ^ k" m] by (auto simp: free_blocks_def not_less)
  have fb: "free_blocks M (fl(k := (i + 2 ^ k) # fl k)) = insert (i + 2 ^ k, k) (free_blocks M fl)"
    using k by (auto simp: free_blocks_def split: if_splits)
  have e: "free_blocks M (fl(k := (i + 2 ^ k) # fl k)) \<union> insert (i, k) A = ?B - {(i, Suc k)} \<union> {(i, k), (i + 2 ^ k, k)}"
    using fb n blocks_okD(2) [OF ok] by blast
  have "blocks_ok M T fl (insert (i + 2 ^ k, k) (insert (i, k) A))"
    using tiling_split [OF t in_B] ok new unfolding blocks_ok_def e [symmetric] fb by (auto simp: insert_commute)
  moreover have "(i + 2 ^ k, k) \<notin> insert (i, k) A" using new by auto
  moreover have "buddy (i + 2 ^ k) k = i"
  proof -
    have "buddy i k = i + 2 ^ k" using al by (simp add: buddy_def)
    with buddy_buddy [OF dvd_Suc_lower [OF al]] show ?thesis by simp
  qed
  moreover have "i \<notin> set (fl k)" using new [of i k] k by (simp add: free_blocks_def)
  ultimately show "blocks_ok M T (fl(k := (i + 2 ^ k) # fl k)) (insert (i, k) A)"
    by (intro blocks_ok_put) auto
qed

lemma blocks_ok_join:
  assumes ok: "blocks_ok M T fl (insert (i, k) A)" and n: "(i, k) \<notin> A" and k: "k < M"
    and b: "buddy i k \<in> set (fl k)"
  shows "blocks_ok M T (fl(k := remove1 (buddy i k) (fl k))) (insert (min i (buddy i k), Suc k) A)"
    and "(min i (buddy i k), Suc k) \<notin> A"
proof -
  let ?B = "free_blocks M fl \<union> insert (i, k) A" and ?j = "min i (buddy i k)"
  let ?fl = "fl(k := remove1 (buddy i k) (fl k))"
  note t = blocks_okD(1) [OF ok]
  have B: "(i, k) \<in> ?B" "(buddy i k, k) \<in> ?B" using b k by (auto simp: free_blocks_def)
  have al: "2 ^ k dvd i" using tilingD(1) [OF t B(1)] by (simp add: aligned_def)
  have "(?j, Suc k) \<notin> ?B"
  proof
    assume "(?j, Suc k) \<in> ?B"
    then have "pages_of (?j, Suc k) \<inter> pages_of (i, k) = {}" using tilingD(4) [OF t _ B(1), of "(?j, Suc k)"] by simp
    then show False using buddy_min(3) [OF al] head_in_pages(1) [of "(i, k)"] by auto
  qed
  then show "(?j, Suc k) \<notin> A" by blast
  have fb: "free_blocks M ?fl = free_blocks M fl - {(buddy i k, k)}"
    using blocks_okD(4) [OF ok, of k] k by (auto simp: free_blocks_def split: if_splits)
  have "buddy i k \<noteq> i" by (rule buddy_min(4) [OF al])
  moreover have "(buddy i k, k) \<notin> A" using blocks_okD(2) [OF ok] free_block_in [of "buddy i k" fl k M] b k by auto
  ultimately have e: "free_blocks M ?fl \<union> insert (?j, Suc k) A = ?B - {(i, k), (buddy i k, k)} \<union> {(?j, Suc k)}"
    using fb n blocks_okD(2) [OF ok] by blast
  have "coalesced M ?fl"
    using blocks_okD(3) [OF ok] set_remove1_subset [of "buddy i k" "fl k"] by (fastforce simp: coalesced_def)
  moreover have "tiling M T (free_blocks M ?fl \<union> insert (?j, Suc k) A)"
    unfolding e by (rule tiling_join [OF t B k])
  moreover have "free_blocks M ?fl \<inter> insert (?j, Suc k) A = {}"
    using fb blocks_okD(2) [OF ok] \<open>(?j, Suc k) \<notin> ?B\<close> by blast
  ultimately show "blocks_ok M T ?fl (insert (?j, Suc k) A)"
    using blocks_okD(4) [OF ok] by (simp add: blocks_ok_def distinct_remove1)
qed

section \<open>Allocation and release\<close>

lemma blocks_ok_carve:
  assumes "blocks_ok M T fl (insert (i, k) A)" and "(i, k) \<notin> A" and "j \<le> k"
  shows "blocks_ok M T (carve j i k fl) (insert (i, j) A)" and "(i, j) \<notin> A"
  using assms
proof (induction k arbitrary: fl)
  case (Suc k)
  {
    case 1
    then show ?case using Suc.IH(1) blocks_ok_halve(1,2) [OF 1(1,2)] by (cases "j = Suc k") simp_all
  next
    case 2
    then show ?case using Suc.IH(2) blocks_ok_halve(1,2) [OF 2(1,2)] by (cases "j = Suc k") simp_all
  }
qed auto

theorem blocks_ok_take_out:
  assumes "blocks_ok M T fl A" and "k \<le> M" and "fl k \<noteq> []" and "j \<le> k"
  shows "blocks_ok M T (take_out j k fl) (insert (hd (fl k), j) A)" and "(hd (fl k), j) \<notin> A"
  using blocks_ok_carve [OF blocks_ok_take [OF assms(1,2), of "hd (fl k)" "tl (fl k)"] assms(4)] assms(3)
  by (auto simp: take_out_def)

lemma blocks_ok_coalesce:
  assumes "blocks_ok M T fl (insert (i, k) A)" and "(i, k) \<notin> A"
  shows "case coalesce M i k fl of (i', k', fl') \<Rightarrow> blocks_ok M T fl' (insert (i', k') A) \<and> (i', k') \<notin> A \<and>
           (k' < M \<longrightarrow> buddy i' k' \<notin> set (fl' k'))"
  using assms
proof (induction M i k fl rule: coalesce.induct)
  case (1 M i k fl)
  show ?case
  proof (cases "k < M \<and> buddy i k \<in> set (fl k)")
    case True
    then show ?thesis
      using "1.IH" [OF True] blocks_ok_join [OF "1.prems"] by (subst coalesce.simps) (simp add: fun_upd_def)
  next
    case False
    then show ?thesis using "1.prems" by (subst coalesce.simps) auto
  qed
qed

lemma coalesce_order:
  "case coalesce M i k fl of (i', k', fl') \<Rightarrow> k \<le> k' \<and> (k' = k \<longrightarrow> i' = i)"
proof (induction M i k fl rule: coalesce.induct)
  case (1 M i k fl)
  then show ?case by (subst coalesce.simps) (auto simp: fun_upd_def)
qed

lemma coalesce_pages:
  assumes "2 ^ k dvd i"
  shows "case coalesce M i k fl of (i', k', fl') \<Rightarrow> pages_of (i, k) \<subseteq> pages_of (i', k')"
  using assms
proof (induction M i k fl rule: coalesce.induct)
  case (1 M i k fl)
  show ?case
  proof (cases "k < M \<and> buddy i k \<in> set (fl k)")
    case True
    have "pages_of (i, k) \<subseteq> pages_of (min i (buddy i k), Suc k)" using buddy_min(3) [OF "1.prems"] by blast
    then show ?thesis
      using "1.IH" [OF True buddy_min(2) [OF "1.prems"]] True by (subst coalesce.simps) (auto simp: fun_upd_def)
  qed (subst coalesce.simps, auto)
qed

theorem blocks_ok_put_back:
  assumes "blocks_ok M T fl (insert (i, k) A)" and "(i, k) \<notin> A"
  shows "blocks_ok M T (put_back M i k fl) A"
  using blocks_ok_coalesce [OF assms] by (auto simp: put_back_def intro: blocks_ok_put split: prod.splits)

lemma coalesce_carve:
  assumes "j \<le> k" and "k \<le> M" and "2 ^ k dvd i" and "\<And>m. j \<le> m \<Longrightarrow> m < k \<Longrightarrow> fl m = []"
  shows "coalesce M i j (carve j i k fl) = coalesce M i k fl"
  using assms
proof (induction k arbitrary: fl)
  case (Suc k)
  show ?case
  proof (cases "j = Suc k")
    case False
    then have jk: "j \<le> k" using Suc.prems(1) by simp
    have "buddy i k = i + 2 ^ k" using Suc.prems(3) by (simp add: buddy_def)
    moreover have "fl k = []" using Suc.prems(4) jk by simp
    ultimately have "coalesce M i k (fl(k := [i + 2 ^ k])) = coalesce M i (Suc k) fl"
      using Suc.prems(2) by (subst coalesce.simps) (simp add: fun_upd_idem)
    moreover have "coalesce M i j (carve j i k (fl(k := [i + 2 ^ k]))) = coalesce M i k (fl(k := [i + 2 ^ k]))"
      using Suc.IH \<open>fl k = []\<close> jk Suc.prems(2,4) dvd_Suc_lower [OF Suc.prems(3)] by simp
    ultimately show ?thesis using jk \<open>fl k = []\<close> by simp
  qed simp
qed simp

text \<open>A block that is taken out and put back leaves the free lists as they were.\<close>

theorem put_back_take_out:
  assumes ok: "blocks_ok M T fl A" and k: "k \<le> M" "fl k \<noteq> []" "j \<le> k" and least: "\<And>m. j \<le> m \<Longrightarrow> m < k \<Longrightarrow> fl m = []"
  shows "put_back M (hd (fl k)) j (take_out j k fl) = fl"
    and "fst (snd (coalesce M (hd (fl k)) j (take_out j k fl))) = k"
proof -
  let ?i = "hd (fl k)" and ?fl = "fl(k := tl (fl k))"
  have i: "(?i, k) \<in> free_blocks M fl" using k by (simp add: free_blocks_def)
  then have al: "2 ^ k dvd ?i" using tilingD(1) [OF blocks_okD(1) [OF ok]] by (fastforce simp: aligned_def)
  have "coalesce M ?i j (take_out j k fl) = coalesce M ?i k ?fl"
    unfolding take_out_def using coalesce_carve [OF k(3,1) al, of ?fl] least by simp
  also have "\<dots> = (?i, k, ?fl)"
  proof -
    have "buddy ?i k \<notin> set (fl k)" if "k < M"
      using blocks_okD(3) [OF ok] that k(2) by (simp add: coalesced_def)
    then have "\<not> (k < M \<and> buddy ?i k \<in> set (?fl k))" using list.set_sel(2) [OF k(2)] by auto
    then show ?thesis by (subst coalesce.simps, subst if_not_P) auto
  qed
  finally have "coalesce M ?i j (take_out j k fl) = (?i, k, ?fl)" .
  then show "put_back M (hd (fl k)) j (take_out j k fl) = fl" "fst (snd (coalesce M (hd (fl k)) j (take_out j k fl))) = k"
    using k(2) by (simp_all add: put_back_def fun_upd_idem)
qed

lemma first_fit_SomeD:
  assumes "first_fit M j fl = Some k"
  shows "j \<le> k" and "k \<le> M" and "fl k \<noteq> []" and "\<And>m. j \<le> m \<Longrightarrow> m < k \<Longrightarrow> fl m = []"
proof -
  obtain n where n: "n < length [j..<Suc M]" "fl ([j..<Suc M] ! n) \<noteq> []" "k = [j..<Suc M] ! n"
      "\<forall>l<n. \<not> fl ([j..<Suc M] ! l) \<noteq> []"
    using assms unfolding first_fit_def find_Some_iff by blast
  then have k: "k = j + n" "k \<le> M" by (auto simp del: upt_Suc)
  then show "j \<le> k" "k \<le> M" "fl k \<noteq> []" using n by auto
  show "fl m = []" if "j \<le> m" "m < k" for m
    using n(1,4) that k by (auto simp del: upt_Suc dest: spec [of _ "m - j"])
qed

lemma first_fit_None: "first_fit M j fl = None \<longleftrightarrow> (\<forall>k. j \<le> k \<longrightarrow> k \<le> M \<longrightarrow> fl k = [])"
  by (auto simp: first_fit_def find_None_iff)

end
