(* ===== verification/Buddy_Inv.thy ===== *)
theory Buddy_Inv
  imports Phys_Mem Buddy_Blocks
begin

text \<open>
  The representation of the blocks of \<open>Buddy_Blocks\<close> in the frames, list nodes and counters of the page frame allocator, and
  the refinement of the two by the loops of \<open>Phys_Mem\<close>.
\<close>

section \<open>Addresses\<close>

lemma index_to_phys_add: "index_to_phys base i + push_bit k CONFIG_PAGE_SIZE = index_to_phys base (i + 2 ^ k)"
  by (simp add: index_to_phys_def push_bit_eq_mult algebra_simps)

lemma phys_to_index_phys:
  assumes "i < 2 ^ 20"
  shows "phys_to_index base (index_to_phys base i) = of_nat i"
proof -
  have m: "unat (of_nat i * CONFIG_PAGE_SIZE :: u64) = i * 4096"
    using assms by (simp add: unat_word_ariths unat_of_nat take_bit_eq_mod)
  have "unat ((of_nat i * CONFIG_PAGE_SIZE :: u64) div CONFIG_PAGE_SIZE) = i"
    unfolding unat_div_distrib m by simp
  then have "(of_nat i * CONFIG_PAGE_SIZE :: u64) div CONFIG_PAGE_SIZE = of_nat i"
    by (metis of_nat_unat ucast_id)
  then show ?thesis using assms
    by (simp add: phys_to_index_def index_to_phys_def unsigned_of_nat take_bit_nat_eq_self)
qed

text \<open>Memory that fits the address space.\<close>

definition region :: "u64 \<Rightarrow> nat \<Rightarrow> bool" where
  "region base T \<longleftrightarrow> base \<noteq> 0 \<and> T \<le> MAX_PHYS_PAGES \<and> unat base + T * 4096 \<le> 2 ^ 64"

lemma unat_index_to_phys:
  assumes "region base T" and "i < T"
  shows "unat (index_to_phys base i) = unat base + i * 4096"
proof -
  have "unat base + i * 4096 < 2 ^ 64" "i < 8192" using assms unfolding region_def by linarith+
  then show ?thesis
    by (simp add: index_to_phys_def unat_word_ariths unat_of_nat take_bit_eq_mod)
qed

lemma index_to_phys_less:
  assumes "region base T" and "i < T" and "j < T"
  shows "index_to_phys base i < index_to_phys base j \<longleftrightarrow> i < j"
  using unat_index_to_phys [OF assms(1,2)] unat_index_to_phys [OF assms(1,3)] by (simp add: word_less_nat_alt)

lemma index_to_phys_range:
  assumes "region base T" and "i < T"
  shows "\<not> index_to_phys base i < base" and "index_to_phys base i \<noteq> 0"
proof -
  show "\<not> index_to_phys base i < base"
    using unat_index_to_phys [OF assms] by (simp add: word_less_nat_alt)
  have "unat base \<noteq> 0" using assms(1) by (simp add: region_def unat_eq_zero)
  then show "index_to_phys base i \<noteq> 0" using unat_index_to_phys [OF assms] by (metis add_is_0 unat_0)
qed

lemma dvd_Suc_iff_odd: "2 ^ k dvd (i::nat) \<Longrightarrow> 2 ^ Suc k dvd i \<longleftrightarrow> even (i div 2 ^ k)"
  by (auto simp: dvd_def)

lemma bit_index_to_phys:
  assumes r: "region base T" and i: "i < T" and k: "k < MAX_ORDER" and d: "2 ^ (k + 13) dvd unat base"
  shows "bit (index_to_phys base i) (k + 12) \<longleftrightarrow> odd (i div 2 ^ k)"
proof -
  obtain q where q: "unat base = 2 ^ (k + 13) * q" using d by blast
  then have "unat base = 2 ^ (k + 12) * (2 * q)" by (simp add: power_add)
  moreover have "i * 4096 div 2 ^ (k + 12) = i div 2 ^ k" by (simp add: power_add)
  ultimately have "unat (index_to_phys base i) div 2 ^ (k + 12) = 2 * q + i div 2 ^ k"
    using unat_index_to_phys [OF r i] by (simp add: div_plus_div_distrib_dvd_left)
  then have "bit (unat (index_to_phys base i)) (k + 12) \<longleftrightarrow> odd (i div 2 ^ k)"
    using k by (simp add: bit_iff_odd [of "unat _"])
  then show ?thesis by (simp add: bit_unsigned_iff)
qed

lemma buddy_address_bit:
  "buddy_address a k = (if bit a (k + 12) then a - 2 ^ (k + 12) else a + 2 ^ (k + 12))" if "k < 52"
proof -
  have "push_bit k CONFIG_PAGE_SIZE = (push_bit (k + 12) 1 :: u64)" by (simp add: push_bit_eq_mult power_add)
  then have "buddy_address a k = flip_bit (k + 12) a" by (simp add: buddy_address_def flip_bit_eq_xor)
  then show ?thesis using that by (simp add: flip_bit_eq_if set_bit_eq unset_bit_eq)
qed

lemma buddy_address_index:
  assumes r: "region base T" and i: "i < T" and k: "k < MAX_ORDER" and d: "2 ^ (k + 13) dvd unat base"
    and al: "2 ^ k dvd i"
  shows "buddy_address (index_to_phys base i) k = index_to_phys base (buddy i k)"
proof -
  let ?a = "index_to_phys base i"
  have k52: "k < 52" using k by simp
  note f = buddy_address_bit [OF k52, of ?a]
  show ?thesis
  proof (cases "2 ^ Suc k dvd i")
    case True
    then have "buddy_address ?a k = ?a + 2 ^ (k + 12)"
      using f bit_index_to_phys [OF r i k d] dvd_Suc_iff_odd [OF al] by simp
    also have "\<dots> = index_to_phys base (i + 2 ^ k)" by (simp add: index_to_phys_def power_add algebra_simps)
    finally show ?thesis using True by (simp add: buddy_def)
  next
    case False
    then have "buddy_address ?a k = ?a - 2 ^ (k + 12)"
      using f bit_index_to_phys [OF r i k d] dvd_Suc_iff_odd [OF al] by simp
    also have "\<dots> = index_to_phys base (i - 2 ^ k)"
      using not_dvd_half(1) [OF al False] by (simp add: index_to_phys_def power_add algebra_simps of_nat_diff)
    finally show ?thesis using False by (simp add: buddy_def)
  qed
qed

lemma is_buddy_aligned_index:
  assumes "i < MAX_PHYS_PAGES" and "k \<le> MAX_ORDER"
  shows "is_buddy_aligned base (index_to_phys base i) k \<longleftrightarrow> 2 ^ k dvd i"
proof -
  have p: "(2::nat) ^ k \<le> 2 ^ 11" using assms(2) by (intro power_increasing) auto
  have a: "unat (of_nat i * CONFIG_PAGE_SIZE :: u64) = i * 4096"
    using assms by (simp add: unat_word_ariths unat_of_nat take_bit_eq_mod)
  have "push_bit k CONFIG_PAGE_SIZE = (of_nat (2 ^ k * 4096) :: u64)" by (simp add: push_bit_eq_mult)
  then have "unat (push_bit k CONFIG_PAGE_SIZE :: u64) = 2 ^ k * 4096"
    using p by (simp only: unat_of_nat take_bit_eq_mod) simp
  then have "unat ((of_nat i * CONFIG_PAGE_SIZE :: u64) mod push_bit k CONFIG_PAGE_SIZE) = i * 4096 mod (2 ^ k * 4096)"
    unfolding unat_mod_distrib a by simp
  also have "\<dots> = i mod 2 ^ k * 4096" by (simp add: mod_mult_mult2)
  finally show ?thesis by (simp add: is_buddy_aligned_def index_to_phys_def dvd_eq_mod_eq_0 flip: unat_eq_zero)
qed

section \<open>Representation\<close>

text \<open>The fields that the list operations leave alone.\<close>

definition fixed_part :: "phys_mem \<Rightarrow> u32 \<times> u64 \<times> u64 \<times> u32 \<times> u32 \<times> phys_mem_stats" where
  "fixed_part s = (s_frame_count s, s_mem_base s, b_base_addr s, b_total_pages s, b_free_pages s, pm_stats s)"

fun ring_of :: "free_lists \<Rightarrow> buddy_node \<Rightarrow> buddy_node list" where
  "ring_of fl (Free_List k) = map Frame_Node (fl k)"
| "ring_of fl (Frame_Node i) = []"

abbreviation heads :: "buddy_node set" where
  "heads \<equiv> Free_List ` {..MAX_ORDER}"

definition pm_rep :: "phys_mem \<Rightarrow> free_lists \<Rightarrow> block set \<Rightarrow> bool" where
  "pm_rep s fl A \<longleftrightarrow> region (s_mem_base s) (unat (s_frame_count s)) \<and>
     rings (s_links s) heads (Frame_Node ` {..<unat (s_frame_count s)}) (ring_of fl) \<and>
     (\<forall>i<unat (s_frame_count s). phys_addr (s_page_frames s i) = index_to_phys (s_mem_base s) i) \<and>
     (\<forall>k\<le>MAX_ORDER. b_free_counts s k = of_nat (length (fl k))) \<and>
     (\<forall>k\<le>MAX_ORDER. \<forall>i\<in>set (fl k). f_state (s_page_frames s i) = PAGE_FREE \<and> f_order (s_page_frames s i) = of_nat k) \<and>
     (\<forall>(i, k)\<in>A. f_state (s_page_frames s i) = PAGE_ALLOCATED \<and> f_order (s_page_frames s i) = of_nat k \<and>
        f_ref_count (s_page_frames s i) = 1)"

lemma pm_repD:
  assumes "pm_rep s fl A"
  shows "region (s_mem_base s) (unat (s_frame_count s))"
    and "rings (s_links s) heads (Frame_Node ` {..<unat (s_frame_count s)}) (ring_of fl)"
    and "i < unat (s_frame_count s) \<Longrightarrow> phys_addr (s_page_frames s i) = index_to_phys (s_mem_base s) i"
    and "k \<le> MAX_ORDER \<Longrightarrow> b_free_counts s k = of_nat (length (fl k))"
    and "k \<le> MAX_ORDER \<Longrightarrow> i \<in> set (fl k) \<Longrightarrow>
           f_state (s_page_frames s i) = PAGE_FREE \<and> f_order (s_page_frames s i) = of_nat k"
    and "(i, k) \<in> A \<Longrightarrow> f_state (s_page_frames s i) = PAGE_ALLOCATED \<and> f_order (s_page_frames s i) = of_nat k \<and>
           f_ref_count (s_page_frames s i) = 1"
  using assms unfolding pm_rep_def by blast+

lemma pm_rep_subset: "pm_rep s fl A \<Longrightarrow> B \<subseteq> A \<Longrightarrow> pm_rep s fl B"
  unfolding pm_rep_def by blast

lemma pm_rep_count: "pm_rep s fl A \<Longrightarrow> unat (s_frame_count s) \<le> 8192"
  using pm_repD(1) by (auto simp: region_def)

lemma fixed_part_simps [simp]:
  "fixed_part (upd_frame i f s) = fixed_part s"
  "fixed_part (upd_links g s) = fixed_part s"
  "fixed_part (take_free i k s) = fixed_part s"
  "fixed_part (put_free i k s) = fixed_part s"
  by (simp_all add: fixed_part_def upd_frame_def upd_links_def take_free_def put_free_def)

lemma fixed_partD:
  assumes "fixed_part s' = fixed_part s"
  shows "s_frame_count s' = s_frame_count s" and "s_mem_base s' = s_mem_base s"
    and "b_free_pages s' = b_free_pages s" and "pm_stats s' = pm_stats s"
  using assms by (simp_all add: fixed_part_def)

lemma frame_fields [simp]:
  "s_page_frames (take_free i k s) = s_page_frames s"
  "s_page_frames (put_free i k s) = s_page_frames s"
  "s_page_frames (upd_frame i f s) = (s_page_frames s)(i := f (s_page_frames s i))"
  "s_links (upd_frame i f s) = s_links s"
  "b_free_counts (upd_frame i f s) = b_free_counts s"
  "s_mem_base (upd_frame i f s) = s_mem_base s"
  "s_frame_count (upd_frame i f s) = s_frame_count s"
  "s_mem_base (take_free i k s) = s_mem_base s"
  "s_frame_count (take_free i k s) = s_frame_count s"
  "s_mem_base (put_free i k s) = s_mem_base s"
  "s_frame_count (put_free i k s) = s_frame_count s"
  by (simp_all add: upd_frame_def upd_links_def take_free_def put_free_def)

lemma INIT_list_del:
  "INIT_LIST_HEAD (Some e) (list_del (Some e) h) = list_del_init (Some e) h"
  by (auto simp: list_prims fun_eq_iff split: option.splits)

lemma queued_ring_of: "queued heads (ring_of fl) (Frame_Node i) \<longleftrightarrow> (\<exists>k\<le>MAX_ORDER. i \<in> set (fl k))"
  by (auto simp: queued_def)

lemma ring_of_upd: "ring_of (fl(k := xs)) = (ring_of fl)(Free_List k := map Frame_Node xs)"
proof
  show "ring_of (fl(k := xs)) a = ((ring_of fl)(Free_List k := map Frame_Node xs)) a" for a by (cases a) auto
qed

lemma remove1_map_inj: "inj f \<Longrightarrow> remove1 (f x) (map f xs) = map f (remove1 x xs)"
  by (induction xs) (auto simp: inj_eq)

lemma pm_rep_take:
  assumes rep: "pm_rep s fl A" and k: "k \<le> MAX_ORDER" and i: "i \<in> set (fl k)"
  shows "pm_rep (take_free i k s) (fl(k := remove1 i (fl k))) A"
proof -
  have m: "remove1 (Frame_Node i) (map Frame_Node (fl k)) = map Frame_Node (remove1 i (fl k))"
    by (simp add: remove1_map_inj inj_def)
  have "rings (list_del_init (Some (Frame_Node i)) (s_links s)) heads (Frame_Node ` {..<unat (s_frame_count s)})
      ((ring_of fl)(Free_List k := remove1 (Frame_Node i) (ring_of fl (Free_List k))))"
    using rings_del [OF pm_repD(2) [OF rep], of "Free_List k" "Frame_Node i"] i k by simp
  then have r: "rings (s_links (take_free i k s)) heads (Frame_Node ` {..<unat (s_frame_count s)})
      (ring_of (fl(k := remove1 i (fl k))))"
    by (simp add: take_free_def upd_links_def INIT_list_del ring_of_upd m)
  have c: "b_free_counts (take_free i k s) j = of_nat (length ((fl(k := remove1 i (fl k))) j))" if "j \<le> MAX_ORDER" for j
  proof (cases "j = k")
    case True
    have "0 < length (fl k)" using i by (cases "fl k") auto
    then have "of_nat (length (fl k) - 1) = (of_nat (length (fl k)) - 1 :: u32)" by (simp add: of_nat_diff Suc_le_eq)
    then show ?thesis using True k i pm_repD(4) [OF rep] by (simp add: take_free_def length_remove1)
  qed (use that pm_repD(4) [OF rep] in \<open>simp add: take_free_def\<close>)
  have "set ((fl(k := remove1 i (fl k))) j) \<subseteq> set (fl j)" for j
    using set_remove1_subset [of i "fl k"] by auto
  then show ?thesis
    using rep r c unfolding pm_rep_def frame_fields by blast
qed

lemma pm_rep_put:
  assumes rep: "pm_rep s fl A" and k: "k \<le> MAX_ORDER" and i: "i < unat (s_frame_count s)"
    and new: "\<And>m. m \<le> MAX_ORDER \<Longrightarrow> i \<notin> set (fl m)"
    and head: "f_state (s_page_frames s i) = PAGE_FREE" "f_order (s_page_frames s i) = of_nat k"
  shows "pm_rep (put_free i k s) (fl(k := i # fl k)) A"
proof -
  have nq: "\<not> queued heads (ring_of fl) (Frame_Node i)" using new by (auto simp: queued_ring_of)
  have "INIT_LIST_HEAD (Some (Frame_Node i)) (s_links s) = s_links s"
    using rings_init_node [OF pm_repD(2) [OF rep] _ nq] i by simp
  moreover have "rings (list_add (Some (Frame_Node i)) (Some (Free_List k)) (s_links s)) heads
      (Frame_Node ` {..<unat (s_frame_count s)}) (ring_of (fl(k := i # fl k)))"
    using rings_add [OF pm_repD(2) [OF rep], of "Free_List k" "Frame_Node i"] nq i k by (simp add: ring_of_upd)
  ultimately have r: "rings (s_links (put_free i k s)) heads (Frame_Node ` {..<unat (s_frame_count s)})
      (ring_of (fl(k := i # fl k)))"
    by (simp add: put_free_def upd_links_def)
  have "\<forall>j\<le>MAX_ORDER. b_free_counts (put_free i k s) j = of_nat (length ((fl(k := i # fl k)) j))"
    using pm_repD(4) [OF rep] by (simp add: put_free_def)
  moreover have "\<forall>j\<le>MAX_ORDER. \<forall>m\<in>set ((fl(k := i # fl k)) j).
      f_state (s_page_frames s m) = PAGE_FREE \<and> f_order (s_page_frames s m) = of_nat j"
    using pm_repD(5) [OF rep] head by auto
  ultimately show ?thesis using rep r unfolding pm_rep_def frame_fields by blast
qed

lemma pm_rep_frame:
  assumes rep: "pm_rep s fl A" and new: "\<And>m. m \<le> MAX_ORDER \<Longrightarrow> i \<notin> set (fl m)" "\<And>m. (i, m) \<notin> A"
    and f: "phys_addr (f (s_page_frames s i)) = phys_addr (s_page_frames s i)"
  shows "pm_rep (upd_frame i f s) fl A"
proof -
  have "\<forall>k\<le>MAX_ORDER. \<forall>m\<in>set (fl k). m \<noteq> i" using new(1) by blast
  moreover have "\<forall>(m, k)\<in>A. m \<noteq> i" using new(2) by blast
  ultimately show ?thesis using rep f unfolding pm_rep_def frame_fields by (fastforce simp: case_prod_unfold)
qed

end
