(* ===== verification/Buddy_Ops.thy ===== *)
theory Buddy_Ops
  imports Buddy_Inv
begin

text \<open>
  The split loop refines \<open>carve\<close>, the merge loop refines \<open>coalesce\<close>; allocation and release of pages refine \<open>take_out\<close> and \<open>put_back\<close>.
\<close>

definition phys_ok :: "phys_mem \<Rightarrow> free_lists \<Rightarrow> block set \<Rightarrow> bool" where
  "phys_ok s fl A \<longleftrightarrow> pm_rep s fl A \<and> blocks_ok MAX_ORDER (unat (s_frame_count s)) fl A"

section \<open>The split loop\<close>

lemma split_right_rep:
  assumes rep: "pm_rep s fl A"
    and ok: "blocks_ok MAX_ORDER (unat (s_frame_count s)) fl (insert (i, Suc k) A)" and n: "(i, Suc k) \<notin> A"
  shows "\<exists>s'. split_right i k s = Some s' \<and> pm_rep s' (fl(k := (i + 2 ^ k) # fl k)) A \<and> fixed_part s' = fixed_part s"
proof -
  let ?r = "i + 2 ^ k"
  note halve = blocks_ok_halve(3-5) [OF ok n] and held = blocks_ok_held [OF ok n]
  have k: "k \<le> MAX_ORDER" using held(2) by simp
  have r: "?r < 8192" using halve(1) pm_rep_count [OF rep] by linarith
  have "phys_addr (s_page_frames s i) + push_bit k CONFIG_PAGE_SIZE = index_to_phys (s_mem_base s) ?r"
    using pm_repD(3) [OF rep held(1)] by (simp add: index_to_phys_add)
  then have idx: "unat (phys_to_index (s_mem_base s) (phys_addr (s_page_frames s i) + push_bit k CONFIG_PAGE_SIZE)) = ?r"
    using r phys_to_index_phys [of ?r "s_mem_base s"] unat_of_nat_u32 [of ?r] by simp
  let ?f = "\<lambda>f. f\<lparr>f_state := PAGE_FREE, f_order := of_nat k, f_ref_count := 0\<rparr>"
  have "pm_rep (upd_frame ?r ?f s) fl A" using halve(2,3) by (intro pm_rep_frame [OF rep]) auto
  then have "pm_rep (put_free ?r k (upd_frame ?r ?f s)) (fl(k := ?r # fl k)) A"
    using halve k by (intro pm_rep_put) auto
  then show ?thesis using r by (simp add: split_right_def Let_def idx)
qed

lemma split_block_rep:
  assumes "pm_rep s fl A" and "blocks_ok MAX_ORDER (unat (s_frame_count s)) fl (insert (i, k) A)" and "(i, k) \<notin> A"
    and "j \<le> k"
  shows "\<exists>s'. split_block j i k s = Some s' \<and> pm_rep s' (carve j i k fl) A \<and> fixed_part s' = fixed_part s"
  using assms
proof (induction k arbitrary: fl s)
  case (Suc k)
  show ?case
  proof (cases "j = Suc k")
    case False
    then have j: "j \<le> k" "j < Suc k" using Suc.prems(4) by auto
    obtain s1 where s1: "split_right i k s = Some s1" "pm_rep s1 (fl(k := (i + 2 ^ k) # fl k)) A"
        "fixed_part s1 = fixed_part s"
      using split_right_rep [OF Suc.prems(1-3)] by blast
    have "blocks_ok MAX_ORDER (unat (s_frame_count s1)) (fl(k := (i + 2 ^ k) # fl k)) (insert (i, k) A)" "(i, k) \<notin> A"
      using blocks_ok_halve(1,2) [OF Suc.prems(2,3)] fixed_partD(1) [OF s1(3)] by simp_all
    from Suc.IH [OF s1(2) this j(1)] show ?thesis using s1 j(2) by (simp add: fun_upd_def)
  qed (use Suc.prems in simp)
qed simp

section \<open>Allocation\<close>

lemma find_order_rep:
  assumes "pm_rep s fl A"
  shows "find_order (s_links s) j = first_fit MAX_ORDER j fl"
proof (induction "Suc MAX_ORDER - j" arbitrary: j)
  case 0
  then show ?case by (subst find_order.simps) (simp add: first_fit_def)
next
  case (Suc n)
  then have j: "j \<le> MAX_ORDER" by simp
  have e: "list_empty (Some (Free_List j)) (s_links s) = (fl j = [])"
    using rings_empty [OF pm_repD(2) [OF assms], of "Free_List j"] j by simp
  have "[j..<Suc MAX_ORDER] = j # [Suc j..<Suc MAX_ORDER]" using j by (simp add: upt_conv_Cons del: upt_Suc)
  then have "first_fit MAX_ORDER j fl = (if fl j \<noteq> [] then Some j else first_fit MAX_ORDER (Suc j) fl)"
    by (simp add: first_fit_def del: upt_Suc)
  moreover have "find_order (s_links s) (Suc j) = first_fit MAX_ORDER (Suc j) fl" using Suc by simp
  ultimately show ?case using j e by (subst find_order.simps) simp
qed

lemma pm_rep_alloc:
  assumes rep: "pm_rep s fl A" and new: "\<And>m. m \<le> MAX_ORDER \<Longrightarrow> i \<notin> set (fl m)" "\<And>m. (i, m) \<notin> A"
    and f: "phys_addr (f (s_page_frames s i)) = phys_addr (s_page_frames s i)"
      "f_state (f (s_page_frames s i)) = PAGE_ALLOCATED" "f_order (f (s_page_frames s i)) = of_nat k"
      "f_ref_count (f (s_page_frames s i)) = 1"
  shows "pm_rep (upd_frame i f s) fl (insert (i, k) A)"
  using pm_rep_frame [of s fl A i f, OF rep new f(1)] f(2-4) unfolding pm_rep_def frame_fields by simp

lemma pm_rep_cong:
  assumes "pm_rep s fl A" and "s_links s' = s_links s" and "s_page_frames s' = s_page_frames s"
    and "b_free_counts s' = b_free_counts s" and "s_mem_base s' = s_mem_base s" and "s_frame_count s' = s_frame_count s"
  shows "pm_rep s' fl A"
  using assms by (simp add: pm_rep_def)

lemma alloc_pages_none:
  assumes "phys_ok s fl A" and "first_fit MAX_ORDER (unat order) fl = None"
  shows "phys_mem_alloc_pages order s = Some (0, s)"
  using find_order_rep [of s fl A "unat order"] assms by (simp add: phys_mem_alloc_pages_def phys_ok_def)

text \<open>What an allocation does to the counters.\<close>

definition counted_alloc :: "nat \<Rightarrow> phys_mem \<Rightarrow> phys_mem \<Rightarrow> bool" where
  "counted_alloc j s s' \<longleftrightarrow> s_frame_count s' = s_frame_count s \<and> s_mem_base s' = s_mem_base s \<and>
     b_free_pages s' = b_free_pages s - push_bit j 1 \<and>
     pm_stats s' = (pm_stats s)\<lparr>st_free_pages := st_free_pages (pm_stats s) - push_bit j 1,
       st_alloc_count := st_alloc_count (pm_stats s) + 1\<rparr>"

lemma alloc_pages_some:
  assumes ok: "phys_ok s fl A" and fit: "first_fit MAX_ORDER (unat order) fl = Some k"
  shows "\<exists>s'. phys_mem_alloc_pages order s = Some (index_to_phys (s_mem_base s) (hd (fl k)), s') \<and>
           phys_ok s' (take_out (unat order) k fl) (insert (hd (fl k), unat order) A) \<and>
           (hd (fl k), unat order) \<notin> A \<and> counted_alloc (unat order) s s'"
proof -
  let ?i = "hd (fl k)" and ?T = "unat (s_frame_count s)" and ?j = "unat order"
  have rep: "pm_rep s fl A" and bok: "blocks_ok MAX_ORDER ?T fl A" using ok by (auto simp: phys_ok_def)
  note fit' = first_fit_SomeD [OF fit]
  have fl: "fl k = ?i # tl (fl k)" using fit'(3) by simp
  have fr: "find_order (s_links s) ?j = Some k" using find_order_rep [OF rep] fit by simp
  have nx: "lh_next (s_links s (Free_List k)) = Some (Frame_Node ?i)"
    using rings_first [OF pm_repD(2) [OF rep], of "Free_List k"] fit'(2,3) by (simp add: hd_map)
  have ord: "\<not> order > of_nat MAX_ORDER" using fit'(1,2) by (simp add: word_less_nat_alt)
  have j8: "(ucast order :: u8) = of_nat ?j" by (simp add: of_nat_unat)
  note bt = blocks_ok_take [OF bok fit'(2) fl]
  have "fl(k := remove1 ?i (fl k)) = fl(k := tl (fl k))" using fl by (metis remove1.simps(2))
  then have "pm_rep (take_free ?i k s) (fl(k := tl (fl k))) A"
    using pm_rep_take [OF rep fit'(2), of ?i] fl by (metis list.set_intros(1))
  moreover have "blocks_ok MAX_ORDER (unat (s_frame_count (take_free ?i k s))) (fl(k := tl (fl k))) (insert (?i, k) A)"
    using bt(1) by simp
  ultimately obtain s2 where s2: "split_block ?j ?i k (take_free ?i k s) = Some s2"
      "pm_rep s2 (take_out ?j k fl) A" "fixed_part s2 = fixed_part s"
    using split_block_rep [OF _ _ bt(2) fit'(1)] unfolding take_out_def by fastforce
  note out = blocks_ok_take_out [OF bok fit'(2,3,1)]
  note held = blocks_ok_held [OF out]
  let ?s3 = "upd_frame ?i (\<lambda>f. f\<lparr>f_state := PAGE_ALLOCATED, f_order := ucast order, f_ref_count := 1\<rparr>) s2"
  have r3: "pm_rep ?s3 (take_out ?j k fl) (insert (?i, ?j) A)"
    using held(4,5) j8 by (intro pm_rep_alloc [OF s2(2)]) simp_all
  let ?s5 = "(sub_free_pages (push_bit ?j 1) ?s3)\<lparr>pm_stats := (pm_stats (sub_free_pages (push_bit ?j 1) ?s3))
      \<lparr>st_alloc_count := st_alloc_count (pm_stats (sub_free_pages (push_bit ?j 1) ?s3)) + 1\<rparr>\<rparr>"
  have "pm_rep ?s5 (take_out ?j k fl) (insert (?i, ?j) A)"
    by (rule pm_rep_cong [OF r3]) (simp_all add: sub_free_pages_def)
  moreover have "phys_addr (s_page_frames s2 ?i) = index_to_phys (s_mem_base s) ?i"
    using pm_repD(3) [OF s2(2), of ?i] held(1) fixed_partD [OF s2(3)] by simp
  moreover have "counted_alloc ?j s ?s5"
    using fixed_partD [OF s2(3)] by (simp add: counted_alloc_def sub_free_pages_def upd_frame_def)
  moreover have "s_frame_count ?s5 = s_frame_count s" using fixed_partD(1) [OF s2(3)] by (simp add: sub_free_pages_def)
  ultimately show ?thesis
    using out fr nx ord s2(1)
    by (simp add: phys_mem_alloc_pages_def Let_def phys_ok_def) (simp add: sub_free_pages_def)
qed

section \<open>The merge loop\<close>

lemma buddy_frame_free:
  assumes rep: "pm_rep s fl A" and ok: "blocks_ok MAX_ORDER (unat (s_frame_count s)) fl (insert (i, k) A)"
    and n: "(i, k) \<notin> A" and k: "k < MAX_ORDER" and b: "buddy i k < unat (s_frame_count s)"
  shows "f_state (s_page_frames s (buddy i k)) = PAGE_FREE \<and> f_order (s_page_frames s (buddy i k)) = of_nat k \<longleftrightarrow>
           buddy i k \<in> set (fl k)"
proof -
  note t = blocks_okD(1) [OF ok] and held = blocks_ok_held [OF ok n]
  obtain p where p: "(buddy i k, p) \<in> free_blocks MAX_ORDER fl \<union> insert (i, k) A" "p \<le> k"
    using tiling_buddy [OF t _ b] by auto
  have ne: "buddy i k \<noteq> i" by (rule buddy_min(4) [OF held(3)])
  have inj: "(of_nat p :: u8) = of_nat k \<longleftrightarrow> p = k"
    using p(2) k by (auto simp: word_unat_eq_iff unat_of_nat take_bit_eq_mod)
  have uniq: "buddy i k \<in> set (fl k) \<Longrightarrow> k = p"
    using tiling_head_unique [OF t, of "buddy i k" k p] p(1) k by (simp add: free_blocks_def)
  from p(1) consider "p \<le> MAX_ORDER" "buddy i k \<in> set (fl p)" | "(buddy i k, p) \<in> A"
    using ne by (auto simp: free_blocks_def)
  then show ?thesis
  proof cases
    case 1
    then show ?thesis using pm_repD(5) [OF rep 1] inj uniq by auto
  next
    case 2
    have "buddy i k \<notin> set (fl k)"
    proof
      assume a: "buddy i k \<in> set (fl k)"
      with 2 uniq have "(buddy i k, k) \<in> A" by simp
      with free_block_in [of "buddy i k" fl k MAX_ORDER] a k blocks_okD(2) [OF ok] show False by auto
    qed
    then show ?thesis using pm_repD(6) [OF rep 2] by simp
  qed
qed

text \<open>One turn of the merge loop when the buddy is frame \<open>b\<close>.\<close>

lemma merge_at:
  assumes rep: "pm_rep s fl A" and k: "k < MAX_ORDER" and b: "b < unat (s_frame_count s)"
    and ba: "buddy_address (phys_addr (s_page_frames s i)) k = index_to_phys (s_mem_base s) b"
  shows "merge_buddies i k s =
           (if f_state (s_page_frames s b) = PAGE_FREE \<and> f_order (s_page_frames s b) = of_nat k
            then merge_buddies (merged_head i b k s) (Suc k)
                   (upd_frame (merged_head i b k s) (\<lambda>f. f\<lparr>f_order := of_nat (Suc k)\<rparr>) (take_free b k s))
            else (i, k, s))"
proof -
  have small: "b < 2 ^ 20" "b < 2 ^ 32" using b pm_rep_count [OF rep] by simp_all
  have bi: "phys_to_index (s_mem_base s) (index_to_phys (s_mem_base s) b) = of_nat b" by (rule phys_to_index_phys [OF small(1)])
  have bu: "unat (of_nat b :: u32) = b" by (rule unat_of_nat_u32 [OF small(2)])
  have "\<not> s_frame_count s \<le> of_nat b" using b by (simp add: word_le_nat_alt bu)
  then show ?thesis
    using k index_to_phys_range(1) [OF pm_repD(1) [OF rep] b]
    by (subst merge_buddies.simps) (auto simp: ba bi bu Let_def)
qed

lemma merge_step:
  assumes rep: "pm_rep s fl A" and ok: "blocks_ok MAX_ORDER (unat (s_frame_count s)) fl (insert (i, k) A)"
    and n: "(i, k) \<notin> A" and k: "k < MAX_ORDER" and al: "2 ^ 23 dvd unat (s_mem_base s)"
  shows "merge_buddies i k s =
           (if buddy i k \<in> set (fl k)
            then merge_buddies (min i (buddy i k)) (Suc k) (upd_frame (min i (buddy i k)) (\<lambda>f. f\<lparr>f_order := of_nat (Suc k)\<rparr>)
                   (take_free (buddy i k) k s))
            else (i, k, s))"
proof -
  let ?b = "buddy i k" and ?T = "unat (s_frame_count s)" and ?base = "s_mem_base s"
  note held = blocks_ok_held [OF ok n] and reg = pm_repD(1) [OF rep]
  have T: "?T \<le> 8192" by (rule pm_rep_count [OF rep])
  have small: "?b < 2 ^ 20"
  proof -
    have "(2::nat) ^ k \<le> 2 ^ 11" using k by (intro power_increasing) auto
    then have "i - 2 ^ k < 2 ^ 20" "i + 2 ^ k < 2 ^ 20" using held(1) T by simp_all
    then show ?thesis by (simp add: buddy_def)
  qed
  have pa: "phys_addr (s_page_frames s i) = index_to_phys ?base i" by (rule pm_repD(3) [OF rep held(1)])
  have ba: "buddy_address (phys_addr (s_page_frames s i)) k = index_to_phys ?base ?b"
    unfolding pa using k by (intro buddy_address_index [OF reg held(1) k _ held(3)] dvd_trans [OF _ al] le_imp_power_dvd) simp
  have bi: "phys_to_index ?base (index_to_phys ?base ?b) = of_nat ?b" by (rule phys_to_index_phys [OF small])
  have bu: "unat (of_nat ?b :: u32) = ?b" using small by (intro unat_of_nat_u32) simp
  have free_T: "?b \<in> set (fl k) \<Longrightarrow> ?b < ?T" using blocks_ok_free(1) [OF ok, of k ?b] k by simp
  have ge: "s_frame_count s \<le> of_nat ?b \<longleftrightarrow> ?T \<le> ?b" by (simp add: word_le_nat_alt bu)
  have mh: "merged_head i ?b k s = min i ?b" if "?b < ?T"
  proof -
    have "is_buddy_aligned ?base (index_to_phys ?base i) (k + 1) \<longleftrightarrow> 2 ^ Suc k dvd i"
      using is_buddy_aligned_index [of i "Suc k" ?base] held(1) T k by simp
    moreover have "index_to_phys ?base ?b < index_to_phys ?base i \<longleftrightarrow> ?b < i"
      by (rule index_to_phys_less [OF reg that held(1)])
    ultimately show ?thesis using pa ba by (auto simp: merged_head_def buddy_def)
  qed
  show ?thesis
  proof (cases "?b < ?T")
    case True
    then show ?thesis using merge_at [OF rep k True ba] buddy_frame_free [OF rep ok n k True] mh by simp
  next
    case False
    then show ?thesis using k free_T by (subst merge_buddies.simps) (auto simp add: ba bi bu ge Let_def)
  qed
qed

lemma merge_buddies_rep:
  assumes "pm_rep s fl A" and "blocks_ok MAX_ORDER (unat (s_frame_count s)) fl (insert (i, k) A)" and "(i, k) \<notin> A"
    and "2 ^ 23 dvd unat (s_mem_base s)"
  shows "\<exists>i' k' s' fl'. merge_buddies i k s = (i', k', s') \<and> coalesce MAX_ORDER i k fl = (i', k', fl') \<and>
           pm_rep s' fl' A \<and> fixed_part s' = fixed_part s \<and>
           (k' = k \<longrightarrow> s_page_frames s' = s_page_frames s) \<and> (k < k' \<longrightarrow> f_order (s_page_frames s' i') = of_nat k')"
  using assms
proof (induction "MAX_ORDER - k" arbitrary: i k s fl)
  case 0
  then have "\<not> k < MAX_ORDER" by simp
  then show ?case using 0 by (subst merge_buddies.simps, subst coalesce.simps) simp
next
  case (Suc d)
  then have k: "k < MAX_ORDER" by simp
  let ?b = "buddy i k"
  note step = merge_step [OF Suc.prems(1-3) k Suc.prems(4)]
  show ?case
  proof (cases "?b \<in> set (fl k)")
    case False
    then show ?thesis using Suc.prems step by (subst coalesce.simps) simp
  next
    case True
    let ?j = "min i ?b" and ?fl = "fl(k := remove1 ?b (fl k))" and ?f = "\<lambda>f. f\<lparr>f_order := of_nat (Suc k)\<rparr>"
    let ?s = "upd_frame ?j ?f (take_free ?b k s)"
    note join = blocks_ok_join [OF Suc.prems(2,3) k True]
    note held = blocks_ok_held(4,5) [OF join]
    have rep: "pm_rep ?s ?fl A"
      using held k by (intro pm_rep_frame pm_rep_take [OF Suc.prems(1) _ True]) auto
    have ok: "blocks_ok MAX_ORDER (unat (s_frame_count ?s)) ?fl (insert (?j, Suc k) A)" using join(1) by simp
    have d: "d = MAX_ORDER - Suc k" using Suc.hyps(2) by simp
    obtain i' k' s' fl' where r: "merge_buddies ?j (Suc k) ?s = (i', k', s')"
        "coalesce MAX_ORDER ?j (Suc k) ?fl = (i', k', fl')" "pm_rep s' fl' A" "fixed_part s' = fixed_part ?s"
        "k' = Suc k \<longrightarrow> s_page_frames s' = s_page_frames ?s" "Suc k < k' \<longrightarrow> f_order (s_page_frames s' i') = of_nat k'"
      using Suc.hyps(1) [OF d rep ok join(2)] Suc.prems(4) by auto
    have c: "coalesce MAX_ORDER i k fl = (i', k', fl')"
      using r(2) True k by (subst coalesce.simps) simp
    have "Suc k \<le> k' \<and> (k' = Suc k \<longrightarrow> i' = ?j)" using coalesce_order [where M = MAX_ORDER and i = ?j and k = "Suc k" and fl = ?fl] r(2) by simp
    then have "f_order (s_page_frames s' i') = of_nat k'" using r(5,6) by (cases "k' = Suc k") auto
    then show ?thesis using r step True c \<open>Suc k \<le> k' \<and> _\<close> by auto
  qed
qed

text \<open>Which frames the merge loop writes: the order of the heads of merged blocks, none of them behind the released one.\<close>

lemma merge_buddies_frames:
  assumes "pm_rep s fl A" and "blocks_ok MAX_ORDER (unat (s_frame_count s)) fl (insert (i, k) A)" and "(i, k) \<notin> A"
    and "2 ^ 23 dvd unat (s_mem_base s)" and "f_order (s_page_frames s i) = of_nat k"
  shows "case merge_buddies i k s of (i', k', s') \<Rightarrow> i' \<le> i \<and> (\<forall>x>i. s_page_frames s' x = s_page_frames s x) \<and>
           (\<exists>n. k \<le> n \<and> n \<le> MAX_ORDER \<and> f_order (s_page_frames s' i) = of_nat n)"
  using assms
proof (induction "MAX_ORDER - k" arbitrary: i k s fl)
  case 0
  then have "\<not> k < MAX_ORDER" by simp
  then show ?case using 0(6) blocks_ok_held(2) [OF 0(3,4)] by (subst merge_buddies.simps) auto
next
  case (Suc d)
  then have k: "k < MAX_ORDER" by simp
  let ?b = "buddy i k"
  note step = merge_step [OF Suc.prems(1-3) k Suc.prems(4)]
  show ?case
  proof (cases "?b \<in> set (fl k)")
    case False
    then show ?thesis using Suc.prems(5) step k by (auto intro!: exI [of _ k])
  next
    case True
    let ?j = "min i ?b" and ?fl = "fl(k := remove1 ?b (fl k))"
    let ?s = "upd_frame ?j (\<lambda>f. f\<lparr>f_order := of_nat (Suc k)\<rparr>) (take_free ?b k s)"
    note join = blocks_ok_join [OF Suc.prems(2,3) k True]
    have rep: "pm_rep ?s ?fl A"
      using blocks_ok_held(4,5) [OF join] k by (intro pm_rep_frame pm_rep_take [OF Suc.prems(1) _ True]) auto
    have ok: "blocks_ok MAX_ORDER (unat (s_frame_count ?s)) ?fl (insert (?j, Suc k) A)" using join(1) by simp
    have d: "d = MAX_ORDER - Suc k" using Suc.hyps(2) by simp
    obtain i' k' s' where m: "merge_buddies ?j (Suc k) ?s = (i', k', s')" using prod_cases3 by blast
    have ih: "i' \<le> ?j" "\<forall>x>?j. s_page_frames s' x = s_page_frames ?s x"
        "\<exists>n. Suc k \<le> n \<and> n \<le> MAX_ORDER \<and> f_order (s_page_frames s' ?j) = of_nat n"
      using Suc.hyps(1) [OF d rep ok join(2)] Suc.prems(4) m by auto
    have same: "s_page_frames s' x = s_page_frames s x" if "x > ?j" for x using ih(2) that by simp
    have "\<exists>n. k \<le> n \<and> n \<le> MAX_ORDER \<and> f_order (s_page_frames s' i) = of_nat n"
    proof (cases "?j = i")
      case True
      then show ?thesis using ih(3) by (metis Suc_leD)
    next
      case False
      then show ?thesis using same [of i] Suc.prems(5) k by (auto simp: min_def split: if_splits intro!: exI [of _ k])
    qed
    then show ?thesis using step True m ih(1) same by auto
  qed
qed

section \<open>Release\<close>

text \<open>What a release does to the counters: the size of the merged block is added, not that of the released one.\<close>

definition counted_free :: "nat \<Rightarrow> phys_mem \<Rightarrow> phys_mem \<Rightarrow> bool" where
  "counted_free k' s s' \<longleftrightarrow> s_frame_count s' = s_frame_count s \<and> s_mem_base s' = s_mem_base s \<and>
     b_free_pages s' = b_free_pages s + push_bit k' 1 \<and>
     pm_stats s' = (pm_stats s)\<lparr>st_free_pages := st_free_pages (pm_stats s) + push_bit k' 1,
       st_free_count := st_free_count (pm_stats s) + 1\<rparr>"

lemma pm_rep_free_block:
  assumes m: "merge_buddies i k s = (i', k', s1)" and rep: "pm_rep s1 fl A" and fp: "fixed_part s1 = fixed_part s"
    and i': "i' < unat (s_frame_count s)" "k' \<le> MAX_ORDER" "\<And>m. m \<le> MAX_ORDER \<Longrightarrow> i' \<notin> set (fl m)" "\<And>m. (i', m) \<notin> A"
    and ord: "f_order (s_page_frames s1 i') = of_nat k'"
  shows "pm_rep (free_block i k s) (fl(k' := i' # fl k')) A" and "counted_free k' s (free_block i k s)"
proof -
  let ?s2 = "upd_frame i' (\<lambda>f. f\<lparr>f_state := PAGE_FREE, f_ref_count := 0\<rparr>) s1"
  have "pm_rep ?s2 fl A" using i'(3,4) by (intro pm_rep_frame [OF rep]) simp_all
  then have p: "pm_rep (put_free i' k' ?s2) (fl(k' := i' # fl k')) A"
    using i' fixed_partD(1) [OF fp] ord by (intro pm_rep_put) simp_all
  have fb: "free_block i k s = (add_free_pages (push_bit k' 1) (put_free i' k' ?s2))
      \<lparr>pm_stats := (pm_stats (add_free_pages (push_bit k' 1) (put_free i' k' ?s2)))
        \<lparr>st_free_count := st_free_count (pm_stats (add_free_pages (push_bit k' 1) (put_free i' k' ?s2))) + 1\<rparr>\<rparr>"
    by (simp add: free_block_def m Let_def)
  show "pm_rep (free_block i k s) (fl(k' := i' # fl k')) A"
    unfolding fb by (rule pm_rep_cong [OF p]) (simp_all add: add_free_pages_def)
  show "counted_free k' s (free_block i k s)"
    using fixed_partD [OF fp] unfolding fb
    by (simp add: counted_free_def add_free_pages_def put_free_def upd_links_def upd_frame_def)
qed

lemma free_block_rep:
  assumes rep: "pm_rep s fl A" and ok: "blocks_ok MAX_ORDER (unat (s_frame_count s)) fl (insert (i, k) A)"
    and n: "(i, k) \<notin> A" and al: "2 ^ 23 dvd unat (s_mem_base s)" and ord: "f_order (s_page_frames s i) = of_nat k"
  shows "phys_ok (free_block i k s) (put_back MAX_ORDER i k fl) A"
    and "counted_free (fst (snd (coalesce MAX_ORDER i k fl))) s (free_block i k s)"
proof -
  obtain i' k' s1 fl' where m: "merge_buddies i k s = (i', k', s1)" and c: "coalesce MAX_ORDER i k fl = (i', k', fl')"
      and r: "pm_rep s1 fl' A" and fp: "fixed_part s1 = fixed_part s"
      and o: "k' = k \<longrightarrow> s_page_frames s1 = s_page_frames s" "k < k' \<longrightarrow> f_order (s_page_frames s1 i') = of_nat k'"
    using merge_buddies_rep [OF assms(1-4)] by blast
  have co: "k \<le> k' \<and> (k' = k \<longrightarrow> i' = i)" using coalesce_order [where M = MAX_ORDER and i = i and k = k and fl = fl] c by simp
  have ho: "f_order (s_page_frames s1 i') = of_nat k'" using o co ord by (cases "k' = k") auto
  have bok: "blocks_ok MAX_ORDER (unat (s_frame_count s)) fl' (insert (i', k') A)" "(i', k') \<notin> A"
    using blocks_ok_coalesce [OF ok n] c by auto
  note fb = pm_rep_free_block [OF m r fp blocks_ok_held(1,2,4,5) [OF bok] ho]
  show cf: "counted_free (fst (snd (coalesce MAX_ORDER i k fl))) s (free_block i k s)" using fb(2) c by simp
  have "blocks_ok MAX_ORDER (unat (s_frame_count s)) (put_back MAX_ORDER i k fl) A"
    by (rule blocks_ok_put_back [OF ok n])
  then show "phys_ok (free_block i k s) (put_back MAX_ORDER i k fl) A"
    using fb(1) cf by (simp add: phys_ok_def counted_free_def put_back_def c)
qed

text \<open>The guards of a release, for a page whose count of references is 1 (a held block) or 0 (a page released before).\<close>

lemma free_pages_block:
  assumes rep: "pm_rep s fl A" and i: "i < unat (s_frame_count s)" and k: "k \<le> MAX_ORDER"
    and st: "f_state (s_page_frames s i) = PAGE_ALLOCATED" "f_ref_count (s_page_frames s i) \<le> 1"
  shows "phys_mem_free_pages (index_to_phys (s_mem_base s) i) (of_nat k) s =
           free_block i k (if f_ref_count (s_page_frames s i) = 1 then upd_frame i (\<lambda>f. f\<lparr>f_ref_count := f_ref_count f - 1\<rparr>) s else s)"
proof -
  have T: "unat (s_frame_count s) \<le> 8192" by (rule pm_rep_count [OF rep])
  have idx: "phys_to_index (s_mem_base s) (index_to_phys (s_mem_base s) i) = of_nat i"
    using i T by (intro phys_to_index_phys) simp
  have iu: "unat (of_nat i :: u32) = i" using i T by (intro unat_of_nat_u32) simp
  have ku: "unat (of_nat k :: u32) = k" using k by (intro unat_of_nat_u32) simp
  have lt: "\<not> s_frame_count s \<le> of_nat i" using i by (simp add: word_le_nat_alt iu)
  have ko: "\<not> (of_nat k :: u32) > of_nat MAX_ORDER" using k by (simp add: word_less_nat_alt ku)
  have "f_ref_count (s_page_frames s i) = 0 \<or> f_ref_count (s_page_frames s i) = 1"
    using st(2) by (auto simp: word_le_nat_alt word_unat_eq_iff)
  then show ?thesis
    using index_to_phys_range(2) [OF pm_repD(1) [OF rep] i] st(1) lt ko
    by (elim disjE) (simp_all add: phys_mem_free_pages_def idx iu ku Let_def)
qed

lemma free_pages_rep:
  assumes ok: "phys_ok s fl (insert (i, k) A)" and n: "(i, k) \<notin> A" and al: "2 ^ 23 dvd unat (s_mem_base s)"
  defines "s' \<equiv> phys_mem_free_pages (index_to_phys (s_mem_base s) i) (of_nat k) s"
  shows "phys_ok s' (put_back MAX_ORDER i k fl) A"
    and "counted_free (fst (snd (coalesce MAX_ORDER i k fl))) s s'"
proof -
  have rep: "pm_rep s fl (insert (i, k) A)" and bok: "blocks_ok MAX_ORDER (unat (s_frame_count s)) fl (insert (i, k) A)"
    using ok by (auto simp: phys_ok_def)
  note held = blocks_ok_held [OF bok n]
  have hd: "f_state (s_page_frames s i) = PAGE_ALLOCATED" "f_order (s_page_frames s i) = of_nat k"
      "f_ref_count (s_page_frames s i) = 1"
    using pm_repD(6) [OF rep, of i k] by simp_all
  let ?s1 = "upd_frame i (\<lambda>f. f\<lparr>f_ref_count := f_ref_count f - 1\<rparr>) s"
  have s': "s' = free_block i k ?s1"
    unfolding s'_def using free_pages_block [OF rep held(1,2) hd(1)] hd(3) by simp
  have r1: "pm_rep ?s1 fl A" using held(4,5) by (intro pm_rep_frame [OF pm_rep_subset [OF rep]]) auto
  have b1: "blocks_ok MAX_ORDER (unat (s_frame_count ?s1)) fl (insert (i, k) A)" using bok by simp
  have "2 ^ 23 dvd unat (s_mem_base ?s1)" using al by simp
  note fb = free_block_rep [OF r1 b1 n this]
  show "phys_ok s' (put_back MAX_ORDER i k fl) A" unfolding s' using hd(2) by (intro fb(1)) simp
  have "counted_free (fst (snd (coalesce MAX_ORDER i k fl))) ?s1 s'" unfolding s' using hd(2) by (intro fb(2)) simp
  then show "counted_free (fst (snd (coalesce MAX_ORDER i k fl))) s s'"
    by (simp add: counted_free_def upd_frame_def)
qed

end
