(* ===== verification/Buddy_Init.thy ===== *)
theory Buddy_Init
  imports Buddy_Ops
begin

text \<open>
  The initialisation of the page frame allocator establishes the invariant: the pages are tiled by free blocks of
  decreasing order, with at most one block of every order below the largest.
\<close>

section \<open>The state before the free lists are filled\<close>

lemma init_free_lists_fields:
  "s_links (init_free_lists ks s) = fold (\<lambda>a. INIT_LIST_HEAD (Some a)) (map Free_List ks) (s_links s)"
  "b_free_counts (init_free_lists ks s) k = (if k \<in> set ks then 0 else b_free_counts s k)"
  "fixed_part (init_free_lists ks s) = fixed_part s"
  by (induction ks s rule: init_free_lists.induct) (auto simp: upd_links_def fixed_part_def)

lemma init_frames_fields:
  "s_links (init_frames is s) = fold (\<lambda>a. INIT_LIST_HEAD (Some a)) (map Frame_Node is) (s_links s)"
  "b_free_counts (init_frames is s) = b_free_counts s"
  "fixed_part (init_frames is s) = fixed_part s"
  "i \<in> set is \<Longrightarrow> s_page_frames (init_frames is s) i =
     \<lparr>phys_addr = index_to_phys (s_mem_base s) i, f_state = PAGE_FREE, f_ref_count = 0, f_order = 0\<rparr>"
proof -
  show "s_links (init_frames is s) = fold (\<lambda>a. INIT_LIST_HEAD (Some a)) (map Frame_Node is) (s_links s)"
    by (induction "is" s rule: init_frames.induct) (auto simp: upd_links_def upd_frame_def)
  show "b_free_counts (init_frames is s) = b_free_counts s"
    by (induction "is" s rule: init_frames.induct) (auto simp: upd_links_def upd_frame_def)
  show "fixed_part (init_frames is s) = fixed_part s"
    by (induction "is" s rule: init_frames.induct) (auto simp: upd_links_def upd_frame_def fixed_part_def)
  have keep: "s_page_frames (init_frames is s) i = s_page_frames s i" if "i \<notin> set is" for "is" s
    using that by (induction "is" s rule: init_frames.induct) (auto simp: upd_links_def upd_frame_def)
  show "i \<in> set is \<Longrightarrow> s_page_frames (init_frames is s) i =
     \<lparr>phys_addr = index_to_phys (s_mem_base s) i, f_state = PAGE_FREE, f_ref_count = 0, f_order = 0\<rparr>"
  proof (induction "is" s rule: init_frames.induct)
    case (2 j "is" s)
    then show ?case using keep [of "is"] by (cases "i \<in> set is") (auto simp: upd_links_def upd_frame_def page_frame.splits)
  qed simp
qed

lemma pm_rep_initial:
  assumes "region base (unat T)" and "s_mem_base s = base" and "s_frame_count s = T"
  shows "pm_rep (init_frames [0..<unat T] (init_free_lists [0..<Suc MAX_ORDER] s)) (\<lambda>_. []) {}"
proof -
  let ?s1 = "init_free_lists [0..<Suc MAX_ORDER] s" and ?s = "init_frames [0..<unat T] (init_free_lists [0..<Suc MAX_ORDER] s)"
  have fp: "fixed_part ?s = fixed_part s" by (simp only: init_frames_fields(3) init_free_lists_fields(3))
  have e: "ring_of (\<lambda>_. []) = (\<lambda>_. [])"
  proof
    show "ring_of (\<lambda>_. []) a = []" for a by (cases a) auto
  qed
  have "dll (s_links ?s) n []" if "n \<in> heads \<union> Frame_Node ` {..<unat T}" for n
    using that unfolding init_frames_fields(1) init_free_lists_fields(1) fold_INIT_LIST_HEAD by auto
  then have "rings (s_links ?s) heads (Frame_Node ` {..<unat T}) (ring_of (\<lambda>_. []))"
    unfolding e by (intro rings_initial) auto
  moreover have "b_free_counts ?s k = 0" if "k \<le> MAX_ORDER" for k
    using that by (simp add: init_frames_fields(2) init_free_lists_fields(2) del: upt_Suc)
  moreover have "phys_addr (s_page_frames ?s i) = index_to_phys base i" if "i < unat T" for i
    using init_frames_fields(4) [of i "[0..<unat T]" ?s1] that fixed_partD(2) [OF init_free_lists_fields(3)] assms(2)
    by (simp del: upt_Suc)
  ultimately show ?thesis
    using assms fixed_partD(1,2) [OF fp] by (simp add: pm_rep_def del: upt_Suc)
qed

section \<open>Filling the free lists\<close>

text \<open>The pages below \<open>p\<close> are tiled by the free blocks.\<close>

definition seeded :: "nat \<Rightarrow> phys_mem \<Rightarrow> free_lists \<Rightarrow> bool" where
  "seeded p s fl \<longleftrightarrow> pm_rep s fl {} \<and> blocks_ok MAX_ORDER p fl {} \<and> p \<le> unat (s_frame_count s)"

lemma blocks_ok_append:
  assumes ok: "blocks_ok M p fl {}" and k: "k \<le> M" and al: "2 ^ k dvd p" and single: "k < M \<Longrightarrow> fl k = []"
  shows "blocks_ok M (p + 2 ^ k) (fl(k := fl k @ [p])) {}"
proof -
  note t = blocks_okD(1) [OF ok]
  have fb: "free_blocks M (fl(k := fl k @ [p])) = insert (p, k) (free_blocks M fl)"
    using k by (auto simp: free_blocks_def split: if_splits)
  have below: "pages_of b \<subseteq> {..<p}" "fst b + 2 ^ snd b \<le> p + 2 ^ k" if "b \<in> free_blocks M fl" for b
    using tilingD(3) [OF t, of b] that by (auto simp: pages_of_def)
  have new: "pages_of (p, k) = {p..<p + 2 ^ k}" by (simp add: pages_of_def)
  have "tiling M (p + 2 ^ k) (insert (p, k) (free_blocks M fl))"
    unfolding tiling_def
  proof (intro conjI ballI impI allI)
    fix n assume "n < p + 2 ^ k"
    then show "\<exists>b\<in>insert (p, k) (free_blocks M fl). n \<in> pages_of b"
      using t new unfolding tiling_def by (cases "n < p") auto
  next
    fix b c assume "b \<in> insert (p, k) (free_blocks M fl)" "c \<in> insert (p, k) (free_blocks M fl)" "b \<noteq> c"
    then show "pages_of b \<inter> pages_of c = {}"
      using below(1) new tilingD(4) [OF t, of b c] by fastforce
  qed (use tilingD(1,2) [OF t] below(2) k al in \<open>auto simp: aligned_def\<close>)
  moreover have "p \<notin> set (fl k)" using blocks_ok_free(1) [OF ok k, of p] by auto
  moreover have "coalesced M (fl(k := fl k @ [p]))"
    unfolding coalesced_def
  proof (intro allI impI ballI)
    fix m j assume "m < M" "j \<in> set ((fl(k := fl k @ [p])) m)"
    then show "buddy j m \<notin> set ((fl(k := fl k @ [p])) m)"
      using blocks_okD(3) [OF ok] single buddy_min(4) [OF al] by (auto simp: coalesced_def)
  qed
  ultimately show ?thesis using blocks_okD(4) [OF ok] fb by (auto simp: blocks_ok_def)
qed

lemma seeded_block:
  assumes sd: "seeded p s fl" and k: "k \<le> MAX_ORDER" and al: "2 ^ k dvd p" and fits: "p + 2 ^ k \<le> unat (s_frame_count s)"
    and single: "k < MAX_ORDER \<Longrightarrow> fl k = []"
  shows "seeded (p + 2 ^ k) (seed_block k p s) (fl(k := fl k @ [p]))"
    and "s_frame_count (seed_block k p s) = s_frame_count s" and "s_mem_base (seed_block k p s) = s_mem_base s"
proof -
  let ?f = "\<lambda>f. f\<lparr>f_order := of_nat k, f_state := PAGE_FREE\<rparr>" and ?T = "unat (s_frame_count s)"
  have rep: "pm_rep s fl {}" and ok: "blocks_ok MAX_ORDER p fl {}" using sd by (auto simp: seeded_def)
  have new: "m \<le> MAX_ORDER \<Longrightarrow> p \<notin> set (fl m)" for m using blocks_ok_free(1) [OF ok, of m p] by auto
  have "p < p + 2 ^ k" by simp
  then have p: "p < ?T" using fits by linarith
  have r1: "pm_rep (upd_frame p ?f s) fl {}" using new by (intro pm_rep_frame [OF rep]) auto
  have nq: "\<not> queued heads (ring_of fl) (Frame_Node p)" using new by (auto simp: queued_ring_of)
  have "rings (list_add_tail (Some (Frame_Node p)) (Some (Free_List k)) (s_links s)) heads (Frame_Node ` {..<?T})
      (ring_of (fl(k := fl k @ [p])))"
    using rings_add_tail [OF pm_repD(2) [OF rep], of "Free_List k" "Frame_Node p"] nq p k by (simp add: ring_of_upd)
  then have "pm_rep (seed_block k p s) (fl(k := fl k @ [p])) {}"
    using r1 k unfolding pm_rep_def seed_block_def by (auto simp: Let_def upd_links_def)
  moreover have "blocks_ok MAX_ORDER (p + 2 ^ k) (fl(k := fl k @ [p])) {}"
    by (rule blocks_ok_append [OF ok k al single])
  moreover show "s_frame_count (seed_block k p s) = s_frame_count s" "s_mem_base (seed_block k p s) = s_mem_base s"
    by (simp_all add: seed_block_def Let_def upd_links_def)
  ultimately show "seeded (p + 2 ^ k) (seed_block k p s) (fl(k := fl k @ [p]))" using fits by (simp add: seeded_def)
qed

text \<open>One order: below the largest order at most one block fits.\<close>

lemma seeded_order:
  assumes "seeded p s fl" and "k \<le> MAX_ORDER" and "2 ^ k dvd p" and "p + r = unat (s_frame_count s)"
    and "k < MAX_ORDER \<Longrightarrow> fl k = [] \<and> r < 2 ^ Suc k \<or> r < 2 ^ k" and "\<And>m. m < k \<Longrightarrow> fl m = []"
  shows "case seed_order k p r s of (p', r', s') \<Rightarrow>
           \<exists>fl'. seeded p' s' fl' \<and> 2 ^ k dvd p' \<and> p' + r' = unat (s_frame_count s') \<and> r' < 2 ^ k \<and>
             (\<forall>m<k. fl' m = []) \<and> s_mem_base s' = s_mem_base s \<and> s_frame_count s' = s_frame_count s"
  using assms
proof (induction k p r s arbitrary: fl rule: seed_order.induct)
  case (1 k p r s)
  show ?case
  proof (cases "2 ^ k \<le> r")
    case True
    have single: "k < MAX_ORDER \<Longrightarrow> fl k = []" using "1.prems"(5) True by auto
    have fits: "p + 2 ^ k \<le> unat (s_frame_count s)" using "1.prems"(4) True by linarith
    note sb = seeded_block [OF "1.prems"(1-3) fits single]
    have "case seed_order k (p + 2 ^ k) (r - 2 ^ k) (seed_block k p s) of (p', r', s') \<Rightarrow>
       \<exists>fl'. seeded p' s' fl' \<and> 2 ^ k dvd p' \<and> p' + r' = unat (s_frame_count s') \<and> r' < 2 ^ k \<and>
         (\<forall>m<k. fl' m = []) \<and> s_mem_base s' = s_mem_base (seed_block k p s) \<and>
         s_frame_count s' = s_frame_count (seed_block k p s)"
      using "1.prems" True sb by (intro "1.IH" [OF True sb(1)]) (auto simp: single)
    then show ?thesis using True sb(2,3) by (subst seed_order.simps) simp
  next
    case False
    then show ?thesis using "1.prems" by (subst seed_order.simps) auto
  qed
qed

lemma seeded_orders:
  assumes "seeded p s fl" and "k \<le> MAX_ORDER" and "2 ^ k dvd p" and "p + r = unat (s_frame_count s)"
    and "k < MAX_ORDER \<Longrightarrow> fl k = [] \<and> r < 2 ^ Suc k" and "\<And>m. m < k \<Longrightarrow> fl m = []"
  shows "\<exists>fl'. seeded (unat (s_frame_count s)) (seed_orders k p r s) fl' \<and>
           s_mem_base (seed_orders k p r s) = s_mem_base s \<and> s_frame_count (seed_orders k p r s) = s_frame_count s"
  using assms
proof (induction k arbitrary: p r s fl)
  case 0
  obtain p' r' s' where so: "seed_order 0 p r s = (p', r', s')" using prod_cases3 by blast
  have "\<exists>fl'. seeded p' s' fl' \<and> p' + r' = unat (s_frame_count s') \<and> r' < 1 \<and>
      s_mem_base s' = s_mem_base s \<and> s_frame_count s' = s_frame_count s"
    using seeded_order [OF 0(1-4)] 0(5,6) so by auto
  then show ?case by (subst (1 2 3) seed_orders.simps) (auto simp: so)
next
  case (Suc k)
  obtain p' r' s' where so: "seed_order (Suc k) p r s = (p', r', s')" using prod_cases3 by blast
  obtain fl' where fl': "seeded p' s' fl'" "2 ^ Suc k dvd p'" "p' + r' = unat (s_frame_count s')" "r' < 2 ^ Suc k"
      "\<forall>m<Suc k. fl' m = []" and eq: "s_mem_base s' = s_mem_base s" "s_frame_count s' = s_frame_count s"
    using seeded_order [OF Suc.prems(1-4)] Suc.prems(5,6) so by auto
  show ?case
  proof (cases "r' = 0")
    case True
    then show ?thesis using fl' eq by (subst (1 2 3) seed_orders.simps) (auto simp: so)
  next
    case False
    have "\<exists>fl''. seeded (unat (s_frame_count s')) (seed_orders k p' r' s') fl'' \<and>
        s_mem_base (seed_orders k p' r' s') = s_mem_base s' \<and>
        s_frame_count (seed_orders k p' r' s') = s_frame_count s'"
      using fl' Suc.prems(2) dvd_Suc_lower [OF fl'(2)] by (intro Suc.IH [OF fl'(1)]) auto
    then show ?thesis using False eq by (subst (1 2 3) seed_orders.simps) (auto simp: so)
  qed
qed

section \<open>Initialisation\<close>

lemma blocks_ok_empty: "blocks_ok M 0 (\<lambda>_. []) {}"
  by (simp add: blocks_ok_def tiling_def free_blocks_def coalesced_def)

lemma reset_memory_ok:
  assumes "region base (unat T)"
  shows "seeded 0 (reset_memory base T s) (\<lambda>_. [])" and "s_mem_base (reset_memory base T s) = base"
    and "s_frame_count (reset_memory base T s) = T" and "b_free_pages (reset_memory base T s) = 0"
    and "pm_stats (reset_memory base T s) = zero_stats\<lparr>st_total_pages := T\<rparr>"
    and "i < unat T \<Longrightarrow> s_page_frames (reset_memory base T s) i =
           \<lparr>phys_addr = index_to_phys base i, f_state = PAGE_FREE, f_ref_count = 0, f_order = 0\<rparr>"
proof -
  define s1 where "s1 = clear_frames (s\<lparr>s_mem_base := base, s_frame_count := T\<rparr>)"
  define s2 where "s2 = s1\<lparr>pm_stats := (pm_stats s1)\<lparr>st_total_pages := T\<rparr>, b_base_addr := base, b_total_pages := T,
    b_free_pages := 0\<rparr>"
  define s3 where "s3 = init_free_lists [0..<Suc MAX_ORDER] s2"
  have r: "reset_memory base T s = init_frames [0..<unat T] s3"
    by (simp add: reset_memory_def Let_def s1_def s2_def s3_def del: upt_Suc)
  have b2: "s_mem_base s2 = base" "s_frame_count s2 = T" "b_free_pages s2 = 0" "pm_stats s2 = zero_stats\<lparr>st_total_pages := T\<rparr>"
    by (simp_all add: s2_def s1_def clear_frames_def)
  have f3: "fixed_part s3 = fixed_part s2" by (simp only: s3_def init_free_lists_fields(3))
  have f4: "fixed_part (reset_memory base T s) = fixed_part s2" by (simp only: r init_frames_fields(3) f3)
  show eq: "s_mem_base (reset_memory base T s) = base" "s_frame_count (reset_memory base T s) = T"
      "b_free_pages (reset_memory base T s) = 0" "pm_stats (reset_memory base T s) = zero_stats\<lparr>st_total_pages := T\<rparr>"
    using fixed_partD [OF f4] b2 by simp_all
  have "pm_rep (reset_memory base T s) (\<lambda>_. []) {}"
    unfolding r s3_def by (rule pm_rep_initial [OF assms b2(1,2)])
  then show "seeded 0 (reset_memory base T s) (\<lambda>_. [])" by (simp add: seeded_def blocks_ok_empty)
  show "s_page_frames (reset_memory base T s) i =
      \<lparr>phys_addr = index_to_phys base i, f_state = PAGE_FREE, f_ref_count = 0, f_order = 0\<rparr>" if "i < unat T"
    using init_frames_fields(4) [of i "[0..<unat T]" s3] that fixed_partD(2) [OF f3] b2(1) by (simp add: r)
qed

lemma pages_of_size:
  "unat (ucast ((sz :: u64) div CONFIG_PAGE_SIZE) :: u32) * 4096 \<le> unat sz"
proof -
  have "unat (ucast (sz div CONFIG_PAGE_SIZE) :: u32) \<le> unat (sz div CONFIG_PAGE_SIZE)"
    by (simp add: unsigned_ucast_eq take_bit_nat_less_eq_self)
  also have "\<dots> = unat sz div 4096" by (simp add: unat_div_distrib)
  finally have "unat (ucast (sz div CONFIG_PAGE_SIZE) :: u32) * 4096 \<le> unat sz div 4096 * 4096" by simp
  also have "\<dots> \<le> unat sz" by (rule div_times_less_eq_dividend)
  finally show ?thesis .
qed

lemma phys_ok_stats: "phys_ok (s\<lparr>pm_stats := st\<rparr>) fl A = phys_ok s fl A"
  by (simp add: phys_ok_def pm_rep_def)

theorem phys_mem_init_ok:
  assumes init: "phys_mem_init base sz s = (KERNEL_OK, s')" and space: "unat base + unat sz \<le> 2 ^ 64"
  shows "\<exists>fl. phys_ok s' fl {}" and "s_mem_base s' = base" and "unat (s_frame_count s') * 4096 \<le> unat sz"
proof -
  let ?T = "ucast (sz div CONFIG_PAGE_SIZE) :: u32"
  have c: "base \<noteq> 0" "\<not> ?T > 8192" using init by (auto simp: phys_mem_init_def Let_def split: if_splits)
  have T: "unat ?T * 4096 \<le> unat sz" by (rule pages_of_size)
  have reg: "region base (unat ?T)" using c space T unfolding region_def by (auto simp: word_less_nat_alt)
  note rs = reset_memory_ok [OF reg, where s = s]
  define s5 where "s5 = seed_orders MAX_ORDER 0 (unat ?T) (reset_memory base ?T s)"
  have s': "s' = s5\<lparr>pm_stats := (pm_stats s5)\<lparr>st_free_pages := b_free_pages s5\<rparr>\<rparr>"
    using init by (simp add: phys_mem_init_def Let_def s5_def split: if_splits)
  have "\<exists>fl. seeded (unat (s_frame_count (reset_memory base ?T s))) s5 fl \<and>
      s_mem_base s5 = s_mem_base (reset_memory base ?T s) \<and> s_frame_count s5 = s_frame_count (reset_memory base ?T s)"
    unfolding s5_def using rs(3) by (intro seeded_orders [OF rs(1)]) auto
  then obtain fl where fl: "seeded (unat ?T) s5 fl" "s_mem_base s5 = base" "s_frame_count s5 = ?T"
    unfolding rs(2,3) by blast
  then have "phys_ok s' fl {}" unfolding s' phys_ok_stats by (simp add: phys_ok_def seeded_def)
  then show "\<exists>fl. phys_ok s' fl {}" by blast
  show "s_mem_base s' = base" "unat (s_frame_count s') * 4096 \<le> unat sz"
    unfolding s' using fl(2,3) T by simp_all
qed

end
