(* ===== verification/Phys_Mem_Runs.thy ===== *)
theory Phys_Mem_Runs
  imports Buddy_Init
begin

text \<open>
  Runs of the page frame allocator with clients that release what they hold, and the invariant of all runs.
\<close>

section \<open>Runs of the allocator\<close>

text \<open>The states of the allocator and the set of blocks its clients hold, as address and order: clients release what they
  hold, with the order they asked for.\<close>

inductive pm_run :: "u64 \<Rightarrow> u64 \<Rightarrow> phys_mem \<Rightarrow> (u64 \<times> u32) set \<Rightarrow> bool" for base sz where
  boot: "phys_mem_init base sz s = (KERNEL_OK, s') \<Longrightarrow> pm_run base sz s' {}"
| alloc: "pm_run base sz s H \<Longrightarrow> phys_mem_alloc_pages order s = Some (a, s') \<Longrightarrow> a \<noteq> 0 \<Longrightarrow>
    pm_run base sz s' (insert (a, order) H)"
| full: "pm_run base sz s H \<Longrightarrow> phys_mem_alloc_pages order s = Some (0, s') \<Longrightarrow> pm_run base sz s' H"
| free: "pm_run base sz s H \<Longrightarrow> (a, order) \<in> H \<Longrightarrow> pm_run base sz (phys_mem_free_pages a order s) (H - {(a, order)})"

definition handle :: "u64 \<Rightarrow> block \<Rightarrow> u64 \<times> u32" where
  "handle base b = (index_to_phys base (fst b), of_nat (snd b))"

definition bytes_of :: "u64 \<times> u32 \<Rightarrow> nat set" where
  "bytes_of h = {unat (fst h) ..< unat (fst h) + 4096 * 2 ^ unat (snd h)}"

lemma phys_ok_block:
  assumes ok: "phys_ok s fl A" and b: "(i, k) \<in> A"
  shows "i < unat (s_frame_count s)" and "i + 2 ^ k \<le> unat (s_frame_count s)" and "k \<le> MAX_ORDER"
    and "unat (index_to_phys (s_mem_base s) i) = unat (s_mem_base s) + i * 4096" and "unat (of_nat k :: u32) = k"
proof -
  have t: "tiling MAX_ORDER (unat (s_frame_count s)) (free_blocks MAX_ORDER fl \<union> A)"
    using ok blocks_okD(1) by (auto simp: phys_ok_def)
  have m: "(i, k) \<in> free_blocks MAX_ORDER fl \<union> A" using b by simp
  show le: "i + 2 ^ k \<le> unat (s_frame_count s)" and k: "k \<le> MAX_ORDER" using tilingD(2,3) [OF t m] by simp_all
  have "i < i + 2 ^ k" by simp
  then show i: "i < unat (s_frame_count s)" using le by linarith
  show "unat (index_to_phys (s_mem_base s) i) = unat (s_mem_base s) + i * 4096"
    using ok i pm_repD(1) by (intro unat_index_to_phys) (auto simp: phys_ok_def)
  show "unat (of_nat k :: u32) = k" using k by (intro unat_of_nat_u32) simp
qed

lemma handle_inj:
  assumes ok: "phys_ok s fl A" and "b \<in> A" and "c \<in> A" and eq: "handle (s_mem_base s) b = handle (s_mem_base s) c"
  shows "b = c"
proof -
  obtain i k j p where bc: "b = (i, k)" "c = (j, p)" by (metis surj_pair)
  have e: "index_to_phys (s_mem_base s) i = index_to_phys (s_mem_base s) j" "(of_nat k :: u32) = of_nat p"
    using eq by (simp_all add: handle_def bc)
  note blk = phys_ok_block(4,5) [OF ok assms(2) [unfolded bc]] phys_ok_block(4,5) [OF ok assms(3) [unfolded bc]]
  have "unat (s_mem_base s) + i * 4096 = unat (s_mem_base s) + j * 4096" using blk(1,3) e(1) by metis
  then have "i = j" by simp
  moreover have "k = p"
    using blk(2,4) e(2) by metis
  ultimately show ?thesis using bc by simp
qed

lemma bytes_of_handle:
  assumes "phys_ok s fl A" and "(i, k) \<in> A"
  shows "bytes_of (handle (s_mem_base s) (i, k)) =
           {unat (s_mem_base s) + 4096 * i ..< unat (s_mem_base s) + 4096 * (i + 2 ^ k)}"
  using phys_ok_block(4,5) [OF assms] by (simp add: bytes_of_def handle_def algebra_simps)

lemma pm_run_ok:
  assumes "pm_run base sz s H" and al: "2 ^ 23 dvd unat base" and space: "unat base + unat sz \<le> 2 ^ 64"
  shows "\<exists>fl A. phys_ok s fl A \<and> H = handle base ` A \<and> s_mem_base s = base \<and> unat (s_frame_count s) * 4096 \<le> unat sz"
  using assms(1)
proof induction
  case (boot s s')
  then show ?case using phys_mem_init_ok [OF boot space] by auto
next
  case (alloc s H order a s')
  then obtain fl A where ok: "phys_ok s fl A" and H: "H = handle base ` A" "s_mem_base s = base"
      and T: "unat (s_frame_count s) * 4096 \<le> unat sz" by blast
  obtain k where k: "first_fit MAX_ORDER (unat order) fl = Some k"
    using alloc_pages_none [OF ok, of order] alloc.hyps by (cases "first_fit MAX_ORDER (unat order) fl") auto
  obtain s1 where "phys_mem_alloc_pages order s = Some (index_to_phys base (hd (fl k)), s1)"
      "phys_ok s1 (take_out (unat order) k fl) (insert (hd (fl k), unat order) A)" "counted_alloc (unat order) s s1"
    using alloc_pages_some [OF ok k] H(2) by blast
  then have "a = index_to_phys base (hd (fl k))" "phys_ok s' (take_out (unat order) k fl) (insert (hd (fl k), unat order) A)"
      "s_mem_base s' = base" "s_frame_count s' = s_frame_count s"
    using alloc.hyps H(2) by (auto simp: counted_alloc_def)
  moreover have "insert (a, order) H = handle base ` insert (hd (fl k), unat order) A"
    using H(1) calculation(1) by (simp add: handle_def)
  ultimately show ?case using T by (metis)
next
  case (full s H order s')
  then obtain fl A where ok: "phys_ok s fl A" and H: "H = handle base ` A" "s_mem_base s = base"
      and T: "unat (s_frame_count s) * 4096 \<le> unat sz" by blast
  have "s' = s"
  proof (cases "first_fit MAX_ORDER (unat order) fl")
    case None
    then show ?thesis using alloc_pages_none [OF ok] full.hyps by simp
  next
    case (Some k)
    note fit = first_fit_SomeD [OF Some]
    have "hd (fl k) < unat (s_frame_count s)"
      using blocks_ok_free(1) [of MAX_ORDER _ fl A k "hd (fl k)"] ok fit by (auto simp: phys_ok_def)
    then have "index_to_phys base (hd (fl k)) \<noteq> 0"
      using index_to_phys_range(2) pm_repD(1) ok H(2) by (metis phys_ok_def)
    then show ?thesis using alloc_pages_some [OF ok Some] full.hyps H(2) by auto
  qed
  then show ?case using ok H T by blast
next
  case (free s H a order)
  then obtain fl A where ok: "phys_ok s fl A" and H: "H = handle base ` A" "s_mem_base s = base"
      and T: "unat (s_frame_count s) * 4096 \<le> unat sz" by blast
  obtain i k where ik: "(i, k) \<in> A" "a = index_to_phys base i" "order = of_nat k"
    using free.hyps H(1) by (auto simp: handle_def)
  let ?A = "A - {(i, k)}"
  have A: "A = insert (i, k) ?A" using ik(1) by blast
  have f: "phys_ok (phys_mem_free_pages a order s) (put_back MAX_ORDER i k fl) ?A"
      "counted_free (fst (snd (coalesce MAX_ORDER i k fl))) s (phys_mem_free_pages a order s)"
    using free_pages_rep [of s fl i k ?A] ok A ik(2,3) H(2) al by (metis DiffD2 insertI1)+
  moreover have "H - {(a, order)} = handle base ` ?A"
    using handle_inj [OF ok] H ik by (auto simp: handle_def)
  ultimately show ?case using H(2) T unfolding counted_free_def by metis
qed

end
