(* ===== verification/Phys_Mem_Scenario.thy ===== *)
theory Phys_Mem_Scenario
  imports Phys_Mem_Runs
begin

text \<open>
  A memory of four pages, the smallest one in which blocks are split and merged twice: its state after the initialisation
  and the allocation of its pages one by one.
\<close>

definition pm_zero :: phys_mem where
  "pm_zero = \<lparr>s_page_frames = \<lambda>_. zero_frame, s_links = \<lambda>_. null_link, b_free_counts = \<lambda>_. 0, b_base_addr = 0,
     b_total_pages = 0, b_free_pages = 0, pm_stats = zero_stats, s_frame_count = 0, s_mem_base = 0\<rparr>"

definition four_pages :: "u64 \<Rightarrow> phys_mem" where
  "four_pages base = snd (phys_mem_init base 16384 pm_zero)"

definition page_base :: "u64 \<Rightarrow> bool" where
  "page_base base \<longleftrightarrow> base \<noteq> 0 \<and> base mod CONFIG_PAGE_SIZE = 0 \<and> unat base + 16384 \<le> 2 ^ 64"

lemma page_base_qemu: "page_base 0x40000000"
  by (simp add: page_base_def)

definition one_block :: free_lists where
  "one_block = (\<lambda>_. [])(2 := [0])"

lemma seed_orders_skip:
  assumes "0 < r" and "r < 2 ^ Suc k"
  shows "seed_orders (k + d) p r s = seed_orders k p r s"
proof (induction d)
  case (Suc d)
  have "(2::nat) ^ Suc k \<le> 2 ^ Suc (k + d)" by (rule power_increasing) auto
  then have "\<not> 2 ^ Suc (k + d) \<le> r" using assms(2) by linarith
  then have "seed_order (Suc (k + d)) p r s = (p, r, s)" by (subst seed_order.simps) simp
  then show ?case using Suc assms(1) by (subst seed_orders.simps) simp
qed simp

lemma seed_four: "seed_orders MAX_ORDER 0 4 s = seed_block 2 0 s"
proof -
  have "seed_orders MAX_ORDER 0 4 s = seed_orders 2 0 4 s" using seed_orders_skip [of 4 2 9 0 s] by simp
  also have "seed_order 2 0 4 s = (4, 0, seed_block 2 0 s)"
    by (subst seed_order.simps, subst seed_order.simps) simp
  then have "seed_orders 2 0 4 s = seed_block 2 0 s" by (subst seed_orders.simps) simp
  finally show ?thesis .
qed

lemma four_pages_ok:
  assumes base: "page_base base"
  shows "phys_mem_init base 16384 pm_zero = (KERNEL_OK, four_pages base)"
    and "phys_ok (four_pages base) one_block {}"
    and "s_mem_base (four_pages base) = base" and "s_frame_count (four_pages base) = 4"
    and "pm_stats (four_pages base) = zero_stats\<lparr>st_total_pages := 4, st_free_pages := 4\<rparr>"
    and "i < 4 \<Longrightarrow> i \<noteq> 0 \<Longrightarrow> s_page_frames (four_pages base) i =
           \<lparr>phys_addr = index_to_phys base i, f_state = PAGE_FREE, f_ref_count = 0, f_order = 0\<rparr>"
proof -
  have T: "ucast ((16384 :: u64) div CONFIG_PAGE_SIZE) = (4 :: u32)" by code_simp
  have reg: "region base (unat (4 :: u32))" using base by (auto simp: region_def page_base_def)
  note rs = reset_memory_ok [OF reg, where s = pm_zero]
  define s0 where "s0 = seed_block 2 0 (reset_memory base 4 pm_zero)"
  have init: "phys_mem_init base 16384 pm_zero =
      (KERNEL_OK, s0\<lparr>pm_stats := (pm_stats s0)\<lparr>st_free_pages := b_free_pages s0\<rparr>\<rparr>)"
    using base by (simp add: phys_mem_init_def page_base_def T seed_four s0_def Let_def)
  then have fp: "four_pages base = s0\<lparr>pm_stats := (pm_stats s0)\<lparr>st_free_pages := b_free_pages s0\<rparr>\<rparr>"
    by (simp add: four_pages_def)
  show "phys_mem_init base 16384 pm_zero = (KERNEL_OK, four_pages base)" using init fp by simp
  have sd: "seeded (0 + 2 ^ 2) s0 ((\<lambda>_. [])(2 := [] @ [0]))" "s_frame_count s0 = 4" "s_mem_base s0 = base"
    using seeded_block [OF rs(1), of 2] rs(2,3) by (simp_all add: s0_def)
  then show "phys_ok (four_pages base) one_block {}" "s_mem_base (four_pages base) = base" "s_frame_count (four_pages base) = 4"
    unfolding fp phys_ok_stats by (simp_all add: phys_ok_def seeded_def one_block_def)
  show "pm_stats (four_pages base) = zero_stats\<lparr>st_total_pages := 4, st_free_pages := 4\<rparr>"
    unfolding fp s0_def using rs(4,5) by (simp add: seed_block_def Let_def upd_links_def upd_frame_def)
  show "s_page_frames (four_pages base) i =
      \<lparr>phys_addr = index_to_phys base i, f_state = PAGE_FREE, f_ref_count = 0, f_order = 0\<rparr>" if "i < 4" "i \<noteq> 0"
    unfolding fp s0_def using rs(6) [of i] that by (simp add: seed_block_def Let_def upd_links_def upd_frame_def)
qed

lemma four_pages_run: "page_base base \<Longrightarrow> pm_run base 16384 (four_pages base) {}"
  using four_pages_ok(1) by (rule pm_run.boot)

text \<open>The free lists after the allocation of one, two, three and four pages.\<close>

lemma one_block_fits:
  "first_fit MAX_ORDER 0 one_block = Some 2" "one_block 2 = [0]"
  "take_out 0 2 one_block = (\<lambda>_. [])(0 := [1], 1 := [2])"
  "first_fit MAX_ORDER 0 ((\<lambda>_. [])(0 := [1], 1 := [2])) = Some 0"
  "take_out 0 0 ((\<lambda>_. [])(0 := [1], 1 := [2])) = (\<lambda>_. [])(1 := [2])"
  "first_fit MAX_ORDER 0 ((\<lambda>_. [])(Suc 0 := [2])) = Some 1"
  "take_out 0 1 ((\<lambda>_. [])(Suc 0 := [2])) = (\<lambda>_. [])(0 := [3])"
  "first_fit MAX_ORDER 0 ((\<lambda>_. [])(0 := [3])) = Some 0"
  "take_out 0 0 ((\<lambda>_. [])(0 := [3])) = (\<lambda>_. [])"
  by (auto simp: first_fit_def one_block_def take_out_def upt_rec numeral_eq_Suc fun_eq_iff)

lemma page_base_index: "page_base base \<Longrightarrow> i < 4 \<Longrightarrow> index_to_phys base i \<noteq> 0"
  by (rule index_to_phys_range(2) [of base 4]) (auto simp: page_base_def region_def)

text \<open>One allocation of a single page, as a step of a run.\<close>

lemma alloc_one:
  assumes ok: "phys_ok s fl A" and fit: "first_fit MAX_ORDER 0 fl = Some k" and base: "s_mem_base s = base"
    and four: "s_frame_count s = 4" "page_base base" "hd (fl k) < 4" and run: "pm_run base 16384 s H"
  obtains s' where "phys_ok s' (take_out 0 k fl) (insert (hd (fl k), 0) A)"
    and "s_mem_base s' = base" and "s_frame_count s' = 4"
    and "phys_mem_alloc_pages 0 s = Some (index_to_phys base (hd (fl k)), s')"
    and "pm_run base 16384 s' (insert (index_to_phys base (hd (fl k)), 0) H)"
proof -
  obtain s' where s': "phys_mem_alloc_pages 0 s = Some (index_to_phys base (hd (fl k)), s')"
      "phys_ok s' (take_out 0 k fl) (insert (hd (fl k), 0) A)" "counted_alloc 0 s s'"
    using alloc_pages_some [OF ok, of 0 k] fit base by auto
  moreover have "pm_run base 16384 s' (insert (index_to_phys base (hd (fl k)), 0) H)"
    using pm_run.alloc [OF run s'(1)] page_base_index [OF four(2,3)] by blast
  ultimately show ?thesis using that base four(1) by (simp add: counted_alloc_def)
qed

lemma two_allocated:
  assumes base: "page_base base"
  obtains s where "phys_ok s ((\<lambda>_. [])(Suc 0 := [2])) {(0, 0), (1, 0)}" and "s_mem_base s = base" and "s_frame_count s = 4"
    and "pm_run base 16384 s {(index_to_phys base 0, 0), (index_to_phys base 1, 0)}"
proof -
  note f = four_pages_ok [OF base] and fits = one_block_fits
  obtain s1 where s1: "phys_ok s1 ((\<lambda>_. [])(0 := [1], Suc 0 := [2])) {(0, 0)}" "s_mem_base s1 = base" "s_frame_count s1 = 4"
      "pm_run base 16384 s1 {(index_to_phys base 0, 0)}"
    using alloc_one [OF f(2) fits(1) f(3,4) base _ four_pages_run [OF base]] fits(2,3) by (auto simp: numeral_eq_Suc)
  obtain s2 where "phys_ok s2 ((\<lambda>_. [])(Suc 0 := [2])) {(0, 0), (1, 0)}" "s_mem_base s2 = base" "s_frame_count s2 = 4"
      "pm_run base 16384 s2 {(index_to_phys base 0, 0), (index_to_phys base 1, 0)}"
    using alloc_one [OF s1(1) _ s1(2,3) base _ s1(4), of 0] fits(4,5) by (auto simp: insert_commute)
  then show ?thesis by (rule that)
qed

end
