(* ===== verification/Phys_Mem_Claims.thy ===== *)
theory Phys_Mem_Claims
  imports Phys_Mem_Scenario
begin

text \<open>
  Properties of the page frame allocator: the blocks that are handed out never overlap, an allocation takes the first
  block that fits, a release merges the block with its free buddies, and a release undoes an allocation.
\<close>

section \<open>Blocks never overlap\<close>

text \<open>
  (C34) Page frames are handed out once: when the memory starts at a multiple of 8 MB and ends inside the address space, then
  after any sequence of allocations and releases of held blocks the blocks that are held lie in the memory and no two
  of them overlap, and no allocation is undefined.
\<close>

theorem phys_mem_no_overlap:
  assumes run: "pm_run base sz s H" and al: "2 ^ 23 dvd unat base" and space: "unat base + unat sz \<le> 2 ^ 64"
  shows "(\<forall>h\<in>H. bytes_of h \<subseteq> {unat base ..< unat base + unat sz}) \<and>
         (\<forall>h\<in>H. \<forall>g\<in>H. h \<noteq> g \<longrightarrow> bytes_of h \<inter> bytes_of g = {}) \<and> phys_mem_alloc_pages order s \<noteq> None"
proof -
  obtain fl A where ok: "phys_ok s fl A" and H: "H = handle base ` A" and base: "s_mem_base s = base"
      and T: "unat (s_frame_count s) * 4096 \<le> unat sz"
    using pm_run_ok [OF assms] by blast
  note bh = bytes_of_handle [OF ok, unfolded base]
  have "bytes_of h \<subseteq> {unat base ..< unat base + unat sz}" if hH: "h \<in> H" for h
  proof -
    obtain i k where h: "h = handle base (i, k)" "(i, k) \<in> A" using hH H by auto
    then have "4096 * (i + 2 ^ k) \<le> 4096 * unat (s_frame_count s)"
      by (intro mult_le_mono2 phys_ok_block(2) [OF ok])
    then have "4096 * (i + 2 ^ k) \<le> unat sz" using T by simp
    then show ?thesis using bh [OF h(2)] h(1) by auto
  qed
  moreover have "bytes_of h \<inter> bytes_of g = {}" if hgH: "h \<in> H" "g \<in> H" "h \<noteq> g" for h g
  proof -
    obtain i k j p where hg: "h = handle base (i, k)" "(i, k) \<in> A" "g = handle base (j, p)" "(j, p) \<in> A"
      using hgH(1,2) H by fast
    then have "(i, k) \<noteq> (j, p)" using hgH(3) by auto
    then have "pages_of (i, k) \<inter> pages_of (j, p) = {}"
      using hg tilingD(4) [OF blocks_okD(1), of MAX_ORDER _ fl A "(i, k)" "(j, p)"] ok by (auto simp: phys_ok_def)
    then have "j \<notin> pages_of (i, k)" "i \<notin> pages_of (j, p)"
      using head_in_pages(1) [of "(i, k)"] head_in_pages(1) [of "(j, p)"] by (auto simp del: head_in_pages)
    then have "i + 2 ^ k \<le> j \<or> j + 2 ^ p \<le> i" by (auto simp: pages_of_def)
    then have "4096 * (i + 2 ^ k) \<le> 4096 * j \<or> 4096 * (j + 2 ^ p) \<le> 4096 * i"
      by (meson mult_le_mono2)
    then show ?thesis unfolding hg bh [OF hg(2)] bh [OF hg(4)] by auto
  qed
  moreover have "phys_mem_alloc_pages order s \<noteq> None"
    using alloc_pages_none [OF ok, of order] alloc_pages_some [OF ok, of order]
    by (cases "first_fit MAX_ORDER (unat order) fl") auto
  ultimately show ?thesis by blast
qed

theorem phys_mem_no_overlap_witness:
  "\<exists>s H. pm_run 0x40000000 16384 s H \<and> card H = 2 \<and>
     (\<forall>h\<in>H. \<forall>g\<in>H. h \<noteq> g \<longrightarrow> bytes_of h \<inter> bytes_of g = {}) \<and> phys_mem_alloc_pages 1 s \<noteq> None"
proof -
  note base = page_base_qemu
  obtain s where run: "pm_run 0x40000000 16384 s {(index_to_phys 0x40000000 0, 0), (index_to_phys 0x40000000 1, 0)}"
    using two_allocated [OF base] by blast
  have "(index_to_phys 0x40000000 0, 0 :: u32) \<noteq> (index_to_phys 0x40000000 1, 0)" by (simp add: index_to_phys_def)
  then show ?thesis
    using phys_mem_no_overlap [OF run, of 1] run by (intro exI conjI) (assumption, simp_all)
qed

section \<open>Allocation and release\<close>

text \<open>
  (C35) An allocation implements the buddy algorithm on free lists: without a free block of the order or above it returns 0 and
  changes nothing; otherwise it cuts the block it returns from the first block of the smallest order that fits,
  leaving one half of every order in between on the free lists.
\<close>

theorem phys_mem_alloc_refines:
  assumes "phys_ok s fl A"
  shows "case first_fit MAX_ORDER (unat order) fl of
           None \<Rightarrow> phys_mem_alloc_pages order s = Some (0, s)
         | Some k \<Rightarrow> \<exists>s'. phys_mem_alloc_pages order s = Some (index_to_phys (s_mem_base s) (hd (fl k)), s') \<and>
             phys_ok s' (take_out (unat order) k fl) (insert (hd (fl k), unat order) A) \<and> counted_alloc (unat order) s s'"
proof (cases "first_fit MAX_ORDER (unat order) fl")
  case None
  then show ?thesis using alloc_pages_none [OF assms] by simp
next
  case (Some k)
  then show ?thesis using alloc_pages_some [OF assms Some] by auto
qed

theorem phys_mem_alloc_refines_witness:
  "\<exists>s'. phys_ok (four_pages 0x40000000) one_block {} \<and>
     phys_mem_alloc_pages 0 (four_pages 0x40000000) = Some (0x40000000, s') \<and>
     phys_ok s' (take_out 0 2 one_block) {(0, 0)}"
proof -
  note base = page_base_qemu
  show ?thesis
    using phys_mem_alloc_refines [OF four_pages_ok(2) [OF base], of 0] four_pages_ok(2,3) [OF base] one_block_fits(1,2)
    by (auto simp: index_to_phys_def)
qed

text \<open>
  (C36) The release of a held block computes on frames, links and counters what \<open>put_back\<close> computes on free lists: the block
  is joined with its buddy for as long as the buddy is free and becomes the first of the list of the order reached.
\<close>

theorem phys_mem_free_coalesces:
  assumes "phys_ok s fl (insert (i, k) A)" and "(i, k) \<notin> A" and "2 ^ 23 dvd unat (s_mem_base s)"
  shows "phys_ok (phys_mem_free_pages (index_to_phys (s_mem_base s) i) (of_nat k) s) (put_back MAX_ORDER i k fl) A"
  by (rule free_pages_rep(1) [OF assms])

theorem phys_mem_free_coalesces_witness:
  "\<exists>s. phys_ok s ((\<lambda>_. [])(Suc 0 := [2])) {(0, 0), (1, 0)} \<and>
     phys_ok (phys_mem_free_pages 0x40001000 0 s) (put_back MAX_ORDER 1 0 ((\<lambda>_. [])(Suc 0 := [2]))) {(0, 0)}"
proof -
  note base = page_base_qemu
  obtain s where s: "phys_ok s ((\<lambda>_. [])(Suc 0 := [2])) {(0, 0), (1, 0)}" "s_mem_base s = 0x40000000"
    using two_allocated [OF base] by blast
  then have "phys_ok s ((\<lambda>_. [])(Suc 0 := [2])) (insert (1, 0) {(0, 0)})" by (simp add: insert_commute)
  from phys_mem_free_coalesces [OF this] s show ?thesis by (auto simp: index_to_phys_def)
qed

text \<open>
  (C37) Releasing a block right after its allocation restores every free list, in content and order.  The count of free
  pages is not restored: the release adds the pages of the merged block, of order \<open>k\<close>, where the allocation subtracted those of
  the block it handed out.
\<close>

theorem phys_mem_alloc_free:
  assumes ok: "phys_ok s fl A" and al: "2 ^ 23 dvd unat (s_mem_base s)"
    and alloc: "phys_mem_alloc_pages order s = Some (a, s1)" and a: "a \<noteq> 0"
  shows "phys_ok (phys_mem_free_pages a order s1) fl A \<and>
         (\<exists>k. first_fit MAX_ORDER (unat order) fl = Some k \<and>
            st_free_pages (pm_stats (phys_mem_free_pages a order s1)) =
              st_free_pages (pm_stats s) - push_bit (unat order) 1 + push_bit k 1)"
proof -
  let ?j = "unat order"
  obtain k where fit: "first_fit MAX_ORDER ?j fl = Some k"
    using alloc_pages_none [OF ok, of order] alloc a by (cases "first_fit MAX_ORDER ?j fl") auto
  note f = first_fit_SomeD [OF fit]
  let ?i = "hd (fl k)"
  have s1: "a = index_to_phys (s_mem_base s1) ?i" "phys_ok s1 (take_out ?j k fl) (insert (?i, ?j) A)" "(?i, ?j) \<notin> A"
      "counted_alloc ?j s s1"
    using alloc_pages_some [OF ok fit] alloc by (auto simp: counted_alloc_def)
  have al1: "2 ^ 23 dvd unat (s_mem_base s1)" using al s1(4) by (simp add: counted_alloc_def)
  have pb: "put_back MAX_ORDER ?i ?j (take_out ?j k fl) = fl" and co: "fst (snd (coalesce MAX_ORDER ?i ?j (take_out ?j k fl))) = k"
    using put_back_take_out [where fl = fl and k = k and j = ?j and M = MAX_ORDER and A = A] f ok by (auto simp: phys_ok_def)
  have fr: "phys_mem_free_pages a order s1 = phys_mem_free_pages (index_to_phys (s_mem_base s1) ?i) (of_nat ?j) s1"
    using s1(1) by simp
  note r = free_pages_rep [OF s1(2,3) al1, folded fr]
  show ?thesis using r fit s1(4) pb co by (simp add: counted_free_def counted_alloc_def)
qed

theorem phys_mem_alloc_free_witness:
  "\<exists>s1. phys_mem_alloc_pages 0 (four_pages 0x40000000) = Some (0x40000000, s1) \<and>
     phys_ok (phys_mem_free_pages 0x40000000 0 s1) one_block {} \<and>
     st_free_pages (pm_stats (phys_mem_free_pages 0x40000000 0 s1)) = 7 \<and> st_total_pages (pm_stats (four_pages 0x40000000)) = 4"
proof -
  note base = page_base_qemu
  note f = four_pages_ok [OF base]
  obtain s1 where s1: "phys_mem_alloc_pages 0 (four_pages 0x40000000) = Some (0x40000000, s1)"
    using alloc_pages_some [OF f(2), of 0 2] one_block_fits(1,2) f(3) by (auto simp: index_to_phys_def)
  have "2 ^ 23 dvd unat (s_mem_base (four_pages 0x40000000))" by (simp add: f(3))
  from phys_mem_alloc_free [OF f(2) this s1] one_block_fits(1) f(5) s1 show ?thesis by (auto simp: zero_stats_def)
qed

end
