(* ===== verification/Phys_Mem_Limits.thy ===== *)
theory Phys_Mem_Limits
  imports Phys_Mem_Scenario
begin

text \<open>
  Where the page frame allocator leaves its contract: a memory whose base is not aligned to its blocks, a block that is
  released twice, and a page that is reserved inside a free block.
\<close>

lemma find_order_here:
  "k \<le> MAX_ORDER \<Longrightarrow> \<not> list_empty (Some (Free_List k)) h \<Longrightarrow> find_order h k = Some k"
  by (subst find_order.simps) simp

lemma split_block_here [simp]: "split_block k i k s = Some s"
  by (cases k) simp_all

text \<open>An allocation takes the first block of its own order whenever there is one.\<close>

lemma alloc_head:
  assumes r: "rings (s_links s) heads N (ring_of fl)" and k: "k \<le> MAX_ORDER" and fl: "fl k = i # xs"
  shows "\<exists>s'. phys_mem_alloc_pages (of_nat k) s = Some (phys_addr (s_page_frames s i), s')"
proof -
  have ku: "unat (of_nat k :: u32) = k" using k by (intro unat_of_nat_u32) simp
  have ko: "\<not> (of_nat k :: u32) > of_nat MAX_ORDER" using k by (simp add: word_less_nat_alt ku)
  have "find_order (s_links s) k = Some k"
    using rings_empty [OF r, of "Free_List k"] k fl by (intro find_order_here) simp_all
  moreover have "lh_next (s_links s (Free_List k)) = Some (Frame_Node i)"
    using rings_first [OF r, of "Free_List k"] k fl by simp
  ultimately show ?thesis
    using ko by (simp add: phys_mem_alloc_pages_def ku Let_def sub_free_pages_def)
qed

section \<open>A base that is not aligned\<close>

lemma bit_unat: "bit (a :: u64) n \<longleftrightarrow> odd (unat a div 2 ^ n)"
proof -
  have "bit a n = bit (unat a) n" by (simp add: bit_unsigned_iff)
  then show ?thesis by (simp only: bit_iff_odd [of "unat a"])
qed

lemma odd_base_buddies:
  assumes base: "page_base base" and odd: "unat base mod 16384 = 4096"
  shows "buddy_address (index_to_phys base 1) 0 = index_to_phys base 2"
    and "buddy_address (index_to_phys base 2) 0 = index_to_phys base 1"
    and "buddy_address (index_to_phys base 2) 1 = index_to_phys base 0"
proof -
  obtain q where q: "unat base = 16384 * q + 4096" using odd by (metis mult_div_mod_eq)
  have reg: "region base 4" using base by (auto simp: page_base_def region_def)
  have bit: "bit (index_to_phys base i) n \<longleftrightarrow> odd ((16384 * q + 4096 + i * 4096) div 2 ^ n)" if "i < 4" for i n
    using unat_index_to_phys [OF reg that] q by (simp only: bit_unat)
  have "(12288 + 16384 * q) div 8192 = 2 * q + 1" by presburger
  then show "buddy_address (index_to_phys base 1) 0 = index_to_phys base 2"
    and "buddy_address (index_to_phys base 2) 0 = index_to_phys base 1"
    and "buddy_address (index_to_phys base 2) 1 = index_to_phys base 0"
    using bit [of 1 12] bit [of 2 12] bit [of 2 13] by (simp_all add: buddy_address_bit index_to_phys_def)
qed

lemma all_allocated:
  assumes base: "page_base base"
  obtains s where "phys_ok s (\<lambda>_. []) {(0, 0), (1, 0), (2, 0), (3, 0)}" and "s_mem_base s = base" and "s_frame_count s = 4"
    and "pm_run base 16384 s ((\<lambda>i. (index_to_phys base i, 0)) ` {0, 1, 2, 3})"
proof -
  obtain s2 where s2: "phys_ok s2 ((\<lambda>_. [])(Suc 0 := [2])) {(0, 0), (1, 0)}" "s_mem_base s2 = base" "s_frame_count s2 = 4"
      "pm_run base 16384 s2 {(index_to_phys base 0, 0), (index_to_phys base 1, 0)}"
    using two_allocated [OF base] .
  obtain s3 where s3: "phys_ok s3 ((\<lambda>_. [])(0 := [3])) {(2, 0), (0, 0), (1, 0)}" "s_mem_base s3 = base" "s_frame_count s3 = 4"
      "pm_run base 16384 s3 {(index_to_phys base 2, 0), (index_to_phys base 0, 0), (index_to_phys base 1, 0)}"
    using alloc_one [OF s2(1) _ s2(2,3) base _ s2(4), of 1] one_block_fits(6,7) by auto
  obtain s4 where "phys_ok s4 (\<lambda>_. []) {(3, 0), (2, 0), (0, 0), (1, 0)}" "s_mem_base s4 = base" "s_frame_count s4 = 4"
      "pm_run base 16384 s4 {(index_to_phys base 3, 0), (index_to_phys base 2, 0), (index_to_phys base 0, 0), (index_to_phys base 1, 0)}"
    using alloc_one [OF s3(1) _ s3(2,3) base _ s3(4), of 0] one_block_fits(8,9) by auto
  then show ?thesis using that [of s4] by (simp add: insert_commute)
qed

text \<open>The state in which the merge loop starts.\<close>

lemma release_starts:
  assumes rep: "pm_rep s fl (insert (i, k) A)" and i: "i < unat (s_frame_count s)" "k \<le> MAX_ORDER"
    and new: "\<And>m. m \<le> MAX_ORDER \<Longrightarrow> i \<notin> set (fl m)" "\<And>m. (i, m) \<notin> A"
  obtains s1 where "phys_mem_free_pages (index_to_phys (s_mem_base s) i) (of_nat k) s = free_block i k s1"
    and "pm_rep s1 fl A" and "f_order (s_page_frames s1 i) = of_nat k" and "fixed_part s1 = fixed_part s"
    and "phys_addr (s_page_frames s1 i) = index_to_phys (s_mem_base s) i"
proof -
  let ?s1 = "upd_frame i (\<lambda>f. f\<lparr>f_ref_count := f_ref_count f - 1\<rparr>) s"
  have hd: "f_state (s_page_frames s i) = PAGE_ALLOCATED" "f_order (s_page_frames s i) = of_nat k"
      "f_ref_count (s_page_frames s i) = 1"
    using pm_repD(6) [OF rep, of i k] by simp_all
  have "pm_rep ?s1 fl A" using new by (intro pm_rep_frame [OF pm_rep_subset [OF rep]]) auto
  then show ?thesis
    using that [of ?s1] free_pages_block [OF rep i hd(1)] hd pm_repD(3) [OF rep i(1)] by simp
qed

text \<open>The first release stops at once; the second one takes the right neighbour of its block for its own half.\<close>

lemma release_second_page:
  assumes base: "page_base base" "unat base mod 16384 = 4096" "s_mem_base s = base" "s_frame_count s = 4"
    and rep: "pm_rep s (\<lambda>_. []) {(0, 0), (1, 0), (2, 0), (3, 0)}"
  shows "pm_rep (phys_mem_free_pages (index_to_phys base 1) 0 s) ((\<lambda>_. [])(0 := [1])) {(0, 0), (2, 0), (3, 0)}"
    and "s_mem_base (phys_mem_free_pages (index_to_phys base 1) 0 s) = base"
    and "s_frame_count (phys_mem_free_pages (index_to_phys base 1) 0 s) = 4"
proof -
  let ?A = "{(0, 0), (2, 0), (3, 0)} :: block set"
  have r: "pm_rep s (\<lambda>_. []) (insert (1, 0) ?A)" using rep by (simp add: insert_commute)
  obtain s1 where s1: "phys_mem_free_pages (index_to_phys base 1) 0 s = free_block 1 0 s1" "pm_rep s1 (\<lambda>_. []) ?A"
      "f_order (s_page_frames s1 1) = of_nat 0" "fixed_part s1 = fixed_part s" "phys_addr (s_page_frames s1 1) = index_to_phys base 1"
    using release_starts [OF r] base(3,4) by auto
  note f1 = fixed_partD [OF s1(4)]
  have "f_state (s_page_frames s1 2) = PAGE_ALLOCATED" using pm_repD(6) [OF s1(2), of 2 0] by simp
  then have m: "merge_buddies 1 0 s1 = (1, 0, s1)"
    using merge_at [OF s1(2), of 0 2 1] odd_base_buddies(1) [OF base(1,2)] s1(5) f1(1,2) base(3,4) by simp
  note fb = pm_rep_free_block [OF m s1(2) refl _ _ _ _ s1(3)]
  show "pm_rep (phys_mem_free_pages (index_to_phys base 1) 0 s) ((\<lambda>_. [])(0 := [1])) ?A"
    unfolding s1(1) using fb(1) f1(1) base(4) by simp
  have "counted_free 0 s1 (free_block 1 0 s1)" using fb(2) f1(1) base(4) by simp
  then show "s_mem_base (phys_mem_free_pages (index_to_phys base 1) 0 s) = base"
      "s_frame_count (phys_mem_free_pages (index_to_phys base 1) 0 s) = 4"
    unfolding s1(1) using f1(1,2) base(3,4) by (simp_all add: counted_free_def)
qed

lemma release_third_page:
  assumes base: "page_base base" "unat base mod 16384 = 4096" "s_mem_base s = base" "s_frame_count s = 4"
    and rep: "pm_rep s ((\<lambda>_. [])(0 := [1])) {(0, 0), (2, 0), (3, 0)}"
  shows "pm_rep (phys_mem_free_pages (index_to_phys base 2) 0 s) ((\<lambda>_. [])(Suc 0 := [2])) {(0, 0), (3, 0)}"
    and "s_mem_base (phys_mem_free_pages (index_to_phys base 2) 0 s) = base"
    and "s_frame_count (phys_mem_free_pages (index_to_phys base 2) 0 s) = 4"
proof -
  let ?A = "{(0, 0), (3, 0)} :: block set" and ?fl = "(\<lambda>_. [])(0 := [1 :: nat]) :: free_lists"
  have r: "pm_rep s ?fl (insert (2, 0) ?A)" using rep by (simp add: insert_commute)
  obtain s1 where s1: "phys_mem_free_pages (index_to_phys base 2) 0 s = free_block 2 0 s1" "pm_rep s1 ?fl ?A"
      "fixed_part s1 = fixed_part s" "phys_addr (s_page_frames s1 2) = index_to_phys base 2"
    using release_starts [OF r] base(3,4) by auto
  note f1 = fixed_partD [OF s1(3)]
  have "is_buddy_aligned base (index_to_phys base 2) 1" using is_buddy_aligned_index [of 2 1 base] by simp
  then have mh: "merged_head 2 1 0 s1 = 2" using s1(4) f1(2) base(3) by (simp add: merged_head_def)
  let ?s2 = "upd_frame 2 (\<lambda>f. f\<lparr>f_order := 1\<rparr>) (take_free 1 0 s1)"
  have "pm_rep (take_free 1 0 s1) (?fl(0 := remove1 1 (?fl 0))) ?A" by (rule pm_rep_take [OF s1(2)]) simp_all
  then have r2: "pm_rep ?s2 (\<lambda>_. []) ?A" by (intro pm_rep_frame) (simp_all add: fun_upd_idem)
  have "f_state (s_page_frames s1 1) = PAGE_FREE \<and> f_order (s_page_frames s1 1) = of_nat 0"
    using pm_repD(5) [OF s1(2), of 0 1] by simp
  then have "merge_buddies 2 0 s1 = merge_buddies 2 (Suc 0) ?s2"
    using merge_at [OF s1(2), of 0 1 2] odd_base_buddies(2) [OF base(1,2)] s1(4) f1(1,2) base(3,4) mh by simp
  also have "\<dots> = (2, 1, ?s2)"
  proof -
    have "f_state (s_page_frames ?s2 0) = PAGE_ALLOCATED" using pm_repD(6) [OF r2, of 0 0] by simp
    moreover have "buddy_address (phys_addr (s_page_frames ?s2 2)) 1 = index_to_phys (s_mem_base ?s2) 0"
      using odd_base_buddies(3) [OF base(1,2)] s1(4) f1(2) base(3) by simp
    ultimately show ?thesis using merge_at [OF r2, of 1 0 2] f1(1) base(4) by simp
  qed
  finally have m: "merge_buddies 2 0 s1 = (2, 1, ?s2)" .
  have o: "f_order (s_page_frames ?s2 2) = of_nat 1" and fp: "fixed_part ?s2 = fixed_part s1" by simp_all
  note fb = pm_rep_free_block [OF m r2 fp _ _ _ _ o]
  show "pm_rep (phys_mem_free_pages (index_to_phys base 2) 0 s) ((\<lambda>_. [])(Suc 0 := [2])) ?A"
    unfolding s1(1) using fb(1) f1(1) base(4) by simp
  have "counted_free 1 s1 (free_block 2 0 s1)" using fb(2) f1(1) base(4) by simp
  then show "s_mem_base (phys_mem_free_pages (index_to_phys base 2) 0 s) = base"
      "s_frame_count (phys_mem_free_pages (index_to_phys base 2) 0 s) = 4"
    unfolding s1(1) using f1(1,2) base(3,4) by (simp_all add: counted_free_def)
qed

text \<open>
  (C38) The alignment of the base is needed: a memory of four pages that starts at an odd page (page number 1 modulo 4)
  reaches a state in which two held blocks overlap, by allocations and releases of held blocks only.  The buddy of a
  block is found by its address, its place in the pair by its distance from the base.
\<close>

theorem phys_mem_unaligned_overlap:
  assumes base: "page_base base" and odd: "unat base mod 16384 = 4096"
  shows "\<exists>s H. pm_run base 16384 s H \<and> (\<exists>h\<in>H. \<exists>g\<in>H. h \<noteq> g \<and> bytes_of h \<inter> bytes_of g \<noteq> {})"
proof -
  let ?a = "\<lambda>i. index_to_phys base i"
  obtain s4 where s4: "phys_ok s4 (\<lambda>_. []) {(0, 0), (1, 0), (2, 0), (3, 0)}" "s_mem_base s4 = base" "s_frame_count s4 = 4"
      and run4: "pm_run base 16384 s4 ((\<lambda>i. (?a i, 0)) ` {0, 1, 2, 3})"
    using all_allocated [OF base] .
  have rep4: "pm_rep s4 (\<lambda>_. []) {(0, 0), (1, 0), (2, 0), (3, 0)}" using s4(1) by (simp add: phys_ok_def)
  define s5 where "s5 = phys_mem_free_pages (?a 1) 0 s4"
  note r5 = release_second_page [OF base odd s4(2,3) rep4, folded s5_def]
  define s6 where "s6 = phys_mem_free_pages (?a 2) 0 s5"
  note r6 = release_third_page [OF base odd r5(2,3,1), folded s6_def]
  obtain s7 where "phys_mem_alloc_pages (of_nat 1) s6 = Some (phys_addr (s_page_frames s6 2), s7)"
    using alloc_head [OF pm_repD(2) [OF r6(1)], of 1 2 "[]"] by auto
  then have a7: "phys_mem_alloc_pages 1 s6 = Some (?a 2, s7)" using pm_repD(3) [OF r6(1), of 2] r6(2,3) by simp
  have reg: "region base 4" using base by (auto simp: page_base_def region_def)
  have u: "unat (?a i) = unat base + i * 4096" if "i < 4" for i by (rule unat_index_to_phys [OF reg that])
  have ne: "?a i \<noteq> ?a j" if "i < 4" "j < 4" "i \<noteq> j" for i j using u [OF that(1)] u [OF that(2)] that(3) by auto
  let ?H5 = "(\<lambda>i. (?a i, 0 :: u32)) ` {0, 1, 2, 3} - {(?a 1, 0)}" and ?H6 = "(\<lambda>i. (?a i, 0 :: u32)) ` {0, 1, 2, 3} - {(?a 1, 0)} - {(?a 2, 0)}"
  have run5: "pm_run base 16384 s5 ?H5" unfolding s5_def by (rule pm_run.free [OF run4]) simp
  have run6: "pm_run base 16384 s6 ?H6" unfolding s6_def by (rule pm_run.free [OF run5]) (use ne [of 2 1] in simp)
  have run7: "pm_run base 16384 s7 (insert (?a 2, 1) ?H6)"
    using pm_run.alloc [OF run6 a7] page_base_index [OF base, of 2] by simp
  have "(?a 3, 0) \<in> ?H6" using ne [of 3 1] ne [of 3 2] by simp
  moreover have "unat (?a 3) \<in> bytes_of (?a 2, 1) \<inter> bytes_of (?a 3, 0)" using u [of 2] u [of 3] by (simp add: bytes_of_def)
  ultimately show ?thesis using run7 by (intro exI conjI bexI [of _ "(?a 2, 1)"] bexI [of _ "(?a 3, 0)"]) auto
qed

theorem phys_mem_unaligned_overlap_witness:
  "\<exists>s H. pm_run 0x40001000 16384 s H \<and> (\<exists>h\<in>H. \<exists>g\<in>H. h \<noteq> g \<and> bytes_of h \<inter> bytes_of g \<noteq> {})"
proof (rule phys_mem_unaligned_overlap)
  show "page_base 0x40001000" by (simp add: page_base_def)
qed simp

section \<open>Releasing twice\<close>

text \<open>The frame of a block that was merged with the block on its left still looks like an allocated one.\<close>

lemma released_frame:
  assumes ok: "phys_ok s fl (insert (i, k) A)" and n: "(i, k) \<notin> A" and al: "2 ^ 23 dvd unat (s_mem_base s)"
    and k: "k < MAX_ORDER" and b: "buddy i k \<in> set (fl k)" "buddy i k < i"
  defines "s1 \<equiv> phys_mem_free_pages (index_to_phys (s_mem_base s) i) (of_nat k) s"
  shows "f_state (s_page_frames s1 i) = PAGE_ALLOCATED" and "f_ref_count (s_page_frames s1 i) = 0"
    and "f_order (s_page_frames s1 i) = of_nat k" and "f_order (s_page_frames s1 (buddy i k)) \<noteq> of_nat k"
proof -
  let ?b = "buddy i k"
  have rep: "pm_rep s fl (insert (i, k) A)" and bok: "blocks_ok MAX_ORDER (unat (s_frame_count s)) fl (insert (i, k) A)"
    using ok by (auto simp: phys_ok_def)
  note held = blocks_ok_held [OF bok n]
  have hd: "f_state (s_page_frames s i) = PAGE_ALLOCATED" "f_order (s_page_frames s i) = of_nat k" "f_ref_count (s_page_frames s i) = 1"
    using pm_repD(6) [OF rep, of i k] by simp_all
  define s0 where "s0 = upd_frame i (\<lambda>f. f\<lparr>f_ref_count := f_ref_count f - 1\<rparr>) s"
  have s1: "s1 = free_block i k s0"
    unfolding s1_def s0_def using free_pages_block [OF rep held(1,2) hd(1)] hd(3) by simp
  have r0: "pm_rep s0 fl A"
    unfolding s0_def using held(4,5) by (intro pm_rep_frame [OF pm_rep_subset [OF rep]]) auto
  have ok0: "blocks_ok MAX_ORDER (unat (s_frame_count s0)) fl (insert (i, k) A)" and al0: "2 ^ 23 dvd unat (s_mem_base s0)"
    using bok al by (simp_all add: s0_def)
  have mn: "min i ?b = ?b" using b(2) by simp
  note join = blocks_ok_join [OF ok0 n k b(1), unfolded mn]
  let ?fl = "fl(k := remove1 ?b (fl k))"
  define s2 where "s2 = upd_frame ?b (\<lambda>f. f\<lparr>f_order := of_nat (Suc k)\<rparr>) (take_free ?b k s0)"
  have r2: "pm_rep s2 ?fl A"
    unfolding s2_def using blocks_ok_held(4,5) [OF join] k by (intro pm_rep_frame pm_rep_take [OF r0 _ b(1)]) auto
  obtain i' k' s3 where m: "merge_buddies ?b (Suc k) s2 = (i', k', s3)" using prod_cases3 by blast
  have "case merge_buddies ?b (Suc k) s2 of (i', k', s') \<Rightarrow> i' \<le> ?b \<and> (\<forall>x>?b. s_page_frames s' x = s_page_frames s2 x) \<and>
      (\<exists>n. Suc k \<le> n \<and> n \<le> MAX_ORDER \<and> f_order (s_page_frames s' ?b) = of_nat n)"
    using join al0 by (intro merge_buddies_frames [OF r2]) (simp_all add: s2_def)
  then have fr: "i' \<le> ?b" "s_page_frames s3 i = s_page_frames s2 i"
      "\<exists>n. Suc k \<le> n \<and> n \<le> MAX_ORDER \<and> f_order (s_page_frames s3 ?b) = of_nat n"
    using m b(2) by auto
  have "merge_buddies i k s0 = (i', k', s3)"
    using merge_step [OF r0 ok0 n k al0] b(1) m mn by (simp add: s2_def)
  then have f1: "s_page_frames s1 = (s_page_frames s3)(i' := (s_page_frames s3 i')\<lparr>f_state := PAGE_FREE, f_ref_count := 0\<rparr>)"
    by (simp add: s1 free_block_def Let_def add_free_pages_def)
  have "s_page_frames s1 i = (s_page_frames s i)\<lparr>f_ref_count := 0\<rparr>"
    using f1 fr(1,2) b(2) hd(3) by (simp add: s2_def s0_def)
  then show "f_state (s_page_frames s1 i) = PAGE_ALLOCATED" "f_ref_count (s_page_frames s1 i) = 0"
      "f_order (s_page_frames s1 i) = of_nat k"
    using hd by simp_all
  obtain n where n: "Suc k \<le> n" "n \<le> MAX_ORDER" "f_order (s_page_frames s3 ?b) = of_nat n" using fr(3) by blast
  have "(of_nat n :: u8) \<noteq> of_nat k" using n(1,2) by (auto simp: word_unat_eq_iff unat_of_nat take_bit_eq_mod)
  then show "f_order (s_page_frames s1 ?b) \<noteq> of_nat k" using n(3) f1 by auto
qed

text \<open>
  (C39) A second release of a block is accepted when the first one merged it with a free block on its left: its frame still has
  the state of an allocated one, and the block is put on a free list although a free block already contains it.
\<close>

theorem phys_mem_double_free:
  assumes ok: "phys_ok s fl (insert (i, k) A)" and n: "(i, k) \<notin> A" and al: "2 ^ 23 dvd unat (s_mem_base s)"
    and k: "k < MAX_ORDER" and b: "buddy i k \<in> set (fl k)" "buddy i k < i"
    and s1: "s1 = phys_mem_free_pages (index_to_phys (s_mem_base s) i) (of_nat k) s"
  shows "\<exists>fl' i' k'. phys_ok s1 fl' A \<and> k' \<le> MAX_ORDER \<and> i' \<in> set (fl' k') \<and> pages_of (i, k) \<subseteq> pages_of (i', k') \<and>
           pm_rep (phys_mem_free_pages (index_to_phys (s_mem_base s) i) (of_nat k) s1) (fl'(k := i # fl' k)) A"
proof -
  let ?b = "buddy i k" and ?fl = "put_back MAX_ORDER i k fl"
  have bok: "blocks_ok MAX_ORDER (unat (s_frame_count s)) fl (insert (i, k) A)" using ok by (simp add: phys_ok_def)
  note held = blocks_ok_held [OF bok n] and fr = released_frame [OF ok n al k b, folded s1]
  note free = free_pages_rep [OF ok n al, folded s1]
  have rep1: "pm_rep s1 ?fl A" and ok1: "blocks_ok MAX_ORDER (unat (s_frame_count s)) ?fl A"
    and eq: "s_frame_count s1 = s_frame_count s" "s_mem_base s1 = s_mem_base s"
    using free by (simp_all add: phys_ok_def counted_free_def)
  obtain i' k' fl' where c: "coalesce MAX_ORDER i k fl = (i', k', fl')" using prod_cases3 by blast
  have pages: "pages_of (i, k) \<subseteq> pages_of (i', k')" using coalesce_pages [OF held(3), of MAX_ORDER fl] c by simp
  have k': "k' \<le> MAX_ORDER" using blocks_ok_coalesce [OF bok n] c blocks_ok_held(2) by fastforce
  have i': "i' \<in> set (?fl k')" by (simp add: put_back_def c)
  have in1: "(i', k') \<in> free_blocks MAX_ORDER ?fl" using i' k' by (simp add: free_blocks_def)
  have f': "f_state (s_page_frames s1 i') = PAGE_FREE" using pm_repD(5) [OF rep1 k' i'] by simp
  have new: "(i, m) \<notin> free_blocks MAX_ORDER ?fl \<union> A" for m
  proof
    assume "(i, m) \<in> free_blocks MAX_ORDER ?fl \<union> A"
    moreover have "(i, m) \<noteq> (i', k')" using f' fr(1) by auto
    ultimately have "pages_of (i, m) \<inter> pages_of (i', k') = {}"
      using tilingD(4) [OF blocks_okD(1) [OF ok1], of "(i, m)" "(i', k')"] in1 by blast
    then show False using pages head_in_pages(1) [of "(i, k)"] head_in_pages(1) [of "(i, m)"] by (auto simp del: head_in_pages)
  qed
  have "?b < unat (s_frame_count s)" using blocks_ok_free(1) [OF bok, of k ?b] b(1) k by simp
  moreover have "2 ^ (k + 13) dvd unat (s_mem_base s)" using k by (intro dvd_trans [OF le_imp_power_dvd al]) simp
  then have "buddy_address (phys_addr (s_page_frames s1 i)) k = index_to_phys (s_mem_base s) ?b"
    using pm_repD(3) [OF rep1, of i] held(1) eq buddy_address_index [OF pm_repD(1) [OF rep1], of i k] k held(3) by simp
  ultimately have m: "merge_buddies i k s1 = (i, k, s1)" using merge_at [OF rep1 k, of ?b i] eq fr(4) by simp
  have "phys_mem_free_pages (index_to_phys (s_mem_base s) i) (of_nat k) s1 = free_block i k s1"
    using free_pages_block [OF rep1, of i k] held(1,2) eq fr(1,2) by simp
  moreover have "pm_rep (free_block i k s1) (?fl(k := i # ?fl k)) A"
    using held(1,2) eq(1) new fr(3) by (intro pm_rep_free_block(1) [OF m rep1 refl]) (auto simp: free_blocks_def)
  ultimately show ?thesis using free(1) k' i' pages by metis
qed

theorem phys_mem_double_free_witness:
  "\<exists>s s1 fl' i' k'. pm_run 0x40000000 16384 s {(0x40001000, 0)} \<and> s1 = phys_mem_free_pages 0x40001000 0 s \<and>
     i' \<in> set (fl' k') \<and> pages_of (1, 0) \<subseteq> pages_of (i', k') \<and>
     pm_rep (phys_mem_free_pages 0x40001000 0 s1) (fl'(0 := 1 # fl' 0)) {}"
proof -
  let ?fl = "(\<lambda>_. [])(Suc 0 := [2 :: nat])"
  obtain s where s: "phys_ok s ?fl {(0, 0), (1, 0)}" "s_mem_base s = 0x40000000"
      and run: "pm_run 0x40000000 16384 s {(index_to_phys 0x40000000 0, 0), (index_to_phys 0x40000000 1, 0)}"
    using two_allocated [OF page_base_qemu] by blast
  let ?s = "phys_mem_free_pages 0x40000000 0 s"
  have al: "2 ^ 23 dvd unat (s_mem_base s)" by (simp add: s(2))
  have "coalesce MAX_ORDER 0 0 ?fl = (0, 0, ?fl)" by (subst coalesce.simps) simp
  then have pb: "put_back MAX_ORDER 0 0 ?fl = ?fl(0 := [0])" by (simp add: put_back_def)
  have f: "phys_ok ?s (?fl(0 := [0])) (insert (1, 0) {})" "s_mem_base ?s = 0x40000000"
    using free_pages_rep [OF s(1) _ al] s(2) by (simp_all add: pb index_to_phys_def counted_free_def)
  have "pm_run 0x40000000 16384 ?s ({(index_to_phys 0x40000000 0, 0), (index_to_phys 0x40000000 1, 0)} - {(0x40000000, 0)})"
    by (rule pm_run.free [OF run]) (simp add: index_to_phys_def)
  then have run2: "pm_run 0x40000000 16384 ?s {(0x40001000, 0)}" by (simp add: index_to_phys_def)
  have b: "buddy (Suc 0) 0 = 0" by (simp add: buddy_def)
  have "2 ^ 23 dvd unat (s_mem_base ?s)" by (simp add: f(2))
  from phys_mem_double_free [OF f(1) _ this _ _ _ refl] run2 show ?thesis
    unfolding f(2) by (simp add: b index_to_phys_def) blast
qed

section \<open>Reserving inside a block\<close>

lemma unat_index_to_phys_top:
  assumes "unat base + T * 4096 < 2 ^ 64" and "T \<le> MAX_PHYS_PAGES" and "m \<le> T"
  shows "unat (index_to_phys base m) = unat base + m * 4096"
proof -
  have "unat base + m * 4096 < 2 ^ 64" using assms(1,3) by linarith
  then show ?thesis using assms(2,3) by (simp add: index_to_phys_def unat_word_ariths unat_of_nat take_bit_eq_mod)
qed

lemma reserve_one_page:
  assumes rep: "pm_rep s fl A" and base: "s_mem_base s mod CONFIG_PAGE_SIZE = 0"
    and space: "unat (s_mem_base s) + unat (s_frame_count s) * 4096 < 2 ^ 64" and n: "n < unat (s_frame_count s)"
  shows "phys_mem_reserve (index_to_phys (s_mem_base s) n) 4096 s = Some (KERNEL_OK, reserve_frame n s)"
proof -
  let ?base = "s_mem_base s" and ?T = "unat (s_frame_count s)" and ?a = "index_to_phys (s_mem_base s) n"
  have T: "?T \<le> 8192" by (rule pm_rep_count [OF rep])
  note u = unat_index_to_phys_top [OF space T]
  have pb: "unat ?base mod 4096 = 0" using base by (simp add: word_unat_eq_iff unat_mod_distrib)
  have idx: "unat (phys_to_index ?base (index_to_phys ?base m)) = m" if "m \<le> ?T" for m
    using phys_to_index_phys [of m ?base] unat_of_nat_u32 [of m] that T by simp
  have mod0: "index_to_phys ?base m mod CONFIG_PAGE_SIZE = 0" if "m \<le> ?T" for m
    using u [OF that] pb by (simp add: word_unat_eq_iff unat_mod_distrib)
  have s: "?a + 4096 = index_to_phys ?base (Suc n)" by (simp add: index_to_phys_def algebra_simps)
  have "push_bit 12 (drop_bit 12 (?a + 4096)) = ?a + 4096 - (?a + 4096) mod CONFIG_PAGE_SIZE"
    by (simp add: push_bit_eq_mult drop_bit_eq_div minus_mod_eq_div_mult)
  then have e: "push_bit 12 (drop_bit 12 (?a + 4096)) = index_to_phys ?base (Suc n)"
    using mod0 [of "Suc n"] n unfolding s by simp
  have top: "?base + ucast (s_frame_count s) * CONFIG_PAGE_SIZE = index_to_phys ?base ?T"
    by (simp add: index_to_phys_def)
  have "\<not> index_to_phys ?base ?T < index_to_phys ?base (Suc n)"
    using u [of "Suc n"] u [of ?T] n by (simp add: word_less_nat_alt)
  then show ?thesis
    using mod0 [of n] n T idx [of n] idx [of "Suc n"] index_to_phys_range(1) [OF pm_repD(1) [OF rep] n]
    by (simp add: phys_mem_reserve_def Let_def e top)
qed

lemma reserve_inside:
  assumes ok: "phys_ok s fl A" and k: "k \<le> MAX_ORDER" and i: "i \<in> set (fl k)" and n: "i < n" "n < i + 2 ^ k"
    and free: "f_state (s_page_frames s n) = PAGE_FREE"
  shows "s_links (reserve_frame n s) = s_links s" and "f_state (s_page_frames (reserve_frame n s) n) = PAGE_RESERVED"
    and "s_page_frames (reserve_frame n s) i = s_page_frames s i" and "n < unat (s_frame_count s)"
proof -
  have rep: "pm_rep s fl A" and bok: "blocks_ok MAX_ORDER (unat (s_frame_count s)) fl A" using ok by (auto simp: phys_ok_def)
  note t = blocks_okD(1) [OF bok]
  have ik: "(i, k) \<in> free_blocks MAX_ORDER fl \<union> A" using i k by (simp add: free_blocks_def)
  show nT: "n < unat (s_frame_count s)" using tilingD(3) [OF t ik] n by simp
  have nq: "\<not> queued heads (ring_of fl) (Frame_Node n)"
  proof
    assume "queued heads (ring_of fl) (Frame_Node n)"
    then obtain m where m: "m \<le> MAX_ORDER" "n \<in> set (fl m)" by (auto simp: queued_ring_of)
    then have "pages_of (n, m) \<inter> pages_of (i, k) = {}"
      using tilingD(4) [OF t _ ik, of "(n, m)"] n by (auto simp: free_blocks_def)
    then show False using n by (auto simp: pages_of_def)
  qed
  have "dll (s_links s) (Frame_Node n) []" using ringsD(5) [OF pm_repD(2) [OF rep] _ nq] nT by simp
  then have "INIT_LIST_HEAD (Some (Frame_Node n)) (list_del (Some (Frame_Node n)) (s_links s)) = s_links s"
    by (simp add: INIT_list_del list_del_init_alone)
  then show "s_links (reserve_frame n s) = s_links s" "f_state (s_page_frames (reserve_frame n s) n) = PAGE_RESERVED"
      "s_page_frames (reserve_frame n s) i = s_page_frames s i"
    using free n(1)
    by (auto simp: reserve_frame_def Let_def upd_links_def upd_frame_def count_reserved_def sub_free_pages_def)
qed

text \<open>
  (C40) A reserved page can be handed out: when a page inside a free block (not its first page) is reserved, the call succeeds
  and marks the page, but the block stays on its free list, and the next allocation of its order returns a block that
  contains the reserved page.
\<close>

theorem phys_mem_reserve_handed_out:
  assumes ok: "phys_ok s fl A" and base: "s_mem_base s mod CONFIG_PAGE_SIZE = 0"
    and space: "unat (s_mem_base s) + unat (s_frame_count s) * 4096 < 2 ^ 64"
    and k: "k \<le> MAX_ORDER" and fl: "fl k = i # xs" and n: "i < n" "n < i + 2 ^ k"
    and free: "f_state (s_page_frames s n) = PAGE_FREE" and a: "a = index_to_phys (s_mem_base s) n"
  shows "\<exists>s' s''. phys_mem_reserve a 4096 s = Some (KERNEL_OK, s') \<and> f_state (s_page_frames s' n) = PAGE_RESERVED \<and>
           phys_mem_alloc_pages (of_nat k) s' = Some (index_to_phys (s_mem_base s) i, s'') \<and>
           unat a \<in> bytes_of (index_to_phys (s_mem_base s) i, of_nat k)"
proof -
  have rep: "pm_rep s fl A" using ok by (auto simp: phys_ok_def)
  have i: "i \<in> set (fl k)" by (simp add: fl)
  note rf = reserve_inside [OF ok k i n free]
  have iT: "i < unat (s_frame_count s)" using rf(4) n(1) by simp
  have "phys_addr (s_page_frames (reserve_frame n s) i) = index_to_phys (s_mem_base s) i"
    using rf(3) pm_repD(3) [OF rep iT] by simp
  then have "\<exists>s''. phys_mem_alloc_pages (of_nat k) (reserve_frame n s) = Some (index_to_phys (s_mem_base s) i, s'')"
    using alloc_head [where s = "reserve_frame n s" and fl = fl and k = k and i = i] k fl pm_repD(2) [OF rep] rf(1) by metis
  moreover have "phys_mem_reserve a 4096 s = Some (KERNEL_OK, reserve_frame n s)"
    unfolding a by (rule reserve_one_page [OF rep base space rf(4)])
  moreover note u = unat_index_to_phys_top [OF space pm_rep_count [OF rep]]
  have "unat a \<in> bytes_of (index_to_phys (s_mem_base s) i, of_nat k)"
    using u [of n] u [of i] rf(4) iT n k unat_of_nat_u32 [of k] by (simp add: bytes_of_def a)
  ultimately show ?thesis using rf(2) by blast
qed

theorem phys_mem_reserve_handed_out_witness:
  "\<exists>s' s''. phys_mem_reserve 0x40001000 4096 (four_pages 0x40000000) = Some (KERNEL_OK, s') \<and>
     f_state (s_page_frames s' 1) = PAGE_RESERVED \<and> phys_mem_alloc_pages 2 s' = Some (0x40000000, s'')"
proof -
  note f = four_pages_ok [OF page_base_qemu]
  have "\<exists>s' s''. phys_mem_reserve 0x40001000 4096 (four_pages 0x40000000) = Some (KERNEL_OK, s') \<and>
      f_state (s_page_frames s' 1) = PAGE_RESERVED \<and>
      phys_mem_alloc_pages (of_nat 2) s' = Some (index_to_phys (s_mem_base (four_pages 0x40000000)) 0, s'') \<and>
      unat (0x40001000 :: u64) \<in> bytes_of (index_to_phys (s_mem_base (four_pages 0x40000000)) 0, of_nat 2)"
    by (rule phys_mem_reserve_handed_out [OF f(2), where xs = "[]"])
      (simp_all add: f one_block_def index_to_phys_def)
  then show ?thesis by (simp add: f index_to_phys_def) blast
qed

end
