(* ===== verification/Spec2Isabelle.thy ===== *)
theory Spec2Isabelle
  imports Cap_Audit Ring_Buffer Mutex_Claims Timer_Claims Notification_Claims Phys_Mem_Claims Phys_Mem_Limits
begin

text \<open>
  HEADER
\<close>

section \<open>The kernel as a whole\<close>




end
